(* ===== verification/Sc_Prelude.thy ===== *)
theory Sc_Prelude
  imports Main "HOL-Library.Sublist" "HOL-Library.Word"
begin

text \<open>
  Shared vocabulary of the development: the result type of fallible Go functions, the
  fixed-width integers the components use, and the parts of Go's \<open>strings\<close> and
  \<open>strconv\<close> packages the sources call.

  A Go string is a sequence of bytes; it is modelled by \<^typ>\<open>string\<close>, a list of
  \<^typ>\<open>char\<close>, where a \<^typ>\<open>char\<close> is one byte. A Go \<open>int64\<close> is an \<^typ>\<open>int\<close> kept
  in range by \<open>wrap_i64\<close>, a Go \<open>uint64\<close> an \<^typ>\<open>int\<close> kept in range by
  \<open>wrap_u64\<close>; bit sets are words.
\<close>

section \<open>Collections of facts\<close>

named_theorems go_simps \<open>equations of the Go string functions on concrete shapes\<close>
named_theorems inv_intros \<open>preservation lemmas of the component invariants\<close>

section \<open>Results\<close>

type_synonym ('e, 'a) result = "'e + 'a"

definition bind_r :: "('e, 'a) result \<Rightarrow> ('a \<Rightarrow> ('e, 'b) result) \<Rightarrow> ('e, 'b) result" where
  "bind_r r f = (case r of Inl e \<Rightarrow> Inl e | Inr a \<Rightarrow> f a)"

lemma bind_r_simps [simp]:
  "bind_r (Inl e) f = Inl e"
  "bind_r (Inr a) f = f a"
  by (simp_all add: bind_r_def)

lemma bind_r_eq_Inr: "bind_r r f = Inr b \<longleftrightarrow> (\<exists>a. r = Inr a \<and> f a = Inr b)"
  by (cases r) auto

lemma bind_r_eq_Inl: "bind_r r f = Inl e \<longleftrightarrow> r = Inl e \<or> (\<exists>a. r = Inr a \<and> f a = Inl e)"
  by (cases r) auto

section \<open>Fixed-width integers\<close>

definition max_i64 :: int where "max_i64 = 9223372036854775807"
definition min_i64 :: int where "min_i64 = -9223372036854775808"

definition wrap_i64 :: "int \<Rightarrow> int" where
  "wrap_i64 x = (x + 9223372036854775808) mod 18446744073709551616 - 9223372036854775808"

definition wrap_u64 :: "int \<Rightarrow> int" where
  "wrap_u64 x = x mod 18446744073709551616"

definition in_i64 :: "int \<Rightarrow> bool" where
  "in_i64 x \<longleftrightarrow> min_i64 \<le> x \<and> x \<le> max_i64"

definition in_u64 :: "int \<Rightarrow> bool" where
  "in_u64 x \<longleftrightarrow> 0 \<le> x \<and> x < 18446744073709551616"

lemma wrap_i64_id: "in_i64 x \<Longrightarrow> wrap_i64 x = x"
  by (simp add: wrap_i64_def in_i64_def min_i64_def max_i64_def)

lemma wrap_i64_in: "in_i64 (wrap_i64 x)"
proof -
  have "0 \<le> (x + 9223372036854775808) mod 18446744073709551616"
    and "(x + 9223372036854775808) mod 18446744073709551616 < (18446744073709551616::int)"
    by simp_all
  then show ?thesis
    by (simp add: wrap_i64_def in_i64_def min_i64_def max_i64_def)
qed

lemma wrap_i64_max_succ: "wrap_i64 (max_i64 + 1) = min_i64"
  by (simp add: wrap_i64_def max_i64_def min_i64_def)

lemma wrap_u64_id: "in_u64 x \<Longrightarrow> wrap_u64 x = x"
  by (simp add: wrap_u64_def in_u64_def)

lemma wrap_u64_in: "in_u64 (wrap_u64 x)"
  by (simp add: wrap_u64_def in_u64_def)

section \<open>Package strings\<close>

abbreviation slash :: char where "slash \<equiv> CHR ''/''"

abbreviation byte_of :: "char \<Rightarrow> nat" where "byte_of c \<equiv> of_char c"

definition HasPrefix :: "string \<Rightarrow> string \<Rightarrow> bool" where
  "HasPrefix s p \<longleftrightarrow> take (length p) s = p"

definition HasSuffix :: "string \<Rightarrow> string \<Rightarrow> bool" where
  "HasSuffix s p \<longleftrightarrow> length p \<le> length s \<and> drop (length s - length p) s = p"

definition TrimPrefix :: "string \<Rightarrow> string \<Rightarrow> string" where
  "TrimPrefix s p = (if HasPrefix s p then drop (length p) s else s)"

definition TrimSuffix :: "string \<Rightarrow> string \<Rightarrow> string" where
  "TrimSuffix s p = (if HasSuffix s p then take (length s - length p) s else s)"

definition CutPrefix :: "string \<Rightarrow> string \<Rightarrow> string option" where
  "CutPrefix s p = (if HasPrefix s p then Some (drop (length p) s) else None)"

text \<open>\<open>strings.Split\<close> with a one-byte separator: never empty, one piece per separator more.\<close>

fun Split :: "char \<Rightarrow> string \<Rightarrow> string list" where
  "Split c [] = [[]]"
| "Split c (x # xs) =
     (if x = c then [] # Split c xs
      else (case Split c xs of [] \<Rightarrow> [[x]] | y # ys \<Rightarrow> (x # y) # ys))"

fun Join :: "char \<Rightarrow> string list \<Rightarrow> string" where
  "Join c [] = []"
| "Join c [x] = x"
| "Join c (x # y # ys) = x @ c # Join c (y # ys)"

text \<open>\<open>strings.IndexByte\<close>, with \<^const>\<open>None\<close> for Go's \<open>-1\<close>.\<close>

fun IndexByte :: "char \<Rightarrow> string \<Rightarrow> nat option" where
  "IndexByte c [] = None"
| "IndexByte c (x # xs) = (if x = c then Some 0 else map_option Suc (IndexByte c xs))"

definition LastIndexByte :: "char \<Rightarrow> string \<Rightarrow> nat option" where
  "LastIndexByte c s = map_option (\<lambda>i. length s - 1 - i) (IndexByte c (rev s))"

text \<open>\<open>strings.Cut\<close>: what is before the first separator, what is after, whether it was found.\<close>

fun Cut :: "char \<Rightarrow> string \<Rightarrow> string \<times> string \<times> bool" where
  "Cut c [] = ([], [], False)"
| "Cut c (x # xs) =
     (if x = c then ([], xs, True)
      else (case Cut c xs of (a, b, f) \<Rightarrow> (x # a, b, f)))"

definition TrimByte :: "char \<Rightarrow> string \<Rightarrow> string" where
  "TrimByte c s = rev (dropWhile (\<lambda>x. x = c) (rev (dropWhile (\<lambda>x. x = c) s)))"

text \<open>
  \<open>strings.TrimSpace\<close> removes the runes \<open>unicode.IsSpace\<close> names, given here by their
  UTF-8 encodings. Every encoding starts with a byte that is not a continuation byte, so
  decoding the last rune of a string that ends in one of them yields that rune.
\<close>

definition space_runes :: "string list" where
  "space_runes =
     map (\<lambda>n. [char_of n]) [9, 10, 11, 12, 13, 32 :: nat] @
     [[char_of (194::nat), char_of (133::nat)], [char_of (194::nat), char_of (160::nat)],
      [char_of (225::nat), char_of (154::nat), char_of (128::nat)]] @
     map (\<lambda>n. [char_of (226::nat), char_of (128::nat), char_of n]) ([128..<139] @ [168, 169, 175]) @
     [[char_of (226::nat), char_of (129::nat), char_of (159::nat)],
      [char_of (227::nat), char_of (128::nat), char_of (128::nat)]]"

fun strip_one :: "string list \<Rightarrow> string \<Rightarrow> string option" where
  "strip_one [] s = None"
| "strip_one (p # ps) s =
     (if p \<noteq> [] \<and> HasPrefix s p then Some (drop (length p) s) else strip_one ps s)"

lemma strip_one_shorter: "strip_one ps s = Some t \<Longrightarrow> length t < length s"
proof (induction ps)
  case (Cons p ps)
  show ?case
  proof (cases "p \<noteq> [] \<and> HasPrefix s p")
    case True
    then have "take (length p) s = p" and "p \<noteq> []" by (simp_all add: HasPrefix_def)
    then have "s \<noteq> []" and "0 < length p" by auto
    with True Cons.prems show ?thesis by (auto simp: diff_less)
  next
    case False
    then have "strip_one (p # ps) s = strip_one ps s" by auto
    with Cons show ?thesis by simp
  qed
qed simp

function trim_left :: "string list \<Rightarrow> string \<Rightarrow> string" where
  "trim_left ps s = (case strip_one ps s of None \<Rightarrow> s | Some t \<Rightarrow> trim_left ps t)"
  by pat_completeness auto
termination
  by (relation "measure (\<lambda>(ps, s). length s)") (auto dest: strip_one_shorter)

declare trim_left.simps [simp del]

definition TrimSpace :: "string \<Rightarrow> string" where
  "TrimSpace s =
     rev (trim_left (map rev space_runes) (rev (trim_left space_runes s)))"

text \<open>
  \<open>strings.EqualFold\<close> against an ASCII constant without the letters K and S. Those two
  are the only ASCII letters whose simple-folding orbit leaves ASCII (the Kelvin sign and
  the long s), so for every other constant the comparison is the one on ASCII case.
\<close>

definition to_lower :: "char \<Rightarrow> char" where
  "to_lower c = (if 65 \<le> byte_of c \<and> byte_of c \<le> (90::nat)
                 then char_of (byte_of c + 32 :: nat) else c)"

definition EqualFoldASCII :: "string \<Rightarrow> string \<Rightarrow> bool" where
  "EqualFoldASCII s t \<longleftrightarrow> map to_lower s = map to_lower t"

text \<open>Strings of different lengths need no folding, which keeps evaluation quick.\<close>

lemma EqualFoldASCII_code [code]:
  "EqualFoldASCII s t \<longleftrightarrow> (if length s = length t then map to_lower s = map to_lower t else False)"
  by (auto simp: EqualFoldASCII_def dest: map_eq_imp_length_eq)

text \<open>
  \<open>strings.EqualFold\<close> between two arbitrary strings: the loop over ASCII bytes as the
  library writes it. Once a byte of either string is not ASCII the rest is compared rune by
  rune under the Unicode folding tables, which are the parameter \<open>fold_runes\<close>.
\<close>

fun EqualFold :: "(string \<Rightarrow> string \<Rightarrow> bool) \<Rightarrow> string \<Rightarrow> string \<Rightarrow> bool" where
  "EqualFold fold_runes (a # s) (b # t) =
     (if byte_of a \<ge> (128::nat) \<or> byte_of b \<ge> (128::nat) then fold_runes (a # s) (b # t)
      else to_lower a = to_lower b \<and> EqualFold fold_runes s t)"
| "EqualFold fold_runes s t = (s = [] \<and> t = [])"

text \<open>\<open>strings.Index\<close>: the first offset at which the text occurs.\<close>

fun Index :: "string \<Rightarrow> string \<Rightarrow> nat option" where
  "Index p [] = (if p = [] then Some 0 else None)"
| "Index p (x # xs) = (if HasPrefix (x # xs) p then Some 0 else map_option Suc (Index p xs))"

section \<open>Package strconv\<close>

definition is_digit :: "char \<Rightarrow> bool" where
  "is_digit c \<longleftrightarrow> 48 \<le> byte_of c \<and> byte_of c \<le> (57::nat)"

definition digit_val :: "char \<Rightarrow> int" where
  "digit_val c = int (byte_of c) - 48"

fun digits_val :: "int \<Rightarrow> string \<Rightarrow> int" where
  "digits_val acc [] = acc"
| "digits_val acc (c # cs) = digits_val (acc * 10 + digit_val c) cs"

text \<open>
  \<open>strconv.ParseUint(s, 10, 64)\<close>: \<^const>\<open>None\<close> for the empty string, for a byte that is
  not a digit and for a value that does not fit.
\<close>

definition ParseUint64 :: "string \<Rightarrow> int option" where
  "ParseUint64 s =
     (if s = [] \<or> \<not> list_all is_digit s then None
      else let v = digits_val 0 s in
        if v < 18446744073709551616 then Some v else None)"

text \<open>\<open>strconv.ParseInt(s, 10, 64)\<close>: one optional sign, then the digits.\<close>

definition ParseInt64 :: "string \<Rightarrow> int option" where
  "ParseInt64 s =
     (case s of [] \<Rightarrow> None
      | c # cs \<Rightarrow>
        (let neg = (c = CHR ''-'');
             ds = (if c = CHR ''+'' \<or> c = CHR ''-'' then cs else s)
         in (case ParseUint64 ds of None \<Rightarrow> None
             | Some un \<Rightarrow>
                (if \<not> neg \<and> un \<ge> 9223372036854775808 then None
                 else if neg \<and> un > 9223372036854775808 then None
                 else Some (if neg then - un else un)))))"

text \<open>\<open>strconv.Itoa\<close> and \<open>%d\<close> on a natural number and on an integer.\<close>

fun nat_digits :: "nat \<Rightarrow> string" where
  "nat_digits n = (if n < 10 then [char_of (48 + n)]
                   else nat_digits (n div 10) @ [char_of (48 + n mod 10)])"

declare nat_digits.simps [simp del]

lemma nat_digits_2: "nat_digits 2 = ''2''"
  by code_simp

definition int_digits :: "int \<Rightarrow> string" where
  "int_digits i = (if i < 0 then CHR ''-'' # nat_digits (nat (- i)) else nat_digits (nat i))"

section \<open>Lemmas on the string functions\<close>

lemma HasPrefix_iff_prefix: "HasPrefix s p \<longleftrightarrow> prefix p s"
  unfolding HasPrefix_def prefix_def
  by (metis append_eq_conv_conj append_take_drop_id)

lemma HasPrefix_append [simp, go_simps]: "HasPrefix (p @ s) p"
  by (simp add: HasPrefix_def)

lemma HasPrefix_Cons [simp, go_simps]:
  "HasPrefix s []"
  "\<not> HasPrefix [] (x # xs)"
  "HasPrefix (y # ys) (x # xs) \<longleftrightarrow> x = y \<and> HasPrefix ys xs"
  by (auto simp: HasPrefix_def)

lemma TrimPrefix_append [simp]: "TrimPrefix (p @ s) p = s"
  by (simp add: TrimPrefix_def)

lemma HasSuffix_append [simp, go_simps]: "HasSuffix (s @ p) p"
  by (simp add: HasSuffix_def)

lemma HasSuffix_iff: "HasSuffix s p \<longleftrightarrow> (\<exists>t. s = t @ p)"
  unfolding HasSuffix_def
  by (metis append_take_drop_id append_eq_conv_conj diff_add_inverse2 le_add2 length_append)

lemma TrimSuffix_append [simp]: "TrimSuffix (s @ p) p = s"
  by (simp add: TrimSuffix_def)

lemma Split_not_Nil [simp]: "Split c s \<noteq> []"
  by (induction s) (auto split: list.splits)

lemma Split_no_sep: "c \<notin> set s \<Longrightarrow> Split c s = [s]"
  by (induction s) auto

lemma Split_append_sep: "c \<notin> set s \<Longrightarrow> Split c (s @ c # t) = s # Split c t"
  by (induction s) auto

lemma Join_Cons: "ys \<noteq> [] \<Longrightarrow> Join c (x # ys) = x @ c # Join c ys"
  by (cases ys) auto

lemma Join_Split [simp]: "Join c (Split c s) = s"
proof (induction s)
  case (Cons x xs)
  obtain y ys where sp: "Split c xs = y # ys" by (cases "Split c xs") auto
  with Cons.IH have "Join c (y # ys) = xs" by simp
  then show ?case using sp by (cases ys) auto
qed simp

lemma Split_pieces: "t \<in> set (Split c s) \<Longrightarrow> c \<notin> set t"
proof (induction s arbitrary: t)
  case (Cons x xs)
  obtain y ys where sp: "Split c xs = y # ys" by (cases "Split c xs") auto
  with Cons.IH have "\<And>t. t \<in> set (y # ys) \<Longrightarrow> c \<notin> set t" by metis
  with Cons.prems sp show ?case by (auto split: if_splits)
qed simp

lemma Split_Join:
  "xs \<noteq> [] \<Longrightarrow> \<forall>x\<in>set xs. c \<notin> set x \<Longrightarrow> Split c (Join c xs) = xs"
proof (induction xs rule: Join.induct)
  case (3 c x y ys)
  then show ?case by (simp add: Split_append_sep)
qed (simp_all add: Split_no_sep)

lemma Join_eq_Nil: "Join c zs = [] \<Longrightarrow> [] \<notin> set zs \<Longrightarrow> zs = []"
  by (induction zs rule: Join.induct) auto

lemma Join_inject:
  assumes xs: "\<forall>x\<in>set xs. x \<noteq> [] \<and> c \<notin> set x"
    and ys: "\<forall>y\<in>set ys. y \<noteq> [] \<and> c \<notin> set y"
    and eq: "Join c xs = Join c ys"
  shows "xs = ys"
proof (cases "Join c xs = []")
  case True
  with eq have "Join c ys = []" by simp
  moreover have "[] \<notin> set xs" and "[] \<notin> set ys" using xs ys by blast+
  ultimately have "xs = []" and "ys = []" using True Join_eq_Nil by blast+
  then show ?thesis by simp
next
  case False
  with eq have "Join c ys \<noteq> []" by simp
  with False have "xs \<noteq> []" and "ys \<noteq> []" by (metis Join.simps(1))+
  then have "xs = Split c (Join c xs)" and "ys = Split c (Join c ys)"
    using Split_Join [of xs c] Split_Join [of ys c] xs ys by metis+
  with eq show ?thesis by simp
qed

lemma length_Join:
  "xs \<noteq> [] \<Longrightarrow> length (Join c xs) = sum_list (map length xs) + (length xs - 1)"
  by (induction xs rule: Join.induct) auto

lemma length_Split: "length (Split c s) = Suc (count_list s c)"
  by (induction s) (auto split: list.splits)

lemma IndexByte_Some:
  "IndexByte c s = Some i \<Longrightarrow> i < length s \<and> s ! i = c \<and> c \<notin> set (take i s)"
  by (induction s arbitrary: i) (auto split: if_splits)

lemma IndexByte_None: "IndexByte c s = None \<longleftrightarrow> c \<notin> set s"
  by (induction s) auto

lemma IndexByte_append: "c \<notin> set a \<Longrightarrow> IndexByte c (a @ c # b) = Some (length a)"
  by (induction a) auto

lemma Cut_found: "c \<notin> set a \<Longrightarrow> Cut c (a @ c # b) = (a, b, True)"
  by (induction a) auto

lemma Cut_not_found: "c \<notin> set a \<Longrightarrow> Cut c a = (a, [], False)"
  by (induction a) auto

lemma Cut_cases:
  obtains (found) a b where "s = a @ c # b" "c \<notin> set a" "Cut c s = (a, b, True)"
  | (missing) "c \<notin> set s" "Cut c s = (s, [], False)"
  using split_list_first [of c s] Cut_found Cut_not_found by metis

section \<open>Numbers as text\<close>

lemma digits_val_append: "digits_val acc (xs @ ys) = digits_val (digits_val acc xs) ys"
  by (induction xs arbitrary: acc) auto

lemma digit_char:
  assumes "d < (10::nat)"
  shows "is_digit (char_of (48 + d))" and "digit_val (char_of (48 + d)) = int d"
  using assms by (simp_all add: is_digit_def digit_val_def)

lemma nat_digits_text: "nat_digits n \<noteq> [] \<and> list_all is_digit (nat_digits n) \<and> digits_val 0 (nat_digits n) = int n"
proof (induction n rule: nat_digits.induct)
  case (1 n)
  show ?case
  proof (cases "n < 10")
    case True
    then show ?thesis by (simp add: nat_digits.simps [of n] digit_char)
  next
    case False
    have m: "n mod 10 < (10::nat)" by simp
    have "int n = int (n div 10) * 10 + int (n mod 10)"
      by (metis mult.commute mult_div_mod_eq of_nat_add of_nat_mult of_nat_numeral)
    with 1 False digit_char [OF m] show ?thesis
      by (simp add: nat_digits.simps [of n] digits_val_append)
  qed
qed

lemma ParseUint64_nat_digits:
  "int n < 18446744073709551616 \<Longrightarrow> ParseUint64 (nat_digits n) = Some (int n)"
  using nat_digits_text [of n] by (simp add: ParseUint64_def)

lemma ParseUint64_range: "ParseUint64 s = Some v \<Longrightarrow> in_u64 v"
proof -
  have nonneg: "0 \<le> acc \<Longrightarrow> list_all is_digit s \<Longrightarrow> 0 \<le> digits_val acc s" for acc s
    by (induction acc s rule: digits_val.induct) (auto simp: is_digit_def digit_val_def)
  assume "ParseUint64 s = Some v"
  then show ?thesis using nonneg [of 0 s]
    by (auto simp: ParseUint64_def in_u64_def Let_def split: if_splits)
qed

lemma ParseInt64_nat_digits:
  assumes "int n \<le> max_i64"
  shows "ParseInt64 (nat_digits n) = Some (int n)"
proof -
  obtain c cs where s: "nat_digits n = c # cs" and c: "is_digit c"
    using nat_digits_text [of n] by (cases "nat_digits n") auto
  have "c \<noteq> CHR ''+''" "c \<noteq> CHR ''-''" using c by (auto simp: is_digit_def)
  with s assms ParseUint64_nat_digits [of n] show ?thesis
    by (simp add: ParseInt64_def max_i64_def)
qed

lemma ParseInt64_range: "ParseInt64 s = Some v \<Longrightarrow> in_i64 v"
  by (auto simp: ParseInt64_def Let_def in_i64_def min_i64_def max_i64_def in_u64_def
      split: list.splits option.splits if_splits dest!: ParseUint64_range)

definition plain_char :: "char \<Rightarrow> bool" where
  "plain_char c \<longleftrightarrow> 33 \<le> byte_of c \<and> byte_of c \<le> (126::nat)"

lemma space_runes_not_plain:
  "list_all (\<lambda>p. p \<noteq> [] \<and> \<not> plain_char (hd p) \<and> \<not> plain_char (last p)) space_runes"
  by (simp add: space_runes_def plain_char_def upt_rec)

lemma strip_one_None:
  "(\<And>p. p \<in> set ps \<Longrightarrow> p \<noteq> [] \<Longrightarrow> \<not> HasPrefix s p) \<Longrightarrow> strip_one ps s = None"
  by (induction ps) auto

lemma trim_left_plain:
  assumes "list_all (\<lambda>p. p \<noteq> [] \<and> \<not> plain_char (hd p)) ps" and "s = [] \<or> plain_char (hd s)"
  shows "trim_left ps s = s"
proof -
  have "strip_one ps s = None"
  proof (rule strip_one_None)
    fix p assume p: "p \<in> set ps" "p \<noteq> []"
    with assms(1) obtain x xs where "p = x # xs" "\<not> plain_char x"
      by (cases p) (auto simp: list_all_iff)
    with assms(2) show "\<not> HasPrefix s p" by (cases s) auto
  qed
  then show ?thesis by (simp add: trim_left.simps)
qed

lemma TrimSpace_plain_ends:
  assumes "s = [] \<or> plain_char (hd s) \<and> plain_char (last s)"
  shows "TrimSpace s = s"
proof -
  have "trim_left space_runes s = s"
    using space_runes_not_plain assms by (intro trim_left_plain) (auto simp: list_all_iff)
  moreover have "trim_left (map rev space_runes) (rev s) = rev s"
    using space_runes_not_plain assms
    by (intro trim_left_plain) (auto simp: list_all_iff hd_rev)
  ultimately show ?thesis by (simp add: TrimSpace_def)
qed

lemma TrimSpace_plain: "list_all plain_char s \<Longrightarrow> TrimSpace s = s"
  by (rule TrimSpace_plain_ends) (cases s; simp add: list_all_iff)

lemma digit_plain: "is_digit c \<Longrightarrow> plain_char c"
  by (simp add: is_digit_def plain_char_def)

lemma nat_digits_plain: "list_all plain_char (nat_digits n)"
  using nat_digits_text [of n] digit_plain by (auto simp: list_all_iff)

end
