(* ===== verification/Sc_Acl.thy ===== *)
theory Sc_Acl
  imports Sc_Prelude
begin

unbundle bit_operations_syntax

text \<open>
  The permission evaluator of \<open>internal/shares/acl\<close>: permission bit sets, the
  evaluator's own path vocabulary, grants, the level-by-level evaluation, effective
  permissions and the projected roots. The decision cache is in \<open>Sc_AclCache\<close>.
\<close>

section \<open>Permission bits (perms.go)\<close>

type_synonym perms = "16 word"

definition Read :: perms where "Read = 1"
definition Write :: perms where "Write = 2"
definition Create :: perms where "Create = 4"
definition Delete :: perms where "Delete = 8"
definition Rename :: perms where "Rename = 16"
definition Move :: perms where "Move = 32"
definition Share :: perms where "Share = 64"
definition Download :: perms where "Download = 128"

lemmas perm_consts = Read_def Write_def Create_def Delete_def Rename_def Move_def Share_def
  Download_def

definition Has :: "perms \<Rightarrow> perms \<Rightarrow> bool" where
  "Has p want \<longleftrightarrow> p AND want = want"

definition Intersects :: "perms \<Rightarrow> perms \<Rightarrow> bool" where
  "Intersects p want \<longleftrightarrow> p AND want \<noteq> 0"

definition Remove :: "perms \<Rightarrow> perms \<Rightarrow> perms" where
  "Remove p other = p AND NOT other"

definition IsEmpty :: "perms \<Rightarrow> bool" where
  "IsEmpty p \<longleftrightarrow> p = 0"

definition orderedBits :: "perms list" where
  "orderedBits = [Read, Write, Create, Delete, Rename, Move, Share, Download]"

definition nameOf :: "perms \<Rightarrow> string" where
  "nameOf b =
     (if b = Read then ''read'' else if b = Write then ''write''
      else if b = Create then ''create'' else if b = Delete then ''delete''
      else if b = Rename then ''rename'' else if b = Move then ''move''
      else if b = Share then ''share'' else if b = Download then ''download''
      else ''?'')"

definition Perms_String :: "perms \<Rightarrow> string" where
  "Perms_String p =
     (if p = 0 then ''-''
      else Join slash (map nameOf (filter (Has p) orderedBits)))"

definition PermByName :: "string \<Rightarrow> perms option" where
  "PermByName name = find (\<lambda>b. nameOf b = name) orderedBits"

definition NamedPerms :: "(string \<times> perms) list" where
  "NamedPerms = map (\<lambda>b. (nameOf b, b)) orderedBits"

section \<open>Paths and grants (grant.go)\<close>

type_synonym acl_path = "string list"

definition NewPath :: "string list \<Rightarrow> acl_path" where
  "NewPath cs = cs"

definition ParsePath :: "string \<Rightarrow> acl_path" where
  "ParsePath s = (let t = TrimByte slash s in if t = [] then [] else Split slash t)"

definition Path_Name :: "acl_path \<Rightarrow> string" where
  "Path_Name p = (if p = [] then [] else last p)"

definition Path_String :: "acl_path \<Rightarrow> string" where
  "Path_String p = slash # Join slash p"

definition IsPrefixOf :: "acl_path \<Rightarrow> acl_path \<Rightarrow> bool" where
  "IsPrefixOf p q \<longleftrightarrow>
     length p \<le> length q \<and> list_all (\<lambda>i. p ! i = q ! i) [0..<length p]"

definition subpathEquals :: "acl_path \<Rightarrow> acl_path \<Rightarrow> bool" where
  "subpathEquals p q \<longleftrightarrow> length p = length q \<and> IsPrefixOf p q"

record grant =
  g_ID :: int
  g_User :: int
  g_Group :: int
  g_Share :: int
  g_Subpath :: acl_path
  g_Allow :: perms
  g_Deny :: perms
  g_Inherit :: bool
  g_Label :: string
  g_CreatedNs :: int

record membership =
  m_User :: int
  m_Group :: int

section \<open>Evaluation (eval.go)\<close>

record decision =
  Allowed :: bool
  By :: int

text \<open>
  The two tables of an evaluator; a Go map read at a missing key gives the nil slice.
\<close>

record acl_tables =
  t_grants :: "grant list"
  t_membership :: "int \<rightharpoonup> int list"

definition groups_of :: "acl_tables \<Rightarrow> int \<Rightarrow> int list" where
  "groups_of t user = (case t_membership t user of None \<Rightarrow> [] | Some gs \<Rightarrow> gs)"

definition add_member :: "(int \<rightharpoonup> int list) \<Rightarrow> membership \<Rightarrow> (int \<rightharpoonup> int list)" where
  "add_member tab m =
     tab(m_User m \<mapsto> (case tab (m_User m) of None \<Rightarrow> [] | Some gs \<Rightarrow> gs) @ [m_Group m])"

definition load_tables :: "grant list \<Rightarrow> membership list \<Rightarrow> acl_tables" where
  "load_tables gs ms =
     \<lparr>t_grants = gs, t_membership = foldl add_member Map.empty ms\<rparr>"

definition grantMatchesLocked :: "acl_tables \<Rightarrow> int \<Rightarrow> grant \<Rightarrow> bool" where
  "grantMatchesLocked t user g \<longleftrightarrow>
     (if g_User g \<noteq> 0 then g_User g = user
      else list_ex (\<lambda>grp. grp = g_Group g) (groups_of t user))"

definition matchingLocked :: "acl_tables \<Rightarrow> int \<Rightarrow> int \<Rightarrow> acl_path \<Rightarrow> grant list" where
  "matchingLocked t user share path =
     filter (\<lambda>g. g_Share g = share \<and> grantMatchesLocked t user g \<and>
                 (if g_Inherit g then IsPrefixOf (g_Subpath g) path
                  else subpathEquals (g_Subpath g) path))
       (t_grants t)"

definition levelAt :: "grant list \<Rightarrow> nat \<Rightarrow> grant list" where
  "levelAt gs depth = filter (\<lambda>g. length (g_Subpath g) = depth) gs"

definition findDeny :: "grant list \<Rightarrow> perms \<Rightarrow> grant option" where
  "findDeny level want = find (\<lambda>g. Intersects (g_Deny g) want) level"

definition findAnyAllow :: "grant list \<Rightarrow> grant option" where
  "findAnyAllow level = find (\<lambda>g. \<not> IsEmpty (g_Allow g)) level"

text \<open>
  The inner loop over one level: \<open>Inl\<close> is the decision of the rule that completed the
  set, \<open>Inr\<close> what is still wanted after the level.
\<close>

fun allow_level :: "grant list \<Rightarrow> perms \<Rightarrow> decision + perms" where
  "allow_level [] want = Inr want"
| "allow_level (g # gs) want =
     (if \<not> Intersects (g_Allow g) want then allow_level gs want
      else (let want' = Remove want (g_Allow g) in
        if IsEmpty want' then Inl \<lparr>Allowed = True, By = g_ID g\<rparr>
        else allow_level gs want'))"

text \<open>The outer loop: \<open>Suc d\<close> runs depth \<open>d\<close> and goes on towards the share root.\<close>

fun evaluate_walk :: "grant list \<Rightarrow> nat \<Rightarrow> perms \<Rightarrow> decision" where
  "evaluate_walk cs 0 want = \<lparr>Allowed = False, By = 0\<rparr>"
| "evaluate_walk cs (Suc d) want =
     (let level = levelAt cs d in
      if level = [] then evaluate_walk cs d want
      else (case findDeny level want of
          Some g \<Rightarrow> \<lparr>Allowed = False, By = g_ID g\<rparr>
        | None \<Rightarrow>
            (if IsEmpty want then
               (case findAnyAllow level of
                  Some g \<Rightarrow> \<lparr>Allowed = True, By = g_ID g\<rparr>
                | None \<Rightarrow>
                    if list_ex (\<lambda>g. \<not> IsEmpty (g_Deny g)) level
                    then \<lparr>Allowed = False, By = 0\<rparr>
                    else evaluate_walk cs d want)
             else (case allow_level level want of
                  Inl dec \<Rightarrow> dec
                | Inr want' \<Rightarrow> evaluate_walk cs d want'))))"

definition evaluateLocked :: "acl_tables \<Rightarrow> int \<Rightarrow> int \<Rightarrow> acl_path \<Rightarrow> perms \<Rightarrow> decision" where
  "evaluateLocked t user share path want =
     (let candidates = matchingLocked t user share path in
      if candidates = [] then \<lparr>Allowed = False, By = 0\<rparr>
      else evaluate_walk candidates (Suc (length path)) want)"

definition effectiveLocked :: "acl_tables \<Rightarrow> int \<Rightarrow> int \<Rightarrow> acl_path \<Rightarrow> perms" where
  "effectiveLocked t user share path =
     foldl (\<lambda>out b. if Allowed (evaluateLocked t user share path b) then out OR b else out)
       0 orderedBits"

section \<open>Projected roots\<close>

record root_entry =
  re_Label :: string
  re_Share :: int
  re_Subpath :: acl_path
  re_Perms :: perms

definition GeneratedRootLabel :: "int \<Rightarrow> string" where
  "GeneratedRootLabel share = ''share-'' @ int_digits share"

definition root_base :: "grant \<Rightarrow> string" where
  "root_base g =
     (if g_Label g = [] then
        (let name = Path_Name (g_Subpath g) in
         if name \<noteq> [] then name else GeneratedRootLabel (g_Share g))
      else g_Label g)"

definition numbered_label :: "string \<Rightarrow> nat \<Rightarrow> string" where
  "numbered_label base n = (if n > 1 then base @ '' ('' @ nat_digits n @ '')'' else base)"

fun roots_loop ::
  "acl_tables \<Rightarrow> int \<Rightarrow> grant list \<Rightarrow> (string \<Rightarrow> nat) \<Rightarrow> root_entry list \<Rightarrow> root_entry list" where
  "roots_loop t user [] seen out = out"
| "roots_loop t user (g # gs) seen out =
     (if \<not> grantMatchesLocked t user g \<or> \<not> Has (g_Allow g) Read
      then roots_loop t user gs seen out
      else
        (let base = root_base g;
             seen' = seen(base := Suc (seen base));
             label = numbered_label base (seen' base)
         in roots_loop t user gs seen'
              (out @ [\<lparr>re_Label = label, re_Share = g_Share g, re_Subpath = g_Subpath g,
                       re_Perms = effectiveLocked t user (g_Share g) (g_Subpath g)\<rparr>])))"

definition Roots :: "acl_tables \<Rightarrow> int \<Rightarrow> root_entry list" where
  "Roots t user = roots_loop t user (t_grants t) (\<lambda>_. 0) []"

section \<open>Bits\<close>

lemma perms_eq_iff: "(p :: perms) = q \<longleftrightarrow> (\<forall>i. bit p i \<longleftrightarrow> bit q i)"
  by (auto intro: bit_word_eqI)

lemma Has_iff: "Has p want \<longleftrightarrow> (\<forall>i. bit want i \<longrightarrow> bit p i)"
  by (auto simp: Has_def perms_eq_iff bit_and_iff)

lemma Intersects_iff: "Intersects p want \<longleftrightarrow> (\<exists>i. bit p i \<and> bit want i)"
  by (auto simp: Intersects_def perms_eq_iff bit_and_iff)

lemma IsEmpty_iff: "IsEmpty p \<longleftrightarrow> (\<forall>i. \<not> bit p i)"
  by (auto simp: IsEmpty_def perms_eq_iff)

lemma bit_Remove: "bit (Remove p q) i \<longleftrightarrow> bit p i \<and> \<not> bit q i"
  using bit_imp_le_length [of p i] by (auto simp: Remove_def bit_and_iff bit_not_iff)

lemma orderedBits_exp: "orderedBits = map (\<lambda>i. 2 ^ i) [0..<8]"
  by (simp add: orderedBits_def perm_consts upt_rec)

lemma bit_perm_exp: "bit (2 ^ i :: perms) j \<longleftrightarrow> j = i \<and> i < 16"
  by (auto simp: bit_exp_iff)

section \<open>Paths\<close>

lemma IsPrefixOf_prefix: "IsPrefixOf p q \<longleftrightarrow> prefix p q"
proof -
  have "list_all (\<lambda>i. p ! i = q ! i) [0..<length p] \<longleftrightarrow> (\<forall>i<length p. p ! i = q ! i)"
    by (auto simp: list_all_iff)
  moreover have "(length p \<le> length q \<and> (\<forall>i<length p. p ! i = q ! i)) \<longleftrightarrow> take (length p) q = p"
    by (auto simp: list_eq_iff_nth_eq min_def)
  ultimately show ?thesis
    by (metis IsPrefixOf_def append_eq_conv_conj append_take_drop_id prefix_def)
qed

lemma subpathEquals_eq: "subpathEquals p q \<longleftrightarrow> p = q"
  by (auto simp: subpathEquals_def IsPrefixOf_prefix prefix_def)

text \<open>
  A path the validating layers hand to the evaluator: no component is empty and none
  holds a separator. The cache key relies on it.
\<close>

definition wf_path :: "acl_path \<Rightarrow> bool" where
  "wf_path p \<longleftrightarrow> list_all (\<lambda>c. c \<noteq> [] \<and> slash \<notin> set c) p"

lemma Path_String_inject:
  "wf_path p \<Longrightarrow> wf_path q \<Longrightarrow> Path_String p = Path_String q \<Longrightarrow> p = q"
  by (auto simp: wf_path_def Path_String_def list_all_iff intro!: Join_inject)

section \<open>What the evaluation decides\<close>

text \<open>
  The declarative rule: permission bit \<open>i\<close> is held when some applicable grant allows it
  and sits strictly deeper than every applicable grant that denies it.
\<close>

definition applies :: "acl_tables \<Rightarrow> int \<Rightarrow> int \<Rightarrow> acl_path \<Rightarrow> grant \<Rightarrow> bool" where
  "applies t user share path g \<longleftrightarrow>
     g \<in> set (t_grants t) \<and> g_Share g = share \<and> grantMatchesLocked t user g \<and>
     (if g_Inherit g then prefix (g_Subpath g) path else g_Subpath g = path)"

definition permits :: "acl_tables \<Rightarrow> int \<Rightarrow> int \<Rightarrow> acl_path \<Rightarrow> nat \<Rightarrow> bool" where
  "permits t user share path i \<longleftrightarrow>
     (\<exists>g. applies t user share path g \<and> bit (g_Allow g) i \<and>
        (\<forall>h. applies t user share path h \<and> bit (g_Deny h) i \<longrightarrow>
           length (g_Subpath h) < length (g_Subpath g)))"

lemma set_matchingLocked: "set (matchingLocked t user share path) = {g. applies t user share path g}"
  by (auto simp: matchingLocked_def applies_def IsPrefixOf_prefix subpathEquals_eq)

lemma applies_depth: "applies t user share path g \<Longrightarrow> length (g_Subpath g) \<le> length path"
  by (auto simp: applies_def prefix_length_le split: if_splits)

lemma set_levelAt: "set (levelAt cs d) = {g \<in> set cs. length (g_Subpath g) = d}"
  by (auto simp: levelAt_def)

lemma find_SomeD: "find P xs = Some x \<Longrightarrow> x \<in> set xs \<and> P x"
  by (induction xs) (auto split: if_splits)

lemma allow_level_Inl:
  "allow_level gs want = Inl dec \<Longrightarrow>
     Allowed dec \<and> (\<exists>g\<in>set gs. By dec = g_ID g \<and> Intersects (g_Allow g) want) \<and>
     (\<forall>i. bit want i \<longrightarrow> (\<exists>g\<in>set gs. bit (g_Allow g) i))"
proof (induction gs arbitrary: want)
  case (Cons g gs)
  show ?case
  proof (cases "Intersects (g_Allow g) want \<and> IsEmpty (Remove want (g_Allow g))")
    case True
    with Cons.prems show ?thesis by (auto simp: IsEmpty_iff bit_Remove)
  next
    case False
    show ?thesis
    proof (cases "Intersects (g_Allow g) want")
      case True
      with False Cons.prems have "allow_level gs (Remove want (g_Allow g)) = Inl dec"
        by (simp add: Let_def)
      from Cons.IH [OF this] show ?thesis by (auto simp: Intersects_iff bit_Remove)
    next
      case no: False
      with Cons.prems have "allow_level gs want = Inl dec" by simp
      from Cons.IH [OF this] show ?thesis by auto
    qed
  qed
qed simp

lemma allow_level_Inr:
  "allow_level gs want = Inr want' \<Longrightarrow>
     (\<forall>i. bit want' i \<longleftrightarrow> bit want i \<and> \<not> (\<exists>g\<in>set gs. bit (g_Allow g) i)) \<and>
     (\<not> IsEmpty want \<longrightarrow> \<not> IsEmpty want')"
proof (induction gs arbitrary: want)
  case (Cons g gs)
  show ?case
  proof (cases "Intersects (g_Allow g) want")
    case True
    with Cons.prems have ne: "\<not> IsEmpty (Remove want (g_Allow g))"
      and eq: "allow_level gs (Remove want (g_Allow g)) = Inr want'"
      by (auto simp: Let_def split: if_splits)
    from Cons.IH [OF eq] ne show ?thesis by (auto simp: bit_Remove)
  next
    case False
    with Cons.prems have "allow_level gs want = Inr want'" by simp
    from Cons.IH [OF this] False show ?thesis by (auto simp: Intersects_iff)
  qed
qed simp

text \<open>The rule restricted to depths below \<open>n\<close>, which is what the walk has left to see.\<close>

definition permits_below :: "grant list \<Rightarrow> nat \<Rightarrow> nat \<Rightarrow> bool" where
  "permits_below cs n i \<longleftrightarrow>
     (\<exists>g\<in>set cs. length (g_Subpath g) < n \<and> bit (g_Allow g) i \<and>
        (\<forall>h\<in>set cs. length (g_Subpath h) < n \<and> bit (g_Deny h) i \<longrightarrow>
           length (g_Subpath h) < length (g_Subpath g)))"

lemma permits_below_denied:
  "g \<in> set (levelAt cs d) \<Longrightarrow> bit (g_Deny g) i \<Longrightarrow> \<not> permits_below cs (Suc d) i"
  by (auto simp: permits_below_def set_levelAt)

lemma permits_below_step:
  assumes "\<forall>g\<in>set (levelAt cs d). \<not> bit (g_Deny g) i"
  shows "permits_below cs (Suc d) i \<longleftrightarrow>
           (\<exists>g\<in>set (levelAt cs d). bit (g_Allow g) i) \<or> permits_below cs d i"
proof -
  have below: "length (g_Subpath h) < d"
    if "h \<in> set cs" "bit (g_Deny h) i" "length (g_Subpath h) < Suc d" for h
    using assms that by (auto simp: set_levelAt less_Suc_eq)
  show ?thesis
  proof
    assume "permits_below cs (Suc d) i"
    then obtain g where "g \<in> set cs" "length (g_Subpath g) < Suc d" "bit (g_Allow g) i"
      and "\<forall>h\<in>set cs. length (g_Subpath h) < Suc d \<and> bit (g_Deny h) i \<longrightarrow>
             length (g_Subpath h) < length (g_Subpath g)"
      by (auto simp: permits_below_def)
    then show "(\<exists>g\<in>set (levelAt cs d). bit (g_Allow g) i) \<or> permits_below cs d i"
      by (auto simp: permits_below_def set_levelAt less_Suc_eq)
  next
    assume "(\<exists>g\<in>set (levelAt cs d). bit (g_Allow g) i) \<or> permits_below cs d i"
    then show "permits_below cs (Suc d) i"
    proof
      assume "\<exists>g\<in>set (levelAt cs d). bit (g_Allow g) i"
      then show ?thesis using below by (auto simp: permits_below_def set_levelAt)
    next
      assume "permits_below cs d i"
      then show ?thesis using below less_SucI unfolding permits_below_def by metis
    qed
  qed
qed

lemma evaluate_walk_allowed:
  "\<not> IsEmpty want \<Longrightarrow>
     Allowed (evaluate_walk cs n want) \<longleftrightarrow> (\<forall>i. bit want i \<longrightarrow> permits_below cs n i)"
proof (induction n arbitrary: want)
  case 0
  then show ?case by (auto simp: permits_below_def IsEmpty_iff)
next
  case (Suc d)
  let ?level = "levelAt cs d"
  show ?case
  proof (cases "findDeny ?level want")
    case (Some g)
    then have "g \<in> set ?level" and "Intersects (g_Deny g) want"
      by (auto simp: findDeny_def dest: find_SomeD)
    moreover from this have "?level \<noteq> []" by auto
    ultimately show ?thesis using Some permits_below_denied
      by (auto simp: Let_def Intersects_iff)
  next
    case None
    then have nodeny: "\<forall>g\<in>set ?level. \<not> bit (g_Deny g) i" if "bit want i" for i
      using that by (auto simp: findDeny_def find_None_iff Intersects_iff)
    then have step: "permits_below cs (Suc d) i \<longleftrightarrow>
        (\<exists>g\<in>set ?level. bit (g_Allow g) i) \<or> permits_below cs d i" if "bit want i" for i
      using that by (intro permits_below_step) simp
    show ?thesis
    proof (cases "?level = []")
      case True
      with step Suc show ?thesis by (auto simp: Let_def)
    next
      case False
      show ?thesis
      proof (cases "allow_level ?level want")
        case (Inl dec)
        with False None Suc.prems step allow_level_Inl [OF Inl] show ?thesis
          by (auto simp: Let_def)
      next
        case (Inr want')
        from allow_level_Inr [OF Inr] Suc.prems have ne: "\<not> IsEmpty want'"
          and bits: "\<And>i. bit want' i \<longleftrightarrow> bit want i \<and> \<not> (\<exists>g\<in>set ?level. bit (g_Allow g) i)"
          by auto
        from False None Suc.prems Inr
        have "evaluate_walk cs (Suc d) want = evaluate_walk cs d want'"
          by (simp add: Let_def)
        with Suc.IH [OF ne] bits step show ?thesis by auto
      qed
    qed
  qed
qed

lemma permits_below_matching:
  "permits_below (matchingLocked t user share path) (Suc (length path)) i \<longleftrightarrow>
     permits t user share path i"
  by (auto simp: permits_below_def permits_def set_matchingLocked less_Suc_eq_le
      dest: applies_depth)

lemma evaluateLocked_allowed:
  assumes "want \<noteq> 0"
  shows "Allowed (evaluateLocked t user share path want) \<longleftrightarrow>
           (\<forall>i. bit want i \<longrightarrow> permits t user share path i)"
proof (cases "matchingLocked t user share path = []")
  case True
  then have "\<not> permits t user share path i" for i
    using set_matchingLocked [of t user share path] by (auto simp: permits_def)
  moreover from assms have "\<exists>i. bit want i" by (auto simp: perms_eq_iff)
  ultimately show ?thesis using True by (auto simp: evaluateLocked_def)
next
  case False
  with assms show ?thesis
    by (simp add: evaluateLocked_def Let_def IsEmpty_def evaluate_walk_allowed
        permits_below_matching del: evaluate_walk.simps)
qed

lemma evaluateLocked_bit:
  assumes "i < 16"
  shows "Allowed (evaluateLocked t user share path (2 ^ i)) \<longleftrightarrow> permits t user share path i"
proof -
  have "(2 ^ i :: perms) \<noteq> 0" using assms by simp
  from evaluateLocked_allowed [OF this] show ?thesis using assms by (auto simp: bit_perm_exp)
qed

lemma bit_foldl_or:
  "bit (foldl (\<lambda>out b. if P b then out OR b else out) (z :: perms) bs) i \<longleftrightarrow>
     bit z i \<or> (\<exists>b\<in>set bs. P b \<and> bit b i)"
  by (induction bs arbitrary: z) (auto simp: bit_or_iff)

lemma bit_effectiveLocked:
  "bit (effectiveLocked t user share path) i \<longleftrightarrow> i < 8 \<and> permits t user share path i"
proof -
  have "bit (effectiveLocked t user share path) i \<longleftrightarrow>
      (\<exists>j<8. Allowed (evaluateLocked t user share path (2 ^ j)) \<and> bit (2 ^ j :: perms) i)"
    unfolding effectiveLocked_def bit_foldl_or orderedBits_exp by auto
  also have "\<dots> \<longleftrightarrow> (\<exists>j<8. permits t user share path j \<and> j = i)"
    by (intro ex_cong1 conj_cong refl) (auto simp: evaluateLocked_bit bit_perm_exp)
  finally show ?thesis by auto
qed

section \<open>Asking for no permission, provenance, isolation\<close>

lemma findDeny_nothing [simp]: "findDeny level 0 = None"
  by (simp add: findDeny_def find_None_iff Intersects_def)

definition reaches_below :: "grant list \<Rightarrow> nat \<Rightarrow> bool" where
  "reaches_below cs n \<longleftrightarrow>
     (\<exists>g\<in>set cs. length (g_Subpath g) < n \<and> g_Allow g \<noteq> 0 \<and>
        (\<forall>h\<in>set cs. length (g_Subpath h) < n \<and> g_Deny h \<noteq> 0 \<longrightarrow>
           length (g_Subpath h) \<le> length (g_Subpath g)))"

lemma reaches_below_step:
  "reaches_below cs (Suc d) \<longleftrightarrow>
     (\<exists>g\<in>set (levelAt cs d). g_Allow g \<noteq> 0) \<or>
     (\<forall>h\<in>set (levelAt cs d). g_Deny h = 0) \<and> reaches_below cs d"
proof (cases "\<exists>g\<in>set (levelAt cs d). g_Allow g \<noteq> 0")
  case True
  then show ?thesis by (auto simp: reaches_below_def set_levelAt less_Suc_eq_le)
next
  case False
  then have shallow: "length (g_Subpath g) < d"
    if "g \<in> set cs" "g_Allow g \<noteq> 0" "length (g_Subpath g) < Suc d" for g
    using that by (auto simp: set_levelAt less_Suc_eq)
  show ?thesis
  proof (cases "\<forall>h\<in>set (levelAt cs d). g_Deny h = 0")
    case True
    with False shallow show ?thesis
      unfolding reaches_below_def set_levelAt less_Suc_eq by blast
  next
    case deny: False
    then obtain h where h: "h \<in> set cs" "length (g_Subpath h) = d" "g_Deny h \<noteq> 0"
      by (auto simp: set_levelAt)
    then have "\<not> reaches_below cs (Suc d)"
      using shallow unfolding reaches_below_def by (metis lessI not_less)
    with False deny show ?thesis by blast
  qed
qed

lemma evaluate_walk_empty: "Allowed (evaluate_walk cs n 0) \<longleftrightarrow> reaches_below cs n"
proof (induction n)
  case 0
  then show ?case by (simp add: reaches_below_def)
next
  case (Suc d)
  let ?level = "levelAt cs d"
  show ?case
  proof (cases "findAnyAllow ?level")
    case (Some g)
    then have "g \<in> set ?level" "g_Allow g \<noteq> 0"
      by (auto simp: findAnyAllow_def IsEmpty_def dest: find_SomeD)
    moreover from this have "?level \<noteq> []" by auto
    ultimately show ?thesis using Some
      by (auto simp: reaches_below_step Let_def IsEmpty_def)
  next
    case None
    then have none: "\<forall>g\<in>set ?level. g_Allow g = 0"
      by (auto simp: findAnyAllow_def find_None_iff IsEmpty_def)
    then show ?thesis using None Suc.IH
      by (cases "?level = []") (auto simp: reaches_below_step Let_def IsEmpty_def list_ex_iff)
  qed
qed

lemma evaluate_walk_by:
  "(Allowed (evaluate_walk cs n want) \<longrightarrow>
      (\<exists>g\<in>set cs. By (evaluate_walk cs n want) = g_ID g \<and> g_Allow g \<noteq> 0)) \<and>
   (\<not> Allowed (evaluate_walk cs n want) \<longrightarrow>
      By (evaluate_walk cs n want) = 0 \<or>
      (\<exists>g\<in>set cs. By (evaluate_walk cs n want) = g_ID g \<and> Intersects (g_Deny g) want))"
proof (induction n arbitrary: want)
  case 0
  then show ?case by simp
next
  case (Suc d)
  let ?level = "levelAt cs d"
  have sub: "set ?level \<subseteq> set cs" by (auto simp: set_levelAt)
  show ?case
  proof (cases "?level = []")
    case True
    then show ?thesis using Suc.IH [of want] by (simp add: Let_def)
  next
    case ne: False
    show ?thesis
    proof (cases "findDeny ?level want")
      case (Some g)
      with ne sub show ?thesis by (auto simp: Let_def findDeny_def dest: find_SomeD)
    next
      case None
      show ?thesis
      proof (cases "IsEmpty want")
        case True
        with ne None sub Suc.IH [of want] show ?thesis
          by (auto simp: Let_def findAnyAllow_def IsEmpty_def dest: find_SomeD
              split: option.splits)
      next
        case False
        show ?thesis
        proof (cases "allow_level ?level want")
          case (Inl dec)
          with ne None False sub allow_level_Inl [OF Inl] show ?thesis
            by (auto simp: Let_def Intersects_def)
        next
          case (Inr want')
          have "Intersects p want' \<Longrightarrow> Intersects p want" for p
            using allow_level_Inr [OF Inr] by (auto simp: Intersects_iff)
          with ne None False Inr Suc.IH [of want'] show ?thesis by (auto simp: Let_def)
        qed
      qed
    qed
  qed
qed

text \<open>The grants a decision for one user and one share can depend on.\<close>

definition relevant :: "acl_tables \<Rightarrow> int \<Rightarrow> int \<Rightarrow> acl_tables" where
  "relevant t user share =
     t\<lparr>t_grants := filter (\<lambda>g. g_Share g = share \<and> grantMatchesLocked t user g) (t_grants t)\<rparr>"

lemma grantMatches_relevant [simp]:
  "grantMatchesLocked (relevant t user share) u g = grantMatchesLocked t u g"
  by (simp add: grantMatchesLocked_def groups_of_def relevant_def)

lemma matching_relevant:
  "matchingLocked (relevant t user share) user share path = matchingLocked t user share path"
proof -
  have "t_grants (relevant t user share) =
      filter (\<lambda>g. g_Share g = share \<and> grantMatchesLocked t user g) (t_grants t)"
    by (simp add: relevant_def)
  then show ?thesis
    by (simp add: matchingLocked_def) (rule filter_cong; auto)
qed

section \<open>Properties of the evaluator\<close>

text \<open>
  C1. The level-by-level walk of \<open>evaluateLocked\<close> decides the declarative rule: an ask for
  a non-empty permission set is allowed exactly when each of its bits is allowed by some
  applicable grant that lies strictly deeper than every applicable grant denying that bit.
\<close>
theorem evaluate_decides_permits:
  "want \<noteq> 0 \<Longrightarrow>
     Allowed (evaluateLocked t user share path want) \<longleftrightarrow>
     (\<forall>i. bit want i \<longrightarrow>
        (\<exists>g. applies t user share path g \<and> bit (g_Allow g) i \<and>
           (\<forall>h. applies t user share path h \<and> bit (g_Deny h) i \<longrightarrow>
              length (g_Subpath h) < length (g_Subpath g))))"
  by (simp add: evaluateLocked_allowed permits_def)

definition team_tables :: acl_tables where
  "team_tables = load_tables
     [\<lparr>g_ID = 1, g_User = 7, g_Group = 0, g_Share = 3, g_Subpath = [''team''], g_Allow = Read,
       g_Deny = 0, g_Inherit = True, g_Label = [], g_CreatedNs = 0\<rparr>,
      \<lparr>g_ID = 2, g_User = 0, g_Group = 9, g_Share = 3, g_Subpath = [''team''], g_Allow = Download,
       g_Deny = 0, g_Inherit = True, g_Label = [], g_CreatedNs = 0\<rparr>,
      \<lparr>g_ID = 3, g_User = 7, g_Group = 0, g_Share = 3, g_Subpath = [''team'', ''x''], g_Allow = 0,
       g_Deny = Download, g_Inherit = True, g_Label = [], g_CreatedNs = 0\<rparr>]
     [\<lparr>m_User = 7, m_Group = 9\<rparr>]"

lemmas acl_eval_simps = evaluateLocked_def matchingLocked_def grantMatchesLocked_def groups_of_def
  team_tables_def load_tables_def add_member_def IsPrefixOf_def subpathEquals_def levelAt_def
  findDeny_def findAnyAllow_def Intersects_def Remove_def IsEmpty_def perm_consts Let_def

theorem evaluate_decides_permits_witness:
  "(129 :: perms) \<noteq> 0 \<and> Allowed (evaluateLocked team_tables 7 3 [''team'', ''a''] 129) \<and>
   (\<exists>g. applies team_tables 7 3 [''team'', ''a''] g \<and> bit (g_Allow g) 7 \<and>
      \<not> (\<exists>h. applies team_tables 7 3 [''team'', ''a''] h \<and> bit (g_Deny h) 7 \<and>
           length (g_Subpath g) \<le> length (g_Subpath h)))"
proof -
  have ne: "(129 :: perms) \<noteq> 0" by simp
  have all: "Allowed (evaluateLocked team_tables 7 3 [''team'', ''a''] 129)"
    by (simp add: acl_eval_simps)
  have "bit (129 :: perms) 7" by simp
  with all evaluate_decides_permits [OF ne, of team_tables 7 3 "[''team'', ''a'']"]
  have "\<exists>g. applies team_tables 7 3 [''team'', ''a''] g \<and> bit (g_Allow g) 7 \<and>
      (\<forall>h. applies team_tables 7 3 [''team'', ''a''] h \<and> bit (g_Deny h) 7 \<longrightarrow>
         length (g_Subpath h) < length (g_Subpath g))"
    by blast
  with ne all show ?thesis by (meson not_le)
qed



text \<open>
  An ask that names no permission answers reachability: it is allowed exactly when some
  applicable grant allows anything and no applicable grant that denies anything is deeper
  than it.
\<close>
theorem evaluate_empty_ask:
  "Allowed (evaluateLocked t user share path 0) \<longleftrightarrow>
     (\<exists>g. applies t user share path g \<and> g_Allow g \<noteq> 0 \<and>
        \<not> (\<exists>h. applies t user share path h \<and> g_Deny h \<noteq> 0 \<and>
             length (g_Subpath g) < length (g_Subpath h)))"
proof -
  let ?cs = "matchingLocked t user share path"
  have "reaches_below ?cs (Suc (length path)) \<longleftrightarrow>
     (\<exists>g. applies t user share path g \<and> g_Allow g \<noteq> 0 \<and>
        \<not> (\<exists>h. applies t user share path h \<and> g_Deny h \<noteq> 0 \<and>
             length (g_Subpath g) < length (g_Subpath h)))"
    using applies_depth [of t user share path]
    by (auto simp: reaches_below_def set_matchingLocked less_Suc_eq_le not_less)
  moreover have "?cs = [] \<Longrightarrow> \<not> reaches_below ?cs (Suc (length path))"
    by (simp add: reaches_below_def)
  ultimately show ?thesis
    by (auto simp: evaluateLocked_def Let_def evaluate_walk_empty simp del: evaluate_walk.simps)
qed

text \<open>
  Every decision can name its rule: an allowed decision carries the id of an applicable
  grant that allows something, a denial carries either 0 (no rule) or the id of an
  applicable grant whose deny set meets the ask.
\<close>
theorem decision_provenance:
  "if Allowed (evaluateLocked t user share path want)
   then \<exists>g. applies t user share path g \<and>
            By (evaluateLocked t user share path want) = g_ID g \<and> g_Allow g \<noteq> 0
   else By (evaluateLocked t user share path want) = 0 \<or>
        (\<exists>g. applies t user share path g \<and>
             By (evaluateLocked t user share path want) = g_ID g \<and>
             Intersects (g_Deny g) want)"
  using evaluate_walk_by [of "matchingLocked t user share path" "Suc (length path)" want]
  by (auto simp: evaluateLocked_def Let_def set_matchingLocked simp del: evaluate_walk.simps)


text \<open>
  The labels \<open>Roots\<close> projects are not always distinct: an account with two grants
  labelled \<open>a\<close> and one labelled \<open>a (2)\<close> gets two roots with the label \<open>a (2)\<close> over
  different subpaths, so looking a label up finds only the first of them.
\<close>
theorem roots_labels_collide:
  "\<exists>t r1 r2. r1 \<in> set (Roots t 7) \<and> r2 \<in> set (Roots t 7) \<and>
     re_Label r1 = re_Label r2 \<and> re_Subpath r1 \<noteq> re_Subpath r2"
proof -
  define g where "g = (\<lambda>i p l. \<lparr>g_ID = i, g_User = 7, g_Group = 0, g_Share = 3,
    g_Subpath = [p], g_Allow = Read, g_Deny = 0, g_Inherit = True, g_Label = l,
    g_CreatedNs = 0\<rparr>)"
  define t where "t = \<lparr>t_grants = [g 1 ''p'' ''a'', g 2 ''q'' ''a'', g 3 ''r'' ''a (2)''],
    t_membership = Map.empty\<rparr>"
  have labels: "map (\<lambda>r. (re_Label r, re_Subpath r)) (Roots t 7) =
      [(''a'', [''p'']), (''a (2)'', [''q'']), (''a (2)'', [''r''])]"
    by (simp add: Roots_def t_def g_def grantMatchesLocked_def Has_def perm_consts root_base_def
        numbered_label_def nat_digits_2 numeral_2_eq_2 [symmetric] Let_def)
  from labels obtain a b c where "Roots t 7 = [a, b, c]"
    and "re_Label b = ''a (2)''" "re_Subpath b = [''q'']"
    and "re_Label c = ''a (2)''" "re_Subpath c = [''r'']"
    by (auto simp: map_eq_Cons_conv)
  then show ?thesis by (intro exI [of _ t] exI [of _ b] exI [of _ c]) simp
qed

end
