(* ===== verification/Sc_AclCache.thy ===== *)
theory Sc_AclCache
  imports Sc_Acl
begin

text \<open>
  The decision cache of \<open>internal/shares/acl/cache.go\<close> and the evaluator of \<open>eval.go\<close>
  that uses it, first as a sequential object and then under concurrent callers and
  reloads. A locale states what the evaluator needs of a generation-checked memo table;
  the cache is an instance of it.
\<close>

section \<open>The interface of a generation-checked memo table\<close>

text \<open>
  A store may fail (\<^const>\<open>None\<close>: the index panic of an empty eviction queue). The laws say
  that on a well-formed table it does not, that it is found again, and that it invents no
  other entry.
\<close>

locale memo_table =
  fixes lookup :: "'c \<Rightarrow> 'k \<Rightarrow> 'g \<Rightarrow> 'v option"
    and store :: "'c \<Rightarrow> 'k \<Rightarrow> 'g \<Rightarrow> 'v \<Rightarrow> 'c option"
    and wf :: "'c \<Rightarrow> bool"
  assumes store_total: "wf c \<Longrightarrow> \<exists>c'. store c k g v = Some c'"
    and store_wf: "wf c \<Longrightarrow> store c k g v = Some c' \<Longrightarrow> wf c'"
    and lookup_stored: "wf c \<Longrightarrow> store c k g v = Some c' \<Longrightarrow> lookup c' k g = Some v"
    and lookup_old: "wf c \<Longrightarrow> store c k g v = Some c' \<Longrightarrow> lookup c' k' g' = Some w \<Longrightarrow>
        k' = k \<and> g' = g \<and> w = v \<or> lookup c k' g' = Some w"
begin

text \<open>Every entry a lookup can return satisfies \<open>P\<close>.\<close>

definition entries_ok :: "('k \<Rightarrow> 'g \<Rightarrow> 'v \<Rightarrow> bool) \<Rightarrow> 'c \<Rightarrow> bool" where
  "entries_ok P c \<longleftrightarrow> (\<forall>k g v. lookup c k g = Some v \<longrightarrow> P k g v)"

lemma entries_okD: "entries_ok P c \<Longrightarrow> lookup c k g = Some v \<Longrightarrow> P k g v"
  by (simp add: entries_ok_def)

lemma entries_ok_mono:
  "entries_ok P c \<Longrightarrow> (\<And>k g v. P k g v \<Longrightarrow> Q k g v) \<Longrightarrow> entries_ok Q c"
  by (simp add: entries_ok_def)

lemma entries_ok_store:
  assumes "wf c" "entries_ok P c" "store c k g v = Some c'" "P k g v"
  shows "entries_ok P c'"
  using assms lookup_old unfolding entries_ok_def by metis

end

section \<open>The decision cache (cache.go)\<close>

record cache_key =
  k_user :: int
  k_share :: int
  k_path :: string
  k_want :: perms

record cache_entry =
  e_gen :: "64 word"
  e_d :: decision

record decision_cache =
  dc_cap :: nat
  dc_data :: "cache_key \<rightharpoonup> cache_entry"
  dc_order :: "cache_key list"

definition decisionCacheCapacity :: nat where "decisionCacheCapacity = 4096"

definition newDecisionCache :: "nat \<Rightarrow> decision_cache" where
  "newDecisionCache capacity = \<lparr>dc_cap = capacity, dc_data = Map.empty, dc_order = []\<rparr>"

definition dc_lookup :: "decision_cache \<Rightarrow> cache_key \<Rightarrow> 64 word \<Rightarrow> decision option" where
  "dc_lookup c k gen =
     (case dc_data c k of None \<Rightarrow> None
      | Some e \<Rightarrow> if e_gen e \<noteq> gen then None else Some (e_d e))"

text \<open>Reading \<open>c.order[0]\<close> of an empty queue panics, which is the result \<^const>\<open>None\<close>.\<close>

definition dc_store :: "decision_cache \<Rightarrow> cache_key \<Rightarrow> 64 word \<Rightarrow> decision \<Rightarrow> decision_cache option" where
  "dc_store c k gen d =
     (case (if dc_data c k = None
            then (if length (dc_order c) \<ge> dc_cap c
                  then (case dc_order c of [] \<Rightarrow> None
                        | oldest # rest \<Rightarrow>
                            Some (c\<lparr>dc_order := rest @ [k],
                                    dc_data := (dc_data c)(oldest := None)\<rparr>))
                  else Some (c\<lparr>dc_order := dc_order c @ [k]\<rparr>))
            else Some c) of
        None \<Rightarrow> None
      | Some c1 \<Rightarrow> Some (c1\<lparr>dc_data := (dc_data c1)(k \<mapsto> \<lparr>e_gen = gen, e_d = d\<rparr>)\<rparr>))"

definition dc_wf :: "decision_cache \<Rightarrow> bool" where
  "dc_wf c \<longleftrightarrow> 0 < dc_cap c \<and> distinct (dc_order c) \<and> set (dc_order c) = dom (dc_data c) \<and>
     length (dc_order c) \<le> dc_cap c"

lemma dc_wf_new: "0 < n \<Longrightarrow> dc_wf (newDecisionCache n)"
  by (simp add: dc_wf_def newDecisionCache_def)

text \<open>The three ways a store goes: refresh, insert, insert with an eviction.\<close>

lemma dc_store_cases:
  assumes "dc_wf c"
  obtains (refresh) "dc_data c k \<noteq> None"
      "dc_store c k g d = Some (c\<lparr>dc_data := (dc_data c)(k \<mapsto> \<lparr>e_gen = g, e_d = d\<rparr>)\<rparr>)"
  | (insert) "dc_data c k = None" "length (dc_order c) < dc_cap c"
      "dc_store c k g d = Some (c\<lparr>dc_order := dc_order c @ [k],
         dc_data := (dc_data c)(k \<mapsto> \<lparr>e_gen = g, e_d = d\<rparr>)\<rparr>)"
  | (evict) old rest where "dc_data c k = None" "dc_order c = old # rest"
      "length (dc_order c) = dc_cap c"
      "dc_store c k g d = Some (c\<lparr>dc_order := rest @ [k],
         dc_data := (dc_data c)(old := None, k \<mapsto> \<lparr>e_gen = g, e_d = d\<rparr>)\<rparr>)"
proof (cases "dc_data c k")
  case (Some e)
  then show ?thesis by (intro refresh) (simp_all add: dc_store_def)
next
  case None
  show ?thesis
  proof (cases "length (dc_order c) < dc_cap c")
    case True
    with None show ?thesis by (intro insert) (simp_all add: dc_store_def)
  next
    case False
    then obtain old rest where "dc_order c = old # rest"
      using assms by (cases "dc_order c") (auto simp: dc_wf_def)
    with None False assms show ?thesis by (intro evict) (auto simp: dc_store_def dc_wf_def)
  qed
qed

lemma dc_store_wf:
  assumes wf: "dc_wf c" and st: "dc_store c k g d = Some c'"
  shows "dc_wf c'"
proof -
  from wf have ord: "distinct (dc_order c)" "set (dc_order c) = dom (dc_data c)"
    "length (dc_order c) \<le> dc_cap c" "0 < dc_cap c"
    by (simp_all add: dc_wf_def)
  show ?thesis
  proof (rule dc_store_cases [OF wf, of k g d])
    assume "dc_data c k \<noteq> None"
      and "dc_store c k g d = Some (c\<lparr>dc_data := (dc_data c)(k \<mapsto> \<lparr>e_gen = g, e_d = d\<rparr>)\<rparr>)"
    with st ord show ?thesis by (auto simp: dc_wf_def split: if_splits)
  next
    assume "dc_data c k = None" "length (dc_order c) < dc_cap c"
      and "dc_store c k g d = Some (c\<lparr>dc_order := dc_order c @ [k],
         dc_data := (dc_data c)(k \<mapsto> \<lparr>e_gen = g, e_d = d\<rparr>)\<rparr>)"
    with st ord show ?thesis by (auto simp: dc_wf_def domIff)
  next
    fix old rest
    assume k: "dc_data c k = None" and o: "dc_order c = old # rest"
      and "length (dc_order c) = dc_cap c"
      and "dc_store c k g d = Some (c\<lparr>dc_order := rest @ [k],
         dc_data := (dc_data c)(old := None, k \<mapsto> \<lparr>e_gen = g, e_d = d\<rparr>)\<rparr>)"
    moreover from ord(1,2) o have "set rest = dom (dc_data c) - {old}" by auto
    moreover from k ord(2) o have "k \<notin> set rest" by (metis domIff list.set_intros(2))
    ultimately show ?thesis using st ord by (auto simp: dc_wf_def)
  qed
qed

interpretation dc: memo_table dc_lookup dc_store dc_wf
proof
  fix c k g v c' k' g' w
  assume wf: "dc_wf c"
  show "\<exists>c'. dc_store c k g v = Some c'"
    by (rule dc_store_cases [OF wf, of k g v]) auto
  assume st: "dc_store c k g v = Some c'"
  show "dc_wf c'" using wf st by (rule dc_store_wf)
  show "dc_lookup c' k g = Some v"
    by (rule dc_store_cases [OF wf, of k g v]) (use st in \<open>auto simp: dc_lookup_def\<close>)
  assume "dc_lookup c' k' g' = Some w"
  then show "k' = k \<and> g' = g \<and> w = v \<or> dc_lookup c k' g' = Some w"
    by (rule_tac dc_store_cases [OF wf, of k g v])
      (use st in \<open>auto simp: dc_lookup_def split: option.splits if_splits\<close>)
qed

section \<open>The evaluator (eval.go)\<close>

record evaluator =
  ev_tables :: acl_tables
  ev_gen :: "64 word"
  ev_cache :: decision_cache

definition NewEvaluator :: evaluator where
  "NewEvaluator =
     \<lparr>ev_tables = \<lparr>t_grants = [], t_membership = Map.empty\<rparr>, ev_gen = 0,
      ev_cache = newDecisionCache decisionCacheCapacity\<rparr>"

definition LoadFromState :: "grant list \<Rightarrow> membership list \<Rightarrow> evaluator \<Rightarrow> evaluator" where
  "LoadFromState gs ms e = e\<lparr>ev_tables := load_tables gs ms, ev_gen := ev_gen e + 1\<rparr>"

definition ReplaceGrants :: "grant list \<Rightarrow> evaluator \<Rightarrow> evaluator" where
  "ReplaceGrants gs e =
     e\<lparr>ev_tables := (ev_tables e)\<lparr>t_grants := gs\<rparr>, ev_gen := ev_gen e + 1\<rparr>"

definition SetMemberships :: "(int \<rightharpoonup> int list) \<Rightarrow> evaluator \<Rightarrow> evaluator" where
  "SetMemberships m e =
     e\<lparr>ev_tables := (ev_tables e)\<lparr>t_membership := m\<rparr>, ev_gen := ev_gen e + 1\<rparr>"

definition MembershipOf :: "evaluator \<Rightarrow> int \<Rightarrow> int list" where
  "MembershipOf e user = groups_of (ev_tables e) user"

record request =
  r_user :: int
  r_share :: int
  r_path :: acl_path
  r_want :: perms

definition key_of :: "request \<Rightarrow> cache_key" where
  "key_of r = \<lparr>k_user = r_user r, k_share = r_share r, k_path = Path_String (r_path r),
               k_want = r_want r\<rparr>"

definition decide :: "acl_tables \<Rightarrow> request \<Rightarrow> decision" where
  "decide t r = evaluateLocked t (r_user r) (r_share r) (r_path r) (r_want r)"

definition Evaluate :: "evaluator \<Rightarrow> request \<Rightarrow> (decision \<times> evaluator) option" where
  "Evaluate e r =
     (case dc_lookup (ev_cache e) (key_of r) (ev_gen e) of
        Some d \<Rightarrow> Some (d, e)
      | None \<Rightarrow>
          (let d = decide (ev_tables e) r in
           case dc_store (ev_cache e) (key_of r) (ev_gen e) d of
             None \<Rightarrow> None
           | Some c \<Rightarrow> Some (d, e\<lparr>ev_cache := c\<rparr>)))"

fun effective_loop :: "evaluator \<Rightarrow> request \<Rightarrow> perms list \<Rightarrow> perms \<Rightarrow> (perms \<times> evaluator) option" where
  "effective_loop e r [] out = Some (out, e)"
| "effective_loop e r (b # bs) out =
     (case Evaluate e (r\<lparr>r_want := b\<rparr>) of
        None \<Rightarrow> None
      | Some (d, e') \<Rightarrow> effective_loop e' r bs (if Allowed d then out OR b else out))"

definition Effective :: "evaluator \<Rightarrow> request \<Rightarrow> (perms \<times> evaluator) option" where
  "Effective e r = effective_loop e r orderedBits 0"

lemma key_of_inject:
  "wf_path (r_path r) \<Longrightarrow> wf_path (r_path r') \<Longrightarrow> key_of r = key_of r' \<Longrightarrow> r = r'"
  by (auto simp: key_of_def intro!: request.equality dest: Path_String_inject)

text \<open>
  The cache agrees with the tables: every entry of the current generation, whatever
  well-formed request it answers, holds the uncached decision.
\<close>

definition entry_true :: "evaluator \<Rightarrow> cache_key \<Rightarrow> 64 word \<Rightarrow> decision \<Rightarrow> bool" where
  "entry_true e k g d \<longleftrightarrow>
     (\<forall>r. wf_path (r_path r) \<and> key_of r = k \<and> g = ev_gen e \<longrightarrow> d = decide (ev_tables e) r)"

definition ev_inv :: "evaluator \<Rightarrow> bool" where
  "ev_inv e \<longleftrightarrow> dc_wf (ev_cache e) \<and> dc.entries_ok (entry_true e) (ev_cache e)"

lemma Evaluate_correct:
  assumes inv: "ev_inv e" and wf: "wf_path (r_path r)"
  shows "\<exists>e'. Evaluate e r = Some (decide (ev_tables e) r, e') \<and> ev_inv e' \<and>
           ev_tables e' = ev_tables e \<and> ev_gen e' = ev_gen e"
proof (cases "dc_lookup (ev_cache e) (key_of r) (ev_gen e)")
  case (Some d)
  with inv have "entry_true e (key_of r) (ev_gen e) d"
    by (auto simp: ev_inv_def dest: dc.entries_okD)
  with wf have "d = decide (ev_tables e) r" by (auto simp: entry_true_def)
  with Some inv show ?thesis by (simp add: Evaluate_def)
next
  case None
  let ?d = "decide (ev_tables e) r"
  from inv obtain c where c: "dc_store (ev_cache e) (key_of r) (ev_gen e) ?d = Some c"
    using dc.store_total unfolding ev_inv_def by blast
  have "entry_true e (key_of r) (ev_gen e) ?d"
    using wf key_of_inject unfolding entry_true_def by metis
  with inv c have "dc.entries_ok (entry_true e) c" and "dc_wf c"
    by (auto simp: ev_inv_def intro: dc.entries_ok_store dc.store_wf)
  then have "ev_inv (e\<lparr>ev_cache := c\<rparr>)"
    by (auto simp: ev_inv_def entry_true_def elim: dc.entries_ok_mono)
  with None c show ?thesis by (simp add: Evaluate_def)
qed

lemma effective_loop_correct:
  assumes "ev_inv e" and "wf_path (r_path r)"
  shows "\<exists>e'. effective_loop e r bs out =
      Some (foldl (\<lambda>out b. if Allowed (decide (ev_tables e) (r\<lparr>r_want := b\<rparr>))
                           then out OR b else out) out bs, e') \<and>
      ev_inv e' \<and> ev_tables e' = ev_tables e \<and> ev_gen e' = ev_gen e"
  using assms
proof (induction bs arbitrary: e out)
  case (Cons b bs)
  from Evaluate_correct [of e "r\<lparr>r_want := b\<rparr>"] Cons.prems
  obtain e1 where e1: "Evaluate e (r\<lparr>r_want := b\<rparr>) =
      Some (decide (ev_tables e) (r\<lparr>r_want := b\<rparr>), e1)" "ev_inv e1"
      "ev_tables e1 = ev_tables e" "ev_gen e1 = ev_gen e"
    by auto
  from Cons.IH [OF e1(2) Cons.prems(2),
      of "if Allowed (decide (ev_tables e) (r\<lparr>r_want := b\<rparr>)) then out OR b else out"]
  show ?case using e1 by simp
qed simp

section \<open>Concurrent callers and reloads\<close>

text \<open>
  \<open>Evaluate\<close> takes the evaluator's lock twice and the cache's lock twice: it reads the
  generation, looks the key up, computes under the read lock, and stores. Each of those is
  one step here, and steps of different calls and reloads interleave freely. \<open>s_hist\<close> is
  a history of the tables by generation, not part of the program's state.
\<close>

datatype phase =
    Idle
  | Asked request "64 word"
  | Missed request "64 word"
  | Computed request "64 word" decision

record sys =
  s_tables :: acl_tables
  s_gen :: "64 word"
  s_cache :: decision_cache
  s_threads :: "nat \<Rightarrow> phase"
  s_hist :: "acl_tables list"

datatype event = Internal | Return nat request "64 word" decision

definition init_sys :: sys where
  "init_sys = \<lparr>s_tables = ev_tables NewEvaluator, s_gen = ev_gen NewEvaluator,
     s_cache = ev_cache NewEvaluator, s_threads = (\<lambda>_. Idle),
     s_hist = [ev_tables NewEvaluator]\<rparr>"

definition install :: "acl_tables \<Rightarrow> sys \<Rightarrow> sys" where
  "install t s = s\<lparr>s_tables := t, s_gen := s_gen s + 1, s_hist := s_hist s @ [t]\<rparr>"

text \<open>
  A reload step is taken only while the 64-bit generation counter has not wrapped, that is
  during the first \<open>2\<^sup>6\<^sup>4 - 1\<close> reloads.
\<close>

inductive ev_step :: "sys \<Rightarrow> event \<Rightarrow> sys \<Rightarrow> bool" where
  ask: "s_threads s i = Idle \<Longrightarrow> wf_path (r_path r) \<Longrightarrow>
    ev_step s Internal (s\<lparr>s_threads := (s_threads s)(i := Asked r (s_gen s))\<rparr>)"
| hit: "s_threads s i = Asked r g \<Longrightarrow> dc_lookup (s_cache s) (key_of r) g = Some d \<Longrightarrow>
    ev_step s (Return i r g d) (s\<lparr>s_threads := (s_threads s)(i := Idle)\<rparr>)"
| miss: "s_threads s i = Asked r g \<Longrightarrow> dc_lookup (s_cache s) (key_of r) g = None \<Longrightarrow>
    ev_step s Internal (s\<lparr>s_threads := (s_threads s)(i := Missed r g)\<rparr>)"
| compute: "s_threads s i = Missed r g \<Longrightarrow>
    ev_step s Internal (s\<lparr>s_threads := (s_threads s)(i := Computed r g (decide (s_tables s) r))\<rparr>)"
| store: "s_threads s i = Computed r g d \<Longrightarrow> dc_store (s_cache s) (key_of r) g d = Some c \<Longrightarrow>
    ev_step s (Return i r g d) (s\<lparr>s_threads := (s_threads s)(i := Idle), s_cache := c\<rparr>)"
| load: "s_gen s \<noteq> - 1 \<Longrightarrow> ev_step s Internal (install (load_tables gs ms) s)"
| replace: "s_gen s \<noteq> - 1 \<Longrightarrow> ev_step s Internal (install ((s_tables s)\<lparr>t_grants := gs\<rparr>) s)"
| memberships: "s_gen s \<noteq> - 1 \<Longrightarrow>
    ev_step s Internal (install ((s_tables s)\<lparr>t_membership := m\<rparr>) s)"

inductive ev_reachable :: "sys \<Rightarrow> bool" where
  start: "ev_reachable init_sys"
| step: "ev_reachable s \<Longrightarrow> ev_step s ev s' \<Longrightarrow> ev_reachable s'"

text \<open>A decision that some generation of the history from \<open>g\<close> on would give.\<close>

definition fresh :: "acl_tables list \<Rightarrow> request \<Rightarrow> 64 word \<Rightarrow> decision \<Rightarrow> bool" where
  "fresh h r g d \<longleftrightarrow> (\<exists>j. unat g \<le> j \<and> j < length h \<and> d = decide (h ! j) r)"

definition entry_fresh :: "acl_tables list \<Rightarrow> cache_key \<Rightarrow> 64 word \<Rightarrow> decision \<Rightarrow> bool" where
  "entry_fresh h k g d \<longleftrightarrow> (\<exists>r. wf_path (r_path r) \<and> key_of r = k \<and> fresh h r g d)"

definition thread_ok :: "acl_tables list \<Rightarrow> phase \<Rightarrow> bool" where
  "thread_ok h p = (case p of
       Idle \<Rightarrow> True
     | Asked r g \<Rightarrow> wf_path (r_path r) \<and> unat g < length h
     | Missed r g \<Rightarrow> wf_path (r_path r) \<and> unat g < length h
     | Computed r g d \<Rightarrow> wf_path (r_path r) \<and> fresh h r g d)"

definition sys_inv :: "sys \<Rightarrow> bool" where
  "sys_inv s \<longleftrightarrow>
     length (s_hist s) = Suc (unat (s_gen s)) \<and> s_hist s ! unat (s_gen s) = s_tables s \<and>
     dc_wf (s_cache s) \<and> dc.entries_ok (entry_fresh (s_hist s)) (s_cache s) \<and>
     (\<forall>i. thread_ok (s_hist s) (s_threads s i))"

lemma fresh_append: "fresh h r g d \<Longrightarrow> fresh (h @ [t]) r g d"
proof -
  assume "fresh h r g d"
  then obtain j where "unat g \<le> j" "j < length h" "d = decide (h ! j) r"
    by (auto simp: fresh_def)
  then show ?thesis unfolding fresh_def by (intro exI [of _ j]) (simp add: nth_append)
qed

lemma entry_fresh_append: "entry_fresh h k g d \<Longrightarrow> entry_fresh (h @ [t]) k g d"
  using fresh_append unfolding entry_fresh_def by blast

lemma thread_ok_append: "thread_ok h p \<Longrightarrow> thread_ok (h @ [t]) p"
  by (cases p) (auto simp: thread_ok_def fresh_append)

lemma unat_succ_gen: "(g :: 64 word) \<noteq> - 1 \<Longrightarrow> unat (g + 1) = Suc (unat g)"
  by (metis add.commute add_eq_0_iff2 unatSuc)

lemma sys_inv_install:
  assumes "sys_inv s" and "s_gen s \<noteq> - 1"
  shows "sys_inv (install t s)"
proof -
  have "dc.entries_ok (entry_fresh (s_hist s @ [t])) (s_cache s)"
    using assms(1) entry_fresh_append unfolding sys_inv_def by (blast intro: dc.entries_ok_mono)
  moreover have "\<forall>i. thread_ok (s_hist s @ [t]) (s_threads s i)"
    using assms(1) thread_ok_append unfolding sys_inv_def by blast
  ultimately show ?thesis
    using assms(1) unat_succ_gen [OF assms(2)] by (simp add: sys_inv_def install_def nth_append)
qed

lemma sys_inv_thread:
  "sys_inv s \<Longrightarrow> thread_ok (s_hist s) p \<Longrightarrow> sys_inv (s\<lparr>s_threads := (s_threads s)(i := p)\<rparr>)"
  by (simp add: sys_inv_def)

lemma sys_inv_threadD: "sys_inv s \<Longrightarrow> s_threads s i = p \<Longrightarrow> thread_ok (s_hist s) p"
  by (auto simp: sys_inv_def)

lemma sys_inv_fresh_now:
  assumes "sys_inv s" and "unat g < length (s_hist s)"
  shows "fresh (s_hist s) r g (decide (s_tables s) r)"
  unfolding fresh_def
  by (rule exI [of _ "unat (s_gen s)"]) (use assms in \<open>simp add: sys_inv_def\<close>)

lemma sys_inv_store:
  assumes inv: "sys_inv s" and th: "s_threads s i = Computed r g d"
    and st: "dc_store (s_cache s) (key_of r) g d = Some c"
  shows "sys_inv (s\<lparr>s_threads := (s_threads s)(i := Idle), s_cache := c\<rparr>)"
proof -
  have "thread_ok (s_hist s) (Computed r g d)" using inv th by (rule sys_inv_threadD)
  then have "entry_fresh (s_hist s) (key_of r) g d"
    unfolding thread_ok_def entry_fresh_def by auto
  moreover from inv have "dc_wf (s_cache s)"
    and "dc.entries_ok (entry_fresh (s_hist s)) (s_cache s)"
    by (simp_all add: sys_inv_def)
  ultimately have "dc_wf c" and "dc.entries_ok (entry_fresh (s_hist s)) c"
    using st dc.store_wf dc.entries_ok_store by blast+
  with inv show ?thesis by (simp add: sys_inv_def) (simp add: thread_ok_def)
qed

lemma sys_inv_step: "ev_step s ev s' \<Longrightarrow> sys_inv s \<Longrightarrow> sys_inv s'"
proof (induction rule: ev_step.induct)
  case (ask s i r)
  then show ?case by (intro sys_inv_thread) (simp_all add: thread_ok_def sys_inv_def)
next
  case (hit s i r g d)
  then show ?case by (intro sys_inv_thread) (simp_all add: thread_ok_def)
next
  case (miss s i r g)
  then have "thread_ok (s_hist s) (Asked r g)" using sys_inv_threadD by blast
  with miss show ?case by (intro sys_inv_thread) (simp_all add: thread_ok_def)
next
  case (compute s i r g)
  then have "thread_ok (s_hist s) (Missed r g)" using sys_inv_threadD by blast
  with compute show ?case
    by (intro sys_inv_thread) (simp_all add: thread_ok_def sys_inv_fresh_now)
next
  case (store s i r g d c)
  then show ?case by (intro sys_inv_store)
qed (simp_all add: sys_inv_install)

lemma sys_inv_init: "sys_inv init_sys"
  by (auto simp: sys_inv_def init_sys_def NewEvaluator_def thread_ok_def dc_wf_new
      decisionCacheCapacity_def dc.entries_ok_def dc_lookup_def newDecisionCache_def)
     (simp add: dc_wf_def)

lemma ev_reachable_inv: "ev_reachable s \<Longrightarrow> sys_inv s"
  by (induction rule: ev_reachable.induct) (auto intro: sys_inv_init sys_inv_step)

inductive_cases ev_step_returnE: "ev_step s (Return i r g d) s'"

lemma dc_store_cap: "dc_store c k g d = Some c' \<Longrightarrow> dc_cap c' = dc_cap c"
  by (auto simp: dc_store_def split: option.splits if_splits list.splits)

lemma ev_reachable_cap: "ev_reachable s \<Longrightarrow> dc_cap (s_cache s) = decisionCacheCapacity"
proof (induction rule: ev_reachable.induct)
  case start
  show ?case by (simp add: init_sys_def NewEvaluator_def newDecisionCache_def)
next
  case (step s ev s')
  from step.hyps(2) step.IH show ?case
    by cases (auto simp: install_def dc_store_cap)
qed

section \<open>Properties of the cached evaluator\<close>

text \<open>
  C2. No interleaving of cached calls and table reloads returns a stale decision: whatever
  a call returns, from the cache or computed, is the uncached decision under a table that
  was installed at some instant between the call's reading of the generation and its
  return; without a reload in between it is the decision under the current tables.
\<close>
theorem concurrent_evaluate_linearizable:
  assumes "ev_reachable s" and "ev_step s (Return i r g d) s'"
  shows "(\<exists>j. unat g \<le> j \<and> j \<le> unat (s_gen s) \<and> d = decide (s_hist s ! j) r) \<and>
         (g = s_gen s \<longrightarrow> d = decide (s_tables s) r)"
proof -
  have inv: "sys_inv s" using assms(1) by (rule ev_reachable_inv)
  from assms(2) have fresh: "fresh (s_hist s) r g d"
  proof (elim ev_step_returnE)
    assume th: "s_threads s i = Asked r g"
      and lk: "dc_lookup (s_cache s) (key_of r) g = Some d"
    have "thread_ok (s_hist s) (Asked r g)" using inv th by (rule sys_inv_threadD)
    then have wf: "wf_path (r_path r)" by (simp add: thread_ok_def)
    from inv lk have "entry_fresh (s_hist s) (key_of r) g d"
      unfolding sys_inv_def by (blast dest: dc.entries_okD)
    then show ?thesis using wf key_of_inject unfolding entry_fresh_def by metis
  next
    assume th: "s_threads s i = Computed r g d"
    have "thread_ok (s_hist s) (Computed r g d)" using inv th by (rule sys_inv_threadD)
    then show ?thesis by (simp add: thread_ok_def)
  qed
  then obtain j where "unat g \<le> j" "j < length (s_hist s)" "d = decide (s_hist s ! j) r"
    by (auto simp: fresh_def)
  moreover from this inv have "j \<le> unat (s_gen s)" and "s_hist s ! unat (s_gen s) = s_tables s"
    by (auto simp: sys_inv_def)
  ultimately show ?thesis by (metis le_antisym)
qed

definition demo_request :: request where
  "demo_request = \<lparr>r_user = 7, r_share = 3, r_path = [''a''], r_want = Read\<rparr>"

definition demo_sys :: "phase \<Rightarrow> sys" where
  "demo_sys p = init_sys\<lparr>s_threads := (\<lambda>_. Idle)(0 := p)\<rparr>"

lemma demo_run:
  "ev_reachable (demo_sys (Computed demo_request 0 (decide (s_tables init_sys) demo_request)))"
proof -
  have "ev_step init_sys Internal (demo_sys (Asked demo_request 0))"
    using ev_step.ask [of init_sys 0 demo_request]
    by (simp add: demo_sys_def init_sys_def demo_request_def wf_path_def NewEvaluator_def)
  moreover have "ev_step (demo_sys (Asked demo_request 0)) Internal (demo_sys (Missed demo_request 0))"
    using ev_step.miss [of "demo_sys (Asked demo_request 0)" 0 demo_request 0]
    by (simp add: demo_sys_def init_sys_def NewEvaluator_def dc_lookup_def newDecisionCache_def)
  moreover have "ev_step (demo_sys (Missed demo_request 0)) Internal
      (demo_sys (Computed demo_request 0 (decide (s_tables init_sys) demo_request)))"
    using ev_step.compute [of "demo_sys (Missed demo_request 0)" 0 demo_request 0]
    by (simp add: demo_sys_def)
  ultimately show ?thesis using ev_reachable.start ev_reachable.step by metis
qed

theorem concurrent_evaluate_linearizable_witness:
  "\<exists>s s' d. ev_reachable s \<and> ev_step s (Return 0 demo_request 0 d) s' \<and>
     (\<exists>j. unat (0 :: 64 word) \<le> j \<and> j \<le> unat (s_gen s) \<and> d = decide (s_hist s ! j) demo_request)"
proof -
  define d where "d = decide (s_tables init_sys) demo_request"
  define s where "s = demo_sys (Computed demo_request 0 d)"
  have r: "ev_reachable s" using demo_run by (simp add: s_def d_def)
  then have "dc_wf (s_cache s)" using ev_reachable_inv by (simp add: sys_inv_def)
  then obtain c where c: "dc_store (s_cache s) (key_of demo_request) 0 d = Some c"
    using dc.store_total by blast
  have st: "ev_step s (Return 0 demo_request 0 d)
      (s\<lparr>s_threads := (s_threads s)(0 := Idle), s_cache := c\<rparr>)"
    by (rule ev_step.store [OF _ c]) (simp add: s_def demo_sys_def)
  show ?thesis using r st concurrent_evaluate_linearizable [OF r st] by blast
qed



text \<open>
  The cache stays bounded and consistent however callers and reloads interleave: at most
  4096 decisions are held, and the eviction queue lists each cached key exactly once.
\<close>
theorem cache_bounded:
  assumes "ev_reachable s"
  shows "card (dom (dc_data (s_cache s))) \<le> 4096 \<and> distinct (dc_order (s_cache s)) \<and>
         set (dc_order (s_cache s)) = dom (dc_data (s_cache s))"
proof -
  have "dc_wf (s_cache s)" using ev_reachable_inv [OF assms] by (simp add: sys_inv_def)
  then have o: "distinct (dc_order (s_cache s))"
      "set (dc_order (s_cache s)) = dom (dc_data (s_cache s))"
      "length (dc_order (s_cache s)) \<le> dc_cap (s_cache s)"
    by (simp_all add: dc_wf_def)
  then have "card (dom (dc_data (s_cache s))) = length (dc_order (s_cache s))"
    by (metis distinct_card)
  with o show ?thesis
    using ev_reachable_cap [OF assms] by (simp add: decisionCacheCapacity_def)
qed

theorem cache_bounded_witness:
  "ev_reachable init_sys \<and> card (dom (dc_data (s_cache init_sys))) \<le> 4096"
  using ev_reachable.start cache_bounded [OF ev_reachable.start] by simp

end
