(* ===== verification/Sc_Ident.thy ===== *)
theory Sc_Ident
  imports Sc_Prelude
begin

unbundle bit_operations_syntax

text \<open>
  Width conversions and file identities: \<open>internal/platform/number/num.go\<close> (the one checked
  conversion between integer types) and \<open>internal/db/ident/ident.go\<close> (the identity tuple the
  durable tables are keyed by, and its spelling in a database with one signed integer type).
\<close>

section \<open>Checked conversions\<close>

text \<open>A Go integer type: its width and whether it is signed. Values are mathematical integers.\<close>

datatype int_type = Signed nat | Unsigned nat

fun ty_min :: "int_type \<Rightarrow> int" where
  "ty_min (Signed w) = - (2 ^ (w - 1))"
| "ty_min (Unsigned w) = 0"

fun ty_max :: "int_type \<Rightarrow> int" where
  "ty_max (Signed w) = 2 ^ (w - 1) - 1"
| "ty_max (Unsigned w) = 2 ^ w - 1"

fun ty_width :: "int_type \<Rightarrow> nat" where
  "ty_width (Signed w) = w"
| "ty_width (Unsigned w) = w"

definition fits :: "int_type \<Rightarrow> int \<Rightarrow> bool" where
  "fits t v \<longleftrightarrow> ty_min t \<le> v \<and> v \<le> ty_max t"

text \<open>The language's conversion \<open>T(v)\<close>: the value of the type congruent to \<open>v\<close>.\<close>

definition convert :: "int_type \<Rightarrow> int \<Rightarrow> int" where
  "convert t v = (v - ty_min t) mod 2 ^ ty_width t + ty_min t"

definition Narrow :: "int_type \<Rightarrow> int_type \<Rightarrow> int \<Rightarrow> int option" where
  "Narrow to from v =
     (let out = convert to v;
          roundTrip = convert from out;
          signFlip = ((v < 0) \<noteq> (out < 0))
      in if roundTrip \<noteq> v \<or> signFlip then None else Some out)"

section \<open>Identities\<close>

record ident =
  I_Share :: int
  I_Dev :: "64 word"
  I_Ino :: "64 word"
  I_Btime :: "int option"

text \<open>The flattened comparable form and the comparison by value.\<close>

definition ident_key :: "ident \<Rightarrow> int \<times> 64 word \<times> 64 word \<times> bool \<times> int" where
  "ident_key i =
     (case I_Btime i of
        Some b \<Rightarrow> (I_Share i, I_Dev i, I_Ino i, True, b)
      | None \<Rightarrow> (I_Share i, I_Dev i, I_Ino i, False, 0))"

definition Ident_Equal :: "ident \<Rightarrow> ident \<Rightarrow> bool" where
  "Ident_Equal i j \<longleftrightarrow> ident_key i = ident_key j"

text \<open>
  The reinterpretation of a 64-bit pattern as a signed number and back, one byte at a time,
  most significant first. A stored \<open>int64\<close> is an \<^typ>\<open>int\<close>; its shift is arithmetic.
\<close>

fun signed_loop :: "64 word \<Rightarrow> nat list \<Rightarrow> 64 word \<Rightarrow> 64 word" where
  "signed_loop v [] out = out"
| "signed_loop v (i # is) out =
     signed_loop v is (push_bit 8 out OR (drop_bit (56 - 8 * i) v AND 0xff))"

definition signed :: "64 word \<Rightarrow> int" where
  "signed v = sint (signed_loop v [0..<8] 0)"

fun unsigned_loop :: "64 word \<Rightarrow> nat list \<Rightarrow> 64 word \<Rightarrow> 64 word" where
  "unsigned_loop v [] out = out"
| "unsigned_loop v (i # is) out =
     unsigned_loop v is (push_bit 8 out OR (signed_drop_bit (56 - 8 * i) v AND 0xff))"

definition unsigned :: "int \<Rightarrow> 64 word" where
  "unsigned v = unsigned_loop (word_of_int v) [0..<8] 0"

type_synonym ident_row = "int \<times> int \<times> int \<times> int"

definition ToSQL :: "ident \<Rightarrow> ident_row" where
  "ToSQL i =
     (case I_Btime i of
        Some b \<Rightarrow> (signed (I_Dev i), signed (I_Ino i), 1, b)
      | None \<Rightarrow> (signed (I_Dev i), signed (I_Ino i), 0, 0))"

definition FromSQL :: "int \<Rightarrow> ident_row \<Rightarrow> ident option" where
  "FromSQL share row =
     (case row of (dev, ino, present, btime) \<Rightarrow>
        (case Narrow (Unsigned 32) (Signed 64) share of
           None \<Rightarrow> None
         | Some s \<Rightarrow>
             Some \<lparr>I_Share = s, I_Dev = unsigned dev, I_Ino = unsigned ino,
                   I_Btime = (if present \<noteq> 0 then Some btime else None)\<rparr>))"

section \<open>Lemmas\<close>

lemma ty_range: "0 < ty_width t \<Longrightarrow> ty_max t = ty_min t + 2 ^ ty_width t - 1"
  by (cases t) (auto simp: power_eq_if)

lemma convert_fits: "0 < ty_width t \<Longrightarrow> fits t (convert t v)"
  using pos_mod_bound [of "2 ^ ty_width t" "v - ty_min t"]
  by (simp add: fits_def convert_def ty_range)

lemma convert_id: "0 < ty_width t \<Longrightarrow> fits t v \<Longrightarrow> convert t v = v"
  by (simp add: fits_def convert_def ty_range)

lemma convert_cong: "(convert t v - v) mod 2 ^ ty_width t = 0"
proof -
  have "convert t v - v = - (2 ^ ty_width t * ((v - ty_min t) div 2 ^ ty_width t))"
    unfolding convert_def using mult_div_mod_eq [of "2 ^ ty_width t" "v - ty_min t"] by (simp add: algebra_simps)
  then show ?thesis by simp
qed

lemma fits_bounds:
  assumes "0 < ty_width t" and "fits t v"
  shows "v < 2 ^ ty_width t" and "- (2 ^ ty_width t) < v"
proof -
  define h :: int where "h = 2 ^ (ty_width t - 1)"
  have full: "(2::int) ^ ty_width t = 2 * h" and pos: "0 < h"
    using assms(1) by (simp_all add: h_def power_Suc [symmetric] del: power_Suc)
  have "ty_min t = - h \<and> ty_max t = h - 1 \<or> ty_min t = 0 \<and> ty_max t = 2 * h - 1"
    using full by (cases t) (simp_all add: h_def)
  with assms(2) full pos show "v < 2 ^ ty_width t" "- (2 ^ ty_width t) < v"
    unfolding fits_def by linarith+
qed

lemma same_sign_close:
  fixes a b :: int
  assumes "(a - b) mod M = 0" and "(a < 0) = (b < 0)" and "\<bar>a\<bar> < M" and "\<bar>b\<bar> < M"
  shows "a = b"
proof (rule ccontr)
  assume "a \<noteq> b"
  then have nz: "a - b \<noteq> 0" by simp
  have dvd: "M dvd a - b" using assms(1) by (rule mod_0_imp_dvd)
  have "\<bar>M\<bar> \<le> \<bar>a - b\<bar>" by (rule dvd_imp_le_int [OF nz dvd])
  moreover have "\<bar>a - b\<bar> < M"
  proof (cases "a < 0")
    case True
    with assms(2) have "b < 0" by simp
    with True assms(3,4) show ?thesis by linarith
  next
    case False
    with assms(2) have "\<not> b < 0" by simp
    with False assms(3,4) show ?thesis by linarith
  qed
  ultimately show False by linarith
qed

lemma Narrow_spec:
  assumes "0 < ty_width to" and "0 < ty_width from" and "fits from v"
  shows "Narrow to from v = (if fits to v then Some v else None)"
proof (cases "fits to v")
  case True
  then show ?thesis using assms by (simp add: Narrow_def convert_id)
next
  case False
  let ?out = "convert to v"
  have ft: "fits to ?out" using assms(1) by (rule convert_fits)
  have "\<not> (convert from ?out = v \<and> (v < 0) = (?out < 0))"
  proof
    assume eq: "convert from ?out = v \<and> (v < 0) = (?out < 0)"
    let ?M = "max (2 ^ ty_width to) (2 ^ ty_width from) :: int"
    have "(v - ?out) mod 2 ^ ty_width from = 0" using convert_cong [of "from" ?out] eq by simp
    moreover have "(v - ?out) mod 2 ^ ty_width to = 0"
      using convert_cong [of to v] by (metis dvd_eq_mod_eq_0 dvd_diff_commute)
    ultimately have "(v - ?out) mod ?M = 0" by (simp add: max_def)
    moreover have "\<bar>v\<bar> < ?M" "\<bar>?out\<bar> < ?M"
      using fits_bounds [OF assms(2,3)] fits_bounds [OF assms(1) ft]
      by (auto simp only: less_max_iff_disj abs_less_iff)
    ultimately have "v = ?out" using eq same_sign_close [of v ?out ?M] by simp
    with ft False show False by simp
  qed
  with False show ?thesis by (auto simp: Narrow_def Let_def)
qed

lemma byte_step:
  fixes v :: "64 word"
  shows "push_bit 8 (drop_bit (k + 8) v) OR (drop_bit k v AND 0xff) = drop_bit k v"
proof -
  have m: "(0xff :: 64 word) = mask 8" by (simp add: mask_numeral)
  show ?thesis
    unfolding m by (rule bit_word_eqI) (auto simp: bit_simps)
qed

lemma signed_byte:
  fixes v :: "64 word"
  assumes "k \<le> 56"
  shows "signed_drop_bit k v AND 0xff = drop_bit k v AND 0xff"
proof -
  have m: "(0xff :: 64 word) = mask 8" by (simp add: mask_numeral)
  show ?thesis
    unfolding m using assms by (intro bit_word_eqI) (auto simp: bit_simps)
qed

lemma signed_loop_from:
  "i \<le> 8 \<Longrightarrow> signed_loop v [i..<8] (drop_bit (64 - 8 * i) v) = v"
proof (induction "8 - i" arbitrary: i)
  case 0
  then show ?case by simp
next
  case (Suc n)
  then have i: "i < 8" by simp
  then have "64 - 8 * i = (56 - 8 * i) + 8" "64 - 8 * Suc i = 56 - 8 * i" by simp_all
  then have "signed_loop v [i..<8] (drop_bit (64 - 8 * i) v) =
             signed_loop v [Suc i..<8] (drop_bit (64 - 8 * Suc i) v)"
    using i byte_step [of "56 - 8 * i" v] by (simp only: upt_conv_Cons signed_loop.simps)
  with Suc.hyps(1) [of "Suc i"] Suc.hyps(2) i show ?case by simp
qed

lemma signed_loop_id: "signed_loop v [0..<8] 0 = v"
proof -
  have "drop_bit 64 v = 0" by (rule bit_word_eqI) (auto simp: bit_simps)
  then show ?thesis using signed_loop_from [of 0 v] by simp
qed

lemma unsigned_loop_id: "unsigned_loop v [0..<8] 0 = v"
proof -
  have "unsigned_loop v is out = signed_loop v is out" for "is" out
    by (induction "is" arbitrary: out) (simp_all add: signed_byte)
  then show ?thesis by (simp only: signed_loop_id)
qed

lemma unsigned_signed [simp]: "unsigned (signed v) = v"
  by (simp add: signed_def unsigned_def signed_loop_id unsigned_loop_id)

lemma signed_in: "in_i64 (signed v)"
  using sint_lt [of v] sint_ge [of v] by (simp add: signed_def signed_loop_id in_i64_def min_i64_def max_i64_def)

section \<open>Properties\<close>

text \<open>
  The checked conversion is exact for every pair of integer types: it returns the value
  unchanged when the target type can hold it and refuses otherwise, including the negative
  values whose bit pattern would survive the round trip.
\<close>
theorem narrow_exact:
  assumes "0 < ty_width to" and "0 < ty_width from" and "fits from v"
  shows "Narrow to from v = (if fits to v then Some v else None)"
  using assms by (rule Narrow_spec)

theorem narrow_exact_witness:
  "fits (Signed 64) (- 1) \<and> Narrow (Unsigned 64) (Signed 64) (- 1) = None \<and>
   Narrow (Unsigned 32) (Signed 64) 7 = Some 7"
  using narrow_exact [of "Unsigned 64" "Signed 64" "- 1"] narrow_exact [of "Unsigned 32" "Signed 64" 7]
  by (simp add: fits_def)

text \<open>
  Identities survive storage: for a share number of 32 bits, what is read back from the
  signed columns is the identity that was written, with device and inode numbers over the
  whole unsigned range and an absent birth time kept apart from a zero one; a stored share
  outside that range is reported as corrupt instead of truncated.
\<close>
theorem ident_sql_roundtrip:
  assumes "in_i64 share"
  shows "FromSQL share (ToSQL i) =
           (if 0 \<le> share \<and> share < 4294967296 then Some (i\<lparr>I_Share := share\<rparr>) else None) \<and>
         (Ident_Equal i j \<longleftrightarrow> i = j)"
proof -
  have "Narrow (Unsigned 32) (Signed 64) share =
        (if 0 \<le> share \<and> share < 4294967296 then Some share else None)"
    using assms by (subst Narrow_spec) (auto simp: fits_def in_i64_def min_i64_def max_i64_def)
  then have "FromSQL share (ToSQL i) =
        (if 0 \<le> share \<and> share < 4294967296 then Some (i\<lparr>I_Share := share\<rparr>) else None)"
    by (cases i) (auto simp: FromSQL_def ToSQL_def split: option.split)
  moreover have "Ident_Equal i j \<longleftrightarrow> i = j"
    by (cases i; cases j) (auto simp: Ident_Equal_def ident_key_def split: option.splits)
  ultimately show ?thesis by blast
qed

theorem ident_sql_roundtrip_witness:
  "FromSQL 3 (ToSQL \<lparr>I_Share = 3, I_Dev = 18446744073709551615, I_Ino = 5, I_Btime = Some 0\<rparr>) =
     Some \<lparr>I_Share = 3, I_Dev = 18446744073709551615, I_Ino = 5, I_Btime = Some 0\<rparr>"
  using ident_sql_roundtrip [of 3 "\<lparr>I_Share = 3, I_Dev = 18446744073709551615, I_Ino = 5, I_Btime = Some 0\<rparr>"]
  by (simp add: in_i64_def min_i64_def max_i64_def)

end
