(* ===== verification/Sc_StateDb.thy ===== *)
theory Sc_StateDb
  imports Sc_Ident "HOL-Library.List_Lexorder" "HOL-Library.Char_ord"
begin

text \<open>
  The durable store the protocol components share: the rows of the tables modelled here
  (\<open>internal/db/state/sql.go\<close>), the serialized write transaction and the size guard of
  \<open>internal/db/dbfile/dbfile.go\<close>. A statement of the sources is a function on the rows; a
  failed transaction leaves the database as it was.
\<close>

section \<open>Rows\<close>

record lock_row =
  R_Token :: string
  R_Share :: int
  R_Ident :: ident_row
  R_Path :: string
  R_Principal :: int
  R_Owner :: string
  R_Depth :: int
  R_Scope :: int
  R_ExpiresNs :: int
  R_TimeoutS :: int

record prop_row =
  P_Share :: int
  P_Ident :: ident_row
  P_NS :: string
  P_Name :: string
  P_Value :: string

record user_row =
  U_Id :: int
  U_Quota :: "int option"
  U_Usage :: int

record grant_row =
  GR_Id :: int
  GR_User :: "int option"
  GR_Group :: "int option"
  GR_Share :: int
  GR_Subpath :: string
  GR_Allow :: int
  GR_Deny :: int
  GR_Inherit :: bool
  GR_Label :: string
  GR_CreatedNs :: int

record member_row =
  M_User :: int
  M_Group :: int

text \<open>
  An upload session and its row differ in one column: the held names are a list of 32-bit words
  in the former and the bytes of a blob in the latter. The lifecycle state and the spool mode are
  stored as the numbers the transfer module gives them; only that the receiving state is the one
  the statements call 0 matters here.
\<close>

datatype session_state = StateReceiving | StateFinalizing | StateDone | StateAborted | StateExpired

datatype spool_mode = SpoolOffsetAddressed | SpoolNameOrdered

datatype algo = AlgoCRC32C | AlgoBLAKE3

record 'names upload_row =
  US_ID :: string
  US_User :: int
  US_Share :: int
  US_Dest :: string
  US_PartName :: string
  US_SpoolDir :: string
  US_CacheDir :: string
  US_CacheMerged :: int
  US_Mode :: spool_mode
  US_TotalLen :: "int option"
  US_ChunkSize :: int
  US_ChunkMin :: int
  US_RandomAccess :: bool
  US_NextName :: int
  US_WriteHead :: int
  US_SpooledNames :: 'names
  US_IfMatch :: string
  US_Filename :: string
  US_MtimeNs :: "int option"
  US_Mime :: string
  US_RelativePath :: string
  US_Verify :: "algo option"
  US_VerifyDigest :: string
  US_CreatedNs :: int
  US_ExpiresNs :: int
  US_State :: session_state

record interval_row =
  IV_Session :: string
  IV_Lo :: int
  IV_Hi :: int

record alias_row =
  AL_Tid :: string
  AL_User :: int
  AL_Session :: string
  AL_Share :: int
  AL_Dest :: string
  AL_CreatedNs :: int

record state_db =
  lock_rows :: "lock_row list"
  prop_rows :: "prop_row list"
  user_rows :: "user_row list"
  grant_rows :: "grant_row list"
  group_ids :: "int list"
  member_rows :: "member_row list"
  session_rows :: "8 word list upload_row list"
  interval_rows :: "interval_row list"
  alias_rows :: "alias_row list"
  touched_dirs :: "(int \<times> string) list"
  chunk_settings :: "(int \<times> int) option"
  cache_setting :: "int option"
  writes_blocked :: bool

definition empty_db :: state_db where
  "empty_db = \<lparr>lock_rows = [], prop_rows = [], user_rows = [], grant_rows = [], group_ids = [],
     member_rows = [], session_rows = [], interval_rows = [], alias_rows = [], touched_dirs = [],
     chunk_settings = None, cache_setting = None, writes_blocked = False\<rparr>"

declare empty_db_def [simp]

datatype state_error =
    ErrWritesBlocked
  | ErrLockConflict
  | ErrNoSuchLock
  | Exceed string int int
  | ConstraintFailed
  | CorruptRow string
  | ErrNarrow int
  | NegativeRelease int
  | ErrGrantMalformed
  | ErrGrantAlreadyExists
  | ErrNoSuchGrant
  | UniqueViolation
  | ErrNoSuchUploadSession
  | IntegerOverflow

section \<open>Transactions\<close>

definition db_Write ::
  "(state_db \<Rightarrow> (state_error, 'a \<times> state_db) result) \<Rightarrow> state_db \<Rightarrow>
     (state_error, 'a) result \<times> state_db" where
  "db_Write fn db = (case fn db of Inl e \<Rightarrow> (Inl e, db) | Inr (a, db') \<Rightarrow> (Inr a, db'))"

definition EnsureWritable :: "state_db \<Rightarrow> state_error option" where
  "EnsureWritable db = (if writes_blocked db then Some ErrWritesBlocked else None)"

definition SetWritesBlocked :: "bool \<Rightarrow> state_db \<Rightarrow> state_db" where
  "SetWritesBlocked b db = db\<lparr>writes_blocked := b\<rparr>"

lemma db_Write_Inl: "db_Write fn db = (Inl e, db') \<longleftrightarrow> fn db = Inl e \<and> db' = db"
  by (auto simp: db_Write_def split: sum.splits)

lemma db_Write_Inr: "db_Write fn db = (Inr a, db') \<longleftrightarrow> fn db = Inr (a, db')"
  by (auto simp: db_Write_def split: sum.splits)

end
