(* ===== verification/Sc_Grants.thy ===== *)
theory Sc_Grants
  imports Sc_StateDb Sc_Acl "HOL-Library.Product_Lexorder"
begin

unbundle bit_operations_syntax

text \<open>
  The grant table of \<open>internal/db/state/grant.go\<close> with its statements in
  \<open>grant_sql.go\<close>: inserting, listing, updating and deleting grants under the unique index of
  schema step 13, the fold of duplicate rows that step runs before it builds the index, and the
  conversion of rows into the evaluator's tables (\<open>internal/files/core.go\<close>). A statement
  reads the rows in the order of their ids.
\<close>

section \<open>Statements\<close>

text \<open>The key of the unique index; an absent holder is coalesced to -1.\<close>

type_synonym grant_key = "int \<times> int \<times> int \<times> string \<times> bool"

definition coalesce :: "int option \<Rightarrow> int" where
  "coalesce v = (case v of None \<Rightarrow> -1 | Some i \<Rightarrow> i)"

definition grant_key :: "grant_row \<Rightarrow> grant_key" where
  "grant_key r = (coalesce (GR_User r), coalesce (GR_Group r), GR_Share r, GR_Subpath r, GR_Inherit r)"

definition next_grant_id :: "grant_row list \<Rightarrow> int" where
  "next_grant_id rows = fold max (map GR_Id rows) 0 + 1"

text \<open>The insert runs under the CHECK of the table, the unique index and the two foreign keys.\<close>

definition references :: "int option \<Rightarrow> int list \<Rightarrow> bool" where
  "references v ids \<longleftrightarrow> (case v of None \<Rightarrow> True | Some i \<Rightarrow> i \<in> set ids)"

definition sqlInsertGrant :: "grant_row \<Rightarrow> state_db \<Rightarrow> (state_error, int \<times> state_db) result" where
  "sqlInsertGrant g db =
     (let i = next_grant_id (grant_rows db) in
      if (GR_User g = None) = (GR_Group g = None) then Inl ConstraintFailed
      else if grant_key g \<in> grant_key ` set (grant_rows db) then Inl UniqueViolation
      else if \<not> references (GR_User g) (map U_Id (user_rows db)) \<or> \<not> references (GR_Group g) (group_ids db)
        then Inl ConstraintFailed
      else Inr (i, db\<lparr>grant_rows := grant_rows db @ [g\<lparr>GR_Id := i\<rparr>]\<rparr>))"

definition update_grant_row :: "int \<Rightarrow> int \<Rightarrow> bool \<Rightarrow> string \<Rightarrow> int \<Rightarrow> grant_row list \<Rightarrow> grant_row list" where
  "update_grant_row allow deny inherit label i rows =
     map (\<lambda>r. if GR_Id r = i
               then r\<lparr>GR_Allow := allow, GR_Deny := deny, GR_Inherit := inherit, GR_Label := label\<rparr>
               else r) rows"

definition sqlUpdateGrant ::
  "int \<Rightarrow> int \<Rightarrow> bool \<Rightarrow> string \<Rightarrow> int \<Rightarrow> grant_row list \<Rightarrow> (state_error, grant_row list \<times> nat) result" where
  "sqlUpdateGrant allow deny inherit label i rows =
     (let rows' = update_grant_row allow deny inherit label i rows in
      if \<not> distinct (map grant_key rows') then Inl UniqueViolation
      else Inr (rows', length (filter (\<lambda>r. GR_Id r = i) rows)))"

definition sqlDeleteGrant :: "int \<Rightarrow> grant_row list \<Rightarrow> grant_row list" where
  "sqlDeleteGrant i rows = filter (\<lambda>r. GR_Id r \<noteq> i) rows"

section \<open>The aggregate\<close>

record grant_filter =
  F_User :: int
  F_Group :: int
  F_Share :: int

definition no_filter :: grant_filter where
  "no_filter = \<lparr>F_User = 0, F_Group = 0, F_Share = 0\<rparr>"

text \<open>A violation of the unique index is named for the caller; other failures pass.\<close>

definition name_unique :: "(state_error, 'a) result \<Rightarrow> (state_error, 'a) result" where
  "name_unique r =
     (case r of
        Inl e \<Rightarrow> Inl (if e = UniqueViolation then ErrGrantAlreadyExists else e)
      | Inr a \<Rightarrow> Inr a)"

lemma name_unique_Inr [simp]: "name_unique r = Inr a \<longleftrightarrow> r = Inr a"
  by (cases r) (simp_all add: name_unique_def)

definition PersistGrant :: "grant_row \<Rightarrow> int \<Rightarrow> state_db \<Rightarrow> (state_error, int) result \<times> state_db" where
  "PersistGrant g now db =
     (if (GR_User g = None) = (GR_Group g = None) then (Inl ErrGrantMalformed, db)
      else if GR_Share g = 0 then (Inl ErrGrantMalformed, db)
      else if GR_Allow g = 0 \<and> GR_Deny g = 0 then (Inl ErrGrantMalformed, db)
      else (case EnsureWritable db of
        Some e \<Rightarrow> (Inl e, db)
      | None \<Rightarrow>
          db_Write (\<lambda>db. name_unique (sqlInsertGrant (g\<lparr>GR_CreatedNs := now\<rparr>) db)) db))"

definition keepGrant :: "grant_filter \<Rightarrow> grant_row \<Rightarrow> bool" where
  "keepGrant f g \<longleftrightarrow>
     \<not> (F_User f \<noteq> 0 \<and> GR_User g \<noteq> Some (F_User f)) \<and>
     \<not> (F_Group f \<noteq> 0 \<and> GR_Group g \<noteq> Some (F_Group f)) \<and>
     \<not> (F_Share f \<noteq> 0 \<and> GR_Share g \<noteq> F_Share f)"

definition sqlReadGrants :: "grant_filter \<Rightarrow> grant_row list \<Rightarrow> grant_row list" where
  "sqlReadGrants f rows =
     (if F_User f > 0 then filter (\<lambda>g. GR_User g = Some (F_User f)) rows
      else if F_Group f > 0 then filter (\<lambda>g. GR_Group g = Some (F_Group f)) rows
      else if F_Share f > 0 then filter (\<lambda>g. GR_Share g = F_Share f) rows
      else rows)"

fun scanGrantRows :: "grant_row list \<Rightarrow> (state_error, grant_row list) result" where
  "scanGrantRows [] = Inr []"
| "scanGrantRows (r # rs) =
     (case Narrow (Unsigned 16) (Signed 64) (GR_Allow r) of
        None \<Rightarrow> Inl (CorruptRow ''allow'')
      | Some allow \<Rightarrow>
          (case Narrow (Unsigned 16) (Signed 64) (GR_Deny r) of
             None \<Rightarrow> Inl (CorruptRow ''deny'')
           | Some deny \<Rightarrow>
               bind_r (scanGrantRows rs) (\<lambda>out. Inr (r\<lparr>GR_Allow := allow, GR_Deny := deny\<rparr> # out))))"

definition ListGrants :: "grant_filter \<Rightarrow> state_db \<Rightarrow> (state_error, grant_row list) result" where
  "ListGrants f db =
     bind_r (scanGrantRows (sqlReadGrants f (grant_rows db))) (\<lambda>grants. Inr (filter (keepGrant f) grants))"

definition GrantByID :: "int \<Rightarrow> state_db \<Rightarrow> (state_error, grant_row) result" where
  "GrantByID i db =
     bind_r (scanGrantRows (filter (\<lambda>r. GR_Id r = i) (grant_rows db)))
       (\<lambda>grants. case grants of [] \<Rightarrow> Inl ErrNoSuchGrant | g # _ \<Rightarrow> Inr g)"

definition UpdateGrant ::
  "int \<Rightarrow> int \<Rightarrow> int \<Rightarrow> bool \<Rightarrow> string \<Rightarrow> state_db \<Rightarrow> (state_error, unit) result \<times> state_db" where
  "UpdateGrant i allow deny inherit label db =
     db_Write (\<lambda>db.
       bind_r (name_unique (sqlUpdateGrant allow deny inherit label i (grant_rows db))) (\<lambda>(rows, n).
         if n = 0 then Inl ErrNoSuchGrant else Inr ((), db\<lparr>grant_rows := rows\<rparr>))) db"

definition DeleteGrant :: "int \<Rightarrow> state_db \<Rightarrow> (state_error, unit) result \<times> state_db" where
  "DeleteGrant i db =
     db_Write (\<lambda>db.
       if length (filter (\<lambda>r. GR_Id r = i) (grant_rows db)) = 0 then Inl ErrNoSuchGrant
       else Inr ((), db\<lparr>grant_rows := sqlDeleteGrant i (grant_rows db)\<rparr>)) db"

section \<open>Folding duplicates\<close>

text \<open>
  Rows written before the unique index. The statement orders the rows of every key that occurs
  more than once by key and id, and the loop reduces each run to the row that stands.
\<close>

definition sqlDuplicateGrantRows :: "grant_row list \<Rightarrow> grant_row list" where
  "sqlDuplicateGrantRows rows =
     sort_key (\<lambda>r. (grant_key r, GR_Id r))
       (filter (\<lambda>r. count_list (map grant_key rows) (grant_key r) > 1) rows)"

record grantFold =
  gf_keep :: int
  gf_allow :: int
  gf_deny :: int
  gf_inherit :: bool
  gf_label :: string
  gf_drop :: "int list"

definition new_fold :: "grant_row \<Rightarrow> grantFold" where
  "new_fold r = \<lparr>gf_keep = GR_Id r, gf_allow = GR_Allow r, gf_deny = GR_Deny r,
     gf_inherit = GR_Inherit r, gf_label = GR_Label r, gf_drop = []\<rparr>"

definition merge_fold :: "grantFold \<Rightarrow> grant_row \<Rightarrow> grantFold" where
  "merge_fold f r = f\<lparr>gf_allow := gf_allow f OR GR_Allow r, gf_deny := gf_deny f OR GR_Deny r,
     gf_label := (if gf_label f = [] then GR_Label r else gf_label f),
     gf_drop := gf_drop f @ [GR_Id r]\<rparr>"

fun fold_rows :: "grant_key option \<Rightarrow> grantFold list \<Rightarrow> grant_row list \<Rightarrow> grantFold list" where
  "fold_rows at out [] = out"
| "fold_rows at out (r # rs) =
     (if out = [] \<or> Some (grant_key r) \<noteq> at
      then fold_rows (Some (grant_key r)) (out @ [new_fold r]) rs
      else fold_rows at (butlast out @ [merge_fold (last out) r]) rs)"

definition duplicateGrantFolds :: "grant_row list \<Rightarrow> grantFold list" where
  "duplicateGrantFolds rows = fold_rows None [] (sqlDuplicateGrantRows rows)"

text \<open>One fold: the update of the row that stands, then the deletes.\<close>

definition apply_fold :: "grantFold \<Rightarrow> grant_row list \<Rightarrow> grant_row list" where
  "apply_fold f rows =
     fold sqlDeleteGrant (gf_drop f)
       (update_grant_row (gf_allow f) (gf_deny f) (gf_inherit f) (gf_label f) (gf_keep f) rows)"

definition foldDuplicateGrants :: "grant_row list \<Rightarrow> grant_row list" where
  "foldDuplicateGrants rows = fold apply_fold (duplicateGrantFolds rows) rows"

section \<open>Loading the evaluator\<close>

definition grantOf :: "grant_row \<Rightarrow> grant" where
  "grantOf r =
     \<lparr>g_ID = GR_Id r,
      g_User = (case GR_User r of None \<Rightarrow> 0 | Some u \<Rightarrow> u),
      g_Group = (case GR_Group r of None \<Rightarrow> 0 | Some g \<Rightarrow> g),
      g_Share = GR_Share r,
      g_Subpath = ParsePath (GR_Subpath r),
      g_Allow = word_of_int (GR_Allow r),
      g_Deny = word_of_int (GR_Deny r),
      g_Inherit = GR_Inherit r,
      g_Label = GR_Label r,
      g_CreatedNs = GR_CreatedNs r\<rparr>"

definition rows_tables :: "grant_row list \<Rightarrow> member_row list \<Rightarrow> acl_tables" where
  "rows_tables rows members =
     load_tables (map grantOf rows) (map (\<lambda>m. \<lparr>m_User = M_User m, m_Group = M_Group m\<rparr>) members)"

definition ReloadGrants :: "state_db \<Rightarrow> (state_error, acl_tables) result" where
  "ReloadGrants db =
     bind_r (ListGrants no_filter db) (\<lambda>rows. Inr (rows_tables rows (member_rows db)))"

section \<open>Decisions by level\<close>

text \<open>What the evaluation reads of a table: which bits are allowed and denied at each depth.\<close>

definition level_allows :: "acl_tables \<Rightarrow> int \<Rightarrow> int \<Rightarrow> acl_path \<Rightarrow> nat \<Rightarrow> nat \<Rightarrow> bool" where
  "level_allows t user share path d i \<longleftrightarrow>
     (\<exists>g. applies t user share path g \<and> length (g_Subpath g) = d \<and> bit (g_Allow g) i)"

definition level_denies :: "acl_tables \<Rightarrow> int \<Rightarrow> int \<Rightarrow> acl_path \<Rightarrow> nat \<Rightarrow> nat \<Rightarrow> bool" where
  "level_denies t user share path d i \<longleftrightarrow>
     (\<exists>g. applies t user share path g \<and> length (g_Subpath g) = d \<and> bit (g_Deny g) i)"

lemma permits_by_level:
  "permits t user share path i \<longleftrightarrow>
     (\<exists>d. level_allows t user share path d i \<and> (\<forall>d'. level_denies t user share path d' i \<longrightarrow> d' < d))"
  unfolding permits_def level_allows_def level_denies_def by blast

lemma some_bit: "(p :: perms) \<noteq> 0 \<longleftrightarrow> (\<exists>i. bit p i)"
  by (auto simp: perms_eq_iff)

lemma empty_ask_by_level:
  "Allowed (evaluateLocked t user share path 0) \<longleftrightarrow>
     (\<exists>d i. level_allows t user share path d i \<and>
        \<not> (\<exists>d' j. level_denies t user share path d' j \<and> d < d'))"
  unfolding evaluate_empty_ask level_allows_def level_denies_def some_bit by blast

lemma same_levels_same_decisions:
  assumes "\<And>d i. level_allows t user share path d i \<longleftrightarrow> level_allows t' user share path d i"
    and "\<And>d i. level_denies t user share path d i \<longleftrightarrow> level_denies t' user share path d i"
  shows "Allowed (evaluateLocked t user share path want) \<longleftrightarrow> Allowed (evaluateLocked t' user share path want)"
    and "effectiveLocked t user share path = effectiveLocked t' user share path"
proof -
  have p: "permits t user share path i \<longleftrightarrow> permits t' user share path i" for i
    by (simp add: permits_by_level assms)
  show "Allowed (evaluateLocked t user share path want) \<longleftrightarrow> Allowed (evaluateLocked t' user share path want)"
    by (cases "want = 0") (simp_all add: empty_ask_by_level assms evaluateLocked_allowed p)
  show "effectiveLocked t user share path = effectiveLocked t' user share path"
    by (simp add: perms_eq_iff bit_effectiveLocked p)
qed

section \<open>Rows and levels\<close>

text \<open>A row as the table's CHECK and its foreign keys admit it: one holder, a positive id.\<close>

definition grant_row_ok :: "grant_row \<Rightarrow> bool" where
  "grant_row_ok r \<longleftrightarrow>
     (case (GR_User r, GR_Group r) of
        (Some u, None) \<Rightarrow> u > 0
      | (None, Some g) \<Rightarrow> g > 0
      | _ \<Rightarrow> False)"

definition row_matches :: "acl_tables \<Rightarrow> int \<Rightarrow> int \<Rightarrow> acl_path \<Rightarrow> grant_row \<Rightarrow> bool" where
  "row_matches t user share path r \<longleftrightarrow>
     GR_Share r = share \<and> grantMatchesLocked t user (grantOf r) \<and>
     (if GR_Inherit r then prefix (ParsePath (GR_Subpath r)) path else ParsePath (GR_Subpath r) = path)"

lemma grant_key_determines:
  assumes "grant_row_ok r" "grant_row_ok r'" "grant_key r = grant_key r'"
  shows "GR_User r = GR_User r'" "GR_Group r = GR_Group r'" "GR_Share r = GR_Share r'"
    "GR_Subpath r = GR_Subpath r'" "GR_Inherit r = GR_Inherit r'"
  using assms by (auto simp: grant_row_ok_def grant_key_def coalesce_def split: option.splits)

lemma row_matches_key:
  assumes "grant_row_ok r" "grant_row_ok r'" "grant_key r = grant_key r'"
  shows "row_matches t user share path r \<longleftrightarrow> row_matches t user share path r'"
  using grant_key_determines [OF assms]
  by (simp add: row_matches_def grantMatchesLocked_def grantOf_def)

lemma row_matches_members:
  "row_matches (rows_tables rows ms) user share path r \<longleftrightarrow> row_matches (rows_tables rows' ms) user share path r"
  by (simp add: row_matches_def grantMatchesLocked_def groups_of_def rows_tables_def load_tables_def)

lemma applies_rows:
  "applies (rows_tables rows ms) user share path g \<longleftrightarrow>
     (\<exists>r\<in>set rows. g = grantOf r \<and> row_matches (rows_tables rows ms) user share path r)"
  by (auto simp: applies_def row_matches_def rows_tables_def load_tables_def grantOf_def)

text \<open>Two tables of rows that give every key the same bits.\<close>

definition key_bits :: "(grant_row \<Rightarrow> int) \<Rightarrow> grant_row list \<Rightarrow> grant_key \<Rightarrow> nat \<Rightarrow> bool" where
  "key_bits f rows k i \<longleftrightarrow> (\<exists>r\<in>set rows. grant_key r = k \<and> bit (f r) i)"

lemma level_rows:
  assumes ok: "list_all grant_row_ok rows" "list_all grant_row_ok rows'"
    and sub: "\<And>k. key_bits f rows k i \<Longrightarrow> key_bits f rows' k i"
    and r: "r \<in> set rows" "row_matches (rows_tables rows ms) user share path r" "bit (f r) i"
  shows "\<exists>r'\<in>set rows'. row_matches (rows_tables rows' ms) user share path r' \<and> bit (f r') i \<and>
           GR_Subpath r' = GR_Subpath r"
proof -
  have "key_bits f rows (grant_key r) i" using r by (auto simp: key_bits_def)
  then obtain r' where r': "r' \<in> set rows'" "grant_key r' = grant_key r" "bit (f r') i"
    using sub [of "grant_key r"] unfolding key_bits_def by blast
  have oks: "grant_row_ok r'" "grant_row_ok r" using ok r(1) r'(1) by (auto simp: list_all_iff)
  then show ?thesis
    using r' r(2) row_matches_key [OF oks r'(2)] row_matches_members grant_key_determines(4) [OF oks r'(2)]
    by blast
qed

lemma bit_perms_of: "bit (word_of_int a :: perms) i \<longleftrightarrow> i < 16 \<and> bit a i"
  by (simp add: bit_word_of_int_iff)

lemma same_bits_same_decisions:
  assumes ok: "list_all grant_row_ok rows" "list_all grant_row_ok rows'"
    and allow: "\<And>k i. key_bits GR_Allow rows k i \<longleftrightarrow> key_bits GR_Allow rows' k i"
    and deny: "\<And>k i. key_bits GR_Deny rows k i \<longleftrightarrow> key_bits GR_Deny rows' k i"
  shows "Allowed (evaluateLocked (rows_tables rows ms) user share path want) \<longleftrightarrow>
           Allowed (evaluateLocked (rows_tables rows' ms) user share path want)"
    and "effectiveLocked (rows_tables rows ms) user share path = effectiveLocked (rows_tables rows' ms) user share path"
proof -
  have lev: "(\<exists>r\<in>set rs. row_matches (rows_tables rs ms) user share path r \<and> bit (f r) i \<and> length (ParsePath (GR_Subpath r)) = d)
     \<Longrightarrow> (\<exists>r\<in>set rs'. row_matches (rows_tables rs' ms) user share path r \<and> bit (f r) i \<and> length (ParsePath (GR_Subpath r)) = d)"
    if "list_all grant_row_ok rs" "list_all grant_row_ok rs'" "\<And>k. key_bits f rs k i \<Longrightarrow> key_bits f rs' k i"
    for rs rs' f i d
    using level_rows [OF that] by metis
  have la: "level_allows (rows_tables rs ms) user share path d i \<longleftrightarrow>
      i < 16 \<and> (\<exists>r\<in>set rs. row_matches (rows_tables rs ms) user share path r \<and> bit (GR_Allow r) i \<and>
        length (ParsePath (GR_Subpath r)) = d)" for rs d i
    unfolding level_allows_def applies_rows by (auto simp: grantOf_def bit_perms_of)
  have ld: "level_denies (rows_tables rs ms) user share path d i \<longleftrightarrow>
      i < 16 \<and> (\<exists>r\<in>set rs. row_matches (rows_tables rs ms) user share path r \<and> bit (GR_Deny r) i \<and>
        length (ParsePath (GR_Subpath r)) = d)" for rs d i
    unfolding level_denies_def applies_rows by (auto simp: grantOf_def bit_perms_of)
  have A: "level_allows (rows_tables rows ms) user share path d i \<longleftrightarrow> level_allows (rows_tables rows' ms) user share path d i" for d i
    unfolding la using lev [OF ok, of GR_Allow i d] lev [OF ok(2,1), of GR_Allow i d] allow by blast
  have D: "level_denies (rows_tables rows ms) user share path d i \<longleftrightarrow> level_denies (rows_tables rows' ms) user share path d i" for d i
    unfolding ld using lev [OF ok, of GR_Deny i d] lev [OF ok(2,1), of GR_Deny i d] deny by blast
  show "Allowed (evaluateLocked (rows_tables rows ms) user share path want) \<longleftrightarrow>
           Allowed (evaluateLocked (rows_tables rows' ms) user share path want)"
    "effectiveLocked (rows_tables rows ms) user share path = effectiveLocked (rows_tables rows' ms) user share path"
    using same_levels_same_decisions [OF A D] by blast+
qed


section \<open>The fold\<close>

text \<open>The loop reduces every maximal run of one key.\<close>

definition reduce :: "grant_row \<times> grant_row list \<Rightarrow> grantFold" where
  "reduce g = foldl merge_fold (new_fold (fst g)) (snd g)"

function runs :: "grant_row list \<Rightarrow> (grant_row \<times> grant_row list) list" where
  "runs [] = []"
| "runs (r # rs) =
     (r, takeWhile (\<lambda>x. grant_key x = grant_key r) rs) # runs (dropWhile (\<lambda>x. grant_key x = grant_key r) rs)"
  by pat_completeness auto
termination
  by (relation "measure length") (auto simp: length_dropWhile_le less_Suc_eq_le)

lemma fold_rows_run:
  "fold_rows (Some k) (out @ [f]) rs =
     out @ foldl merge_fold f (takeWhile (\<lambda>x. grant_key x = k) rs) #
       map reduce (runs (dropWhile (\<lambda>x. grant_key x = k) rs))"
proof (induction rs arbitrary: k out f)
  case (Cons r rs)
  show ?case
  proof (cases "grant_key r = k")
    case True
    with Cons.IH [of k out "merge_fold f r"] show ?thesis by simp
  next
    case False
    with Cons.IH [of "grant_key r" "out @ [f]" "new_fold r"] show ?thesis by (simp add: reduce_def)
  qed
qed simp

lemma fold_rows_runs: "fold_rows None [] rs = map reduce (runs rs)"
  using fold_rows_run [of _ "[]"] by (cases rs) (auto simp: reduce_def)

lemma run_filter:
  fixes f :: "'a \<Rightarrow> 'b :: linorder"
  assumes "sorted (map f (r # rs))"
  shows "takeWhile (\<lambda>x. f x = f r) rs = filter (\<lambda>x. f x = f r) rs"
    and "dropWhile (\<lambda>x. f x = f r) rs = filter (\<lambda>x. f x \<noteq> f r) rs"
proof -
  have "takeWhile (\<lambda>x. f x = f r) rs = filter (\<lambda>x. f x = f r) rs \<and>
        dropWhile (\<lambda>x. f x = f r) rs = filter (\<lambda>x. f x \<noteq> f r) rs"
    using assms
  proof (induction rs)
    case (Cons x xs)
    show ?case
    proof (cases "f x = f r")
      case True
      with Cons show ?thesis by simp
    next
      case False
      with Cons.prems have "f r < f y" if "y \<in> set (x # xs)" for y
        using that by (auto simp: less_le)
      then have "\<forall>y\<in>set (x # xs). f y \<noteq> f r" by (metis less_irrefl)
      then have "filter (\<lambda>x. f x = f r) xs = []" "filter (\<lambda>x. f x \<noteq> f r) xs = xs"
        by (auto simp: filter_empty_conv filter_id_conv)
      with False show ?thesis by simp
    qed
  qed simp
  then show "takeWhile (\<lambda>x. f x = f r) rs = filter (\<lambda>x. f x = f r) rs"
    "dropWhile (\<lambda>x. f x = f r) rs = filter (\<lambda>x. f x \<noteq> f r) rs" by auto
qed

text \<open>A run is the group of its key, and every key has one run.\<close>

lemma runs_groups:
  assumes "sorted (map grant_key rs)"
  shows "distinct (map (grant_key \<circ> fst) (runs rs))"
    and "grant_key ` set rs = (grant_key \<circ> fst) ` set (runs rs)"
    and "\<forall>g\<in>set (runs rs). fst g \<in> set rs \<and> fst g # snd g = filter (\<lambda>x. grant_key x = grant_key (fst g)) rs"
proof -
  have "distinct (map (grant_key \<circ> fst) (runs rs)) \<and> grant_key ` set rs = (grant_key \<circ> fst) ` set (runs rs) \<and>
    (\<forall>g\<in>set (runs rs). fst g \<in> set rs \<and> fst g # snd g = filter (\<lambda>x. grant_key x = grant_key (fst g)) rs)"
    using assms
  proof (induction rs rule: runs.induct)
    case (2 r rs)
    let ?rest = "filter (\<lambda>x. grant_key x \<noteq> grant_key r) rs"
    note run = run_filter [OF 2(2)]
    have "sorted (map grant_key ?rest)" using 2(2) by (simp add: sorted_filter)
    from 2(1) [unfolded run(2), OF this] have IH: "distinct (map (grant_key \<circ> fst) (runs ?rest))"
      "grant_key ` set ?rest = (grant_key \<circ> fst) ` set (runs ?rest)"
      "\<forall>g\<in>set (runs ?rest). fst g \<in> set ?rest \<and> fst g # snd g = filter (\<lambda>x. grant_key x = grant_key (fst g)) ?rest"
      by blast+
    have runs: "runs (r # rs) = (r, filter (\<lambda>x. grant_key x = grant_key r) rs) # runs ?rest"
      by (simp add: run)
    have fresh: "grant_key r \<notin> (grant_key \<circ> fst) ` set (runs ?rest)"
      unfolding IH(2) [symmetric] by auto
    have "grant_key ` set (r # rs) = insert (grant_key r) (grant_key ` set ?rest)" by auto
    also have "\<dots> = (grant_key \<circ> fst) ` set (runs (r # rs))"
      unfolding runs IH(2) by simp
    finally have keys: "grant_key ` set (r # rs) = (grant_key \<circ> fst) ` set (runs (r # rs))" .
    have other: "filter (\<lambda>x. grant_key x = grant_key (fst g)) ?rest = filter (\<lambda>x. grant_key x = grant_key (fst g)) (r # rs)"
      if "g \<in> set (runs ?rest)" for g
    proof -
      have "grant_key (fst g) \<noteq> grant_key r" using fresh that by (auto simp: image_iff)
      then show ?thesis by (auto intro: filter_cong)
    qed
    have "\<forall>g\<in>set (runs (r # rs)). fst g \<in> set (r # rs) \<and>
        fst g # snd g = filter (\<lambda>x. grant_key x = grant_key (fst g)) (r # rs)"
      unfolding runs using IH(3) other by auto
    moreover have "distinct (map (grant_key \<circ> fst) (runs (r # rs)))"
      unfolding runs using IH(1) fresh by simp
    ultimately show ?case using keys by blast
  qed simp
  then show "distinct (map (grant_key \<circ> fst) (runs rs))"
    "grant_key ` set rs = (grant_key \<circ> fst) ` set (runs rs)"
    "\<forall>g\<in>set (runs rs). fst g \<in> set rs \<and> fst g # snd g = filter (\<lambda>x. grant_key x = grant_key (fst g)) rs"
    by blast+
qed

lemma reduce_fields:
  "gf_keep (reduce (r, rs)) = GR_Id r" "gf_inherit (reduce (r, rs)) = GR_Inherit r"
  "gf_drop (reduce (r, rs)) = map GR_Id rs"
  "bit (gf_allow (reduce (r, rs))) i \<longleftrightarrow> (\<exists>x\<in>set (r # rs). bit (GR_Allow x) i)"
  "bit (gf_deny (reduce (r, rs))) i \<longleftrightarrow> (\<exists>x\<in>set (r # rs). bit (GR_Deny x) i)"
proof -
  have "gf_keep (foldl merge_fold f rs) = gf_keep f \<and> gf_inherit (foldl merge_fold f rs) = gf_inherit f \<and>
      gf_drop (foldl merge_fold f rs) = gf_drop f @ map GR_Id rs \<and>
      (bit (gf_allow (foldl merge_fold f rs)) i \<longleftrightarrow> bit (gf_allow f) i \<or> (\<exists>x\<in>set rs. bit (GR_Allow x) i)) \<and>
      (bit (gf_deny (foldl merge_fold f rs)) i \<longleftrightarrow> bit (gf_deny f) i \<or> (\<exists>x\<in>set rs. bit (GR_Deny x) i))" for f i
    by (induction rs arbitrary: f) (auto simp: merge_fold_def bit_or_iff)
  from this [of "new_fold r"] show
    "gf_keep (reduce (r, rs)) = GR_Id r" "gf_inherit (reduce (r, rs)) = GR_Inherit r"
    "gf_drop (reduce (r, rs)) = map GR_Id rs"
    "bit (gf_allow (reduce (r, rs))) i \<longleftrightarrow> (\<exists>x\<in>set (r # rs). bit (GR_Allow x) i)"
    "bit (gf_deny (reduce (r, rs))) i \<longleftrightarrow> (\<exists>x\<in>set (r # rs). bit (GR_Deny x) i)"
    by (auto simp: reduce_def new_fold_def)
qed

text \<open>What a fold has to say about the rows of one key.\<close>

definition key_group :: "grant_row list \<Rightarrow> grant_key \<Rightarrow> grant_row set" where
  "key_group rows k = {x \<in> set rows. grant_key x = k}"

definition fold_for :: "grant_row list \<Rightarrow> grant_key \<Rightarrow> grantFold \<Rightarrow> bool" where
  "fold_for rows k f \<longleftrightarrow>
     (\<exists>r\<in>key_group rows k. gf_keep f = GR_Id r \<and> gf_inherit f = GR_Inherit r \<and>
        set (gf_drop f) = GR_Id ` (key_group rows k - {r}) \<and>
        (\<forall>i. bit (gf_allow f) i \<longleftrightarrow> (\<exists>x\<in>key_group rows k. bit (GR_Allow x) i)) \<and>
        (\<forall>i. bit (gf_deny f) i \<longleftrightarrow> (\<exists>x\<in>key_group rows k. bit (GR_Deny x) i)))"

lemma key_bits_group: "key_bits f rows k i \<longleftrightarrow> (\<exists>x\<in>key_group rows k. bit (f x) i)"
  by (auto simp: key_bits_def key_group_def)

lemma delete_ids: "fold sqlDeleteGrant ids rows = filter (\<lambda>r. GR_Id r \<notin> set ids) rows"
  by (induction ids arbitrary: rows) (auto simp: sqlDeleteGrant_def intro: filter_cong)

lemma apply_fold_rows:
  assumes ids: "distinct (map GR_Id rows)" and r: "r \<in> key_group rows k"
    and f: "gf_keep f = GR_Id r" "gf_inherit f = GR_Inherit r" "set (gf_drop f) = GR_Id ` (key_group rows k - {r})"
  defines "r' \<equiv> r\<lparr>GR_Allow := gf_allow f, GR_Deny := gf_deny f, GR_Label := gf_label f\<rparr>"
  shows "set (apply_fold f rows) = {x \<in> set rows. grant_key x \<noteq> k} \<union> {r'}"
    and "distinct (map GR_Id (apply_fold f rows))"
proof -
  have inj: "x = y" if "x \<in> set rows" "y \<in> set rows" "GR_Id x = GR_Id y" for x y
    using ids that by (metis distinct_map inj_onD)
  have rin: "r \<in> set rows" "grant_key r = k" using r by (auto simp: key_group_def)
  let ?u = "update_grant_row (gf_allow f) (gf_deny f) (gf_inherit f) (gf_label f) (gf_keep f) rows"
  have "set ?u = (\<lambda>x. if x = r then r' else x) ` set rows"
    unfolding update_grant_row_def set_map
    by (rule image_cong) (auto simp: f r'_def rin dest: inj [OF _ rin(1)])
  moreover have "GR_Id r' = GR_Id r" by (simp add: r'_def)
  moreover have "GR_Id x \<in> set (gf_drop f) \<longleftrightarrow> grant_key x = k \<and> x \<noteq> r" if "x \<in> set rows" for x
    using that inj [OF that] by (auto simp: f key_group_def)
  ultimately show "set (apply_fold f rows) = {x \<in> set rows. grant_key x \<noteq> k} \<union> {r'}"
    using rin by (auto simp: apply_fold_def delete_ids)
  have "map GR_Id ?u = map GR_Id rows" by (auto simp: update_grant_row_def)
  then show "distinct (map GR_Id (apply_fold f rows))"
    using ids by (metis apply_fold_def delete_ids distinct_map_filter)
qed

lemma apply_fold_step:
  assumes ids: "distinct (map GR_Id rows)" and f: "fold_for rows k f"
  shows "distinct (map GR_Id (apply_fold f rows))"
    and "\<exists>r. key_group (apply_fold f rows) k = {r}"
    and "k' \<noteq> k \<Longrightarrow> key_group (apply_fold f rows) k' = key_group rows k'"
    and "key_bits GR_Allow (apply_fold f rows) k' i \<longleftrightarrow> key_bits GR_Allow rows k' i"
    and "key_bits GR_Deny (apply_fold f rows) k' i \<longleftrightarrow> key_bits GR_Deny rows k' i"
    and "list_all grant_row_ok rows \<Longrightarrow> list_all grant_row_ok (apply_fold f rows)"
proof -
  obtain r where r: "r \<in> key_group rows k" "gf_keep f = GR_Id r" "gf_inherit f = GR_Inherit r"
      "set (gf_drop f) = GR_Id ` (key_group rows k - {r})"
      "\<And>i. bit (gf_allow f) i \<longleftrightarrow> (\<exists>x\<in>key_group rows k. bit (GR_Allow x) i)"
      "\<And>i. bit (gf_deny f) i \<longleftrightarrow> (\<exists>x\<in>key_group rows k. bit (GR_Deny x) i)"
    using f unfolding fold_for_def by blast
  define r' where "r' = r\<lparr>GR_Allow := gf_allow f, GR_Deny := gf_deny f, GR_Label := gf_label f\<rparr>"
  note app = apply_fold_rows [OF ids r(1-4), folded r'_def]
  have rk: "grant_key r' = k" "r \<in> set rows" using r(1) by (auto simp: r'_def key_group_def grant_key_def)
  have k: "key_group (apply_fold f rows) k = {r'}" using rk by (auto simp: key_group_def app(1))
  then show "\<exists>r. key_group (apply_fold f rows) k = {r}" by blast
  show other: "key_group (apply_fold f rows) k' = key_group rows k'" if "k' \<noteq> k" for k'
    using that rk by (auto simp: key_group_def app(1))
  show "key_bits GR_Allow (apply_fold f rows) k' i \<longleftrightarrow> key_bits GR_Allow rows k' i"
    by (cases "k' = k") (simp_all add: key_bits_group other k, simp add: r'_def r(5))
  show "key_bits GR_Deny (apply_fold f rows) k' i \<longleftrightarrow> key_bits GR_Deny rows k' i"
    by (cases "k' = k") (simp_all add: key_bits_group other k, simp add: r'_def r(6))
  show "list_all grant_row_ok (apply_fold f rows)" if "list_all grant_row_ok rows"
  proof -
    have "grant_row_ok r' \<longleftrightarrow> grant_row_ok r" by (simp add: r'_def grant_row_ok_def)
    then show ?thesis using that rk(2) by (auto simp: list_all_iff app(1))
  qed
  show "distinct (map GR_Id (apply_fold f rows))" by (rule app(2))
qed

lemma fold_for_group: "key_group rows' k = key_group rows k \<Longrightarrow> fold_for rows' k f \<longleftrightarrow> fold_for rows k f"
  by (simp add: fold_for_def)

lemma apply_folds:
  assumes "distinct (map GR_Id rows)" and "distinct (map fst kfs)" and "\<forall>(k, f)\<in>set kfs. fold_for rows k f"
    and "list_all grant_row_ok rows"
  shows "let rows' = fold apply_fold (map snd kfs) rows in
     distinct (map GR_Id rows') \<and> list_all grant_row_ok rows' \<and>
     (\<forall>k\<in>fst ` set kfs. \<exists>r. key_group rows' k = {r}) \<and>
     (\<forall>k. k \<notin> fst ` set kfs \<longrightarrow> key_group rows' k = key_group rows k) \<and>
     (\<forall>k i. key_bits GR_Allow rows' k i \<longleftrightarrow> key_bits GR_Allow rows k i) \<and>
     (\<forall>k i. key_bits GR_Deny rows' k i \<longleftrightarrow> key_bits GR_Deny rows k i)"
  using assms
proof (induction kfs arbitrary: rows)
  case (Cons kf kfs)
  obtain k f where kf: "kf = (k, f)" by (cases kf)
  let ?rows = "apply_fold f rows"
  have f: "fold_for rows k f" using Cons.prems(3) kf by simp
  note step = apply_fold_step [OF Cons.prems(1) f]
  have rest: "\<forall>(k', f')\<in>set kfs. fold_for ?rows k' f'"
  proof (clarify)
    fix k' f' assume in': "(k', f') \<in> set kfs"
    then have "k' \<noteq> k" using Cons.prems(2) kf by force
    then show "fold_for ?rows k' f'"
      using fold_for_group [OF step(3)] Cons.prems(3) in' by auto
  qed
  have "distinct (map fst kfs)" and nk: "k \<notin> fst ` set kfs" using Cons.prems(2) kf by auto
  note IH = Cons.IH [OF step(1) this(1) rest step(6) [OF Cons.prems(4)], unfolded Let_def]
  have "key_group (fold apply_fold (map snd kfs) ?rows) k = key_group ?rows k" using IH nk by blast
  then show ?case
    using IH step(2,3,4,5) unfolding Let_def kf
    by (simp del: split_paired_All split_paired_Ex)
qed simp

lemma key_group_filter: "set (filter (\<lambda>x. grant_key x = k) rs) = key_group rs k"
  by (auto simp: key_group_def)


lemma sorted_fst: "sorted (map (\<lambda>x. (f x, g x)) xs) \<Longrightarrow> sorted (map f xs)"
  for f :: "'a \<Rightarrow> 'b::linorder" and g :: "'a \<Rightarrow> 'c::linorder"
  by (induction xs) (auto simp: less_eq_prod_def)

lemma duplicates_sorted: "sorted (map grant_key (sqlDuplicateGrantRows rows))"
  unfolding sqlDuplicateGrantRows_def by (rule sorted_fst, rule sorted_sort_key)

lemma duplicates_group:
  "key_group (sqlDuplicateGrantRows rows) k =
     (if count_list (map grant_key rows) k > 1 then key_group rows k else {})"
  by (auto simp: key_group_def sqlDuplicateGrantRows_def)

lemma duplicates_ids: "distinct (map GR_Id rows) \<Longrightarrow> distinct (map GR_Id (sqlDuplicateGrantRows rows))"
  by (simp add: sqlDuplicateGrantRows_def distinct_map inj_on_def)

text \<open>Every fold the loop produces describes the group of its key.\<close>

lemma folds_for:
  assumes ids: "distinct (map GR_Id rows)" and g: "g \<in> set (runs (sqlDuplicateGrantRows rows))"
  shows "fold_for rows (grant_key (fst g)) (reduce g)"
proof -
  let ?S = "sqlDuplicateGrantRows rows" and ?k = "grant_key (fst g)"
  obtain r rs where g': "g = (r, rs)" by (cases g)
  have rS: "r \<in> set ?S" and ms: "r # rs = filter (\<lambda>x. grant_key x = ?k) ?S"
    using bspec [OF runs_groups(3) [OF duplicates_sorted] g] by (simp_all add: g')
  have "key_group ?S ?k \<noteq> {}" using rS by (auto simp: key_group_def g')
  then have grp: "key_group ?S ?k = key_group rows ?k" by (simp add: duplicates_group split: if_splits)
  have "set (r # rs) = key_group rows ?k"
    unfolding ms key_group_filter grp ..
  moreover have "distinct (map GR_Id (filter (\<lambda>x. grant_key x = ?k) ?S))"
    by (rule distinct_map_filter [OF duplicates_ids [OF ids]])
  then have "distinct (filter (\<lambda>x. grant_key x = ?k) ?S)" by (simp add: distinct_map)
  then have "distinct (r # rs)" unfolding ms .
  ultimately have "r \<in> key_group rows ?k" "set rs = key_group rows ?k - {r}" by auto
  then show ?thesis
    using \<open>set (r # rs) = key_group rows ?k\<close>
    unfolding fold_for_def g' by (intro bexI [of _ r]) (auto simp: reduce_fields)
qed

lemma one_element: "x \<in> set xs \<Longrightarrow> y \<in> set xs \<Longrightarrow> length xs \<le> 1 \<Longrightarrow> x = y"
  by (cases xs) auto

lemma fold_result:
  assumes ids: "distinct (map GR_Id rows)" and ok: "list_all grant_row_ok rows"
  shows "distinct (map grant_key (foldDuplicateGrants rows))"
    and "list_all grant_row_ok (foldDuplicateGrants rows)"
    and "key_bits GR_Allow (foldDuplicateGrants rows) k i \<longleftrightarrow> key_bits GR_Allow rows k i"
    and "key_bits GR_Deny (foldDuplicateGrants rows) k i \<longleftrightarrow> key_bits GR_Deny rows k i"
proof -
  let ?R = "runs (sqlDuplicateGrantRows rows)"
  let ?kfs = "map (\<lambda>g. (grant_key (fst g), reduce g)) ?R"
  have eq: "foldDuplicateGrants rows = fold apply_fold (map snd ?kfs) rows"
    by (simp add: foldDuplicateGrants_def duplicateGrantFolds_def fold_rows_runs comp_def)
  have keys: "map fst ?kfs = map (grant_key \<circ> fst) ?R" by simp
  have ffor: "\<forall>(k, f)\<in>set ?kfs. fold_for rows k f" using folds_for [OF ids] by auto
  note res = apply_folds [OF ids _ ffor ok, unfolded keys, OF runs_groups(1) [OF duplicates_sorted],
      folded eq, unfolded Let_def]
  show "list_all grant_row_ok (foldDuplicateGrants rows)"
    "key_bits GR_Allow (foldDuplicateGrants rows) k i \<longleftrightarrow> key_bits GR_Allow rows k i"
    "key_bits GR_Deny (foldDuplicateGrants rows) k i \<longleftrightarrow> key_bits GR_Deny rows k i"
    using res by blast+
  have dk: "fst ` set ?kfs = {k. count_list (map grant_key rows) k > 1}"
  proof -
    have "fst ` set ?kfs = grant_key ` set (sqlDuplicateGrantRows rows)"
      using runs_groups(2) [OF duplicates_sorted] by (simp add: image_image comp_def)
    also have "\<dots> = {k. count_list (map grant_key rows) k > 1}"
    proof (intro set_eqI iffI)
      fix k assume "k \<in> {k. count_list (map grant_key rows) k > 1}"
      then have dup: "1 < count_list (map grant_key rows) k" by simp
      then have "k \<in> set (map grant_key rows)" by (metis count_list_0_iff not_less_zero)
      then obtain x where "x \<in> set rows" "grant_key x = k" by auto
      with dup show "k \<in> grant_key ` set (sqlDuplicateGrantRows rows)" by (auto simp: sqlDuplicateGrantRows_def)
    qed (auto simp: sqlDuplicateGrantRows_def)
    finally show ?thesis .
  qed
  have "inj_on grant_key (set (foldDuplicateGrants rows))"
  proof (rule inj_onI)
    fix x y assume x: "x \<in> set (foldDuplicateGrants rows)" and y: "y \<in> set (foldDuplicateGrants rows)"
      and k: "grant_key x = grant_key y"
    have xy: "x \<in> key_group (foldDuplicateGrants rows) (grant_key x)" "y \<in> key_group (foldDuplicateGrants rows) (grant_key x)"
      using x y k by (auto simp: key_group_def)
    show "x = y"
    proof (cases "grant_key x \<in> fst ` set ?kfs")
      case True
      then obtain r where "key_group (foldDuplicateGrants rows) (grant_key x) = {r}" using res by blast
      with xy show ?thesis by simp
    next
      case False
      then have "key_group (foldDuplicateGrants rows) (grant_key x) = key_group rows (grant_key x)"
        using res by blast
      with xy have rows: "x \<in> set rows" "y \<in> set rows" by (auto simp: key_group_def)
      have "count_list (map grant_key rows) (grant_key x) \<le> 1" using False unfolding dk by simp
      then have "length (filter (\<lambda>r. grant_key r = grant_key x) rows) \<le> 1"
        by (simp add: count_list_eq_length_filter filter_map comp_def eq_commute)
      then show ?thesis
        by (rule one_element [rotated 2]) (use rows k in auto)
    qed
  qed
  moreover have "distinct (foldDuplicateGrants rows)" using res by (simp add: distinct_map)
  ultimately show "distinct (map grant_key (foldDuplicateGrants rows))" by (simp add: distinct_map)
qed

section \<open>Properties\<close>

text \<open>
  C9. Folding duplicate grants changes nobody's access: after the fold the unique index can be
  built, since no two rows share a key, and the evaluator loaded from the folded rows answers
  every ask of every account at every path as it did before, effective permissions included.
\<close>
theorem fold_duplicates_neutral:
  assumes "distinct (map GR_Id rows)" and "list_all grant_row_ok rows"
  shows "distinct (map grant_key (foldDuplicateGrants rows)) \<and>
    Allowed (evaluateLocked (rows_tables (foldDuplicateGrants rows) ms) user share path want) =
      Allowed (evaluateLocked (rows_tables rows ms) user share path want) \<and>
    effectiveLocked (rows_tables (foldDuplicateGrants rows) ms) user share path =
      effectiveLocked (rows_tables rows ms) user share path"
proof -
  note res = fold_result [OF assms]
  from same_bits_same_decisions [OF res(2) assms(2) res(3,4)] res(1) show ?thesis by blast
qed

definition demo_dups :: "grant_row list" where
  "demo_dups =
     [\<lparr>GR_Id = 1, GR_User = Some 5, GR_Group = None, GR_Share = 3, GR_Subpath = ''a'', GR_Allow = 1,
       GR_Deny = 0, GR_Inherit = True, GR_Label = [], GR_CreatedNs = 0\<rparr>,
      \<lparr>GR_Id = 2, GR_User = Some 5, GR_Group = None, GR_Share = 3, GR_Subpath = ''a'', GR_Allow = 2,
       GR_Deny = 8, GR_Inherit = True, GR_Label = ''A'', GR_CreatedNs = 0\<rparr>]"

theorem fold_duplicates_neutral_witness:
  "distinct (map grant_key (foldDuplicateGrants demo_dups)) \<and>
   Allowed (evaluateLocked (rows_tables (foldDuplicateGrants demo_dups) []) 5 3 [''a'', ''b''] 3) \<and>
   \<not> Allowed (evaluateLocked (rows_tables (foldDuplicateGrants demo_dups) []) 5 3 [''a'', ''b''] 8)"
proof -
  have h: "distinct (map GR_Id demo_dups)" "list_all grant_row_ok demo_dups"
    by (simp_all add: demo_dups_def grant_row_ok_def)
  have t: "rows_tables demo_dups [] = load_tables
      [\<lparr>g_ID = 1, g_User = 5, g_Group = 0, g_Share = 3, g_Subpath = [''a''], g_Allow = 1, g_Deny = 0,
         g_Inherit = True, g_Label = [], g_CreatedNs = 0\<rparr>,
       \<lparr>g_ID = 2, g_User = 5, g_Group = 0, g_Share = 3, g_Subpath = [''a''], g_Allow = 2, g_Deny = 8,
         g_Inherit = True, g_Label = ''A'', g_CreatedNs = 0\<rparr>] []"
    by (simp add: rows_tables_def demo_dups_def grantOf_def ParsePath_def TrimByte_def)
  have "Allowed (evaluateLocked (rows_tables demo_dups []) 5 3 [''a'', ''b''] 3)"
    "\<not> Allowed (evaluateLocked (rows_tables demo_dups []) 5 3 [''a'', ''b''] 8)"
    unfolding t by (simp_all add: acl_eval_simps load_tables_def)
  then show ?thesis using fold_duplicates_neutral [OF h, of "[]" 5 3 "[''a'', ''b'']"] by simp
qed

end
