(* ===== verification/Sc_Pathnames.thy ===== *)
theory Sc_Pathnames
  imports Sc_Prelude "HOL-Library.Multiset"
begin

text \<open>
  Name normalisation, \<open>internal/fs/pathnames/uniname.go\<close>: every name that enters the
  program is brought to well-formed UTF-8 in Normalization Form C.

  The normalisation tables, the code pages and the character-set detector are third-party
  packages (\<open>golang.org/x/text\<close>, \<open>github.com/gogs/chardet\<close>) and are the parameter
  \<open>text_library\<close>; \<open>unicode/utf8\<close> is the standard library and is defined here.
\<close>

section \<open>Well-formed UTF-8\<close>

definition cont_byte :: "nat \<Rightarrow> bool" where
  "cont_byte x \<longleftrightarrow> 128 \<le> x \<and> x \<le> 191"

text \<open>\<open>utf8.ValidString\<close>, by the table of the lead bytes and their first continuation.\<close>

fun valid_bytes :: "nat list \<Rightarrow> bool" where
  "valid_bytes [] = True"
| "valid_bytes (a # s) =
     (if a < 128 then valid_bytes s
      else if 194 \<le> a \<and> a \<le> 223 then
        (case s of b # s1 \<Rightarrow> cont_byte b \<and> valid_bytes s1 | [] \<Rightarrow> False)
      else if 224 \<le> a \<and> a \<le> 239 then
        (case s of b # c # s2 \<Rightarrow>
            (if a = 224 then 160 \<le> b \<and> b \<le> 191
             else if a = 237 then 128 \<le> b \<and> b \<le> 159 else cont_byte b) \<and>
            cont_byte c \<and> valid_bytes s2
         | _ \<Rightarrow> False)
      else if 240 \<le> a \<and> a \<le> 244 then
        (case s of b # c # d # s3 \<Rightarrow>
            (if a = 240 then 144 \<le> b \<and> b \<le> 191
             else if a = 244 then 128 \<le> b \<and> b \<le> 143 else cont_byte b) \<and>
            cont_byte c \<and> cont_byte d \<and> valid_bytes s3
         | _ \<Rightarrow> False)
      else False)"

definition ValidString :: "string \<Rightarrow> bool" where
  "ValidString s = valid_bytes (map byte_of s)"

lemma valid_bytes_ascii: "list_all (\<lambda>x. x < 128) bs \<Longrightarrow> valid_bytes bs"
  by (induction bs) auto

section \<open>The third-party text library\<close>

record 'enc text_library =
  NFC_String :: "string \<Rightarrow> string"
  NFC_IsNormalString :: "string \<Rightarrow> bool"
  DetectAll :: "string \<Rightarrow> (string \<times> int) list option"
  IANA_Encoding :: "string \<Rightarrow> 'enc option"
  htmlindex_Get :: "string \<Rightarrow> 'enc option"
  ISO8859_1 :: 'enc
  transform_Bytes :: "'enc option \<Rightarrow> string \<Rightarrow> string option"

text \<open>
  \<open>transform_Bytes T e b\<close> stands for running the decoder of \<open>e\<close> (none when \<^const>\<open>None\<close>)
  followed by the repair of ill-formed bytes and the composition; \<^const>\<open>None\<close> is a
  transform error.
\<close>

section \<open>Choosing a character encoding\<close>

fun str_less :: "string \<Rightarrow> string \<Rightarrow> bool" where
  "str_less _ [] = False"
| "str_less [] (_ # _) = True"
| "str_less (x # xs) (y # ys) =
     (byte_of x < (byte_of y :: nat) \<or> x = y \<and> str_less xs ys)"

definition detectable :: "string \<Rightarrow> bool" where
  "detectable label \<longleftrightarrow>
     label \<in> {''EUC-KR'', ''EUC-JP'', ''Shift_JIS'', ''GB18030'', ''Big5''}"

definition minConfidence :: int where "minConfidence = 90"

definition pick_step :: "string \<times> int \<Rightarrow> string \<times> int \<Rightarrow> string \<times> int" where
  "pick_step r st =
     (case (r, st) of ((charset, confidence), (best, score)) \<Rightarrow>
        if \<not> detectable charset \<or> confidence < minConfidence then (best, score)
        else if confidence > score \<or> confidence = score \<and> str_less charset best
        then (charset, confidence) else (best, score))"

definition pick_charset :: "(string \<times> int) list \<Rightarrow> string" where
  "pick_charset all = fst (fold pick_step all ([], 0))"

definition encodingFor :: "'enc text_library \<Rightarrow> string \<Rightarrow> 'enc option" where
  "encodingFor T label =
     (case IANA_Encoding T label of Some e \<Rightarrow> Some e | None \<Rightarrow> htmlindex_Get T label)"

definition Charset :: "'enc text_library \<Rightarrow> string \<Rightarrow> 'enc option \<Rightarrow> 'enc option" where
  "Charset T sample fallback =
     (case DetectAll T sample of
        None \<Rightarrow> fallback
      | Some all \<Rightarrow>
          (let best = pick_charset all in
           if best = [] then fallback
           else (case encodingFor T best of Some e \<Rightarrow> Some e | None \<Rightarrow> fallback)))"

section \<open>Normalisation\<close>

definition Decode :: "'enc text_library \<Rightarrow> string \<Rightarrow> 'enc option \<Rightarrow> string" where
  "Decode T b enc =
     (case transform_Bytes T enc b of
        Some out \<Rightarrow> out
      | None \<Rightarrow> (case transform_Bytes T None b of Some out \<Rightarrow> out | None \<Rightarrow> b))"

definition Normalize :: "'enc text_library \<Rightarrow> string \<Rightarrow> string" where
  "Normalize T s =
     (if ValidString s then NFC_String T s
      else Decode T s (Charset T s (Some (ISO8859_1 T))))"

definition IsNormalized :: "'enc text_library \<Rightarrow> string \<Rightarrow> bool" where
  "IsNormalized T s \<longleftrightarrow> ValidString s \<and> NFC_IsNormalString T s"

definition components_dirty :: "'enc text_library \<Rightarrow> string list \<Rightarrow> bool" where
  "components_dirty T comps \<longleftrightarrow> list_ex (\<lambda>c. \<not> IsNormalized T c) comps"

definition Components :: "'enc text_library \<Rightarrow> string list \<Rightarrow> string list" where
  "Components T comps =
     (if \<not> components_dirty T comps then comps
      else
        (let joined = Join slash comps;
             enc = (if \<not> ValidString joined
                    then Charset T joined (Some (ISO8859_1 T)) else None)
         in map (\<lambda>c. if ValidString c then NFC_String T c else Decode T c enc) comps))"

text \<open>
  What the code relies on of the text library: composing a well-formed name gives a
  well-formed composed name, a successful transform ends with the composition, and the
  repair alone never fails. All three are the documented behaviour of \<open>x/text\<close>.
\<close>

definition text_lawful :: "'enc text_library \<Rightarrow> bool" where
  "text_lawful T \<longleftrightarrow>
     (\<forall>s. ValidString s \<longrightarrow> IsNormalized T (NFC_String T s)) \<and>
     (\<forall>s. IsNormalized T s \<longrightarrow> NFC_String T s = s) \<and>
     (\<forall>e b out. transform_Bytes T e b = Some out \<longrightarrow> IsNormalized T out) \<and>
     (\<forall>b. transform_Bytes T None b \<noteq> None)"

lemma Decode_normalized: "text_lawful T \<Longrightarrow> IsNormalized T (Decode T b e)"
  unfolding Decode_def text_lawful_def by (auto split: option.split) (metis option.distinct(1))

lemma Normalize_normalized: "text_lawful T \<Longrightarrow> IsNormalized T (Normalize T s)"
  by (auto simp: Normalize_def Decode_normalized) (simp add: text_lawful_def)

lemma Normalize_id: "text_lawful T \<Longrightarrow> IsNormalized T s \<Longrightarrow> Normalize T s = s"
  by (simp add: Normalize_def text_lawful_def IsNormalized_def)

lemma Components_clean: "\<not> components_dirty T comps \<Longrightarrow> Components T comps = comps"
  by (simp add: Components_def)

lemma length_Components [simp]: "length (Components T comps) = length comps"
  by (simp add: Components_def Let_def)

lemma Components_normalized:
  assumes "text_lawful T"
  shows "\<not> components_dirty T (Components T comps)"
proof (cases "components_dirty T comps")
  case True
  then show ?thesis
    using assms Decode_normalized [OF assms]
    by (auto simp: Components_def components_dirty_def Let_def list_ex_iff text_lawful_def)
qed (simp add: Components_def)

lemma Components_idem:
  "text_lawful T \<Longrightarrow> Components T (Components T comps) = Components T comps"
  by (intro Components_clean Components_normalized)

section \<open>The choice of the encoding is stable\<close>

lemma str_less_irrefl: "\<not> str_less x x"
  by (induction x) auto

lemma str_less_trans: "str_less x y \<Longrightarrow> str_less y z \<Longrightarrow> str_less x z"
proof (induction x y arbitrary: z rule: str_less.induct)
  case (3 x xs y ys)
  then show ?case by (cases z) auto
qed (auto elim: str_less.elims)

lemma str_less_total: "x = y \<or> str_less x y \<or> str_less y x"
proof (induction x y rule: str_less.induct)
  case (3 x xs y ys)
  then show ?case by (cases "byte_of x" "byte_of y :: nat" rule: linorder_cases) auto
next
  case (1 x)
  then show ?case by (cases x) auto
qed auto

definition better :: "string \<times> int \<Rightarrow> string \<times> int \<Rightarrow> bool" where
  "better r st \<longleftrightarrow> snd st < snd r \<or> snd r = snd st \<and> str_less (fst r) (fst st)"

lemma better_irrefl: "\<not> better x x"
  by (simp add: better_def str_less_irrefl)

lemma better_trans: "better x y \<Longrightarrow> better y z \<Longrightarrow> better x z"
  unfolding better_def using str_less_trans [of "fst x" "fst y" "fst z"] by linarith

lemma better_total: "x = y \<or> better x y \<or> better y x"
  unfolding better_def prod_eq_iff using str_less_total [of "fst x" "fst y"] by linarith

lemma pick_step_better:
  "pick_step r st = (if detectable (fst r) \<and> minConfidence \<le> snd r \<and> better r st then r else st)"
  by (auto simp: pick_step_def better_def split: prod.splits)

lemma pick_step_commute: "pick_step x \<circ> pick_step y = pick_step y \<circ> pick_step x"
proof
  fix st
  let ?ok = "\<lambda>r. detectable (fst r) \<and> minConfidence \<le> snd r"
  show "(pick_step x \<circ> pick_step y) st = (pick_step y \<circ> pick_step x) st"
  proof (cases "?ok x \<and> ?ok y")
    case True
    then have step: "pick_step x z = (if better x z then x else z)"
      "pick_step y z = (if better y z then y else z)" for z
      by (simp_all add: pick_step_better)
    show ?thesis
      using better_irrefl better_total [of x y] better_trans [of x y st] better_trans [of y x st]
        better_trans [of x y x]
      by (auto simp: step)
  next
    case False
    then show ?thesis by (auto simp: pick_step_better)
  qed
qed

text \<open>
  The encoding chosen for a name does not depend on the order in which the detector
  reports its candidates, so the same bytes always decode to the same name.
\<close>
theorem charset_choice_order_independent:
  assumes "mset all = mset all'"
  shows "pick_charset all = pick_charset all'"
  using fold_multiset_equiv [of all pick_step all'] assms pick_step_commute
  by (simp add: pick_charset_def)

theorem charset_choice_order_independent_witness:
  "mset [(''Big5'', 100), (''EUC-KR'', 100)] = mset [(''EUC-KR'', 100), (''Big5'', 100 :: int)] \<and>
   pick_charset [(''EUC-KR'', 100), (''Big5'', 100)] = ''Big5''"
proof -
  have m: "mset [(''Big5'', 100), (''EUC-KR'', 100)] = mset [(''EUC-KR'', 100), (''Big5'', 100 :: int)]"
    by (simp add: add_mset_commute)
  have "pick_charset [(''Big5'', 100), (''EUC-KR'', 100)] = ''Big5''"
    by (simp add: pick_charset_def pick_step_better detectable_def minConfidence_def better_def)
  with m charset_choice_order_independent [OF m] show ?thesis by simp
qed

end
