(* ===== verification/Sc_VfsPath.thy ===== *)
theory Sc_VfsPath
  imports Sc_Pathnames Sc_Acl
begin

text \<open>
  The path vocabulary of \<open>internal/fs/vfs/path.go\<close>: the wire form \<open>vpath\<close>, the
  share-relative \<open>share_path\<close> and the validated component list \<open>safe_path\<close>, the two
  validation tables, the parsers and the joins. The bounds are those of
  \<open>internal/fs/limits\<close>.
\<close>

section \<open>Data\<close>

datatype vpath = Vpath (vp_raw: string)
datatype share_path = SharePath (sp_raw: string)
datatype safe_path = SafePath (sf_comps: "string list")

definition PathComponents :: nat where "PathComponents = 256"
definition PathBytes :: nat where "PathBytes = 4096"
definition NameBytes :: nat where "NameBytes = 255"

lemmas path_limits = PathComponents_def PathBytes_def NameBytes_def

datatype name_detail =
    EmptyComponent | DotComponent | DotDotComponent | HasSlash | HasNul | ControlByte
  | HasColon | TrailingDotOrSpace | WindowsDevice | LeadingSlash

datatype limit_name = NameBytesLimit | PathBytesLimit | PathComponentsLimit

datatype path_error =
    InvalidName string name_detail
  | ReservedName string
  | Exceeded limit_name nat nat

section \<open>The validation tables\<close>

definition reservedPrefixes :: "string list" where
  "reservedPrefixes = [''.sctrash'', ''.scpart-'', ''.scmeta'', ''.scindex'']"

definition IsReservedName :: "string \<Rightarrow> bool" where
  "IsReservedName name \<longleftrightarrow> list_ex (HasPrefix name) reservedPrefixes"

definition windowsReservedDeviceNames :: "string list" where
  "windowsReservedDeviceNames =
     [''CON'', ''PRN'', ''AUX'', ''NUL'',
      ''COM1'', ''COM2'', ''COM3'', ''COM4'', ''COM5'', ''COM6'', ''COM7'', ''COM8'', ''COM9'',
      ''LPT1'', ''LPT2'', ''LPT3'', ''LPT4'', ''LPT5'', ''LPT6'', ''LPT7'', ''LPT8'', ''LPT9'']"

definition isWindowsDeviceName :: "string \<Rightarrow> bool" where
  "isWindowsDeviceName name \<longleftrightarrow>
     (let stem = fst (Cut (CHR ''.'') name) in
      list_ex (EqualFoldASCII stem) windowsReservedDeviceNames)"

definition nul :: char where "nul = CHR 0x00"

definition validateExisting :: "string \<Rightarrow> path_error option" where
  "validateExisting name =
     (if name = [] then Some (InvalidName name EmptyComponent)
      else if name = ''.'' then Some (InvalidName name DotComponent)
      else if name = ''..'' then Some (InvalidName name DotDotComponent)
      else if slash \<in> set name then Some (InvalidName name HasSlash)
      else if nul \<in> set name then Some (InvalidName name HasNul)
      else if length name > NameBytes then Some (Exceeded NameBytesLimit NameBytes (length name))
      else if IsReservedName name then Some (ReservedName name)
      else None)"

definition existingRulesExceptReserved :: "string \<Rightarrow> path_error option" where
  "existingRulesExceptReserved name =
     (case validateExisting name of
        Some (ReservedName _) \<Rightarrow> None
      | r \<Rightarrow> r)"

definition control_byte :: "char \<Rightarrow> bool" where
  "control_byte b \<longleftrightarrow> byte_of b \<le> (31::nat) \<or> byte_of b = (127::nat)"

definition validateCreatable :: "string \<Rightarrow> bool \<Rightarrow> path_error option" where
  "validateCreatable name rejectReserved =
     (case existingRulesExceptReserved name of
        Some e \<Rightarrow> Some e
      | None \<Rightarrow>
          (if list_ex control_byte name then Some (InvalidName name ControlByte)
           else if CHR '':'' \<in> set name then Some (InvalidName name HasColon)
           else if HasSuffix name ''.'' \<or> HasSuffix name '' ''
             then Some (InvalidName name TrailingDotOrSpace)
           else if isWindowsDeviceName name then Some (InvalidName name WindowsDevice)
           else if rejectReserved \<and> IsReservedName name then Some (ReservedName name)
           else None))"

definition checkPathSize :: "string \<Rightarrow> path_error option" where
  "checkPathSize s =
     (if length s > PathBytes then Some (Exceeded PathBytesLimit PathBytes (length s)) else None)"

definition checkComponentCount :: "nat \<Rightarrow> path_error option" where
  "checkComponentCount n =
     (if n > PathComponents then Some (Exceeded PathComponentsLimit PathComponents n) else None)"

text \<open>The validation loop: the first refusal wins.\<close>

fun first_refusal :: "string list \<Rightarrow> path_error option" where
  "first_refusal [] = None"
| "first_refusal (c # cs) =
     (case validateExisting c of Some e \<Rightarrow> Some e | None \<Rightarrow> first_refusal cs)"

definition splitValidated ::
  "'enc text_library \<Rightarrow> string \<Rightarrow> (path_error, string \<times> string list) result" where
  "splitValidated T s =
     (case checkPathSize s of Some e \<Rightarrow> Inl e
      | None \<Rightarrow>
        if HasPrefix s ''/'' then Inl (InvalidName s LeadingSlash)
        else if s = [] then Inr ([], [])
        else (case checkComponentCount (count_list s slash + 1) of Some e \<Rightarrow> Inl e
          | None \<Rightarrow>
            (let comps = Split slash s; normalized = Components T comps in
             case first_refusal normalized of Some e \<Rightarrow> Inl e
             | None \<Rightarrow>
                 if \<not> components_dirty T comps then Inr (s, comps)
                 else Inr (Join slash normalized, normalized))))"

section \<open>The wire form\<close>

definition ParseVpath :: "'enc text_library \<Rightarrow> string \<Rightarrow> (path_error, vpath) result" where
  "ParseVpath T s =
     (case splitValidated T (TrimPrefix s ''/'') of
        Inl e \<Rightarrow> Inl e | Inr (normalized, _) \<Rightarrow> Inr (Vpath normalized))"

definition NewVpath :: "'enc text_library \<Rightarrow> string \<Rightarrow> share_path \<Rightarrow> (path_error, vpath) result" where
  "NewVpath T label rest =
     (case validateExisting label of Some e \<Rightarrow> Inl e
      | None \<Rightarrow> if sp_raw rest = [] then ParseVpath T label
                else ParseVpath T (label @ slash # sp_raw rest))"

definition Vpath_IsRoot :: "vpath \<Rightarrow> bool" where
  "Vpath_IsRoot p \<longleftrightarrow> vp_raw p = []"

definition Vpath_Name :: "vpath \<Rightarrow> string" where
  "Vpath_Name p =
     (case LastIndexByte slash (vp_raw p) of Some i \<Rightarrow> drop (i + 1) (vp_raw p) | None \<Rightarrow> vp_raw p)"

definition Vpath_Label :: "vpath \<Rightarrow> string" where
  "Vpath_Label p = fst (Cut slash (vp_raw p))"

definition Vpath_Rest :: "vpath \<Rightarrow> share_path" where
  "Vpath_Rest p = SharePath (fst (snd (Cut slash (vp_raw p))))"

section \<open>The share-relative form\<close>

definition ParseSharePath :: "'enc text_library \<Rightarrow> string \<Rightarrow> (path_error, share_path) result" where
  "ParseSharePath T s =
     (case splitValidated T s of Inl e \<Rightarrow> Inl e | Inr (normalized, _) \<Rightarrow> Inr (SharePath normalized))"

definition SharePath_IsRoot :: "share_path \<Rightarrow> bool" where
  "SharePath_IsRoot p \<longleftrightarrow> sp_raw p = []"

definition SharePath_Components :: "share_path \<Rightarrow> string list" where
  "SharePath_Components p = (if sp_raw p = [] then [] else Split slash (sp_raw p))"

definition SharePath_Safe :: "'enc text_library \<Rightarrow> share_path \<Rightarrow> (path_error, safe_path) result" where
  "SharePath_Safe T p =
     (case splitValidated T (sp_raw p) of Inl e \<Rightarrow> Inl e | Inr (_, comps) \<Rightarrow> Inr (SafePath comps))"

section \<open>The validated form\<close>

definition ParseSafePath :: "'enc text_library \<Rightarrow> string \<Rightarrow> (path_error, safe_path) result" where
  "ParseSafePath T s =
     (case splitValidated T s of Inl e \<Rightarrow> Inl e | Inr (_, comps) \<Rightarrow> Inr (SafePath comps))"

definition RootPath :: safe_path where "RootPath = SafePath []"

definition SafePath_IsRoot :: "safe_path \<Rightarrow> bool" where
  "SafePath_IsRoot p \<longleftrightarrow> sf_comps p = []"

definition SafePath_Name :: "safe_path \<Rightarrow> string" where
  "SafePath_Name p = (if sf_comps p = [] then [] else last (sf_comps p))"

definition SafePath_Parent :: "safe_path \<Rightarrow> safe_path" where
  "SafePath_Parent p = (if sf_comps p = [] then SafePath [] else SafePath (butlast (sf_comps p)))"

definition push :: "safe_path \<Rightarrow> string \<Rightarrow> (path_error, safe_path) result" where
  "push p name =
     (case checkComponentCount (length (sf_comps p) + 1) of Some e \<Rightarrow> Inl e
      | None \<Rightarrow>
        (let total = foldl (\<lambda>acc c. acc + (length c + 1)) (length name) (sf_comps p) in
         if total > PathBytes then Inl (Exceeded PathBytesLimit PathBytes total)
         else Inr (SafePath (sf_comps p @ [name]))))"

definition SafePath_Join ::
  "'enc text_library \<Rightarrow> safe_path \<Rightarrow> string \<Rightarrow> (path_error, safe_path) result" where
  "SafePath_Join T p name0 =
     (let name = Normalize T name0 in
      case validateCreatable name True of Some e \<Rightarrow> Inl e | None \<Rightarrow> push p name)"

definition JoinExisting :: "safe_path \<Rightarrow> string \<Rightarrow> (path_error, safe_path) result" where
  "JoinExisting p name =
     (case validateExisting name of Some e \<Rightarrow> Inl e | None \<Rightarrow> push p name)"

definition JoinControl :: "safe_path \<Rightarrow> string \<Rightarrow> (path_error, safe_path) result" where
  "JoinControl p name =
     (case validateCreatable name False of Some e \<Rightarrow> Inl e | None \<Rightarrow> push p name)"

definition SafePath_HasPrefix :: "safe_path \<Rightarrow> safe_path \<Rightarrow> bool" where
  "SafePath_HasPrefix p other \<longleftrightarrow>
     length (sf_comps other) \<le> length (sf_comps p) \<and>
     sf_comps other = take (length (sf_comps other)) (sf_comps p)"

definition Under :: "safe_path \<Rightarrow> safe_path \<Rightarrow> bool" where
  "Under p other \<longleftrightarrow>
     length (sf_comps other) \<le> length (sf_comps p) \<and>
     take (length (sf_comps other)) (sf_comps p) = sf_comps other"

definition SafePath_String :: "safe_path \<Rightarrow> string" where
  "SafePath_String p = Join slash (sf_comps p)"

definition SafePath_Share :: "safe_path \<Rightarrow> share_path" where
  "SafePath_Share p = SharePath (SafePath_String p)"

section \<open>What the tables admit\<close>

text \<open>A component the existing-name table admits, and one the creation table admits.\<close>

definition ok_component :: "string \<Rightarrow> bool" where
  "ok_component c \<longleftrightarrow>
     c \<noteq> [] \<and> c \<noteq> ''.'' \<and> c \<noteq> ''..'' \<and> slash \<notin> set c \<and> nul \<notin> set c \<and>
     length c \<le> 255 \<and> \<not> IsReservedName c"

definition portable_component :: "string \<Rightarrow> bool" where
  "portable_component c \<longleftrightarrow>
     \<not> list_ex control_byte c \<and> CHR '':'' \<notin> set c \<and> \<not> HasSuffix c ''.'' \<and>
     \<not> HasSuffix c '' '' \<and> \<not> isWindowsDeviceName c"

lemma validateExisting_None: "validateExisting c = None \<longleftrightarrow> ok_component c"
  by (auto simp: validateExisting_def ok_component_def NameBytes_def)

lemma validateCreatable_None:
  "validateCreatable c True = None \<longleftrightarrow> ok_component c \<and> portable_component c"
  by (auto simp: validateCreatable_def existingRulesExceptReserved_def validateExisting_def
      ok_component_def portable_component_def NameBytes_def split: option.splits path_error.splits)

lemma validateCreatable_control_None:
  "validateCreatable c False = None \<longleftrightarrow>
     (ok_component c \<or> c \<noteq> [] \<and> slash \<notin> set c \<and> nul \<notin> set c \<and> length c \<le> 255 \<and>
        IsReservedName c) \<and> portable_component c"
  by (auto simp: validateCreatable_def existingRulesExceptReserved_def validateExisting_def
      ok_component_def portable_component_def NameBytes_def IsReservedName_def reservedPrefixes_def
      split: option.splits path_error.splits)

lemma first_refusal_None: "first_refusal cs = None \<longleftrightarrow> list_all ok_component cs"
  by (induction cs) (auto simp: validateExisting_None [symmetric] split: option.splits)

lemma ok_component_wf: "list_all ok_component cs \<Longrightarrow> wf_path cs"
  by (auto simp: wf_path_def ok_component_def list_all_iff)

lemma splitValidated_Inr:
  assumes "splitValidated T s = Inr (raw, comps)"
  shows "raw = Join slash comps" "list_all ok_component comps" "length comps \<le> 256"
    "comps = (if s = [] then [] else Components T (Split slash s))"
proof -
  from assms show "comps = (if s = [] then [] else Components T (Split slash s))"
    by (auto simp: splitValidated_def Let_def Components_clean split: option.splits if_splits)
  from assms show "raw = Join slash comps"
    by (auto simp: splitValidated_def Let_def split: option.splits if_splits)
  from assms show "list_all ok_component comps"
    by (auto simp: splitValidated_def Let_def Components_clean first_refusal_None
        split: option.splits if_splits)
  from assms show "length comps \<le> 256"
    by (auto simp: splitValidated_def Let_def checkComponentCount_def PathComponents_def
        length_Split split: option.splits if_splits)
qed

lemma Components_nonempty [simp]: "Components T cs = [] \<longleftrightarrow> cs = []"
  using length_Components [of T cs] by (metis length_0_conv)

lemma splitValidated_root [simp]: "splitValidated T [] = Inr ([], [])"
  by (simp add: splitValidated_def checkPathSize_def)

text \<open>Parsing a joined list of admissible, already normal components gives it back.\<close>

lemma splitValidated_Join:
  assumes "list_all ok_component cs" "length cs \<le> 256" "\<not> components_dirty T cs" "cs \<noteq> []"
  shows "splitValidated T (Join slash cs) =
    (if length (Join slash cs) \<le> 4096 then Inr (Join slash cs, cs)
     else Inl (Exceeded PathBytesLimit 4096 (length (Join slash cs))))"
proof -
  from assms(1) have comp: "\<forall>c\<in>set cs. c \<noteq> [] \<and> slash \<notin> set c"
    by (auto simp: list_all_iff ok_component_def)
  with assms(4) have sp: "Split slash (Join slash cs) = cs"
    by (intro Split_Join) auto
  then have cnt: "count_list (Join slash cs) slash + 1 = length cs"
    using length_Split [of slash "Join slash cs"] by simp
  from comp assms(4) have ne: "Join slash cs \<noteq> []" using Join_eq_Nil by metis
  obtain x xs ys where cs: "cs = (x # xs) # ys" and "x \<noteq> slash"
    using comp assms(4) by (cases cs; cases "hd cs") auto
  then have "\<not> HasPrefix (Join slash cs) ''/''" by (cases ys) auto
  moreover have "first_refusal cs = None" using assms(1) by (simp add: first_refusal_None)
  ultimately show ?thesis using assms sp cnt ne
    by (simp add: splitValidated_def checkPathSize_def checkComponentCount_def path_limits
        Components_clean Let_def)
qed

lemma splitValidated_again:
  assumes "text_lawful T" and "splitValidated T s = Inr (raw, comps)"
  shows "splitValidated T raw =
    (if length raw \<le> 4096 then Inr (raw, comps)
     else Inl (Exceeded PathBytesLimit 4096 (length raw)))"
proof (cases "comps = []")
  case True
  then show ?thesis using splitValidated_Inr(1) [OF assms(2)] by simp
next
  case False
  note sv = splitValidated_Inr [OF assms(2)]
  from sv(4) False have "comps = Components T (Split slash s)" by (auto split: if_splits)
  then have "\<not> components_dirty T comps" using Components_normalized [OF assms(1)] by simp
  from splitValidated_Join [OF sv(2,3) this False] show ?thesis using sv(1) by simp
qed

lemma length_push_total:
  "foldl (\<lambda>acc c. Suc (acc + length c)) n cs = n + (\<Sum>c\<leftarrow>cs. Suc (length c))"
  by (induction cs arbitrary: n) auto

lemma push_Inr:
  assumes "push p name = Inr q"
  shows "sf_comps q = sf_comps p @ [name]" "length (sf_comps q) \<le> 256"
    "length (SafePath_String q) \<le> 4096"
proof -
  from assms show q: "sf_comps q = sf_comps p @ [name]"
    by (auto simp: push_def Let_def split: option.splits if_splits)
  from assms q show "length (sf_comps q) \<le> 256"
    by (auto simp: push_def checkComponentCount_def path_limits split: option.splits if_splits)
  have "length (Join slash (cs @ [name])) = length name + (\<Sum>c\<leftarrow>cs. length c + 1)" for cs
  proof (induction cs)
    case (Cons c cs)
    then show ?case by (cases cs) auto
  qed simp
  with assms q show "length (SafePath_String q) \<le> 4096"
    by (auto simp: push_def Let_def length_push_total SafePath_String_def path_limits
        split: option.splits if_splits)
qed

section \<open>Paths reachable from client input\<close>

text \<open>
  Every way the package offers to obtain a \<open>SafePath\<close> apart from \<open>JoinControl\<close>.
\<close>

inductive client_path :: "'enc text_library \<Rightarrow> safe_path \<Rightarrow> bool" for T where
  root: "client_path T RootPath"
| parsed: "ParseSafePath T s = Inr p \<Longrightarrow> client_path T p"
| safe: "SharePath_Safe T sp = Inr p \<Longrightarrow> client_path T p"
| parent: "client_path T p \<Longrightarrow> client_path T (SafePath_Parent p)"
| join: "client_path T p \<Longrightarrow> SafePath_Join T p name = Inr q \<Longrightarrow> client_path T q"
| existing: "client_path T p \<Longrightarrow> JoinExisting p name = Inr q \<Longrightarrow> client_path T q"

definition path_ok :: "safe_path \<Rightarrow> bool" where
  "path_ok p \<longleftrightarrow> list_all ok_component (sf_comps p) \<and> length (sf_comps p) \<le> 256"

lemma ParseSafePath_ok: "ParseSafePath T s = Inr p \<Longrightarrow> path_ok p"
  by (auto simp: ParseSafePath_def path_ok_def splitValidated_Inr split: sum.splits)

lemma SharePath_Safe_ok: "SharePath_Safe T sp = Inr p \<Longrightarrow> path_ok p"
  by (auto simp: SharePath_Safe_def path_ok_def splitValidated_Inr split: sum.splits)

lemma JoinExisting_Inr:
  "JoinExisting p name = Inr q \<Longrightarrow> push p name = Inr q \<and> ok_component name"
  by (auto simp: JoinExisting_def validateExisting_None split: option.splits)

lemma SafePath_Join_Inr:
  "SafePath_Join T p name = Inr q \<Longrightarrow>
     push p (Normalize T name) = Inr q \<and> ok_component (Normalize T name) \<and>
     portable_component (Normalize T name)"
  by (auto simp: SafePath_Join_def Let_def validateCreatable_None split: option.splits)

lemma push_ok: "path_ok p \<Longrightarrow> ok_component name \<Longrightarrow> push p name = Inr q \<Longrightarrow> path_ok q"
  using push_Inr [of p name q] by (simp add: path_ok_def)

lemma path_ok_wf_path: "path_ok p \<Longrightarrow> wf_path (sf_comps p)"
  by (simp add: path_ok_def ok_component_wf)

lemma client_path_ok: "client_path T p \<Longrightarrow> path_ok p"
proof (induction rule: client_path.induct)
  case root
  show ?case by (simp add: path_ok_def RootPath_def)
next
  case (parent p)
  then show ?case
    by (auto simp: path_ok_def SafePath_Parent_def list_all_iff dest: in_set_butlastD)
next
  case (join p name q)
  then show ?case using SafePath_Join_Inr push_ok by blast
next
  case (existing p name q)
  then show ?case using JoinExisting_Inr push_ok by blast
qed (auto intro: ParseSafePath_ok SharePath_Safe_ok)

lemma Under_prefix: "Under p q \<longleftrightarrow> prefix (sf_comps q) (sf_comps p)"
  unfolding Under_def prefix_def
  by (metis append_eq_conv_conj append_take_drop_id le_add1 length_append)

section \<open>A concrete text library\<close>

text \<open>
  A text library without composition whose fallback code page is Latin-1, as the real one's
  is: a byte above 127 becomes the two bytes of its code point. It shows that the laws the
  code relies on can hold.
\<close>

definition latin1_rune :: "char \<Rightarrow> string" where
  "latin1_rune c =
     (if byte_of c < (128::nat) then [c]
      else [char_of (192 + byte_of c div 64 :: nat), char_of (128 + byte_of c mod 64 :: nat)])"

definition latin1_text :: "string \<Rightarrow> string" where
  "latin1_text s = concat (map latin1_rune s)"

definition latin1_library :: "unit text_library" where
  "latin1_library =
     \<lparr>NFC_String = (\<lambda>s. s), NFC_IsNormalString = (\<lambda>_. True), DetectAll = (\<lambda>_. None),
      IANA_Encoding = (\<lambda>_. None), htmlindex_Get = (\<lambda>_. None), ISO8859_1 = (),
      transform_Bytes = (\<lambda>_ b. Some (latin1_text b))\<rparr>"

lemma latin1_rune_valid:
  "valid_bytes (map byte_of (latin1_rune c) @ bs) = valid_bytes bs"
proof -
  have "byte_of c < (256::nat)" by (rule nat_of_char_less_256)
  then have "byte_of c div 64 \<le> (3::nat)" by linarith
  moreover have "\<not> byte_of c < (128::nat) \<Longrightarrow> 2 \<le> byte_of c div (64::nat)" by linarith
  moreover have "byte_of c mod 64 \<le> (63::nat)"
    using mod_less_divisor [of 64 "byte_of c"] by linarith
  ultimately show ?thesis by (simp add: latin1_rune_def cont_byte_def)
qed

lemma latin1_text_valid: "ValidString (latin1_text s)"
  by (induction s) (simp_all add: ValidString_def latin1_text_def latin1_rune_valid)

lemma latin1_lawful: "text_lawful latin1_library"
  by (auto simp: text_lawful_def IsNormalized_def latin1_library_def latin1_text_valid)

section \<open>Properties of the path vocabulary\<close>

text \<open>
  C5. The trust boundary: no component of a path that came from a client, through any
  parser or join of the package other than \<open>JoinControl\<close>, is empty, a dot or dot-dot
  component, holds a separator or a NUL byte, is longer than 255 bytes or carries one of
  the control prefixes, and no such path has more than 256 components.
\<close>
theorem client_paths_are_safe:
  assumes "client_path T p" and "c \<in> set (sf_comps p)"
  shows "c \<noteq> [] \<and> c \<noteq> ''.'' \<and> c \<noteq> ''..'' \<and> slash \<notin> set c \<and> nul \<notin> set c \<and>
         length c \<le> 255 \<and> \<not> IsReservedName c \<and> length (sf_comps p) \<le> 256"
  using client_path_ok [OF assms(1)] assms(2) by (auto simp: path_ok_def list_all_iff ok_component_def)

lemmas path_eval_simps = ParseSafePath_def splitValidated_def checkPathSize_def checkComponentCount_def
  path_limits Components_def components_dirty_def IsNormalized_def latin1_library_def ValidString_def
  validateExisting_def IsReservedName_def reservedPrefixes_def nul_def Let_def

lemma parse_a_b: "ParseSafePath latin1_library ''a/b'' = Inr (SafePath [''a'', ''b''])"
  by (simp add: path_eval_simps)

theorem client_paths_are_safe_witness:
  "client_path latin1_library (SafePath [''a'', ''b'']) \<and> ''b'' \<in> set [''a'', ''b''] \<and>
   ''b'' \<noteq> ''..'' \<and> slash \<notin> set ''b''"
proof -
  have 1: "client_path latin1_library (SafePath [''a'', ''b''])"
    using parse_a_b by (rule client_path.parsed)
  have 2: "''b'' \<in> set (sf_comps (SafePath [''a'', ''b'']))" by simp
  show ?thesis using 1 client_paths_are_safe [OF 1 2] by simp
qed

text \<open>
  Minting: what \<open>Join\<close> appends is the normalised name, and that name passes the
  Windows-portability table as well: no control byte, no colon, no trailing dot or space,
  no device name. The joined path is at most 4096 bytes long.
\<close>
theorem join_mints_portable_names:
  assumes "SafePath_Join T p name = Inr q"
  shows "sf_comps q = sf_comps p @ [Normalize T name] \<and> ok_component (Normalize T name) \<and>
         portable_component (Normalize T name) \<and> length (SafePath_String q) \<le> 4096"
  using SafePath_Join_Inr [OF assms] push_Inr by blast

theorem join_mints_portable_names_witness:
  "SafePath_Join latin1_library RootPath ''n'' = Inr (SafePath [''n'']) \<and> portable_component ''n''"
proof -
  have 1: "SafePath_Join latin1_library RootPath ''n'' = Inr (SafePath [''n''])"
    by (simp add: SafePath_Join_def Normalize_def ValidString_def latin1_library_def Let_def
        validateCreatable_def existingRulesExceptReserved_def validateExisting_def path_limits
        IsReservedName_def reservedPrefixes_def nul_def control_byte_def HasSuffix_def
        isWindowsDeviceName_def windowsReservedDeviceNames_def EqualFoldASCII_def push_def
        checkComponentCount_def RootPath_def)
  have "Normalize latin1_library ''n'' = ''n''"
    by (simp add: Normalize_def ValidString_def latin1_library_def)
  with 1 join_mints_portable_names [OF 1] show ?thesis by simp
qed

text \<open>
  Re-validating a parsed path is the identity as long as it fits: with a lawful text
  library, \<open>Safe\<close> of a parsed share path returns exactly the components parsing produced
  when the normalised spelling has at most 4096 bytes, and refuses it otherwise.
\<close>
theorem share_path_safe_roundtrip:
  assumes "text_lawful T" and "ParseSharePath T s = Inr sp"
  shows "\<exists>comps. ParseSafePath T s = Inr (SafePath comps) \<and> sp_raw sp = Join slash comps \<and>
           SharePath_Safe T sp =
             (if length (sp_raw sp) \<le> 4096 then Inr (SafePath comps)
              else Inl (Exceeded PathBytesLimit 4096 (length (sp_raw sp))))"
proof -
  from assms(2) obtain comps where sv: "splitValidated T s = Inr (sp_raw sp, comps)"
    by (auto simp: ParseSharePath_def split: sum.splits)
  then show ?thesis
    using splitValidated_again [OF assms(1) sv] splitValidated_Inr(1) [OF sv]
    by (auto simp: ParseSafePath_def SharePath_Safe_def)
qed

theorem share_path_safe_roundtrip_witness:
  "text_lawful latin1_library \<and> ParseSharePath latin1_library ''a/b'' = Inr (SharePath ''a/b'') \<and>
   SharePath_Safe latin1_library (SharePath ''a/b'') = Inr (SafePath [''a'', ''b''])"
proof -
  have 1: "ParseSharePath latin1_library ''a/b'' = Inr (SharePath ''a/b'')"
    by (simp add: ParseSharePath_def path_eval_simps)
  show ?thesis
    using latin1_lawful 1 share_path_safe_roundtrip [OF latin1_lawful 1] parse_a_b by auto
qed

text \<open>
  The wire form splits and joins back: a parsed virtual path other than the root is
  its label, a separator and the rest, its label is an admissible component, and
  \<open>NewVpath\<close> of the two parts is the path again (or the size refusal when the normalised
  spelling exceeds 4096 bytes).
\<close>
theorem vpath_label_rest_roundtrip:
  assumes "text_lawful T" and "ParseVpath T s = Inr p" and "\<not> Vpath_IsRoot p"
  shows "ok_component (Vpath_Label p) \<and>
         NewVpath T (Vpath_Label p) (Vpath_Rest p) =
           (if length (vp_raw p) \<le> 4096 then Inr p
            else Inl (Exceeded PathBytesLimit 4096 (length (vp_raw p))))"
proof -
  from assms(2) obtain comps where sv: "splitValidated T (TrimPrefix s ''/'') = Inr (vp_raw p, comps)"
    by (auto simp: ParseVpath_def split: sum.splits)
  note facts = splitValidated_Inr [OF sv]
  from assms(3) facts(1) obtain l ls where comps: "comps = l # ls"
    by (cases comps) (auto simp: Vpath_IsRoot_def)
  with facts(2) have l: "ok_component l" "slash \<notin> set l" by (auto simp: ok_component_def)
  have raw: "vp_raw p = (if ls = [] then l else l @ slash # Join slash ls)"
    using facts(1) comps by (auto simp: Join_Cons)
  have label: "Vpath_Label p = l"
    using l(2) by (simp add: Vpath_Label_def raw Cut_found Cut_not_found)
  have rest: "sp_raw (Vpath_Rest p) = (if ls = [] then [] else Join slash ls)"
    using l(2) by (simp add: Vpath_Rest_def raw Cut_found Cut_not_found)
  have "ls \<noteq> [] \<Longrightarrow> Join slash ls \<noteq> []"
    using facts(2) comps Join_eq_Nil [of slash ls] by (auto simp: list_all_iff ok_component_def)
  then have new: "NewVpath T l (Vpath_Rest p) = ParseVpath T (vp_raw p)"
    using l(1) rest raw validateExisting_None [of l] by (auto simp: NewVpath_def)
  have "TrimPrefix (vp_raw p) ''/'' = vp_raw p"
    using l raw by (cases l) (auto simp: TrimPrefix_def ok_component_def)
  then have "ParseVpath T (vp_raw p) = (if length (vp_raw p) \<le> 4096 then Inr p
            else Inl (Exceeded PathBytesLimit 4096 (length (vp_raw p))))"
    using splitValidated_again [OF assms(1) sv] by (simp add: ParseVpath_def)
  with l(1) label new show ?thesis by simp
qed

theorem vpath_label_rest_roundtrip_witness:
  "text_lawful latin1_library \<and> ParseVpath latin1_library ''/docs/a'' = Inr (Vpath ''docs/a'') \<and>
   \<not> Vpath_IsRoot (Vpath ''docs/a'') \<and>
   NewVpath latin1_library (Vpath_Label (Vpath ''docs/a'')) (Vpath_Rest (Vpath ''docs/a'')) =
     Inr (Vpath ''docs/a'')"
proof -
  have 1: "ParseVpath latin1_library ''/docs/a'' = Inr (Vpath ''docs/a'')"
    by (simp add: ParseVpath_def TrimPrefix_def path_eval_simps)
  have 2: "\<not> Vpath_IsRoot (Vpath ''docs/a'')" by (simp add: Vpath_IsRoot_def)
  show ?thesis using latin1_lawful 1 2 vpath_label_rest_roundtrip [OF latin1_lawful 1 2] by simp
qed

end
