(* ===== verification/Sc_Quota.thy ===== *)
theory Sc_Quota
  imports Sc_StateDb
begin

text \<open>
  The byte ledger: \<open>internal/db/state/quota.go\<close> with its two statements in
  \<open>quota_sql.go\<close>, and the reservation protocol of \<open>internal/files/quota.go\<close> that keeps the
  ledger and the disk in step. The ledger is an interface of the core (\<open>QuotaSink\<close>), so it is a
  record of functions here; the durable write below it belongs to the storage driver, and what
  it does to one write is the argument \<open>durable_run\<close>. Sums of the ledger are mathematical
  integers: the columns hold 64-bit values and the claims are about sums that fit them.
\<close>

section \<open>The ledger in the database\<close>

definition sqlReserveQuota :: "int \<Rightarrow> int \<Rightarrow> user_row list \<Rightarrow> user_row list \<times> nat" where
  "sqlReserveQuota delta user rows =
     (let hit = (\<lambda>r. U_Id r = user \<and>
                  (case U_Quota r of None \<Rightarrow> True | Some q \<Rightarrow> U_Usage r + delta \<le> q)) in
      (map (\<lambda>r. if hit r then r\<lparr>U_Usage := U_Usage r + delta\<rparr> else r) rows,
       length (filter hit rows)))"

definition sqlReleaseQuota :: "int \<Rightarrow> int \<Rightarrow> user_row list \<Rightarrow> user_row list" where
  "sqlReleaseQuota delta user rows =
     map (\<lambda>r. if U_Id r = user then r\<lparr>U_Usage := max 0 (U_Usage r - delta)\<rparr> else r) rows"

definition Quota_Reserve ::
  "int \<Rightarrow> int \<Rightarrow> state_db \<Rightarrow> (state_error, bool) result \<times> state_db" where
  "Quota_Reserve user additional db =
     (case Narrow (Signed 64) (Unsigned 64) additional of
        None \<Rightarrow> (Inl (ErrNarrow additional), db)
      | Some delta \<Rightarrow>
          db_Write (\<lambda>db. case sqlReserveQuota delta user (user_rows db) of (rows, affected) \<Rightarrow>
            Inr (affected = 1, db\<lparr>user_rows := rows\<rparr>)) db)"

definition Quota_Commit ::
  "int \<Rightarrow> int \<Rightarrow> state_db \<Rightarrow> (state_error, unit) result \<times> state_db" where
  "Quota_Commit user additional db = (Inr (), db)"

definition Quota_Release ::
  "int \<Rightarrow> int \<Rightarrow> state_db \<Rightarrow> (state_error, unit) result \<times> state_db" where
  "Quota_Release user delta db =
     (if delta = 0 then (Inr (), db)
      else if delta < 0 then (Inl (NegativeRelease delta), db)
      else db_Write (\<lambda>db. Inr ((), db\<lparr>user_rows := sqlReleaseQuota delta user (user_rows db)\<rparr>)) db)"

section \<open>The interface the core consumes\<close>

record 'db quota_sink =
  sink_Reserve :: "int \<Rightarrow> int \<Rightarrow> 'db \<Rightarrow> (state_error, bool) result \<times> 'db"
  sink_Commit :: "int \<Rightarrow> int \<Rightarrow> 'db \<Rightarrow> (state_error, unit) result \<times> 'db"
  sink_Release :: "int \<Rightarrow> int \<Rightarrow> 'db \<Rightarrow> (state_error, unit) result \<times> 'db"

definition state_quota :: "state_db quota_sink" where
  "state_quota = \<lparr>sink_Reserve = Quota_Reserve, sink_Commit = Quota_Commit, sink_Release = Quota_Release\<rparr>"

datatype core_error =
    ErrQuotaExceeded
  | Ledger state_error
  | NotRepresentable int
  | WriteFailed
  | StatFailed
  | StageFailed
  | PublishFailed

definition magnitude :: "int \<Rightarrow> int" where
  "magnitude delta = (if delta = min_i64 then max_i64 else - delta)"

text \<open>A failure to settle is logged and changes nothing further.\<close>

definition chargeQuota :: "'db quota_sink option \<Rightarrow> int \<Rightarrow> int \<Rightarrow> 'db \<Rightarrow> 'db" where
  "chargeQuota quota user delta db =
     (case quota of
        None \<Rightarrow> db
      | Some q \<Rightarrow>
          if delta = 0 then db
          else if delta > 0 then snd (sink_Reserve q user delta db)
          else snd (sink_Release q user (magnitude delta) db))"

definition CheckQuota ::
  "'db quota_sink option \<Rightarrow> int \<Rightarrow> int \<Rightarrow> 'db \<Rightarrow> core_error option \<times> 'db" where
  "CheckQuota quota user bytes db =
     (case quota of
        None \<Rightarrow> (None, db)
      | Some q \<Rightarrow>
          if bytes = 0 then (None, db)
          else (case Narrow (Signed 64) (Unsigned 64) bytes of
            None \<Rightarrow> (Some (NotRepresentable bytes), db)
          | Some signed_bytes \<Rightarrow>
              (case sink_Reserve q user bytes db of
                 (Inl e, db') \<Rightarrow> (Some (Ledger e), db')
               | (Inr ok, db') \<Rightarrow>
                   if \<not> ok then (Some ErrQuotaExceeded, db')
                   else (None, snd (sink_Release q user signed_bytes db')))))"

record quotaReservation =
  h_bytes :: int
  h_active :: bool

definition no_hold :: quotaReservation where "no_hold = \<lparr>h_bytes = 0, h_active = False\<rparr>"

definition reserveQuota ::
  "'db quota_sink option \<Rightarrow> int \<Rightarrow> int \<Rightarrow> 'db \<Rightarrow> (core_error, quotaReservation) result \<times> 'db" where
  "reserveQuota quota user bytes db =
     (case quota of
        None \<Rightarrow> (Inr no_hold, db)
      | Some q \<Rightarrow>
          if bytes = 0 then (Inr no_hold, db)
          else (case Narrow (Signed 64) (Unsigned 64) bytes of
            None \<Rightarrow> (Inl (NotRepresentable bytes), db)
          | Some _ \<Rightarrow>
              (case sink_Reserve q user bytes db of
                 (Inl e, db') \<Rightarrow> (Inl (Ledger e), db')
               | (Inr ok, db') \<Rightarrow>
                   if \<not> ok then (Inl ErrQuotaExceeded, db')
                   else (Inr \<lparr>h_bytes = bytes, h_active = True\<rparr>, db'))))"

definition commitQuota ::
  "'db quota_sink option \<Rightarrow> int \<Rightarrow> quotaReservation \<Rightarrow> 'db \<Rightarrow> quotaReservation \<times> 'db" where
  "commitQuota quota user hold db =
     (case quota of
        None \<Rightarrow> (hold, db)
      | Some q \<Rightarrow>
          if \<not> h_active hold then (hold, db)
          else (hold\<lparr>h_active := False\<rparr>, snd (sink_Commit q user (h_bytes hold) db)))"

definition releaseQuota ::
  "'db quota_sink option \<Rightarrow> int \<Rightarrow> quotaReservation \<Rightarrow> 'db \<Rightarrow> quotaReservation \<times> 'db" where
  "releaseQuota quota user hold db =
     (case quota of
        None \<Rightarrow> (hold, db)
      | Some q \<Rightarrow>
          if \<not> h_active hold then (hold, db)
          else (case Narrow (Signed 64) (Unsigned 64) (h_bytes hold) of
            None \<Rightarrow> (hold\<lparr>h_active := False\<rparr>, db)
          | Some rel \<Rightarrow> (hold\<lparr>h_active := False\<rparr>, snd (sink_Release q user rel db))))"

definition resizeQuota ::
  "'db quota_sink option \<Rightarrow> int \<Rightarrow> quotaReservation \<Rightarrow> int \<Rightarrow> 'db \<Rightarrow>
     (core_error, quotaReservation) result \<times> 'db" where
  "resizeQuota quota user hold target db =
     (case quota of
        None \<Rightarrow> (Inr hold, db)
      | Some q \<Rightarrow>
          if target > h_bytes hold then
            (case reserveQuota quota user (target - h_bytes hold) db of
               (Inl e, db') \<Rightarrow> (Inl e, db')
             | (Inr next, db') \<Rightarrow>
                 (let b = wrap_u64 (h_bytes hold + h_bytes next)
                  in (Inr \<lparr>h_bytes = b, h_active = b > 0\<rparr>, db')))
          else if target < h_bytes hold then
            (case Narrow (Signed 64) (Unsigned 64) (h_bytes hold - target) of
               None \<Rightarrow> (Inl (NotRepresentable (h_bytes hold - target)), db)
             | Some rel \<Rightarrow>
                 (case sink_Release q user rel db of
                    (Inl e, db') \<Rightarrow> (Inl (Ledger e), db')
                  | (Inr _, db') \<Rightarrow> (Inr \<lparr>h_bytes = target, h_active = target > 0\<rparr>, db')))
          else (Inr (hold\<lparr>h_active := h_bytes hold > 0\<rparr>), db))"

definition settleQuota ::
  "'db quota_sink option \<Rightarrow> int \<Rightarrow> int \<Rightarrow> quotaReservation \<Rightarrow> 'db \<Rightarrow> 'db" where
  "settleQuota quota user delta hold db =
     (if delta > 0 then snd (commitQuota quota user hold db)
      else if delta < 0 then chargeQuota quota user delta db
      else db)"

section \<open>Durable writes\<close>

definition deltaOf :: "int \<Rightarrow> int \<Rightarrow> int" where
  "deltaOf now before =
     (case Narrow (Signed 64) (Unsigned 64) now of
        None \<Rightarrow> 0
      | Some a \<Rightarrow>
          (case Narrow (Signed 64) (Unsigned 64) before of
             None \<Rightarrow> 0
           | Some b \<Rightarrow> wrap_i64 (a - b)))"

text \<open>
  What the storage driver does with one durable write: it fails before the callback runs, or it
  runs the callback and, when the callback succeeds, publishes the staged file or fails to.
\<close>

datatype durable_run = NotStaged | Staged (publishes: bool)

definition old_size :: "int option \<Rightarrow> int" where
  "old_size prior = (case prior of None \<Rightarrow> 0 | Some s \<Rightarrow> s)"

text \<open>
  The callback of a plain write: the writer may fail, the stat may fail, then growth is
  reserved. The result carries the delta and the reservation as the closure leaves them.
\<close>

definition durable_callback ::
  "'db quota_sink option \<Rightarrow> int \<Rightarrow> int option \<Rightarrow> bool \<Rightarrow> int option \<Rightarrow> 'db \<Rightarrow>
     core_error option \<times> int \<times> quotaReservation \<times> 'db" where
  "durable_callback quota user prior write_ok staged_size db =
     (if \<not> write_ok then (Some WriteFailed, 0, no_hold, db)
      else (case staged_size of
        None \<Rightarrow> (Some StatFailed, 0, no_hold, db)
      | Some sz \<Rightarrow>
          (let delta = deltaOf sz (old_size prior) in
           if delta \<le> 0 then (None, delta, no_hold, db)
           else (case reserveQuota quota user delta db of
                   (Inl e, db') \<Rightarrow> (Some e, delta, no_hold, db')
                 | (Inr hold, db') \<Rightarrow> (None, delta, hold, db')))))"

definition finish_durable ::
  "'db quota_sink option \<Rightarrow> int \<Rightarrow> bool \<Rightarrow> core_error option \<times> int \<times> quotaReservation \<times> 'db \<Rightarrow>
     core_error option \<times> int \<times> 'db" where
  "finish_durable quota user published cb =
     (case cb of (err, delta, hold, db) \<Rightarrow>
        (case (if err \<noteq> None then err else if published then None else Some PublishFailed) of
           Some e \<Rightarrow> (Some e, delta, snd (releaseQuota quota user hold db))
         | None \<Rightarrow> (None, delta, settleQuota quota user delta hold db)))"

definition writeDurableQuota ::
  "'db quota_sink option \<Rightarrow> int \<Rightarrow> durable_run \<Rightarrow> int option \<Rightarrow> bool \<Rightarrow> int option \<Rightarrow> 'db \<Rightarrow>
     core_error option \<times> int \<times> 'db" where
  "writeDurableQuota quota user run prior write_ok staged_size db =
     (case run of
        NotStaged \<Rightarrow> (Some StageFailed, 0, snd (releaseQuota quota user no_hold db))
      | Staged published \<Rightarrow>
          finish_durable quota user published
            (durable_callback quota user prior write_ok staged_size db))"

definition streamReserveStep :: int where "streamReserveStep = 8388608"

definition reserveGrowth ::
  "'db quota_sink option \<Rightarrow> int \<Rightarrow> int \<Rightarrow> int \<Rightarrow> quotaReservation \<times> 'db \<Rightarrow>
     core_error option \<times> quotaReservation \<times> 'db" where
  "reserveGrowth quota user oldSize target st =
     (case st of (hold, db) \<Rightarrow>
        if target \<le> oldSize \<or> target - oldSize \<le> h_bytes hold then (None, hold, db)
        else (let need = target - oldSize - h_bytes hold;
                  r1 = reserveQuota quota user (max need streamReserveStep) db;
                  r2 = (if fst r1 = Inl ErrQuotaExceeded \<and> need < streamReserveStep
                        then reserveQuota quota user need (snd r1) else r1)
              in (case r2 of
                    (Inl e, db') \<Rightarrow> (Some e, hold, db')
                  | (Inr next, db') \<Rightarrow>
                      (let b = wrap_u64 (h_bytes hold + h_bytes next)
                       in (None, \<lparr>h_bytes = b, h_active = b > 0\<rparr>, db')))))"

text \<open>The streamed writer asks for growth before every write; the first refusal ends it.\<close>

fun reserve_targets ::
  "'db quota_sink option \<Rightarrow> int \<Rightarrow> int \<Rightarrow> int list \<Rightarrow> quotaReservation \<times> 'db \<Rightarrow>
     core_error option \<times> quotaReservation \<times> 'db" where
  "reserve_targets quota user oldSize [] (hold, db) = (None, hold, db)"
| "reserve_targets quota user oldSize (t # ts) (hold, db) =
     (case reserveGrowth quota user oldSize t (hold, db) of
        (Some e, hold', db') \<Rightarrow> (Some e, hold', db')
      | (None, hold', db') \<Rightarrow> reserve_targets quota user oldSize ts (hold', db'))"

definition settle_staged ::
  "'db quota_sink option \<Rightarrow> int \<Rightarrow> int \<Rightarrow> quotaReservation \<Rightarrow> 'db \<Rightarrow>
     core_error option \<times> int \<times> quotaReservation \<times> 'db" where
  "settle_staged quota user delta hold db =
     (if delta < 0 then
        (if h_active hold then (case releaseQuota quota user hold db of (h, db') \<Rightarrow> (None, delta, h, db'))
         else (None, delta, hold, db))
      else if delta < h_bytes hold then
        (case Narrow (Signed 64) (Unsigned 64) (h_bytes hold - delta) of
           None \<Rightarrow> (Some (NotRepresentable (h_bytes hold - delta)), delta, hold, db)
         | Some rel \<Rightarrow>
             (case quota of
                None \<Rightarrow> (None, delta, hold, db)
              | Some q \<Rightarrow>
                  (case sink_Release q user rel db of
                     (Inl e, db') \<Rightarrow> (Some (Ledger e), delta, hold, db')
                   | (Inr _, db') \<Rightarrow> (None, delta, hold\<lparr>h_bytes := delta\<rparr>, db'))))
      else (None, delta, hold, db))"

definition stream_callback ::
  "'db quota_sink option \<Rightarrow> int \<Rightarrow> int option \<Rightarrow> int list \<Rightarrow> bool \<Rightarrow> int option \<Rightarrow> 'db \<Rightarrow>
     core_error option \<times> int \<times> quotaReservation \<times> 'db" where
  "stream_callback quota user prior targets write_ok staged_size db =
     (case reserve_targets quota user (old_size prior) targets (no_hold, db) of
        (Some e, hold, db') \<Rightarrow> (Some e, 0, hold, db')
      | (None, hold, db') \<Rightarrow>
          if \<not> write_ok then (Some WriteFailed, 0, hold, db')
          else (case staged_size of
                  None \<Rightarrow> (Some StatFailed, 0, hold, db')
                | Some sz \<Rightarrow> settle_staged quota user (deltaOf sz (old_size prior)) hold db'))"

definition writeDurableQuotaStream ::
  "'db quota_sink option \<Rightarrow> int \<Rightarrow> durable_run \<Rightarrow> int option \<Rightarrow> int list \<Rightarrow> bool \<Rightarrow> int option \<Rightarrow> 'db \<Rightarrow>
     core_error option \<times> int \<times> 'db" where
  "writeDurableQuotaStream quota user run prior targets write_ok staged_size db =
     (case run of
        NotStaged \<Rightarrow> (Some StageFailed, 0, snd (releaseQuota quota user no_hold db))
      | Staged published \<Rightarrow>
          finish_durable quota user published
            (stream_callback quota user prior targets write_ok staged_size db))"

section \<open>The contract of a ledger\<close>

text \<open>
  What the write path relies on of a ledger: a reservation books exactly when the cap leaves
  room and otherwise changes nothing, a release credits and never goes below zero, a commit
  changes nothing. The lemmas below follow one write of one user through the protocol;
  \<open>booked db0 u x h db\<close> says that \<open>db\<close> is \<open>db0\<close> with \<open>h\<close> bytes booked on top of the usage
  \<open>x\<close> the user had there.
\<close>

locale quota_ledger =
  fixes q :: "'db quota_sink"
    and inv :: "'db \<Rightarrow> bool"
    and usage :: "'db \<Rightarrow> int \<Rightarrow> int option"
    and cap :: "'db \<Rightarrow> int \<Rightarrow> int option"
  assumes reserve_law: "inv db \<Longrightarrow> 0 < n \<Longrightarrow> n \<le> max_i64 \<Longrightarrow> sink_Reserve q u n db = (r, db') \<Longrightarrow>
      inv db' \<and> cap db' = cap db \<and>
      (if \<exists>x. usage db u = Some x \<and> (\<forall>c. cap db u = Some c \<longrightarrow> x + n \<le> c)
       then r = Inr True \<and> usage db' = (usage db)(u := map_option (\<lambda>x. x + n) (usage db u))
       else r = Inr False \<and> usage db' = usage db)"
    and release_law: "inv db \<Longrightarrow> 0 \<le> d \<Longrightarrow> sink_Release q u d db = (r', db') \<Longrightarrow>
      r' = Inr () \<and> inv db' \<and> cap db' = cap db \<and>
      usage db' = (usage db)(u := map_option (\<lambda>x. max 0 (x - d)) (usage db u))"
    and commit_law: "sink_Commit q u n db = (Inr (), db)"
    and usage_nonneg: "inv db \<Longrightarrow> usage db u = Some x \<Longrightarrow> 0 \<le> x"
begin

definition booked :: "'db \<Rightarrow> int \<Rightarrow> int \<Rightarrow> int \<Rightarrow> 'db \<Rightarrow> bool" where
  "booked db0 u x h db \<longleftrightarrow>
     inv db \<and> cap db = cap db0 \<and> 0 \<le> x \<and> 0 \<le> h \<and> usage db = (usage db0)(u := Some (x + h)) \<and>
     (0 < h \<longrightarrow> (\<forall>c. cap db0 u = Some c \<longrightarrow> x + h \<le> c))"

lemma booked_start: "inv db \<Longrightarrow> usage db u = Some x \<Longrightarrow> booked db u x 0 db"
  using usage_nonneg by (auto simp: booked_def)

lemma booked_zero: "booked db0 u x 0 db \<Longrightarrow> usage db0 u = Some x \<Longrightarrow> usage db = usage db0"
  by (auto simp: booked_def)

lemma narrow_i64: "0 \<le> n \<Longrightarrow> n \<le> max_i64 \<Longrightarrow> Narrow (Signed 64) (Unsigned 64) n = Some n"
  by (subst Narrow_spec) (simp_all add: fits_def max_i64_def)

lemma reserve_booked:
  assumes "booked db0 u x h db" and "0 < n" and "n \<le> max_i64"
  shows "(\<exists>db'. reserveQuota (Some q) u n db = (Inr \<lparr>h_bytes = n, h_active = True\<rparr>, db') \<and> booked db0 u x (h + n) db') \<or>
         (\<exists>db'. reserveQuota (Some q) u n db = (Inl ErrQuotaExceeded, db') \<and> booked db0 u x h db')"
proof -
  obtain r db' where r: "sink_Reserve q u n db = (r, db')" by fastforce
  have inv: "inv db" and us: "usage db u = Some (x + h)" and cp: "cap db = cap db0" and nn: "0 \<le> x" "0 \<le> h"
    using assms(1) by (simp_all add: booked_def)
  note law = reserve_law [OF inv assms(2,3) r]
  show ?thesis
  proof (cases "\<forall>c. cap db u = Some c \<longrightarrow> x + h + n \<le> c")
    case True
    then have "r = Inr True" "usage db' = (usage db)(u := Some (x + h + n))" "inv db'" "cap db' = cap db"
      using law us by auto
    then have "booked db0 u x (h + n) db'"
      using assms(1,2) True cp nn by (auto simp: booked_def add.assoc)
    then show ?thesis
      using r \<open>r = Inr True\<close> assms(2,3) by (simp add: reserveQuota_def narrow_i64)
  next
    case False
    then have "r = Inr False" "usage db' = usage db" "inv db'" "cap db' = cap db"
      using law us by auto
    then have "booked db0 u x h db'" using assms(1) by (simp add: booked_def)
    then show ?thesis
      using r \<open>r = Inr False\<close> assms(2,3) by (simp add: reserveQuota_def narrow_i64)
  qed
qed

lemma release_booked:
  assumes "booked db0 u x h db" and "0 \<le> d" and "d \<le> h"
  shows "\<exists>db'. sink_Release q u d db = (Inr (), db') \<and> booked db0 u x (h - d) db'"
proof -
  obtain r db' where r: "sink_Release q u d db = (r, db')" by fastforce
  have inv: "inv db" using assms(1) by (simp add: booked_def)
  note law = release_law [OF inv assms(2) r]
  then have "booked db0 u x (h - d) db'"
    using assms by (auto simp: booked_def)
  with law r show ?thesis by simp
qed

lemma releaseQuota_booked:
  assumes "booked db0 u x (h_bytes hold) db" and "h_bytes hold \<le> max_i64"
    and "h_active hold \<or> h_bytes hold = 0"
  shows "booked db0 u x 0 (snd (releaseQuota (Some q) u hold db))"
proof (cases "h_active hold")
  case True
  have nn: "0 \<le> h_bytes hold" using assms(1) by (simp add: booked_def)
  from release_booked [OF assms(1) nn order_refl] nn True assms(2) show ?thesis
    by (auto simp: releaseQuota_def narrow_i64)
next
  case False
  with assms show ?thesis by (simp add: releaseQuota_def)
qed

lemma charge_credit:
  assumes "inv db" and "usage db u = Some x" and "delta < 0" and "min_i64 \<le> delta"
  shows "inv (chargeQuota (Some q) u delta db) \<and> cap (chargeQuota (Some q) u delta db) = cap db \<and>
         usage (chargeQuota (Some q) u delta db) = (usage db)(u := Some (max 0 (x - magnitude delta)))"
proof -
  obtain r db' where r: "sink_Release q u (magnitude delta) db = (r, db')" by fastforce
  have "0 \<le> magnitude delta" using assms(3) by (simp add: magnitude_def max_i64_def)
  from release_law [OF assms(1) this r] assms(2,3) r show ?thesis by (simp add: chargeQuota_def)
qed

text \<open>Asking whether an amount fits leaves the ledger as it was.\<close>

lemma check_quota:
  assumes "inv db" and "usage db u = Some x" and "0 < n" and "n \<le> max_i64"
  shows "\<exists>db'. CheckQuota (Some q) u n db =
           (if \<forall>c. cap db u = Some c \<longrightarrow> x + n \<le> c then None else Some ErrQuotaExceeded, db') \<and>
         usage db' = usage db \<and> cap db' = cap db"
proof -
  have b: "booked db u x 0 db" using booked_start assms(1,2) by blast
  obtain r db1 where r: "sink_Reserve q u n db = (r, db1)" by fastforce
  note law = reserve_law [OF assms(1,3,4) r]
  show ?thesis
  proof (cases "\<forall>c. cap db u = Some c \<longrightarrow> x + n \<le> c")
    case True
    have "reserveQuota (Some q) u n db = (Inr \<lparr>h_bytes = n, h_active = True\<rparr>, db1)"
      using law True assms r by (simp add: reserveQuota_def narrow_i64)
    then have b1: "booked db u x (0 + n) db1" using reserve_booked [OF b assms(3,4)] by auto
    then obtain db' where db': "sink_Release q u n db1 = (Inr (), db')" "booked db u x (0 + n - n) db'"
      using release_booked [OF b1, of n] assms(3) by auto
    then have "usage db' = usage db \<and> cap db' = cap db"
      using booked_zero [of db u x db'] assms(2) by (simp add: booked_def)
    then show ?thesis
      using True law r db' assms by (simp add: CheckQuota_def narrow_i64)
  next
    case False
    then show ?thesis using law r assms by (auto simp: CheckQuota_def narrow_i64)
  qed
qed

end

definition size_bound :: int where "size_bound = 4611686018427387904"

lemma deltaOf_exact:
  "0 \<le> a \<Longrightarrow> a \<le> size_bound \<Longrightarrow> 0 \<le> b \<Longrightarrow> b \<le> size_bound \<Longrightarrow> deltaOf a b = a - b"
  by (subst deltaOf_def) (simp add: Narrow_spec fits_def size_bound_def wrap_i64_def)

context quota_ledger
begin

text \<open>The reservation of a streamed write, as the closure keeps it.\<close>

definition stream_hold :: "'db \<Rightarrow> int \<Rightarrow> int \<Rightarrow> quotaReservation \<Rightarrow> 'db \<Rightarrow> bool" where
  "stream_hold db0 u x hold db \<longleftrightarrow>
     booked db0 u x (h_bytes hold) db \<and> h_active hold = (h_bytes hold > 0) \<and>
     h_bytes hold \<le> size_bound + streamReserveStep"

lemma stream_hold_start: "inv db \<Longrightarrow> usage db u = Some x \<Longrightarrow> stream_hold db u x no_hold db"
  using booked_start [of db u x]
  by (simp add: stream_hold_def no_hold_def size_bound_def streamReserveStep_def)

lemma reserveGrowth_hold:
  assumes "stream_hold db0 u x hold db" and "target \<le> size_bound" and "0 \<le> old"
    and "reserveGrowth (Some q) u old target (hold, db) = (err, hold', db')"
  shows "stream_hold db0 u x hold' db' \<and> h_bytes hold \<le> h_bytes hold' \<and>
         (err = None \<longrightarrow> target \<le> old \<or> target - old \<le> h_bytes hold')"
proof (cases "target \<le> old \<or> target - old \<le> h_bytes hold")
  case True
  with assms show ?thesis by (auto simp: reserveGrowth_def)
next
  case False
  define need where "need = target - old - h_bytes hold"
  have bk: "booked db0 u x (h_bytes hold) db" and nn: "0 \<le> h_bytes hold"
    using assms(1) by (simp_all add: stream_hold_def booked_def)
  have need: "0 < need" "need \<le> size_bound" "h_bytes hold + need \<le> size_bound"
    using False assms(2,3) nn by (auto simp: need_def)
  let ?n = "max need streamReserveStep"
  have n: "0 < ?n" "?n \<le> max_i64" "h_bytes hold + ?n \<le> size_bound + streamReserveStep"
    using need nn by (auto simp: size_bound_def streamReserveStep_def max_i64_def)
  have grown: "stream_hold db0 u x \<lparr>h_bytes = wrap_u64 (h_bytes hold + m), h_active = wrap_u64 (h_bytes hold + m) > 0\<rparr> d"
    and grown': "wrap_u64 (h_bytes hold + m) = h_bytes hold + m"
    if "booked db0 u x (h_bytes hold + m) d" "0 < m" "h_bytes hold + m \<le> size_bound + streamReserveStep" for m d
    using that nn wrap_u64_id [of "h_bytes hold + m"]
    by (simp_all add: stream_hold_def in_u64_def size_bound_def streamReserveStep_def)
  have need_le: "need \<le> max_i64" "h_bytes hold + need \<le> size_bound + streamReserveStep"
    using need by (simp_all add: size_bound_def max_i64_def streamReserveStep_def)
  from reserve_booked [OF bk n(1,2)] show ?thesis
  proof (elim disjE exE conjE)
    fix d assume r: "reserveQuota (Some q) u ?n db = (Inr \<lparr>h_bytes = ?n, h_active = True\<rparr>, d)"
      and b: "booked db0 u x (h_bytes hold + ?n) d"
    then show ?thesis
      using assms(4) False grown [OF b n(1,3)] grown' [OF b n(1,3)] n(1)
      by (auto simp: reserveGrowth_def Let_def need_def [symmetric]) (simp_all add: need_def)
  next
    fix d assume r: "reserveQuota (Some q) u ?n db = (Inl ErrQuotaExceeded, d)" and b: "booked db0 u x (h_bytes hold) d"
    have keep: "stream_hold db0 u x hold d" using assms(1) b by (simp add: stream_hold_def)
    show ?thesis
    proof (cases "need < streamReserveStep")
      case False
      with r keep assms(4) \<open>\<not> (target \<le> old \<or> target - old \<le> h_bytes hold)\<close> show ?thesis
        by (auto simp: reserveGrowth_def Let_def need_def [symmetric])
    next
      case True
      from reserve_booked [OF b need(1) need_le(1)] show ?thesis
      proof (elim disjE exE conjE)
        fix e assume r2: "reserveQuota (Some q) u need d = (Inr \<lparr>h_bytes = need, h_active = True\<rparr>, e)"
          and b2: "booked db0 u x (h_bytes hold + need) e"
        then show ?thesis
          using assms(4) False True r grown [OF b2 need(1) need_le(2)] grown' [OF b2 need(1) need_le(2)] need(1)
          by (auto simp: reserveGrowth_def Let_def need_def [symmetric]) (simp_all add: need_def)
      next
        fix e assume r2: "reserveQuota (Some q) u need d = (Inl ErrQuotaExceeded, e)"
          and b2: "booked db0 u x (h_bytes hold) e"
        then have "stream_hold db0 u x hold e" using assms(1) by (simp add: stream_hold_def)
        with r r2 True False assms(4) show ?thesis
          by (auto simp: reserveGrowth_def Let_def need_def [symmetric])
      qed
    qed
  qed
qed

lemma reserve_targets_hold:
  "stream_hold db0 u x hold db \<Longrightarrow> list_all (\<lambda>t. t \<le> size_bound) ts \<Longrightarrow> 0 \<le> old \<Longrightarrow>
     reserve_targets (Some q) u old ts (hold, db) = (err, hold', db') \<Longrightarrow>
     stream_hold db0 u x hold' db' \<and> h_bytes hold \<le> h_bytes hold' \<and>
     (err = None \<longrightarrow> (\<forall>t\<in>set ts. t \<le> old \<or> t - old \<le> h_bytes hold'))"
proof (induction ts arbitrary: hold db)
  case (Cons t ts)
  obtain e h d where g: "reserveGrowth (Some q) u old t (hold, db) = (e, h, d)" by (metis prod_cases3)
  have step: "stream_hold db0 u x h d \<and> h_bytes hold \<le> h_bytes h \<and> (e = None \<longrightarrow> t \<le> old \<or> t - old \<le> h_bytes h)"
    using reserveGrowth_hold [OF Cons.prems(1) _ Cons.prems(3) g] Cons.prems(2) by simp
  show ?case
  proof (cases e)
    case (Some a)
    with Cons.prems(4) g step show ?thesis by auto
  next
    case None
    with Cons.prems(4) g have "reserve_targets (Some q) u old ts (h, d) = (err, hold', db')" by simp
    from Cons.IH [OF conjunct1 [OF step] _ Cons.prems(3) this] Cons.prems(2) step None show ?thesis by auto
  qed
qed simp

text \<open>
  A write is exact when the ledger afterwards shows the growth on success and nothing on
  failure.
\<close>

definition exact :: "'db \<Rightarrow> int \<Rightarrow> int \<Rightarrow> int \<Rightarrow> core_error option \<times> int \<times> 'db \<Rightarrow> bool" where
  "exact db0 u x growth res \<longleftrightarrow>
     (case res of (err, delta, db') \<Rightarrow>
        inv db' \<and> cap db' = cap db0 \<and>
        (if err = None
         then delta = growth \<and> usage db' = (usage db0)(u := Some (max 0 (x + growth))) \<and>
              (0 < growth \<longrightarrow> (\<forall>c. cap db0 u = Some c \<longrightarrow> x + growth \<le> c))
         else usage db' = usage db0))"

lemma finish_failed:
  assumes "usage db0 u = Some x" and "booked db0 u x (h_bytes hold) db" and "h_bytes hold \<le> max_i64"
    and "h_active hold \<or> h_bytes hold = 0" and "err \<noteq> None \<or> \<not> published"
  shows "exact db0 u x growth (finish_durable (Some q) u published (err, delta, hold, db))"
proof -
  define d where "d = snd (releaseQuota (Some q) u hold db)"
  have b: "booked db0 u x 0 d" unfolding d_def using assms(2-4) by (rule releaseQuota_booked)
  have "usage d = usage db0" using b assms(1) by (rule booked_zero)
  moreover have "inv d" "cap d = cap db0" using b by (simp_all add: booked_def)
  moreover obtain e where "finish_durable (Some q) u published (err, delta, hold, db) = (Some e, delta, d)"
    using assms(5) by (cases err) (auto simp: finish_durable_def d_def)
  ultimately show ?thesis by (simp add: exact_def)
qed

lemma finish_grown:
  assumes "usage db0 u = Some x" and "booked db0 u x delta db" and "0 \<le> delta"
  shows "exact db0 u x delta (finish_durable (Some q) u True (None, delta, hold, db))"
proof -
  have "snd (commitQuota (Some q) u hold db) = db" by (simp add: commitQuota_def commit_law)
  with assms show ?thesis
    by (auto simp: exact_def finish_durable_def settleQuota_def booked_def max_def)
qed

lemma finish_shrunk:
  assumes "usage db0 u = Some x" and "booked db0 u x 0 db" and "delta < 0" and "- size_bound \<le> delta"
  shows "exact db0 u x delta (finish_durable (Some q) u True (None, delta, hold, db))"
proof -
  define d where "d = chargeQuota (Some q) u delta db"
  have us: "usage db = usage db0" using assms(2,1) by (rule booked_zero)
  have iv: "inv db" "cap db = cap db0" using assms(2) by (simp_all add: booked_def)
  have m: "magnitude delta = - delta" "min_i64 \<le> delta"
    using assms(4) by (simp_all add: magnitude_def min_i64_def size_bound_def)
  have "usage db u = Some x" using us assms(1) by simp
  from charge_credit [OF iv(1) this assms(3) m(2)]
  have "inv d" "cap d = cap db0" "usage d = (usage db0)(u := Some (max 0 (x + delta)))"
    using us iv(2) m(1) by (simp_all add: d_def)
  moreover have "finish_durable (Some q) u True (None, delta, hold, db) = (None, delta, d)"
    using assms(3) by (simp add: finish_durable_def settleQuota_def d_def)
  ultimately show ?thesis using assms(3) by (simp add: exact_def)
qed

lemma no_hold_booked: "booked db0 u x 0 db \<Longrightarrow> booked db0 u x (h_bytes no_hold) db"
  by (simp add: no_hold_def)

lemma write_exact:
  assumes "inv db" and "usage db u = Some x" and "0 \<le> old_size prior" and "old_size prior \<le> size_bound"
    and "\<And>s. staged = Some s \<Longrightarrow> 0 \<le> s \<and> s \<le> size_bound"
  shows "exact db u x (the staged - old_size prior) (writeDurableQuota (Some q) u run prior write_ok staged db)"
proof -
  have b0: "booked db u x 0 db" using booked_start assms(1,2) by blast
  have fail: "exact db u x g (finish_durable (Some q) u p (Some e, dl, no_hold, d))"
    if "booked db u x 0 d" for g p e dl d
    using finish_failed [OF assms(2) no_hold_booked [OF that]] by (simp add: no_hold_def max_i64_def)
  show ?thesis
  proof (cases run)
    case NotStaged
    then have "writeDurableQuota (Some q) u run prior write_ok staged db = (Some StageFailed, 0, db)"
      by (simp add: writeDurableQuota_def releaseQuota_def no_hold_def)
    with assms(1) show ?thesis by (simp add: exact_def)
  next
    case (Staged published)
    show ?thesis
    proof (cases "write_ok \<and> staged \<noteq> None")
      case False
      with Staged fail [OF b0] show ?thesis
        by (auto simp: writeDurableQuota_def durable_callback_def)
    next
      case True
      then obtain s where s: "staged = Some s" "write_ok" by auto
      let ?d = "s - old_size prior"
      have d: "deltaOf s (old_size prior) = ?d" using deltaOf_exact assms(3,4) assms(5) [OF s(1)] by simp
      show ?thesis
      proof (cases "?d \<le> 0")
        case True
        then have cb: "writeDurableQuota (Some q) u run prior write_ok staged db =
            finish_durable (Some q) u published (None, ?d, no_hold, db)"
          using s d Staged by (simp add: writeDurableQuota_def durable_callback_def Let_def)
        show ?thesis
        proof (cases published)
          case False
          then show ?thesis
            using finish_failed [OF assms(2) no_hold_booked [OF b0], of None] s cb by (simp add: no_hold_def max_i64_def)
        next
          case pub: True
          then show ?thesis
            using finish_grown [OF assms(2) b0, of no_hold] finish_shrunk [OF assms(2) b0, of ?d no_hold] cb s True
              assms(4) assms(5) [OF s(1)] by (cases "?d = 0") auto
        qed
      next
        case grow: False
        then have g: "0 < ?d" "?d \<le> max_i64"
          using assms(3) assms(5) [OF s(1)] by (auto simp: size_bound_def max_i64_def)
        from reserve_booked [OF b0 g] show ?thesis
        proof (elim disjE exE conjE)
          fix d' assume r: "reserveQuota (Some q) u ?d db = (Inr \<lparr>h_bytes = ?d, h_active = True\<rparr>, d')"
            and b: "booked db u x (0 + ?d) d'"
          then have cb: "writeDurableQuota (Some q) u run prior write_ok staged db =
              finish_durable (Some q) u published (None, ?d, \<lparr>h_bytes = ?d, h_active = True\<rparr>, d')"
            using s d Staged grow by (simp add: writeDurableQuota_def durable_callback_def Let_def)
          then show ?thesis
            using finish_grown [OF assms(2), of ?d d'] finish_failed [OF assms(2), of "\<lparr>h_bytes = ?d, h_active = True\<rparr>" d' None]
              b g s by (cases published) auto
        next
          fix d' assume r: "reserveQuota (Some q) u ?d db = (Inl ErrQuotaExceeded, d')" and b: "booked db u x 0 d'"
          then show ?thesis
            using s d Staged grow fail [OF b] by (simp add: writeDurableQuota_def durable_callback_def Let_def)
        qed
      qed
    qed
  qed
qed

end

context quota_ledger
begin

lemma stream_hold_release:
  assumes "stream_hold db0 u x hold db"
  shows "booked db0 u x 0 (snd (releaseQuota (Some q) u hold db)) \<and>
         h_active (fst (releaseQuota (Some q) u hold db)) = False"
proof -
  have "booked db0 u x 0 (snd (releaseQuota (Some q) u hold db))"
    using assms by (intro releaseQuota_booked)
      (auto simp: stream_hold_def booked_def size_bound_def streamReserveStep_def max_i64_def)
  moreover have "h_active (fst (releaseQuota (Some q) u hold db)) = False"
    by (auto simp: releaseQuota_def split: option.split)
  ultimately show ?thesis by blast
qed

lemma stream_hold_failed:
  assumes "usage db0 u = Some x" and "stream_hold db0 u x hold db" and "err \<noteq> None \<or> \<not> published"
  shows "exact db0 u x growth (finish_durable (Some q) u published (err, delta, hold, db))"
  using assms by (intro finish_failed)
    (auto simp: stream_hold_def booked_def size_bound_def streamReserveStep_def max_i64_def)

text \<open>Closing a streamed write whose writer asked for at least what it wrote.\<close>

lemma settle_exact:
  assumes us: "usage db0 u = Some x" and h: "stream_hold db0 u x hold db"
    and delta: "delta \<le> h_bytes hold" "- size_bound \<le> delta"
  shows "exact db0 u x delta (finish_durable (Some q) u published (settle_staged (Some q) u delta hold db))"
proof -
  have bk: "booked db0 u x (h_bytes hold) db" and act: "h_active hold = (h_bytes hold > 0)"
    and small: "h_bytes hold \<le> max_i64" and nn: "0 \<le> h_bytes hold"
    using h by (auto simp: stream_hold_def booked_def size_bound_def streamReserveStep_def max_i64_def)
  consider (shrunk) "delta < 0" | (surplus) "0 \<le> delta" "delta < h_bytes hold" | (full) "delta = h_bytes hold"
    using delta(1) by linarith
  then show ?thesis
  proof cases
    case shrunk
    define hold' where "hold' = (if h_active hold then fst (releaseQuota (Some q) u hold db) else hold)"
    define d where "d = (if h_active hold then snd (releaseQuota (Some q) u hold db) else db)"
    have st: "settle_staged (Some q) u delta hold db = (None, delta, hold', d)"
      using shrunk by (simp add: settle_staged_def hold'_def d_def split: prod.split)
    have b: "booked db0 u x 0 d" and na: "\<not> h_active hold'"
      using stream_hold_release [OF h] bk act nn by (auto simp: d_def hold'_def)
    show ?thesis
    proof (cases published)
      case True
      with st finish_shrunk [OF us b shrunk delta(2)] show ?thesis by simp
    next
      case False
      have "snd (releaseQuota (Some q) u hold' d) = d" using na by (simp add: releaseQuota_def)
      moreover have "usage d = usage db0" using b us by (rule booked_zero)
      ultimately show ?thesis using st False b by (simp add: finish_durable_def exact_def booked_def)
    qed
  next
    case surplus
    from release_booked [OF bk, of "h_bytes hold - delta"] surplus nn obtain d where
      d: "sink_Release q u (h_bytes hold - delta) db = (Inr (), d)" "booked db0 u x delta d" by auto
    have st: "settle_staged (Some q) u delta hold db = (None, delta, hold\<lparr>h_bytes := delta\<rparr>, d)"
      using surplus small d(1) by (simp add: settle_staged_def narrow_i64)
    show ?thesis
      using st surplus small act finish_grown [OF us d(2) surplus(1), of "hold\<lparr>h_bytes := delta\<rparr>"]
        finish_failed [OF us, of "hold\<lparr>h_bytes := delta\<rparr>" d None published] d(2)
      by (cases published) auto
  next
    case full
    then have "settle_staged (Some q) u delta hold db = (None, delta, hold, db)"
      using nn by (simp add: settle_staged_def)
    then show ?thesis
      using full finish_grown [OF us bk nn, of hold] stream_hold_failed [OF us h, of None published]
      by (cases published) auto
  qed
qed

lemma stream_exact:
  assumes "inv db" and "usage db u = Some x" and "0 \<le> old_size prior" and "old_size prior \<le> size_bound"
    and "list_all (\<lambda>t. t \<le> size_bound) targets"
    and "\<And>s. staged = Some s \<Longrightarrow> 0 \<le> s \<and> s \<le> size_bound \<and> (s \<le> old_size prior \<or> (\<exists>t\<in>set targets. s \<le> t))"
  shows "exact db u x (the staged - old_size prior)
           (writeDurableQuotaStream (Some q) u run prior targets write_ok staged db)"
proof (cases run)
  case NotStaged
  then have "writeDurableQuotaStream (Some q) u run prior targets write_ok staged db = (Some StageFailed, 0, db)"
    by (simp add: writeDurableQuotaStream_def releaseQuota_def no_hold_def)
  with assms(1) show ?thesis by (simp add: exact_def)
next
  case (Staged published)
  let ?old = "old_size prior"
  obtain err hold d where rt: "reserve_targets (Some q) u ?old targets (no_hold, db) = (err, hold, d)"
    by (metis prod_cases3)
  note h = reserve_targets_hold [OF stream_hold_start [OF assms(1,2)] assms(5,3) rt]
  show ?thesis
  proof (cases "err = None \<and> write_ok \<and> staged \<noteq> None")
    case False
    then have "\<exists>e. stream_callback (Some q) u prior targets write_ok staged db = (Some e, 0, hold, d)"
      using rt by (cases err; cases staged; cases write_ok) (auto simp: stream_callback_def)
    then obtain e where "stream_callback (Some q) u prior targets write_ok staged db = (Some e, 0, hold, d)" ..
    then show ?thesis
      using Staged h stream_hold_failed [OF assms(2), of hold d] by (simp add: writeDurableQuotaStream_def)
  next
    case True
    then obtain s where s: "staged = Some s" by auto
    note bounds = assms(6) [OF s]
    have "stream_callback (Some q) u prior targets write_ok staged db =
          settle_staged (Some q) u (s - ?old) hold d"
      using True rt s bounds assms(3,4) by (simp add: stream_callback_def deltaOf_exact)
    moreover have "s - ?old \<le> h_bytes hold"
      using bounds h True by (fastforce simp: no_hold_def)
    ultimately show ?thesis
      using settle_exact [OF assms(2), of hold d "s - ?old" published] h Staged s bounds assms(4)
      by (simp add: writeDurableQuotaStream_def)
  qed
qed

end

section \<open>The database meets the contract\<close>

definition quota_ok :: "state_db \<Rightarrow> bool" where
  "quota_ok db \<longleftrightarrow> distinct (map U_Id (user_rows db)) \<and> list_all (\<lambda>r. 0 \<le> U_Usage r) (user_rows db)"

definition db_usage :: "state_db \<Rightarrow> int \<Rightarrow> int option" where
  "db_usage db u = map_option U_Usage (List.find (\<lambda>r. U_Id r = u) (user_rows db))"

definition db_cap :: "state_db \<Rightarrow> int \<Rightarrow> int option" where
  "db_cap db u = (case List.find (\<lambda>r. U_Id r = u) (user_rows db) of None \<Rightarrow> None | Some r \<Rightarrow> U_Quota r)"

lemma find_map:
  "(\<And>r. U_Id (f r) = U_Id r) \<Longrightarrow>
     List.find (\<lambda>r. U_Id r = u) (map f rows) = map_option f (List.find (\<lambda>r. U_Id r = u) rows)"
  by (induction rows) auto

lemma find_user: "List.find (\<lambda>r. U_Id r = u) rows = Some r \<Longrightarrow> r \<in> set rows \<and> U_Id r = u"
  by (induction rows) (auto split: if_splits)

lemma filter_user:
  assumes "distinct (map U_Id rows)"
  shows "length (filter (\<lambda>r. U_Id r = u \<and> P r) rows) =
         (case List.find (\<lambda>r. U_Id r = u) rows of None \<Rightarrow> 0 | Some r \<Rightarrow> if P r then 1 else 0)"
  using assms
proof (induction rows)
  case (Cons r rows)
  have "filter (\<lambda>r. U_Id r = u \<and> P r) rows = []" if "U_Id r = u"
    using Cons.prems that by (auto simp: filter_empty_conv image_iff)
  with Cons show ?case by auto
qed simp

lemma Reserve_law:
  assumes "quota_ok db" and "0 < n" and "n \<le> max_i64" and "Quota_Reserve u n db = (r, db')"
  shows "quota_ok db' \<and> db_cap db' = db_cap db \<and>
      (if \<exists>x. db_usage db u = Some x \<and> (\<forall>c. db_cap db u = Some c \<longrightarrow> x + n \<le> c)
       then r = Inr True \<and> db_usage db' = (db_usage db)(u := map_option (\<lambda>x. x + n) (db_usage db u))
       else r = Inr False \<and> db_usage db' = db_usage db)"
proof -
  define room where "room = (\<lambda>r :: user_row. case U_Quota r of None \<Rightarrow> True | Some c \<Rightarrow> U_Usage r + n \<le> c)"
  define f where "f = (\<lambda>r :: user_row. if U_Id r = u \<and> room r then r\<lparr>U_Usage := U_Usage r + n\<rparr> else r)"
  have nar: "Narrow (Signed 64) (Unsigned 64) n = Some n"
    using assms(2,3) by (subst Narrow_spec) (simp_all add: fits_def max_i64_def)
  have dis: "distinct (map U_Id (user_rows db))" using assms(1) by (simp add: quota_ok_def)
  have db': "db' = db\<lparr>user_rows := map f (user_rows db)\<rparr>"
    and r: "r = Inr (length (filter (\<lambda>r. U_Id r = u \<and> room r) (user_rows db)) = 1)"
    using assms(4) nar by (auto simp: Quota_Reserve_def db_Write_def sqlReserveQuota_def Let_def f_def room_def)
  have keep: "U_Id (f w) = U_Id w" "U_Quota (f w) = U_Quota w" for w by (simp_all add: f_def)
  have fd: "List.find (\<lambda>r. U_Id r = v) (user_rows db') = map_option f (List.find (\<lambda>r. U_Id r = v) (user_rows db))" for v
    using db' find_map [of f v "user_rows db"] keep by simp
  define fits_cap where "fits_cap = (\<exists>x. db_usage db u = Some x \<and> (\<forall>c. db_cap db u = Some c \<longrightarrow> x + n \<le> c))"
  have hit: "fits_cap \<longleftrightarrow> (\<exists>w. List.find (\<lambda>r. U_Id r = u) (user_rows db) = Some w \<and> room w)"
    by (auto simp: fits_cap_def db_usage_def db_cap_def room_def split: option.splits)
  have "list_all (\<lambda>r. 0 \<le> U_Usage r) (map f (user_rows db))"
    using assms(1,2) by (auto simp: quota_ok_def list_all_iff f_def)
  then have ok: "quota_ok db'" using dis db' keep(1) by (simp add: quota_ok_def comp_def)
  have cp: "db_cap db' = db_cap db"
    by (rule ext) (simp add: db_cap_def fd keep split: option.split)
  have us: "db_usage db' v = (if v = u \<and> fits_cap then map_option (\<lambda>x. x + n) (db_usage db u) else db_usage db v)" for v
    using find_user [of v "user_rows db"]
    by (cases "List.find (\<lambda>r. U_Id r = v) (user_rows db)") (auto simp: hit db_usage_def fd f_def)
  have "r = Inr fits_cap"
    using r filter_user [OF dis, of u room] by (simp add: hit split: option.splits)
  moreover have "db_usage db' = (if fits_cap then (db_usage db)(u := map_option (\<lambda>x. x + n) (db_usage db u)) else db_usage db)"
    by (rule ext) (simp add: us)
  ultimately show ?thesis using ok cp unfolding fits_cap_def [symmetric] by simp
qed

lemma Release_law:
  assumes "quota_ok db" and "0 \<le> d" and "Quota_Release u d db = (r, db')"
  shows "r = Inr () \<and> quota_ok db' \<and> db_cap db' = db_cap db \<and>
      db_usage db' = (db_usage db)(u := map_option (\<lambda>x. max 0 (x - d)) (db_usage db u))"
proof (cases "d = 0")
  case True
  have "max 0 x = x" if "db_usage db u = Some x" for x
    using that assms(1) find_user [of u "user_rows db"]
    by (auto simp: db_usage_def quota_ok_def list_all_iff max_def)
  then show ?thesis using True assms by (cases "db_usage db u") (auto simp: Quota_Release_def)
next
  case False
  define f where "f = (\<lambda>r :: user_row. if U_Id r = u then r\<lparr>U_Usage := max 0 (U_Usage r - d)\<rparr> else r)"
  have db': "r = Inr ()" "db' = db\<lparr>user_rows := map f (user_rows db)\<rparr>"
    using assms(2,3) False by (auto simp: Quota_Release_def db_Write_def sqlReleaseQuota_def f_def)
  have keep: "U_Id (f w) = U_Id w" "U_Quota (f w) = U_Quota w" for w by (simp_all add: f_def)
  have fd: "List.find (\<lambda>r. U_Id r = v) (user_rows db') = map_option f (List.find (\<lambda>r. U_Id r = v) (user_rows db))" for v
    using db'(2) find_map [of f v "user_rows db"] keep by simp
  have "list_all (\<lambda>r. 0 \<le> U_Usage r) (map f (user_rows db))"
    using assms(1) by (auto simp: quota_ok_def list_all_iff f_def)
  then have ok: "quota_ok db'" using assms(1) db'(2) keep(1) by (simp add: quota_ok_def comp_def)
  have cp: "db_cap db' = db_cap db"
    by (rule ext) (simp add: db_cap_def fd keep split: option.split)
  have "db_usage db' v = ((db_usage db)(u := map_option (\<lambda>x. max 0 (x - d)) (db_usage db u))) v" for v
    using find_user [of v "user_rows db"]
    by (cases "List.find (\<lambda>r. U_Id r = v) (user_rows db)") (auto simp: db_usage_def fd f_def)
  then have "db_usage db' = (db_usage db)(u := map_option (\<lambda>x. max 0 (x - d)) (db_usage db u))" by (rule ext)
  with db'(1) ok cp show ?thesis by simp
qed

lemma db_usage_nonneg: "quota_ok db \<Longrightarrow> db_usage db u = Some x \<Longrightarrow> 0 \<le> x"
  using find_user [of u "user_rows db"] by (auto simp: db_usage_def quota_ok_def list_all_iff)

interpretation ql: quota_ledger state_quota quota_ok db_usage db_cap
proof (unfold_locales, goal_cases)
  case (1 db n u r db')
  then show ?case using Reserve_law [of db n u r db'] by (simp add: state_quota_def)
next
  case (2 db d u r' db')
  then show ?case using Release_law [of db d u r' db'] by (simp add: state_quota_def)
next
  case (3 u n db)
  show ?case by (simp add: state_quota_def Quota_Commit_def)
next
  case (4 db u x)
  then show ?case by (rule db_usage_nonneg)
qed

section \<open>Properties\<close>

definition demo_ledger :: state_db where
  "demo_ledger = empty_db\<lparr>user_rows := [\<lparr>U_Id = 1, U_Quota = None, U_Usage = 0\<rparr>, \<lparr>U_Id = 2, U_Quota = Some 10, U_Usage = 4\<rparr>]\<rparr>"

lemma demo_ledger_ok: "quota_ok demo_ledger" "db_usage demo_ledger 2 = Some 4" "db_cap demo_ledger 2 = Some 10"
  by (simp_all add: quota_ok_def demo_ledger_def db_usage_def db_cap_def)

text \<open>
  C31. The ledger and the disk stay in step, whatever fails: a durable write that succeeds
  leaves the account charged with exactly the size difference (never below zero), within its
  cap when it grew; one that fails at any point, before staging, in the writer, at the stat, at
  the quota or at publication, leaves every account exactly as it was.
\<close>
theorem write_ledger_exact:
  assumes "quota_ok db" and "db_usage db u = Some x"
    and "0 \<le> old_size prior" and "old_size prior \<le> size_bound"
    and "\<And>s. staged = Some s \<Longrightarrow> 0 \<le> s \<and> s \<le> size_bound"
    and "writeDurableQuota (Some state_quota) u run prior write_ok staged db = (err, delta, db')"
  shows "quota_ok db' \<and>
     (if err = None
      then delta = the staged - old_size prior \<and>
           db_usage db' = (db_usage db)(u := Some (max 0 (x + delta))) \<and>
           (0 < delta \<longrightarrow> (\<forall>c. db_cap db u = Some c \<longrightarrow> x + delta \<le> c))
      else db_usage db' = db_usage db)"
proof -
  have "ql.exact db u x (the staged - old_size prior) (err, delta, db')"
    unfolding assms(6) [symmetric] by (rule ql.write_exact [OF assms(1-5)])
  then show ?thesis by (auto simp: ql.exact_def)
qed

theorem write_ledger_exact_witness:
  "\<exists>delta db'. writeDurableQuota (Some state_quota) 2 (Staged True) (Some 3) True (Some 20) demo_ledger =
       (Some ErrQuotaExceeded, delta, db') \<and> db_usage db' = db_usage demo_ledger"
proof -
  obtain err delta db' where w: "writeDurableQuota (Some state_quota) 2 (Staged True) (Some 3) True (Some 20) demo_ledger =
      (err, delta, db')" by (metis prod_cases3)
  have "err = Some ErrQuotaExceeded"
    using w by (auto simp: writeDurableQuota_def durable_callback_def old_size_def deltaOf_def Narrow_spec fits_def
        wrap_i64_def reserveQuota_def state_quota_def Quota_Reserve_def db_Write_def sqlReserveQuota_def demo_ledger_def
        finish_durable_def)
  with write_ledger_exact [OF demo_ledger_ok(1,2) _ _ _ w] w show ?thesis
    by (auto simp: old_size_def size_bound_def)
qed

text \<open>
  The same for a streamed write of unknown length, which books growth in steps ahead of
  the bytes and credits the surplus back: provided the writer asks for growth before it writes,
  the ledger ends exactly at the size difference on success and unchanged on every failure,
  and the stream never books past the cap.
\<close>
theorem stream_ledger_exact:
  assumes "quota_ok db" and "db_usage db u = Some x"
    and "0 \<le> old_size prior" and "old_size prior \<le> size_bound"
    and "list_all (\<lambda>t. t \<le> size_bound) targets"
    and "\<And>s. staged = Some s \<Longrightarrow>
           0 \<le> s \<and> s \<le> size_bound \<and> (s \<le> old_size prior \<or> (\<exists>t\<in>set targets. s \<le> t))"
    and "writeDurableQuotaStream (Some state_quota) u run prior targets write_ok staged db = (err, delta, db')"
  shows "quota_ok db' \<and>
     (if err = None
      then delta = the staged - old_size prior \<and>
           db_usage db' = (db_usage db)(u := Some (max 0 (x + delta))) \<and>
           (0 < delta \<longrightarrow> (\<forall>c. db_cap db u = Some c \<longrightarrow> x + delta \<le> c))
      else db_usage db' = db_usage db)"
proof -
  have "ql.exact db u x (the staged - old_size prior) (err, delta, db')"
    unfolding assms(7) [symmetric] by (rule ql.stream_exact [OF assms(1-6)])
  then show ?thesis by (auto simp: ql.exact_def)
qed

theorem stream_ledger_exact_witness:
  "\<exists>delta db'. writeDurableQuotaStream (Some state_quota) 2 (Staged True) None [3, 6] True (Some 6) demo_ledger =
       (None, delta, db') \<and> db_usage db' 2 = Some 10"
proof -
  obtain err delta db' where w: "writeDurableQuotaStream (Some state_quota) 2 (Staged True) None [3, 6] True (Some 6)
      demo_ledger = (err, delta, db')" by (metis prod_cases3)
  have "err = None"
    using w by (auto simp: writeDurableQuotaStream_def stream_callback_def old_size_def deltaOf_def Narrow_spec fits_def
        wrap_i64_def wrap_u64_def reserveQuota_def reserveGrowth_def state_quota_def Quota_Reserve_def db_Write_def
        sqlReserveQuota_def demo_ledger_def finish_durable_def streamReserveStep_def no_hold_def settle_staged_def Let_def
        split: option.splits if_splits)
  with stream_ledger_exact [OF demo_ledger_ok(1,2) _ _ _ _ w] w show ?thesis
    by (auto simp: old_size_def size_bound_def)
qed

text \<open>
  Asking is free: checking whether an upload would fit answers by the cap alone and leaves
  every account's usage as it was.
\<close>
theorem check_quota_free:
  assumes "quota_ok db" and "db_usage db u = Some x" and "0 < n" and "n \<le> max_i64"
  shows "\<exists>db'. CheckQuota (Some state_quota) u n db =
           (if \<forall>c. db_cap db u = Some c \<longrightarrow> x + n \<le> c then None else Some ErrQuotaExceeded, db') \<and>
         db_usage db' = db_usage db"
  using ql.check_quota [OF assms] by blast

theorem check_quota_free_witness:
  "\<exists>db'. CheckQuota (Some state_quota) 2 7 demo_ledger = (Some ErrQuotaExceeded, db') \<and>
         db_usage db' = db_usage demo_ledger"
  using check_quota_free [OF demo_ledger_ok(1,2), of 7] demo_ledger_ok(3) by (simp add: max_i64_def)

end
