(* ===== verification/Sc_Core.thy ===== *)
theory Sc_Core
  imports Sc_Grants Sc_VfsPath Sc_Quota
begin

unbundle bit_operations_syntax

text \<open>
  The domain root \<open>internal/files\<close>: its error vocabulary (\<open>errors.go\<close>), the share registry
  (\<open>registry.go\<close>), grant administration with the evaluator reload (\<open>grants.go\<close>), automatic home
  grants (\<open>home.go\<close>) and the one gate from a client path to a resolution (\<open>resolve.go\<close>).
  Permissions are the evaluator's uncached answers; \<open>Sc_AclCache\<close> shows that the cache never
  changes them. What the storage driver answers is an argument.
\<close>

section \<open>Errors\<close>

datatype vfs_error =
    VNotFound | VDenied | VExists | VNotEmpty | VNoSpace | VCrossDevice | VSymlinkDenied
  | VIsDirectory | VNotADirectory | VPath path_error | VOther string

datatype files_error =
    ErrNotFound
  | ErrDenied
  | ErrPrecondition string
  | ErrConflict
  | ErrExists
  | ErrNotEmpty
  | ErrCrossShare
  | ErrNoSpace
  | ErrShareBroken string string
  | ErrVfs vfs_error
  | ErrState state_error
  | ErrTrashDisabled
  | ErrWrite core_error
  | ErrRandom
  | ErrUnreadableShare
  | PanicNilRoot

definition mapVFSErr :: "vfs_error \<Rightarrow> files_error" where
  "mapVFSErr err =
     (case err of
        VNotFound \<Rightarrow> ErrNotFound
      | VDenied \<Rightarrow> ErrDenied
      | VSymlinkDenied \<Rightarrow> ErrDenied
      | VExists \<Rightarrow> ErrExists
      | VNotEmpty \<Rightarrow> ErrNotEmpty
      | VNoSpace \<Rightarrow> ErrNoSpace
      | VCrossDevice \<Rightarrow> ErrCrossShare
      | VNotADirectory \<Rightarrow> ErrNotFound
      | VIsDirectory \<Rightarrow> ErrDenied
      | VPath (InvalidName _ _) \<Rightarrow> ErrNotFound
      | e \<Rightarrow> ErrVfs e)"

section \<open>The registry\<close>

datatype symlink_policy = SymlinkDeny | SymlinkWithinShare | SymlinkFollow

text \<open>
  A share root: its policy, whether it is the deny-symlink view of another root, whether it has
  such a view, and whether its backend has host symlinks at all.
\<close>

record share_root =
  SR_ID :: int
  SR_Symlink :: symlink_policy
  SR_IsView :: bool
  SR_HasView :: bool
  SR_Restricts :: bool

record share_entry =
  SE_Name :: string
  SE_Trash :: bool
  SE_Broken :: "string option"
  SE_Root :: "share_root option"

record core =
  k_db :: state_db
  k_acl :: acl_tables
  k_shares :: "(int \<times> share_entry) list"

definition shareEntry :: "core \<Rightarrow> int \<Rightarrow> share_entry option" where
  "shareEntry c i = map_of (k_shares c) i"

definition ShareRoot :: "core \<Rightarrow> int \<Rightarrow> share_root option" where
  "ShareRoot c i = (case map_of (k_shares c) i of None \<Rightarrow> None | Some e \<Rightarrow> SE_Root e)"

definition Shares :: "core \<Rightarrow> (int \<times> share_entry) list" where
  "Shares c = sort_key fst (k_shares c)"

definition RestrictSymlinks :: "share_root \<Rightarrow> (vfs_error, share_root) result" where
  "RestrictSymlinks r =
     (if SR_IsView r \<or> SR_Symlink r = SymlinkDeny then Inr r
      else if \<not> SR_HasView r then Inl VDenied
      else Inr (r\<lparr>SR_IsView := True, SR_HasView := False\<rparr>))"

definition restrictScopedRoot :: "share_root \<Rightarrow> bool \<Rightarrow> (vfs_error, share_root) result" where
  "restrictScopedRoot root scoped =
     (if \<not> scoped \<or> SR_Symlink root = SymlinkDeny then Inr root
      else if \<not> SR_Restricts root then Inr root
      else RestrictSymlinks root)"

definition label_root :: "core \<Rightarrow> root_entry \<Rightarrow> root_entry" where
  "label_root c r =
     (if re_Label r \<noteq> GeneratedRootLabel (re_Share r) then r
      else (case Narrow (Unsigned 32) (Signed 64) (re_Share r) of
        None \<Rightarrow> r
      | Some i \<Rightarrow>
          (case shareEntry c i of
             None \<Rightarrow> r
           | Some e \<Rightarrow> if SE_Name e \<noteq> [] then r\<lparr>re_Label := SE_Name e\<rparr> else r)))"

definition labelledRoots :: "core \<Rightarrow> int \<Rightarrow> root_entry list" where
  "labelledRoots c user = map (label_root c) (Roots (k_acl c) user)"

text \<open>The listing order of an account: labels it never mentioned rank behind all it did.\<close>

definition label_rank :: "string list \<Rightarrow> string \<Rightarrow> nat" where
  "label_rank order label = length (takeWhile (\<lambda>l. l \<noteq> label) order)"

definition applyRootOrder :: "string list option \<Rightarrow> root_entry list \<Rightarrow> root_entry list" where
  "applyRootOrder stored roots =
     (case stored of
        None \<Rightarrow> roots
      | Some order \<Rightarrow>
          if order = [] then roots else sort_key (\<lambda>r. label_rank order (re_Label r)) roots)"

section \<open>Grant administration\<close>

definition homeShareID :: int where "homeShareID = 999999"

definition homePerms :: perms where
  "homePerms = Read OR Write OR Create OR Delete OR Rename OR Move OR Share OR Download"

definition homeLabel :: string where "homeLabel = ''Home''"

text \<open>A change of the table, then the reload of the evaluator from what is stored now.\<close>

definition reload :: "state_db \<Rightarrow> core \<Rightarrow> (state_error, unit) result \<times> core" where
  "reload db c =
     (case ReloadGrants db of
        Inl e \<Rightarrow> (Inl e, c\<lparr>k_db := db\<rparr>)
      | Inr t \<Rightarrow> (Inr (), c\<lparr>k_db := db, k_acl := t\<rparr>))"

definition CreateGrant :: "grant_row \<Rightarrow> int \<Rightarrow> core \<Rightarrow> (files_error, grant_row) result \<times> core" where
  "CreateGrant spec now c =
     (if GR_Share spec = homeShareID then (Inl ErrDenied, c)
      else (case PersistGrant spec now (k_db c) of
        (Inl e, db) \<Rightarrow> (Inl (ErrState e), c\<lparr>k_db := db\<rparr>)
      | (Inr i, db) \<Rightarrow>
          (case reload db c of
             (Inl e, c') \<Rightarrow> (Inl (ErrState e), c')
           | (Inr _, c') \<Rightarrow> (Inr (spec\<lparr>GR_Id := i, GR_CreatedNs := now\<rparr>), c'))))"

definition core_UpdateGrant ::
  "int \<Rightarrow> perms \<Rightarrow> perms \<Rightarrow> bool \<Rightarrow> string \<Rightarrow> core \<Rightarrow> (files_error, grant_row) result \<times> core" where
  "core_UpdateGrant i allow deny inherit label c =
     (case GrantByID i (k_db c) of
        Inl e \<Rightarrow> (Inl (ErrState e), c)
      | Inr current \<Rightarrow>
          if GR_Share current = homeShareID then (Inl ErrDenied, c)
          else (case UpdateGrant i (uint allow) (uint deny) inherit label (k_db c) of
            (Inl e, db) \<Rightarrow> (Inl (ErrState e), c\<lparr>k_db := db\<rparr>)
          | (Inr _, db) \<Rightarrow>
              (case reload db c of
                 (Inl e, c') \<Rightarrow> (Inl (ErrState e), c')
               | (Inr _, c') \<Rightarrow>
                   (case GrantByID i (k_db c') of
                      Inl e \<Rightarrow> (Inl (ErrState e), c')
                    | Inr g \<Rightarrow> (Inr g, c')))))"

definition core_DeleteGrant :: "int \<Rightarrow> core \<Rightarrow> (files_error, unit) result \<times> core" where
  "core_DeleteGrant i c =
     (case GrantByID i (k_db c) of
        Inl e \<Rightarrow> (Inl (ErrState e), c)
      | Inr current \<Rightarrow>
          if GR_Share current = homeShareID then (Inl ErrDenied, c)
          else (case DeleteGrant i (k_db c) of
            (Inl e, db) \<Rightarrow> (Inl (ErrState e), c\<lparr>k_db := db\<rparr>)
          | (Inr _, db) \<Rightarrow>
              (case reload db c of
                 (Inl e, c') \<Rightarrow> (Inl (ErrState e), c')
               | (Inr _, c') \<Rightarrow> (Inr (), c'))))"

definition whole_share_grant :: "int \<Rightarrow> int \<times> share_entry \<Rightarrow> grant_row" where
  "whole_share_grant user def =
     \<lparr>GR_Id = 0, GR_User = Some user, GR_Group = None, GR_Share = fst def, GR_Subpath = [],
      GR_Allow = uint homePerms, GR_Deny = 0, GR_Inherit = True, GR_Label = SE_Name (snd def), GR_CreatedNs = 0\<rparr>"

fun persist_shares ::
  "int \<Rightarrow> int \<Rightarrow> (int \<times> share_entry) list \<Rightarrow> state_db \<Rightarrow> state_error option \<times> state_db" where
  "persist_shares user now [] db = (None, db)"
| "persist_shares user now (def # defs) db =
     (if fst def = homeShareID then persist_shares user now defs db
      else (case PersistGrant (whole_share_grant user def) now db of
        (Inl e, db') \<Rightarrow> (Some e, db')
      | (Inr _, db') \<Rightarrow> persist_shares user now defs db'))"

definition GrantEveryShare :: "int \<Rightarrow> int \<Rightarrow> core \<Rightarrow> (files_error, unit) result \<times> core" where
  "GrantEveryShare user now c =
     (case persist_shares user now (Shares c) (k_db c) of
        (Some e, db) \<Rightarrow> (Inl (ErrState e), c\<lparr>k_db := db\<rparr>)
      | (None, db) \<Rightarrow>
          (case reload db c of
             (Inl e, c') \<Rightarrow> (Inl (ErrState e), c')
           | (Inr _, c') \<Rightarrow> (Inr (), c')))"

section \<open>Homes\<close>

text \<open>
  What creating a home takes from outside the domain: the login-name lookup, the clock, and
  whether the storage driver could prepare the directory (the stat, the check that an unclaimed
  directory is empty, and the copy of the template or the mkdir).
\<close>

record home_env =
  hv_name :: "int \<Rightarrow> string option"
  hv_prepare :: "share_root \<Rightarrow> safe_path \<Rightarrow> bool"
  hv_now :: int

definition homeDirName :: "'enc text_library \<Rightarrow> home_env \<Rightarrow> int \<Rightarrow> string" where
  "homeDirName T env user =
     (let fallback = int_digits user in
      case hv_name env user of
        None \<Rightarrow> fallback
      | Some name \<Rightarrow>
          if name = [] then fallback
          else (case ParseSafePath T name of
            Inl _ \<Rightarrow> fallback
          | Inr _ \<Rightarrow>
              if CHR ''/'' \<in> set name \<or> CHR 0x5C \<in> set name \<or> HasPrefix name ''.'' then fallback
              else name))"

definition userHasHome :: "core \<Rightarrow> int \<Rightarrow> bool" where
  "userHasHome c user \<longleftrightarrow> list_ex (\<lambda>r. re_Share r = homeShareID) (Roots (k_acl c) user)"

definition home_grant :: "int \<Rightarrow> string \<Rightarrow> grant_row" where
  "home_grant user subpath =
     \<lparr>GR_Id = 0, GR_User = Some user, GR_Group = None, GR_Share = homeShareID, GR_Subpath = subpath,
      GR_Allow = uint homePerms, GR_Deny = 0, GR_Inherit = True, GR_Label = homeLabel, GR_CreatedNs = 0\<rparr>"

definition createHomeGrant :: "int \<Rightarrow> string \<Rightarrow> int \<Rightarrow> core \<Rightarrow> (state_error, unit) result \<times> core" where
  "createHomeGrant user subpath now c =
     (case PersistGrant (home_grant user subpath) now (k_db c) of
        (Inl e, db) \<Rightarrow> (Inl e, c\<lparr>k_db := db\<rparr>)
      | (Inr _, db) \<Rightarrow> reload db c)"

text \<open>Every failure on the way is only logged by the callers modelled here.\<close>

definition ensureHome :: "'enc text_library \<Rightarrow> home_env \<Rightarrow> int \<Rightarrow> core \<Rightarrow> core" where
  "ensureHome T env user c =
     (case ShareRoot c homeShareID of
        None \<Rightarrow> c
      | Some root \<Rightarrow>
          if userHasHome c user then c
          else (let name = homeDirName T env user in
            (case ParseSafePath T name of
               Inl _ \<Rightarrow> c
             | Inr subpath \<Rightarrow>
                 if \<not> hv_prepare env root subpath then c
                 else snd (createHomeGrant user name (hv_now env) c))))"

section \<open>Resolution\<close>

record resolved =
  r_user :: int
  r_share :: int
  r_root :: share_root
  r_path :: safe_path
  r_perms :: perms

definition Require :: "resolved \<Rightarrow> perms \<Rightarrow> files_error option" where
  "Require r want = (if Has (r_perms r) want then None else Some ErrDenied)"

definition WithMask :: "perms \<Rightarrow> resolved \<Rightarrow> resolved" where
  "WithMask m r = (if IsEmpty m then r else r\<lparr>r_perms := r_perms r AND m\<rparr>)"

definition rootFor :: "core \<Rightarrow> int \<Rightarrow> string \<Rightarrow> root_entry option" where
  "rootFor c user label = find (\<lambda>r. re_Label r = label) (labelledRoots c user)"

fun join_existing :: "safe_path \<Rightarrow> string list \<Rightarrow> (path_error, safe_path) result" where
  "join_existing full [] = Inr full"
| "join_existing full (cmp # comps) = bind_r (JoinExisting full cmp) (\<lambda>next. join_existing next comps)"

definition joinSubpath :: "'enc text_library \<Rightarrow> acl_path \<Rightarrow> share_path \<Rightarrow> (path_error, safe_path) result" where
  "joinSubpath T subpath rest =
     bind_r (join_existing RootPath subpath) (\<lambda>full.
       if SharePath_IsRoot rest then Inr full
       else bind_r (SharePath_Safe T rest) (\<lambda>safe. join_existing full (sf_comps safe)))"

definition aclPath :: "safe_path \<Rightarrow> acl_path" where
  "aclPath p = NewPath (sf_comps p)"

text \<open>\<open>Resolve\<close> behind its home hook, and the whole gate.\<close>

definition resolve_label ::
  "'enc text_library \<Rightarrow> core \<Rightarrow> int \<Rightarrow> vpath \<Rightarrow> perms \<Rightarrow> (files_error, resolved) result" where
  "resolve_label T c user p need =
     (case rootFor c user (Vpath_Label p) of
        None \<Rightarrow> Inl ErrNotFound
      | Some match \<Rightarrow>
          (case Narrow (Unsigned 32) (Signed 64) (re_Share match) of
             None \<Rightarrow> Inl ErrNotFound
           | Some share \<Rightarrow>
               (case shareEntry c share of
                  None \<Rightarrow> Inl ErrNotFound
                | Some entry \<Rightarrow>
                    (case (SE_Broken entry, SE_Root entry) of
                       (Some reason, _) \<Rightarrow> Inl (ErrShareBroken (SE_Name entry) reason)
                     | (None, None) \<Rightarrow> Inl PanicNilRoot
                     | (None, Some eroot) \<Rightarrow>
                         (case joinSubpath T (re_Subpath match) (Vpath_Rest p) of
                            Inl e \<Rightarrow> Inl (ErrVfs (VPath e))
                          | Inr full \<Rightarrow>
                              if \<not> Allowed (evaluateLocked (k_acl c) user (re_Share match) (aclPath full) need)
                              then Inl ErrDenied
                              else (case restrictScopedRoot eroot (length (re_Subpath match) > 0) of
                                Inl e \<Rightarrow> Inl (mapVFSErr e)
                              | Inr root \<Rightarrow>
                                  Inr \<lparr>r_user = user, r_share = share, r_root = root, r_path = full,
                                       r_perms = effectiveLocked (k_acl c) user (re_Share match) (aclPath full)\<rparr>))))))"

definition Resolve ::
  "'enc text_library \<Rightarrow> home_env \<Rightarrow> int \<Rightarrow> vpath \<Rightarrow> perms \<Rightarrow> core \<Rightarrow> (files_error, resolved) result \<times> core" where
  "Resolve T env user p need c =
     (if Vpath_IsRoot p then (Inl ErrNotFound, c)
      else (let c' = ensureHome T env user c in (resolve_label T c' user p need, c')))"

definition ResolveUnder :: "core \<Rightarrow> resolved \<Rightarrow> safe_path \<Rightarrow> perms \<Rightarrow> (files_error, resolved) result" where
  "ResolveUnder c parent p need =
     (if \<not> Under p (r_path parent) then Inl ErrDenied
      else if \<not> Has (r_perms parent) need then Inl ErrDenied
      else (let effective = effectiveLocked (k_acl c) (r_user parent) (r_share parent) (aclPath p) AND r_perms parent in
        if \<not> Has effective need then Inl ErrDenied
        else Inr (parent\<lparr>r_path := p, r_perms := effective\<rparr>)))"

definition componentsPrefix :: "string list \<Rightarrow> string list \<Rightarrow> bool" where
  "componentsPrefix sub p \<longleftrightarrow>
     (if length sub > length p then False else list_all (\<lambda>i. sub ! i = p ! i) [0..<length sub])"

text \<open>The search for the deepest projected root that contains a path; depth -1 is none.\<close>

fun deepest_root ::
  "int \<Rightarrow> string list \<Rightarrow> root_entry list \<Rightarrow> int \<times> string \<Rightarrow> int \<times> string" where
  "deepest_root share comps [] best = best"
| "deepest_root share comps (r # rs) (dep, label) =
     (case Narrow (Unsigned 32) (Signed 64) (re_Share r) of
        None \<Rightarrow> deepest_root share comps rs (dep, label)
      | Some i \<Rightarrow>
          if i \<noteq> share then deepest_root share comps rs (dep, label)
          else if int (length (re_Subpath r)) \<le> dep \<or> \<not> componentsPrefix (re_Subpath r) comps
            then deepest_root share comps rs (dep, label)
          else deepest_root share comps rs (int (length (re_Subpath r)), re_Label r))"

definition VpathFor ::
  "'enc text_library \<Rightarrow> core \<Rightarrow> int \<Rightarrow> int \<Rightarrow> share_path \<Rightarrow> (files_error, vpath) result" where
  "VpathFor T c user share p =
     (let comps = SharePath_Components p in
      case deepest_root share comps (labelledRoots c user) (-1, []) of (dep, label) \<Rightarrow>
        if dep < 0 then Inl ErrUnreadableShare
        else (case ParseSharePath T (Join slash (drop (nat dep) comps)) of
                Inl e \<Rightarrow> Inl (ErrVfs (VPath e))
              | Inr rest \<Rightarrow>
                  (case NewVpath T label rest of Inl e \<Rightarrow> Inl (ErrVfs (VPath e)) | Inr v \<Rightarrow> Inr v)))"

section \<open>Names\<close>

definition requireCreatableLeaf :: "'enc text_library \<Rightarrow> safe_path \<Rightarrow> path_error option" where
  "requireCreatableLeaf T p =
     (if SafePath_IsRoot p then None
      else (case SafePath_Join T (SafePath_Parent p) (SafePath_Name p) of Inl e \<Rightarrow> Some e | Inr _ \<Rightarrow> None))"

definition uniqueNameBound :: nat where "uniqueNameBound = 10000"

fun last_dot_at :: "string \<Rightarrow> nat \<Rightarrow> int" where
  "last_dot_at s 0 = -1"
| "last_dot_at s (Suc i) = (if s ! i = CHR ''.'' then int i else last_dot_at s i)"

definition lastDot :: "string \<Rightarrow> int" where
  "lastDot s = last_dot_at s (length s)"

definition pathExists :: "(safe_path \<Rightarrow> (vfs_error, 'st) result) \<Rightarrow> safe_path \<Rightarrow> (files_error, bool) result" where
  "pathExists stat p =
     (case stat p of
        Inl VNotFound \<Rightarrow> Inr False
      | Inl e \<Rightarrow> Inl (mapVFSErr e)
      | Inr _ \<Rightarrow> Inr True)"

definition sibling_name :: "string \<Rightarrow> nat \<Rightarrow> string" where
  "sibling_name name n =
     (let i = lastDot name;
          stem = (if i > 0 then take (nat i) name else name);
          ext = (if i > 0 then drop (nat i) name else [])
      in stem @ '' ('' @ nat_digits n @ '')'' @ ext)"

function sibling_search ::
  "'enc text_library \<Rightarrow> (safe_path \<Rightarrow> (vfs_error, 'st) result) \<Rightarrow> safe_path \<Rightarrow> string \<Rightarrow> nat \<Rightarrow> nat \<Rightarrow>
     (files_error, safe_path) result" where
  "sibling_search T stat dir name bound n =
     (if n \<ge> bound then Inl ErrConflict
      else (case SafePath_Join T dir (sibling_name name n) of
        Inl _ \<Rightarrow> sibling_search T stat dir name bound (n + 1)
      | Inr candidate \<Rightarrow>
          (case pathExists stat candidate of
             Inl e \<Rightarrow> Inl e
           | Inr exists \<Rightarrow>
               if \<not> exists then Inr candidate
               else sibling_search T stat dir name bound (n + 1))))"
  by pat_completeness auto
termination
  by (relation "measure (\<lambda>(T, stat, dir, name, bound, n). bound - n)") auto

declare sibling_search.simps [simp del]

definition uniqueSiblingNameWithin ::
  "'enc text_library \<Rightarrow> (safe_path \<Rightarrow> (vfs_error, 'st) result) \<Rightarrow> safe_path \<Rightarrow> nat \<Rightarrow>
     (files_error, safe_path) result" where
  "uniqueSiblingNameWithin T stat taken bound =
     sibling_search T stat (SafePath_Parent taken) (SafePath_Name taken) bound 2"

definition uniqueSiblingName ::
  "'enc text_library \<Rightarrow> (safe_path \<Rightarrow> (vfs_error, 'st) result) \<Rightarrow> safe_path \<Rightarrow> (files_error, safe_path) result" where
  "uniqueSiblingName T stat taken = uniqueSiblingNameWithin T stat taken uniqueNameBound"

section \<open>Registration\<close>

text \<open>
  The registry's own operations. Opening a share's storage and probing a live root are the
  backend's, so their answers are arguments: the root or the rejection token, and the token of
  the failure when a root is no longer alive.
\<close>

definition replaceEntry :: "int \<Rightarrow> share_entry \<Rightarrow> core \<Rightarrow> core" where
  "replaceEntry i e c = c\<lparr>k_shares := (i, e) # filter (\<lambda>x. fst x \<noteq> i) (k_shares c)\<rparr>"

definition RegisterShare ::
  "(string, share_root) result \<Rightarrow> int \<Rightarrow> share_entry \<Rightarrow> core \<Rightarrow> (string, unit) result \<times> core" where
  "RegisterShare opened i def c =
     (case opened of
        Inl err \<Rightarrow> (Inl err, c)
      | Inr root \<Rightarrow> (Inr (), replaceEntry i (def\<lparr>SE_Broken := None, SE_Root := Some root\<rparr>) c))"

definition RegisterBroken :: "int \<Rightarrow> share_entry \<Rightarrow> string \<Rightarrow> core \<Rightarrow> core" where
  "RegisterBroken i def cause c = replaceEntry i (def\<lparr>SE_Broken := Some cause, SE_Root := None\<rparr>) c"

definition UnregisterShare :: "int \<Rightarrow> core \<Rightarrow> core" where
  "UnregisterShare i c = c\<lparr>k_shares := filter (\<lambda>x. fst x \<noteq> i) (k_shares c)\<rparr>"

definition ShareBroken :: "core \<Rightarrow> int \<Rightarrow> string option" where
  "ShareBroken c i = (case shareEntry c i of None \<Rightarrow> None | Some e \<Rightarrow> SE_Broken e)"

fun probe_loop ::
  "(int \<Rightarrow> (string, share_root) result) \<Rightarrow> (int \<Rightarrow> string option) \<Rightarrow> (int \<times> share_entry) list \<Rightarrow>
     int list \<times> int list \<times> core \<Rightarrow> int list \<times> int list \<times> core" where
  "probe_loop opens dead [] st = st"
| "probe_loop opens dead ((i, def) # defs) (broke, healed, c) =
     probe_loop opens dead defs
       (if ShareBroken c i \<noteq> None then
          (case RegisterShare (opens i) i def c of
             (Inl _, c') \<Rightarrow> (broke, healed, c')
           | (Inr _, c') \<Rightarrow> (broke, healed @ [i], c'))
        else (case ShareRoot c i of
          None \<Rightarrow> (broke, healed, c)
        | Some _ \<Rightarrow>
            (case dead i of
               None \<Rightarrow> (broke, healed, c)
             | Some cause \<Rightarrow> (broke @ [i], healed, RegisterBroken i def cause c))))"

definition ProbeShares ::
  "(int \<Rightarrow> (string, share_root) result) \<Rightarrow> (int \<Rightarrow> string option) \<Rightarrow> core \<Rightarrow> int list \<times> int list \<times> core" where
  "ProbeShares opens dead c = probe_loop opens dead (Shares c) ([], [], c)"

section \<open>The registry invariant\<close>

text \<open>Every id has one entry, and an entry has a root exactly when it is not broken.\<close>

definition registry_ok :: "core \<Rightarrow> bool" where
  "registry_ok c \<longleftrightarrow> distinct (map fst (k_shares c)) \<and>
     (\<forall>x\<in>set (k_shares c). SE_Root (snd x) = None \<longleftrightarrow> SE_Broken (snd x) \<noteq> None)"

lemma replaceEntry_ok [inv_intros]:
  "registry_ok c \<Longrightarrow> (SE_Root e = None \<longleftrightarrow> SE_Broken e \<noteq> None) \<Longrightarrow> registry_ok (replaceEntry i e c)"
  by (auto simp: registry_ok_def replaceEntry_def distinct_map_filter)

lemma RegisterShare_ok [inv_intros]:
  "registry_ok c \<Longrightarrow> registry_ok (snd (RegisterShare opened i def c))"
  by (auto simp: RegisterShare_def split: sum.splits intro: replaceEntry_ok)

lemma RegisterBroken_ok [inv_intros]: "registry_ok c \<Longrightarrow> registry_ok (RegisterBroken i def cause c)"
  by (auto simp: RegisterBroken_def intro: replaceEntry_ok)

lemma UnregisterShare_ok [inv_intros]: "registry_ok c \<Longrightarrow> registry_ok (UnregisterShare i c)"
  by (auto simp: registry_ok_def UnregisterShare_def distinct_map_filter)

lemma registry_frame:
  "registry_ok (c\<lparr>k_db := db\<rparr>) = registry_ok c" "registry_ok (c\<lparr>k_acl := t\<rparr>) = registry_ok c"
  by (simp_all add: registry_ok_def)

lemma shareEntry_replace [simp]:
  "shareEntry (replaceEntry i e c) j = (if j = i then Some e else shareEntry c j)"
proof -
  have "map_of (filter (\<lambda>x. fst x \<noteq> i) xs) j = (if j = i then None else map_of xs j)" for xs :: "(int \<times> share_entry) list"
    by (induction xs) auto
  then show ?thesis by (simp add: shareEntry_def replaceEntry_def)
qed

lemma registry_entry:
  "registry_ok c \<Longrightarrow> shareEntry c i = Some e \<Longrightarrow> SE_Root e = None \<longleftrightarrow> SE_Broken e \<noteq> None"
  unfolding registry_ok_def shareEntry_def by (metis map_of_SomeD snd_conv)

text \<open>One step of the probe settles its share and touches no other.\<close>

definition probe_state :: "(int \<Rightarrow> (string, share_root) result) \<Rightarrow> (int \<Rightarrow> string option) \<Rightarrow> int \<Rightarrow> share_entry \<Rightarrow> share_entry" where
  "probe_state opens dead i e =
     (case SE_Broken e of
        Some _ \<Rightarrow> (case opens i of Inl _ \<Rightarrow> e | Inr root \<Rightarrow> e\<lparr>SE_Broken := None, SE_Root := Some root\<rparr>)
      | None \<Rightarrow> (case dead i of None \<Rightarrow> e | Some cause \<Rightarrow> e\<lparr>SE_Broken := Some cause, SE_Root := None\<rparr>))"

definition changed :: "(int \<Rightarrow> (string, share_root) result) \<Rightarrow> (int \<Rightarrow> string option) \<Rightarrow> bool \<Rightarrow> int \<times> share_entry \<Rightarrow> bool" where
  "changed opens dead was_broken x \<longleftrightarrow>
     (SE_Broken (snd x) \<noteq> None) = was_broken \<and> SE_Broken (probe_state opens dead (fst x) (snd x)) \<noteq> SE_Broken (snd x) \<and>
     (was_broken \<longrightarrow> SE_Broken (probe_state opens dead (fst x) (snd x)) = None)"

lemma probe_loop_spec:
  assumes "registry_ok c" and "distinct (map fst defs)"
    and "\<forall>x\<in>set defs. shareEntry c (fst x) = Some (snd x)"
    and "probe_loop opens dead defs (broke, healed, c) = (broke', healed', c')"
  shows "registry_ok c' \<and>
    (\<forall>j. shareEntry c' j = (if j \<in> fst ` set defs then map_option (probe_state opens dead j) (shareEntry c j) else shareEntry c j)) \<and>
    broke' = broke @ map fst (filter (changed opens dead False) defs) \<and>
    healed' = healed @ map fst (filter (changed opens dead True) defs)"
  using assms
proof (induction defs arbitrary: broke healed c)
  case (Cons x defs)
  obtain i e where x: "x = (i, e)" by (cases x)
  have e: "shareEntry c i = Some e" using Cons.prems(3) x by simp
  define c1 where "c1 = (if SE_Broken (probe_state opens dead i e) = SE_Broken e then c else replaceEntry i (probe_state opens dead i e) c)"
  let ?st = "if ShareBroken c i \<noteq> None then
          (case RegisterShare (opens i) i e c of
             (Inl _, c') \<Rightarrow> (broke, healed, c')
           | (Inr _, c') \<Rightarrow> (broke, healed @ [i], c'))
        else (case ShareRoot c i of
          None \<Rightarrow> (broke, healed, c)
        | Some _ \<Rightarrow>
            (case dead i of
               None \<Rightarrow> (broke, healed, c)
             | Some cause \<Rightarrow> (broke @ [i], healed, RegisterBroken i e cause c)))"
  have root: "SE_Root e = None \<longleftrightarrow> SE_Broken e \<noteq> None" by (rule registry_entry [OF Cons.prems(1) e])
  have st: "?st = (broke @ (if changed opens dead False x then [i] else []),
      healed @ (if changed opens dead True x then [i] else []), c1)"
  proof (cases "SE_Broken e")
    case None
    then have "ShareRoot c i = SE_Root e" "SE_Root e \<noteq> None" "ShareBroken c i = None"
      using e root by (auto simp: ShareRoot_def shareEntry_def ShareBroken_def)
    with None show ?thesis
      by (cases "dead i") (auto simp: c1_def probe_state_def changed_def x RegisterBroken_def)
  next
    case (Some cause)
    then have "ShareBroken c i = Some cause" using e by (simp add: ShareBroken_def)
    with Some show ?thesis
      by (cases "opens i") (auto simp: c1_def probe_state_def changed_def x RegisterShare_def)
  qed
  have ok1: "registry_ok c1"
  proof -
    have "SE_Root (probe_state opens dead i e) = None \<longleftrightarrow> SE_Broken (probe_state opens dead i e) \<noteq> None"
      using root by (auto simp: probe_state_def split: option.splits sum.splits)
    then show ?thesis unfolding c1_def using Cons.prems(1) replaceEntry_ok by auto
  qed
  have e1: "shareEntry c1 j = (if j = i then Some (probe_state opens dead i e) else shareEntry c j)" for j
  proof -
    have "probe_state opens dead i e = e" if "SE_Broken (probe_state opens dead i e) = SE_Broken e"
      using that by (auto simp: probe_state_def split: option.splits sum.splits)
    then show ?thesis using e by (auto simp: c1_def)
  qed
  have rest: "\<forall>x\<in>set defs. shareEntry c1 (fst x) = Some (snd x)"
    using Cons.prems(2,3) x by (auto simp: e1)
  have run: "probe_loop opens dead defs (broke @ (if changed opens dead False x then [i] else []),
      healed @ (if changed opens dead True x then [i] else []), c1) = (broke', healed', c')"
    using Cons.prems(4) unfolding x probe_loop.simps st [unfolded x] by simp
  have "distinct (map fst defs)" "i \<notin> fst ` set defs" using Cons.prems(2) x by auto
  from Cons.IH [OF ok1 this(1) rest run] this(2) show ?case
    using e by (auto simp: x e1)
qed simp

section \<open>The grant table and the evaluator\<close>

definition bits_ok :: "grant_row \<Rightarrow> bool" where
  "bits_ok r \<longleftrightarrow> 0 \<le> GR_Allow r \<and> GR_Allow r < 65536 \<and> 0 \<le> GR_Deny r \<and> GR_Deny r < 65536"

text \<open>The table: one row per id and per key, one holder per row, sixteen-bit permission sets.\<close>

definition grants_ok :: "state_db \<Rightarrow> bool" where
  "grants_ok db \<longleftrightarrow>
     distinct (map GR_Id (grant_rows db)) \<and> distinct (map grant_key (grant_rows db)) \<and>
     list_all grant_row_ok (grant_rows db) \<and> list_all bits_ok (grant_rows db) \<and>
     (\<forall>u\<in>set (user_rows db). U_Id u > 0) \<and> (\<forall>g\<in>set (group_ids db). g > 0)"

text \<open>The evaluator answers from exactly the rows that are stored.\<close>

definition in_step :: "core \<Rightarrow> bool" where
  "in_step c \<longleftrightarrow> k_acl c = rows_tables (grant_rows (k_db c)) (member_rows (k_db c))"

lemma narrow_u16: "0 \<le> n \<Longrightarrow> n < 65536 \<Longrightarrow> Narrow (Unsigned 16) (Signed 64) n = Some n"
  by (subst Narrow_spec) (simp_all add: fits_def)

lemma scan_ok: "list_all bits_ok rows \<Longrightarrow> scanGrantRows rows = Inr rows"
  by (induction rows) (auto simp: bits_ok_def narrow_u16)

lemma ReloadGrants_ok:
  "grants_ok db \<Longrightarrow> ReloadGrants db = Inr (rows_tables (grant_rows db) (member_rows db))"
  by (simp add: ReloadGrants_def ListGrants_def sqlReadGrants_def no_filter_def grants_ok_def scan_ok keepGrant_def)

lemma reload_ok:
  "grants_ok db \<Longrightarrow> reload db c = (Inr (), c\<lparr>k_db := db, k_acl := rows_tables (grant_rows db) (member_rows db)\<rparr>)"
  by (simp add: reload_def ReloadGrants_ok)

lemma fold_max_upper: "x \<in> set xs \<Longrightarrow> x \<le> fold max xs (a :: int)"
  unfolding Max.set_eq_fold [symmetric] by simp

lemma next_grant_id_fresh: "next_grant_id rows \<notin> GR_Id ` set rows"
proof
  assume "next_grant_id rows \<in> GR_Id ` set rows"
  then have "next_grant_id rows \<le> fold max (map GR_Id rows) 0" by (intro fold_max_upper) auto
  then show False by (simp add: next_grant_id_def)
qed

lemma PersistGrant_effect:
  assumes "grants_ok db" "bits_ok g" "PersistGrant g now db = (r, db')"
  shows "grants_ok db' \<and> user_rows db' = user_rows db \<and> member_rows db' = member_rows db \<and>
    (case r of
       Inl _ \<Rightarrow> db' = db
     | Inr i \<Rightarrow> grant_rows db' = grant_rows db @ [g\<lparr>GR_Id := i, GR_CreatedNs := now\<rparr>])"
proof (cases r)
  case (Inl e)
  then have "db' = db" using assms(3)
    by (auto simp: PersistGrant_def db_Write_Inl split: if_splits option.splits)
  with Inl assms(1) show ?thesis by simp
next
  case (Inr i)
  let ?g = "g\<lparr>GR_CreatedNs := now\<rparr>" and ?row = "g\<lparr>GR_Id := i, GR_CreatedNs := now\<rparr>"
  have ins: "sqlInsertGrant ?g db = Inr (i, db')"
    using assms(3) Inr by (auto simp: PersistGrant_def db_Write_Inr split: if_splits option.splits)
  have row: "?g\<lparr>GR_Id := i\<rparr> = ?row" by (cases g) simp
  from ins have i: "i = next_grant_id (grant_rows db)" and db': "db' = db\<lparr>grant_rows := grant_rows db @ [?row]\<rparr>"
    and one: "(GR_User g = None) \<noteq> (GR_Group g = None)" and fresh: "grant_key ?g \<notin> grant_key ` set (grant_rows db)"
    and ref: "references (GR_User g) (map U_Id (user_rows db))" "references (GR_Group g) (group_ids db)"
    unfolding row [symmetric] by (auto simp: sqlInsertGrant_def Let_def split: if_splits)
  have "grant_row_ok ?row"
    using one ref assms(1) by (auto simp: grant_row_ok_def references_def grants_ok_def split: option.splits)
  moreover have "bits_ok ?row" using assms(2) by (simp add: bits_ok_def)
  moreover have "grant_key ?row = grant_key ?g" by (simp add: grant_key_def)
  moreover have "i \<notin> GR_Id ` set (grant_rows db)" using next_grant_id_fresh by (simp add: i)
  ultimately show ?thesis
    using assms(1) fresh Inr by (simp add: db' grants_ok_def)
qed

lemma UpdateGrant_effect:
  assumes "grants_ok db" "UpdateGrant i (uint (allow :: perms)) (uint (deny :: perms)) inherit label db = (r, db')"
  shows "grants_ok db' \<and> user_rows db' = user_rows db \<and> member_rows db' = member_rows db \<and>
    (case r of
       Inl _ \<Rightarrow> db' = db
     | Inr _ \<Rightarrow> grant_rows db' = update_grant_row (uint allow) (uint deny) inherit label i (grant_rows db) \<and>
         i \<in> GR_Id ` set (grant_rows db))"
proof (cases r)
  case (Inl e)
  then have "db' = db" using assms(2) by (simp add: UpdateGrant_def db_Write_Inl)
  with Inl assms(1) show ?thesis by simp
next
  case (Inr u)
  let ?rows = "update_grant_row (uint allow) (uint deny) inherit label i (grant_rows db)"
  have db': "db' = db\<lparr>grant_rows := ?rows\<rparr>" and keys: "distinct (map grant_key ?rows)"
    and hit: "i \<in> GR_Id ` set (grant_rows db)"
    using assms(2) Inr
    by (auto simp: UpdateGrant_def db_Write_Inr sqlUpdateGrant_def Let_def filter_empty_conv
        bind_r_eq_Inr split: if_splits)
  have ids: "map GR_Id ?rows = map GR_Id (grant_rows db)" by (auto simp: update_grant_row_def)
  have small: "0 \<le> uint (w :: perms) \<and> uint w < 65536" for w
    using uint_lt2p [of w] by simp
  have row: "grant_row_ok (r\<lparr>GR_Allow := a, GR_Deny := d, GR_Inherit := h, GR_Label := l\<rparr>) = grant_row_ok r" for r a d h l
    by (simp add: grant_row_ok_def)
  have "list_all grant_row_ok ?rows" "list_all bits_ok ?rows"
    using assms(1) small by (auto simp: grants_ok_def list_all_iff update_grant_row_def row bits_ok_def)
  with assms(1) ids keys hit Inr show ?thesis by (simp add: db' grants_ok_def)
qed

lemma DeleteGrant_effect:
  assumes "grants_ok db" "DeleteGrant i db = (r, db')"
  shows "grants_ok db' \<and> user_rows db' = user_rows db \<and> member_rows db' = member_rows db \<and>
    (case r of Inl _ \<Rightarrow> db' = db | Inr _ \<Rightarrow> grant_rows db' = filter (\<lambda>r. GR_Id r \<noteq> i) (grant_rows db))"
proof (cases r)
  case (Inl e)
  then have "db' = db" using assms(2) by (simp add: DeleteGrant_def db_Write_Inl)
  with Inl assms(1) show ?thesis by simp
next
  case (Inr u)
  then have "db' = db\<lparr>grant_rows := filter (\<lambda>r. GR_Id r \<noteq> i) (grant_rows db)\<rparr>"
    using assms(2) by (auto simp: DeleteGrant_def db_Write_Inr sqlDeleteGrant_def split: if_splits)
  with Inr assms(1) show ?thesis by (auto simp: grants_ok_def distinct_map_filter list_all_iff)
qed

definition core_ok :: "core \<Rightarrow> bool" where
  "core_ok c \<longleftrightarrow> grants_ok (k_db c) \<and> in_step c \<and> registry_ok c"

lemma core_ok_reload:
  "grants_ok db \<Longrightarrow> registry_ok c \<Longrightarrow>
     core_ok (c\<lparr>k_db := db, k_acl := rows_tables (grant_rows db) (member_rows db)\<rparr>)"
  by (simp add: core_ok_def in_step_def registry_frame)

lemma core_ok_same_db: "core_ok c \<Longrightarrow> core_ok (c\<lparr>k_db := k_db c\<rparr>)"
  by simp

lemma reload_core_ok: "grants_ok db \<Longrightarrow> registry_ok c \<Longrightarrow> core_ok (snd (reload db c))"
  by (simp add: reload_ok core_ok_reload)

lemma CreateGrant_ok [inv_intros]:
  assumes "core_ok c" "bits_ok spec" "CreateGrant spec now c = (r, c')"
  shows "core_ok c'"
proof -
  obtain x db where p: "PersistGrant spec now (k_db c) = (x, db)" by fastforce
  note eff = PersistGrant_effect [OF _ assms(2) p]
  have g: "grants_ok (k_db c)" "registry_ok c" using assms(1) by (simp_all add: core_ok_def)
  show ?thesis
  proof (cases x)
    case (Inl e)
    with eff [OF g(1)] assms p show ?thesis by (auto simp: CreateGrant_def split: if_splits)
  next
    case (Inr i)
    with eff [OF g(1)] have "grants_ok db" by simp
    with assms p Inr show ?thesis
      by (auto simp: CreateGrant_def reload_ok core_ok_reload g split: if_splits)
  qed
qed

lemma core_UpdateGrant_ok [inv_intros]:
  assumes "core_ok c" "core_UpdateGrant i allow deny inherit label c = (r, c')"
  shows "core_ok c'"
proof -
  obtain x db where p: "UpdateGrant i (uint allow) (uint deny) inherit label (k_db c) = (x, db)" by fastforce
  have g: "grants_ok (k_db c)" "registry_ok c" using assms(1) by (simp_all add: core_ok_def)
  note eff = UpdateGrant_effect [OF g(1) p]
  show ?thesis
  proof (cases x)
    case (Inl e)
    with eff assms p show ?thesis by (auto simp: core_UpdateGrant_def split: if_splits sum.splits)
  next
    case (Inr u)
    with eff have "grants_ok db" by simp
    with assms p Inr show ?thesis
      by (auto simp: core_UpdateGrant_def reload_ok core_ok_reload g split: if_splits sum.splits)
  qed
qed

lemma core_DeleteGrant_ok [inv_intros]:
  assumes "core_ok c" "core_DeleteGrant i c = (r, c')"
  shows "core_ok c'"
proof -
  obtain x db where p: "DeleteGrant i (k_db c) = (x, db)" by fastforce
  have g: "grants_ok (k_db c)" "registry_ok c" using assms(1) by (simp_all add: core_ok_def)
  note eff = DeleteGrant_effect [OF g(1) p]
  show ?thesis
  proof (cases x)
    case (Inl e)
    with eff assms p show ?thesis by (auto simp: core_DeleteGrant_def split: if_splits sum.splits)
  next
    case (Inr u)
    with eff have "grants_ok db" by simp
    with assms p Inr show ?thesis
      by (auto simp: core_DeleteGrant_def reload_ok core_ok_reload g split: if_splits sum.splits)
  qed
qed

lemma bits_ok_home: "bits_ok (home_grant user name)" "bits_ok (whole_share_grant user def)"
  by (simp_all add: bits_ok_def home_grant_def whole_share_grant_def homePerms_def perm_consts)

lemma ensureHome_ok [inv_intros]:
  assumes "core_ok c"
  shows "core_ok (ensureHome T env user c)"
proof -
  have g: "grants_ok (k_db c)" "registry_ok c" using assms by (simp_all add: core_ok_def)
  have "core_ok (snd (createHomeGrant user name now c))" for name now
  proof -
    obtain x db where p: "PersistGrant (home_grant user name) now (k_db c) = (x, db)" by fastforce
    note eff = PersistGrant_effect [OF g(1) bits_ok_home(1) p]
    show ?thesis
      using eff p assms g(2) by (cases x) (auto simp: createHomeGrant_def intro: reload_core_ok)
  qed
  with assms show ?thesis by (auto simp: ensureHome_def Let_def split: option.splits sum.splits)
qed

lemma persist_shares_ok:
  "grants_ok db \<Longrightarrow> persist_shares user now defs db = (e, db') \<Longrightarrow> grants_ok db'"
proof (induction defs arbitrary: db)
  case (Cons def defs)
  obtain x d where p: "PersistGrant (whole_share_grant user def) now db = (x, d)" by fastforce
  note eff = PersistGrant_effect [OF Cons.prems(1) bits_ok_home(2) p]
  show ?case
  proof (cases "fst def = homeShareID")
    case True
    with Cons show ?thesis by simp
  next
    case False
    with eff p Cons show ?thesis by (cases x) auto
  qed
qed simp

lemma GrantEveryShare_ok [inv_intros]:
  assumes "core_ok c" "GrantEveryShare user now c = (Inr (), c')"
  shows "core_ok c'"
proof -
  have g: "grants_ok (k_db c)" "registry_ok c" using assms by (simp_all add: core_ok_def)
  obtain e db where p: "persist_shares user now (Shares c) (k_db c) = (e, db)" by fastforce
  have "grants_ok db" by (rule persist_shares_ok [OF g(1) p])
  with assms(2) p g(2) show ?thesis
    by (cases e) (auto simp: GrantEveryShare_def reload_ok core_ok_reload)
qed

lemma core_ok_registry: "core_ok c \<Longrightarrow> registry_ok c' \<Longrightarrow> k_db c' = k_db c \<Longrightarrow> k_acl c' = k_acl c \<Longrightarrow> core_ok c'"
  by (simp add: core_ok_def in_step_def)

lemma Shares_entries:
  assumes "registry_ok c"
  shows "distinct (map fst (Shares c))" "\<forall>x\<in>set (Shares c). shareEntry c (fst x) = Some (snd x)"
  using assms by (auto simp: Shares_def registry_ok_def shareEntry_def distinct_map map_of_eq_Some_iff)

lemma probe_loop_frame:
  "probe_loop opens dead defs (b, h, c) = (b', h', c') \<Longrightarrow> k_db c' = k_db c \<and> k_acl c' = k_acl c"
proof (induction defs arbitrary: b h c)
  case (Cons x defs)
  obtain i e where x: "x = (i, e)" by (cases x)
  have fr: "k_db (replaceEntry i e' c) = k_db c" "k_acl (replaceEntry i e' c) = k_acl c" for e'
    by (simp_all add: replaceEntry_def)
  show ?case
    using Cons.prems Cons.IH fr
    by (fastforce simp: x RegisterShare_def RegisterBroken_def split: if_splits option.splits sum.splits)
qed simp

lemma ProbeShares_ok [inv_intros]:
  assumes "core_ok c" "ProbeShares opens dead c = (b, h, c')"
  shows "core_ok c'"
proof -
  have reg: "registry_ok c" using assms by (simp add: core_ok_def)
  have p: "probe_loop opens dead (Shares c) ([], [], c) = (b, h, c')" using assms(2) by (simp add: ProbeShares_def)
  from probe_loop_spec [OF reg Shares_entries [OF reg] p] probe_loop_frame [OF p] show ?thesis
    using core_ok_registry [OF assms(1)] by blast
qed

text \<open>
  Every state the domain reaches: the state it starts in and then any sequence of grant
  administration, home creation and registry operations.
\<close>

inductive core_history :: "'enc text_library \<Rightarrow> core \<Rightarrow> bool" for T where
  start: "grants_ok db \<Longrightarrow>
    core_history T \<lparr>k_db = db, k_acl = rows_tables (grant_rows db) (member_rows db), k_shares = []\<rparr>"
| create: "core_history T c \<Longrightarrow> bits_ok spec \<Longrightarrow> CreateGrant spec now c = (r, c') \<Longrightarrow> core_history T c'"
| update: "core_history T c \<Longrightarrow> core_UpdateGrant i allow deny inherit label c = (r', c') \<Longrightarrow> core_history T c'"
| delete: "core_history T c \<Longrightarrow> core_DeleteGrant i c = (d, c') \<Longrightarrow> core_history T c'"
| every: "core_history T c \<Longrightarrow> GrantEveryShare user now c = (Inr (), c') \<Longrightarrow> core_history T c'"
| home: "core_history T c \<Longrightarrow> core_history T (ensureHome T env user c)"
| register: "core_history T c \<Longrightarrow> core_history T (snd (RegisterShare opened i def c))"
| broken: "core_history T c \<Longrightarrow> core_history T (RegisterBroken i def cause c)"
| unregister: "core_history T c \<Longrightarrow> core_history T (UnregisterShare i c)"
| probe: "core_history T c \<Longrightarrow> ProbeShares opens dead c = (b, h, c') \<Longrightarrow> core_history T c'"

lemma core_history_ok: "core_history T c \<Longrightarrow> core_ok c"
proof (induction rule: core_history.induct)
  case (start db)
  then show ?case by (simp add: core_ok_def in_step_def registry_ok_def)
next
  case (register c opened i def)
  then have "registry_ok (snd (RegisterShare opened i def c))" by (simp add: core_ok_def RegisterShare_ok)
  then show ?case
    by (rule core_ok_registry [OF register.IH])
      (auto simp: RegisterShare_def replaceEntry_def split: sum.splits)
next
  case (broken c i def cause)
  then have "registry_ok (RegisterBroken i def cause c)" by (simp add: core_ok_def RegisterBroken_ok)
  then show ?case
    by (rule core_ok_registry [OF broken.IH]) (simp_all add: RegisterBroken_def replaceEntry_def)
next
  case (unregister c i)
  then have "registry_ok (UnregisterShare i c)" by (simp add: core_ok_def UnregisterShare_ok)
  then show ?case
    by (rule core_ok_registry [OF unregister.IH]) (simp_all add: UnregisterShare_def)
qed (auto intro: inv_intros)

section \<open>What a resolution is\<close>

lemma join_existing_Inr:
  "join_existing p comps = Inr q \<Longrightarrow> path_ok p \<Longrightarrow> sf_comps q = sf_comps p @ comps \<and> path_ok q"
proof (induction comps arbitrary: p)
  case (Cons x xs)
  then obtain p' where p': "JoinExisting p x = Inr p'" and rest: "join_existing p' xs = Inr q"
    by (auto simp: bind_r_eq_Inr)
  have "push p x = Inr p'" "ok_component x" using JoinExisting_Inr [OF p'] by auto
  then have "sf_comps p' = sf_comps p @ [x]" "path_ok p'" using push_Inr push_ok Cons.prems(2) by blast+
  with Cons.IH [OF rest] show ?case by simp
qed simp

definition rest_comps :: "'enc text_library \<Rightarrow> share_path \<Rightarrow> string list" where
  "rest_comps T rest = (case SharePath_Safe T rest of Inl _ \<Rightarrow> [] | Inr safe \<Rightarrow> sf_comps safe)"

lemma joinSubpath_Inr:
  assumes "joinSubpath T sub rest = Inr full"
  shows "sf_comps full = sub @ rest_comps T rest" "path_ok full"
proof -
  have root: "path_ok RootPath" "sf_comps RootPath = []" by (simp_all add: path_ok_def RootPath_def)
  from assms obtain mid where mid: "join_existing RootPath sub = Inr mid"
    and fin: "(if SharePath_IsRoot rest then Inr mid
       else bind_r (SharePath_Safe T rest) (\<lambda>safe. join_existing mid (sf_comps safe))) = Inr full"
    by (auto simp: joinSubpath_def bind_r_eq_Inr)
  from join_existing_Inr [OF mid root(1)] root(2) have m: "sf_comps mid = sub" "path_ok mid" by simp_all
  have "sf_comps full = sub @ rest_comps T rest \<and> path_ok full"
  proof (cases "SharePath_IsRoot rest")
    case True
    then have "sp_raw rest = []" by (simp add: SharePath_IsRoot_def)
    then have "rest_comps T rest = []" by (simp add: rest_comps_def SharePath_Safe_def)
    with True fin m show ?thesis by simp
  next
    case False
    with fin obtain safe where "SharePath_Safe T rest = Inr safe" "join_existing mid (sf_comps safe) = Inr full"
      by (auto simp: bind_r_eq_Inr)
    with join_existing_Inr [OF this(2) m(2)] m(1) show ?thesis by (simp add: rest_comps_def)
  qed
  then show "sf_comps full = sub @ rest_comps T rest" "path_ok full" by auto
qed

lemma Narrow_Some:
  assumes "0 < ty_width to" "0 < ty_width from" "Narrow to from v = Some n"
  shows "n = v"
proof -
  have "convert from (convert to v) = v" using assms(3) by (auto simp: Narrow_def Let_def split: if_splits)
  then have "fits from v" using convert_fits [OF assms(2), of "convert to v"] by simp
  with Narrow_spec [OF assms(1,2)] assms(3) show ?thesis by (auto split: if_splits)
qed

lemma Narrow_u32: "Narrow (Unsigned 32) (Signed 64) v = Some n \<Longrightarrow> n = v"
  by (rule Narrow_Some) simp_all

text \<open>A root that no host symlink can lead out of.\<close>

definition confined :: "share_root \<Rightarrow> bool" where
  "confined root \<longleftrightarrow> SR_Symlink root = SymlinkDeny \<or> SR_IsView root \<or> \<not> SR_Restricts root"

lemma restrictScopedRoot_confined:
  "restrictScopedRoot root scoped = Inr root' \<Longrightarrow> (scoped \<longrightarrow> confined root') \<and> SR_ID root' = SR_ID root"
  by (auto simp: restrictScopedRoot_def RestrictSymlinks_def confined_def split: if_splits)

lemma rootFor_Some: "rootFor c user label = Some m \<Longrightarrow> m \<in> set (labelledRoots c user) \<and> re_Label m = label"
  by (auto simp: rootFor_def dest: find_SomeD)

lemma roots_loop_grant:
  "m \<in> set (roots_loop t user gs seen out) \<Longrightarrow>
     m \<in> set out \<or> (\<exists>g\<in>set gs. grantMatchesLocked t user g \<and> Has (g_Allow g) Read \<and>
       re_Share m = g_Share g \<and> re_Subpath m = g_Subpath g)"
  by (induction gs arbitrary: seen out) (fastforce simp: Let_def split: if_splits)+

lemma label_root_fields [simp]: "re_Share (label_root c r) = re_Share r" "re_Subpath (label_root c r) = re_Subpath r"
  by (simp_all add: label_root_def split: option.splits)

lemma labelledRoots_grant:
  assumes "m \<in> set (labelledRoots c user)"
  shows "\<exists>g\<in>set (t_grants (k_acl c)). grantMatchesLocked (k_acl c) user g \<and> Has (g_Allow g) Read \<and>
    re_Share m = g_Share g \<and> re_Subpath m = g_Subpath g"
proof -
  from assms obtain r where r: "r \<in> set (Roots (k_acl c) user)" "m = label_root c r"
    by (auto simp: labelledRoots_def)
  from roots_loop_grant [OF r(1) [unfolded Roots_def]] r(2) show ?thesis by simp
qed

lemma resolve_label_Inr:
  assumes "resolve_label T c user p need = Inr r"
  obtains m eroot where "rootFor c user (Vpath_Label p) = Some m"
    and "r_share r = re_Share m" and "ShareRoot c (r_share r) = Some eroot"
    and "sf_comps (r_path r) = re_Subpath m @ rest_comps T (Vpath_Rest p)" and "path_ok (r_path r)"
    and "Allowed (evaluateLocked (k_acl c) user (r_share r) (sf_comps (r_path r)) need)"
    and "r_perms r = effectiveLocked (k_acl c) user (r_share r) (sf_comps (r_path r))"
    and "r_user r = user" and "restrictScopedRoot eroot (length (re_Subpath m) > 0) = Inr (r_root r)"
proof -
  obtain m where m: "rootFor c user (Vpath_Label p) = Some m"
    using assms by (auto simp: resolve_label_def split: option.splits)
  obtain share where share: "Narrow (Unsigned 32) (Signed 64) (re_Share m) = Some share"
    using assms m by (auto simp: resolve_label_def split: option.splits)
  have seq: "share = re_Share m" by (rule Narrow_u32 [OF share])
  obtain entry where entry: "shareEntry c share = Some entry"
    using assms m share by (auto simp: resolve_label_def split: option.splits)
  obtain eroot where eroot: "SE_Broken entry = None" "SE_Root entry = Some eroot"
    using assms m share entry by (auto simp: resolve_label_def split: option.splits)
  obtain full where full: "joinSubpath T (re_Subpath m) (Vpath_Rest p) = Inr full"
    using assms m share entry eroot by (auto simp: resolve_label_def split: sum.splits)
  note js = joinSubpath_Inr [OF full]
  have al: "Allowed (evaluateLocked (k_acl c) user (re_Share m) (aclPath full) need)"
    using assms m share entry eroot full by (auto simp: resolve_label_def split: if_splits)
  obtain root where root: "restrictScopedRoot eroot (length (re_Subpath m) > 0) = Inr root"
    using assms m share entry eroot full al by (auto simp: resolve_label_def split: sum.splits)
  have r: "r = \<lparr>r_user = user, r_share = share, r_root = root, r_path = full,
      r_perms = effectiveLocked (k_acl c) user (re_Share m) (aclPath full)\<rparr>"
    using assms m share entry eroot full al root by (simp add: resolve_label_def)
  have "ShareRoot c (r_share r) = Some eroot"
    using entry eroot by (simp add: r ShareRoot_def shareEntry_def)
  with m r js al root seq show thesis by (intro that [of m eroot]) (simp_all add: aclPath_def NewPath_def)
qed

section \<open>Properties\<close>

text \<open>
  C6. The gate: a resolution names a path under the subpath of a grant the caller itself holds and
  the label projects, every component is admissible, every permission asked for is held there by
  the deepest-rule rule, the permission set it carries is the effective one, and a resolution
  through a grant scoped below the share root never follows a host symlink.
\<close>
theorem resolve_is_the_gate:
  assumes "Resolve T env user p need c = (Inr r, c')"
  shows "\<exists>m\<in>set (labelledRoots c' user).
    re_Label m = Vpath_Label p \<and> r_share r = re_Share m \<and> r_user r = user \<and>
    prefix (re_Subpath m) (sf_comps (r_path r)) \<and> list_all ok_component (sf_comps (r_path r)) \<and>
    (\<forall>i. bit need i \<longrightarrow> permits (k_acl c') user (r_share r) (sf_comps (r_path r)) i) \<and>
    (\<forall>i. bit (r_perms r) i \<longleftrightarrow> i < 8 \<and> permits (k_acl c') user (r_share r) (sf_comps (r_path r)) i) \<and>
    (re_Subpath m \<noteq> [] \<longrightarrow> confined (r_root r))"
proof -
  have c': "c' = ensureHome T env user c" and r: "resolve_label T c' user p need = Inr r"
    using assms by (auto simp: Resolve_def Let_def split: if_splits)
  from resolve_label_Inr [OF r] obtain m eroot where m: "rootFor c' user (Vpath_Label p) = Some m"
    "r_share r = re_Share m" "sf_comps (r_path r) = re_Subpath m @ rest_comps T (Vpath_Rest p)" "path_ok (r_path r)"
    "Allowed (evaluateLocked (k_acl c') user (r_share r) (sf_comps (r_path r)) need)"
    "r_perms r = effectiveLocked (k_acl c') user (r_share r) (sf_comps (r_path r))"
    "r_user r = user" "restrictScopedRoot eroot (length (re_Subpath m) > 0) = Inr (r_root r)" by metis
  have "bit need i \<longrightarrow> permits (k_acl c') user (r_share r) (sf_comps (r_path r)) i" for i
    using m(5) evaluateLocked_allowed [of need] by (cases "need = 0") auto
  moreover have "bit (r_perms r) i \<longleftrightarrow> i < 8 \<and> permits (k_acl c') user (r_share r) (sf_comps (r_path r)) i" for i
    unfolding m(6) by (rule bit_effectiveLocked)
  ultimately show ?thesis
    using rootFor_Some [OF m(1)] m(2,3,4,7) restrictScopedRoot_confined [OF m(8)]
    by (intro bexI [of _ m]) (auto simp: path_ok_def)
qed

text \<open>
  C10. Existence stays hidden: whoever learns anything but that the path is missing, be it a denial
  or that the share is broken, holds a readable grant, its own or a group's, whose projected
  root carries the label asked for. Every other caller is answered exactly as for a missing
  path, whatever shares and grants exist.
\<close>
theorem resolve_hides_existence:
  "fst (Resolve T env user p need c) = Inl ErrNotFound \<or>
   (let t = k_acl (snd (Resolve T env user p need c)) in
    \<exists>g\<in>set (t_grants t). grantMatchesLocked t user g \<and> Has (g_Allow g) Read \<and>
      (\<exists>m\<in>set (labelledRoots (snd (Resolve T env user p need c)) user).
         re_Label m = Vpath_Label p \<and> re_Share m = g_Share g \<and> re_Subpath m = g_Subpath g))"
proof (cases "Vpath_IsRoot p \<or> rootFor (ensureHome T env user c) user (Vpath_Label p) = None")
  case True
  then show ?thesis by (auto simp: Resolve_def Let_def resolve_label_def)
next
  case False
  then obtain m where "rootFor (ensureHome T env user c) user (Vpath_Label p) = Some m" by blast
  note m = rootFor_Some [OF this]
  from labelledRoots_grant [of m] m False show ?thesis by (auto simp: Resolve_def Let_def)
qed

text \<open>A running domain: user 5 holds the folder \<open>a\<close> of share 3 under the label docs.\<close>

definition demo_row :: grant_row where
  "demo_row = \<lparr>GR_Id = 1, GR_User = Some 5, GR_Group = None, GR_Share = 3, GR_Subpath = ''a'', GR_Allow = 3,
     GR_Deny = 0, GR_Inherit = True, GR_Label = ''docs'', GR_CreatedNs = 0\<rparr>"

definition demo_grants :: state_db where
  "demo_grants = empty_db\<lparr>user_rows := [\<lparr>U_Id = 5, U_Quota = None, U_Usage = 0\<rparr>], grant_rows := [demo_row]\<rparr>"

definition demo_root :: share_root where
  "demo_root = \<lparr>SR_ID = 3, SR_Symlink = SymlinkFollow, SR_IsView = False, SR_HasView = True, SR_Restricts = True\<rparr>"

definition demo_entry :: share_entry where
  "demo_entry = \<lparr>SE_Name = ''files'', SE_Trash = False, SE_Broken = None, SE_Root = Some demo_root\<rparr>"

definition demo_core :: core where
  "demo_core = \<lparr>k_db = demo_grants, k_acl = rows_tables [demo_row] [], k_shares = [(3, demo_entry)]\<rparr>"

definition demo_env :: home_env where
  "demo_env = \<lparr>hv_name = (\<lambda>_. None), hv_prepare = (\<lambda>_ _. True), hv_now = 0\<rparr>"

lemma demo_tables:
  "rows_tables [demo_row] [] = load_tables
     [\<lparr>g_ID = 1, g_User = 5, g_Group = 0, g_Share = 3, g_Subpath = [''a''], g_Allow = 3, g_Deny = 0,
       g_Inherit = True, g_Label = ''docs'', g_CreatedNs = 0\<rparr>] []"
  by (simp add: rows_tables_def demo_row_def grantOf_def ParsePath_def TrimByte_def)

lemma demo_effective: "effectiveLocked (rows_tables [demo_row] []) 5 3 [''a''] = 3"
  unfolding demo_tables
  by (simp add: effectiveLocked_def orderedBits_def acl_eval_simps load_tables_def)

lemma generated_label_3: "GeneratedRootLabel 3 = ''share-3''"
  by code_simp

lemma demo_roots:
  "labelledRoots demo_core 5 = [\<lparr>re_Label = ''docs'', re_Share = 3, re_Subpath = [''a''], re_Perms = 3\<rparr>]"
proof -
  have "Roots (rows_tables [demo_row] []) 5 = [\<lparr>re_Label = ''docs'', re_Share = 3, re_Subpath = [''a''], re_Perms = 3\<rparr>]"
    using demo_effective unfolding demo_tables
    by (simp add: Roots_def load_tables_def grantMatchesLocked_def Has_def perm_consts root_base_def numbered_label_def Let_def)
  then show ?thesis by (simp add: labelledRoots_def demo_core_def label_root_def generated_label_3)
qed

lemma demo_no_home: "ensureHome T env user demo_core = demo_core"
  by (simp add: ensureHome_def ShareRoot_def demo_core_def homeShareID_def)

lemma demo_resolve:
  "Resolve latin1_library demo_env 5 (Vpath ''docs/x'') Read demo_core =
     (Inr \<lparr>r_user = 5, r_share = 3, r_root = demo_root\<lparr>SR_IsView := True, SR_HasView := False\<rparr>,
           r_path = SafePath [''a'', ''x''],
           r_perms = effectiveLocked (rows_tables [demo_row] []) 5 3 [''a'', ''x'']\<rparr>, demo_core)"
proof -
  have join: "joinSubpath latin1_library [''a''] (SharePath ''x'') = Inr (SafePath [''a'', ''x''])"
    by (simp add: joinSubpath_def RootPath_def JoinExisting_def push_def checkComponentCount_def validateExisting_def
        IsReservedName_def reservedPrefixes_def nul_def path_limits SharePath_IsRoot_def SharePath_Safe_def path_eval_simps)
  have al: "Allowed (evaluateLocked (rows_tables [demo_row] []) 5 3 [''a'', ''x''] Read)"
    unfolding demo_tables by (simp add: acl_eval_simps load_tables_def)
  have label: "Vpath_Label (Vpath ''docs/x'') = ''docs''" "Vpath_Rest (Vpath ''docs/x'') = SharePath ''x''"
    by (simp_all add: Vpath_Label_def Vpath_Rest_def)
  have n: "Narrow (Unsigned 32) (Signed 64) 3 = Some 3"
    by (subst Narrow_spec) (simp_all add: fits_def)
  have fields: "k_acl demo_core = rows_tables [demo_row] []" "shareEntry demo_core 3 = Some demo_entry"
    "SE_Broken demo_entry = None" "SE_Root demo_entry = Some demo_root"
    by (simp_all add: demo_core_def shareEntry_def demo_entry_def)
  have root: "restrictScopedRoot demo_root True = Inr (demo_root\<lparr>SR_IsView := True, SR_HasView := False\<rparr>)"
    by (simp add: restrictScopedRoot_def RestrictSymlinks_def demo_root_def)
  have "resolve_label latin1_library demo_core 5 (Vpath ''docs/x'') Read =
     Inr \<lparr>r_user = 5, r_share = 3, r_root = demo_root\<lparr>SR_IsView := True, SR_HasView := False\<rparr>,
           r_path = SafePath [''a'', ''x''],
           r_perms = effectiveLocked (rows_tables [demo_row] []) 5 3 [''a'', ''x'']\<rparr>"
    using al
    by (simp add: resolve_label_def rootFor_def demo_roots label join n fields root aclPath_def NewPath_def)
  then show ?thesis by (simp add: Resolve_def Vpath_IsRoot_def demo_no_home Let_def)
qed

theorem resolve_is_the_gate_witness:
  "\<exists>r. Resolve latin1_library demo_env 5 (Vpath ''docs/x'') Read demo_core = (Inr r, demo_core) \<and>
     r_share r = 3 \<and> prefix [''a''] (sf_comps (r_path r)) \<and> confined (r_root r) \<and>
     permits (k_acl demo_core) 5 3 (sf_comps (r_path r)) 0"
  using resolve_is_the_gate [OF demo_resolve] demo_resolve
  by (auto simp: demo_roots Read_def)

section \<open>Descending\<close>

text \<open>
  Every resolution a recursive walk reaches from a parent, the evaluator being reloaded any
  number of times on the way.
\<close>

inductive descends :: "resolved \<Rightarrow> resolved \<Rightarrow> bool" for r0 where
  here: "descends r0 r0"
| under: "descends r0 r \<Longrightarrow> ResolveUnder c r p need = Inr r' \<Longrightarrow> descends r0 r'"

lemma ResolveUnder_Inr:
  assumes "ResolveUnder c r p need = Inr r'"
  shows "r' = r\<lparr>r_path := p, r_perms := effectiveLocked (k_acl c) (r_user r) (r_share r) (sf_comps p) AND r_perms r\<rparr>"
    "Under p (r_path r)" "Has (r_perms r') need"
  using assms by (auto simp: ResolveUnder_def Let_def aclPath_def NewPath_def split: if_splits)

text \<open>
  C8. Walking down never widens: whatever chain of narrowings a walk makes, the target stays at or
  below the directory it was handed, on the same share, root and account, and it never holds a
  permission its ancestor lacked or the evaluator does not grant at that very path.
\<close>
theorem descent_never_widens:
  assumes "descends r0 r"
  shows "prefix (sf_comps (r_path r0)) (sf_comps (r_path r)) \<and>
    r_user r = r_user r0 \<and> r_share r = r_share r0 \<and> r_root r = r_root r0 \<and> Has (r_perms r0) (r_perms r) \<and>
    (\<forall>c p need r'. ResolveUnder c r p need = Inr r' \<longrightarrow>
       Has (effectiveLocked (k_acl c) (r_user r0) (r_share r0) (sf_comps p)) (r_perms r') \<and> Has (r_perms r') need)"
proof -
  have "prefix (sf_comps (r_path r0)) (sf_comps (r_path r)) \<and>
    r_user r = r_user r0 \<and> r_share r = r_share r0 \<and> r_root r = r_root r0 \<and> Has (r_perms r0) (r_perms r)"
    using assms
  proof (induction rule: descends.induct)
    case (under r c p need r')
    from ResolveUnder_Inr [OF under.hyps(2)] under.IH show ?case
      by (auto simp: Under_prefix Has_iff bit_and_iff intro: prefix_order.trans)
  qed (simp add: Has_iff)
  moreover have "Has (effectiveLocked (k_acl c) (r_user r) (r_share r) (sf_comps p)) (r_perms r') \<and> Has (r_perms r') need"
    if "ResolveUnder c r p need = Inr r'" for c p need r'
    using ResolveUnder_Inr [OF that] by (auto simp: Has_iff bit_and_iff)
  ultimately show ?thesis by auto
qed

lemma demo_descend:
  "ResolveUnder demo_core \<lparr>r_user = 5, r_share = 3, r_root = demo_root, r_path = SafePath [''a''], r_perms = 1\<rparr>
     (SafePath [''a'', ''x'']) Read =
   Inr \<lparr>r_user = 5, r_share = 3, r_root = demo_root, r_path = SafePath [''a'', ''x''], r_perms = 1\<rparr>"
proof -
  have "effectiveLocked (rows_tables [demo_row] []) 5 3 [''a'', ''x''] = 3"
    unfolding demo_tables by (simp add: effectiveLocked_def orderedBits_def acl_eval_simps load_tables_def)
  then show ?thesis
    by (simp add: ResolveUnder_def Under_def Has_def Read_def aclPath_def NewPath_def demo_core_def Let_def)
qed

theorem descent_never_widens_witness:
  "\<exists>r. descends \<lparr>r_user = 5, r_share = 3, r_root = demo_root, r_path = SafePath [''a''], r_perms = 1\<rparr> r \<and>
     r_path r = SafePath [''a'', ''x''] \<and> prefix [''a''] (sf_comps (r_path r)) \<and> Has 1 (r_perms r)"
  using descent_never_widens [OF descends.under [OF descends.here demo_descend]]
    descends.under [OF descends.here demo_descend] by auto

section \<open>The way back out\<close>

lemma componentsPrefix_prefix: "componentsPrefix sub p \<longleftrightarrow> prefix sub p"
  unfolding componentsPrefix_def IsPrefixOf_prefix [symmetric] IsPrefixOf_def by auto

lemma deepest_root_found:
  "deepest_root share comps rs best = (dep, label) \<Longrightarrow>
     (dep, label) = best \<or>
     (\<exists>m\<in>set rs. Narrow (Unsigned 32) (Signed 64) (re_Share m) = Some share \<and> label = re_Label m \<and>
        dep = int (length (re_Subpath m)) \<and> prefix (re_Subpath m) comps)"
proof (induction rs arbitrary: best)
  case (Cons r rs)
  obtain d l where best: "best = (d, l)" by (cases best)
  show ?case
  proof (cases "Narrow (Unsigned 32) (Signed 64) (re_Share r) = Some share \<and>
      \<not> (int (length (re_Subpath r)) \<le> d \<or> \<not> componentsPrefix (re_Subpath r) comps)")
    case True
    then have "deepest_root share comps rs (int (length (re_Subpath r)), re_Label r) = (dep, label)"
      using Cons.prems best by simp
    from Cons.IH [OF this] True show ?thesis by (auto simp: componentsPrefix_prefix)
  next
    case False
    then have "deepest_root share comps rs best = (dep, label)"
      using Cons.prems best by (auto split: option.splits if_splits)
    from Cons.IH [OF this] show ?thesis by auto
  qed
qed simp

lemma find_distinct:
  "distinct (map f xs) \<Longrightarrow> x \<in> set xs \<Longrightarrow> find (\<lambda>y. f y = f x) xs = Some x"
  by (induction xs) (auto simp: image_iff)

lemma SharePath_Components_Share: "path_ok sp \<Longrightarrow> SharePath_Components (SafePath_Share sp) = sf_comps sp"
proof -
  assume "path_ok sp"
  then have c: "\<forall>c\<in>set (sf_comps sp). c \<noteq> [] \<and> slash \<notin> set c"
    by (auto simp: path_ok_def list_all_iff ok_component_def)
  show ?thesis
  proof (cases "sf_comps sp = []")
    case False
    with c have "Join slash (sf_comps sp) \<noteq> []" using Join_eq_Nil by metis
    with False c show ?thesis
      by (simp add: SharePath_Components_def SafePath_Share_def SafePath_String_def Split_Join)
  qed (simp add: SharePath_Components_def SafePath_Share_def SafePath_String_def)
qed

lemma parse_clean:
  assumes "list_all ok_component cs" "\<not> components_dirty T cs"
    and "splitValidated T (Join slash cs) = Inr (raw, comps)"
  shows "raw = Join slash cs" "comps = cs"
proof -
  have c: "\<forall>c\<in>set cs. c \<noteq> [] \<and> slash \<notin> set c"
    using assms(1) by (auto simp: list_all_iff ok_component_def)
  have "cs \<noteq> [] \<Longrightarrow> Join slash cs \<noteq> [] \<and> Split slash (Join slash cs) = cs"
    using c Join_eq_Nil [of slash cs] Split_Join [of cs slash] by auto
  then show "comps = cs"
    using splitValidated_Inr(4) [OF assms(3)] assms(2) by (cases "cs = []") (auto simp: Components_clean)
  then show "raw = Join slash cs" using splitValidated_Inr(1) [OF assms(3)] by simp
qed

lemma NewVpath_clean:
  assumes ls: "list_all ok_component ls" and clean: "\<not> components_dirty T (label # ls)"
    and v: "NewVpath T label (SharePath (Join slash ls)) = Inr v"
  shows "Vpath_Label v = label" "Vpath_Rest v = SharePath (Join slash ls)"
proof -
  have ok: "ok_component label" using v validateExisting_None [of label] by (auto simp: NewVpath_def split: option.splits)
  then have sl: "slash \<notin> set label" "label \<noteq> []" by (auto simp: ok_component_def)
  have ne: "ls \<noteq> [] \<Longrightarrow> Join slash ls \<noteq> []"
    using ls Join_eq_Nil [of slash ls] by (auto simp: list_all_iff ok_component_def)
  have "ParseVpath T (Join slash (label # ls)) = Inr v"
    using v ne by (cases "ls = []") (auto simp: NewVpath_def Join_Cons split: option.splits)
  moreover have "TrimPrefix (Join slash (label # ls)) ''/'' = Join slash (label # ls)"
    using sl by (cases label; cases ls) (auto simp: TrimPrefix_def)
  ultimately obtain comps where "splitValidated T (Join slash (label # ls)) = Inr (vp_raw v, comps)"
    by (auto simp: ParseVpath_def split: sum.splits)
  then have "vp_raw v = Join slash (label # ls)"
    using parse_clean [of "label # ls" T] ls ok clean by auto
  then show "Vpath_Label v = label" "Vpath_Rest v = SharePath (Join slash ls)"
    using sl by (cases "ls = []", auto simp: Vpath_Label_def Vpath_Rest_def Join_Cons Cut_found Cut_not_found)+
qed





section \<open>Free names\<close>

text \<open>Candidate \<open>k\<close> is passed over: the creation table refuses it, or something has the name.\<close>

definition passed_over ::
  "'enc text_library \<Rightarrow> (safe_path \<Rightarrow> (vfs_error, 'st) result) \<Rightarrow> safe_path \<Rightarrow> string \<Rightarrow> nat \<Rightarrow> bool" where
  "passed_over T stat dir name k \<longleftrightarrow>
     (case SafePath_Join T dir (sibling_name name k) of
        Inl _ \<Rightarrow> True
      | Inr q \<Rightarrow> pathExists stat q = Inr True)"

lemma sibling_search_step:
  "sibling_search T stat dir name bound n =
     (if n \<ge> bound then Inl ErrConflict
      else if passed_over T stat dir name n then sibling_search T stat dir name bound (n + 1)
      else (case SafePath_Join T dir (sibling_name name n) of
              Inl _ \<Rightarrow> Inl ErrConflict
            | Inr q \<Rightarrow> (case pathExists stat q of Inl e \<Rightarrow> Inl e | Inr _ \<Rightarrow> Inr q)))"
  by (subst sibling_search.simps) (auto simp: passed_over_def split: sum.splits)

lemma sibling_search_first:
  assumes "n \<le> k" "k < bound" "\<forall>j. n \<le> j \<and> j < k \<longrightarrow> passed_over T stat dir name j"
    and "\<not> passed_over T stat dir name k"
  shows "\<exists>q. SafePath_Join T dir (sibling_name name k) = Inr q \<and>
     sibling_search T stat dir name bound n = (case pathExists stat q of Inl e \<Rightarrow> Inl e | Inr _ \<Rightarrow> Inr q)"
  using assms
proof (induction "k - n" arbitrary: n)
  case 0
  then have "n = k" by simp
  then show ?case using 0(3,5)
    by (subst sibling_search_step) (auto simp: passed_over_def split: sum.splits)
next
  case (Suc d)
  then have "passed_over T stat dir name n" by simp
  moreover have "\<exists>q. SafePath_Join T dir (sibling_name name k) = Inr q \<and>
     sibling_search T stat dir name bound (n + 1) = (case pathExists stat q of Inl e \<Rightarrow> Inl e | Inr _ \<Rightarrow> Inr q)"
    using Suc by (intro Suc.hyps(1)) auto
  moreover have "n < bound" using Suc.prems Suc.hyps(2) by simp
  ultimately show ?case by (subst sibling_search_step) simp
qed

lemma sibling_search_none:
  assumes "\<forall>j. n \<le> j \<and> j < bound \<longrightarrow> passed_over T stat dir name j"
  shows "sibling_search T stat dir name bound n = Inl ErrConflict"
  using assms
proof (induction "bound - n" arbitrary: n)
  case 0
  then show ?case by (subst sibling_search_step) simp
next
  case (Suc d)
  then have "sibling_search T stat dir name bound (n + 1) = Inl ErrConflict" by (intro Suc.hyps(1)) auto
  with Suc show ?case by (subst sibling_search_step) simp
qed



definition demo_stat :: "safe_path \<Rightarrow> (vfs_error, unit) result" where
  "demo_stat p = (if sf_comps p \<in> set [[''a.b'']] then Inr () else Inl VNotFound)"


section \<open>Histories\<close>


lemma demo_core_history: "core_history latin1_library demo_core"
proof -
  let ?c = "\<lparr>k_db = demo_grants, k_acl = rows_tables (grant_rows demo_grants) (member_rows demo_grants), k_shares = []\<rparr>"
  have "grants_ok demo_grants"
    by (simp add: grants_ok_def demo_grants_def demo_row_def grant_row_ok_def bits_ok_def)
  then have "core_history latin1_library (snd (RegisterShare (Inr demo_root) 3 demo_entry ?c))"
    by (intro core_history.register core_history.start)
  moreover have "snd (RegisterShare (Inr demo_root) 3 demo_entry ?c) = demo_core"
    by (simp add: RegisterShare_def replaceEntry_def demo_core_def demo_grants_def demo_entry_def)
  ultimately show ?thesis by simp
qed


text \<open>
  C30. The one call that can part them: \<open>GrantEveryShare\<close> stores its grants one by one and reloads
  only at the end, so when a later share is refused, as it is when the account already holds
  that share, the grants stored before it stay in the table while the running evaluator keeps
  denying them.
\<close>
theorem grant_every_share_drifts:
  "\<exists>c c' e. core_history latin1_library c \<and> GrantEveryShare 5 0 c = (Inl e, c') \<and>
     Allowed (evaluateLocked (rows_tables (grant_rows (k_db c')) (member_rows (k_db c'))) 5 1 [] 1) \<and>
     \<not> Allowed (evaluateLocked (k_acl c') 5 1 [] 1)"
proof -
  let ?old = "\<lparr>GR_Id = 1, GR_User = Some 5, GR_Group = None, GR_Share = 3, GR_Subpath = [], GR_Allow = 3,
     GR_Deny = 0, GR_Inherit = True, GR_Label = [], GR_CreatedNs = 0\<rparr>"
  let ?db = "empty_db\<lparr>user_rows := [\<lparr>U_Id = 5, U_Quota = None, U_Usage = 0\<rparr>], grant_rows := [?old]\<rparr>"
  let ?start = "\<lparr>k_db = ?db, k_acl = rows_tables (grant_rows ?db) (member_rows ?db), k_shares = []\<rparr>"
  let ?reg = "snd (RegisterShare (Inr demo_root) 1 demo_entry (snd (RegisterShare (Inr demo_root) 3 demo_entry ?start)))"
  let ?both = "?start\<lparr>k_shares := [(1, demo_entry), (3, demo_entry)]\<rparr>"
  let ?new = "(whole_share_grant 5 (1, demo_entry))\<lparr>GR_Id := 2\<rparr>"
  let ?grown = "empty_db\<lparr>user_rows := [\<lparr>U_Id = 5, U_Quota = None, U_Usage = 0\<rparr>], grant_rows := [?old, ?new]\<rparr>"
  have "grants_ok ?db" by (simp add: grants_ok_def grant_row_ok_def bits_ok_def)
  then have "core_history latin1_library ?reg" by (intro core_history.register core_history.start)
  moreover have "?reg = ?both" by (simp add: RegisterShare_def replaceEntry_def demo_entry_def)
  ultimately have hist: "core_history latin1_library ?both" by (simp only:)
  have sh: "Shares ?both = [(1, demo_entry), (3, demo_entry)]" by (simp add: Shares_def)
  have p1: "PersistGrant (whole_share_grant 5 (1, demo_entry)) 0 ?db = (Inr 2, ?grown)"
    by (simp add: PersistGrant_def whole_share_grant_def homePerms_def perm_consts EnsureWritable_def db_Write_def
        name_unique_def sqlInsertGrant_def next_grant_id_def grant_key_def references_def Let_def)
  have p2: "PersistGrant (whole_share_grant 5 (3, demo_entry)) 0 ?grown =
      (Inl ErrGrantAlreadyExists, ?grown)"
    by (simp add: PersistGrant_def whole_share_grant_def homePerms_def perm_consts EnsureWritable_def db_Write_def
        name_unique_def sqlInsertGrant_def next_grant_id_def grant_key_def Let_def)
  have run: "GrantEveryShare 5 0 ?both = (Inl (ErrState ErrGrantAlreadyExists), ?both\<lparr>k_db := ?grown\<rparr>)"
    unfolding GrantEveryShare_def sh by (simp add: p1 p2 homeShareID_def del: empty_db_def)
  have new: "Allowed (evaluateLocked (rows_tables [?old, ?new] []) 5 1 [] 1)"
    by (simp add: rows_tables_def grantOf_def whole_share_grant_def homePerms_def acl_eval_simps load_tables_def ParsePath_def TrimByte_def)
  have old: "\<not> Allowed (evaluateLocked (rows_tables [?old] []) 5 1 [] 1)"
    by (simp add: rows_tables_def grantOf_def acl_eval_simps load_tables_def ParsePath_def TrimByte_def)
  show ?thesis
    by (intro exI conjI, rule hist, rule run) (use new old in simp_all)
qed

text \<open>
  C29. No request dereferences a root that is not there: in every state the domain reaches, the gate
  answers with a resolution or one of its declared refusals.
\<close>
theorem resolve_type_safe:
  assumes "core_history T c"
  shows "fst (Resolve T env user p need c) \<noteq> Inl PanicNilRoot"
proof -
  have "registry_ok (ensureHome T env user c)"
    using core_history_ok [OF core_history.home [OF assms]] by (simp add: core_ok_def)
  note reg = registry_entry [OF this]
  have "mapVFSErr e \<noteq> PanicNilRoot" for e by (auto simp: mapVFSErr_def split: vfs_error.splits path_error.splits)
  then have "resolve_label T (ensureHome T env user c) user p need \<noteq> Inl PanicNilRoot"
    using reg by (auto simp: resolve_label_def split: option.splits sum.splits if_splits)
  then show ?thesis by (auto simp: Resolve_def Let_def)
qed

theorem resolve_type_safe_witness:
  "core_history latin1_library demo_core \<and>
   fst (Resolve latin1_library demo_env 5 (Vpath ''docs/x'') Read demo_core) \<noteq> Inl PanicNilRoot"
  using resolve_type_safe [OF demo_core_history] demo_core_history by blast

text \<open>
  C28. A probe settles every share: afterwards a share that was live is broken exactly when its root
  no longer answers, a share that was broken is live exactly when its storage opens again, no
  share is added or lost, and the two reports name exactly the shares that changed.
\<close>
theorem probe_settles:
  assumes "core_history T c" and "ProbeShares opens dead c = (broke, healed, c')"
  shows "\<forall>i. case shareEntry c i of
      None \<Rightarrow> shareEntry c' i = None \<and> i \<notin> set broke \<union> set healed
    | Some e \<Rightarrow>
        (\<exists>e'. shareEntry c' i = Some e' \<and> SE_Name e' = SE_Name e \<and>
          (SE_Broken e' = None \<longleftrightarrow> (if SE_Broken e = None then dead i = None else \<exists>root. opens i = Inr root))) \<and>
        (i \<in> set broke \<longleftrightarrow> SE_Broken e = None \<and> dead i \<noteq> None) \<and>
        (i \<in> set healed \<longleftrightarrow> SE_Broken e \<noteq> None \<and> (\<exists>root. opens i = Inr root))"
proof
  fix i
  have reg: "registry_ok c" using core_history_ok [OF assms(1)] by (simp add: core_ok_def)
  have p: "probe_loop opens dead (Shares c) ([], [], c) = (broke, healed, c')" using assms(2) by (simp add: ProbeShares_def)
  note spec = probe_loop_spec [OF reg Shares_entries [OF reg] p]
  have mem: "i \<in> fst ` set (Shares c) \<longleftrightarrow> shareEntry c i \<noteq> None"
    by (simp add: Shares_def shareEntry_def map_of_eq_None_iff)
  have ent: "(i, e) \<in> set (Shares c) \<longleftrightarrow> shareEntry c i = Some e" for e
    using reg by (auto simp: Shares_def shareEntry_def registry_ok_def map_of_eq_Some_iff)
  show "case shareEntry c i of
      None \<Rightarrow> shareEntry c' i = None \<and> i \<notin> set broke \<union> set healed
    | Some e \<Rightarrow>
        (\<exists>e'. shareEntry c' i = Some e' \<and> SE_Name e' = SE_Name e \<and>
          (SE_Broken e' = None \<longleftrightarrow> (if SE_Broken e = None then dead i = None else \<exists>root. opens i = Inr root))) \<and>
        (i \<in> set broke \<longleftrightarrow> SE_Broken e = None \<and> dead i \<noteq> None) \<and>
        (i \<in> set healed \<longleftrightarrow> SE_Broken e \<noteq> None \<and> (\<exists>root. opens i = Inr root))"
  proof (cases "shareEntry c i")
    case None
    with mem spec show ?thesis by (force simp: image_iff)
  next
    case (Some e)
    have rep: "i \<in> set (map fst (filter (changed opens dead w) (Shares c))) \<longleftrightarrow> changed opens dead w (i, e)" for w
      using ent Some by (auto simp: image_iff)
    show ?thesis
      using spec mem rep [of False] rep [of True] Some
      by (auto simp: changed_def probe_state_def split: option.splits sum.splits)
  qed
qed

theorem probe_settles_witness:
  "\<exists>broke healed c'. ProbeShares (\<lambda>_. Inl ''missing'') (\<lambda>_. Some ''missing'') demo_core = (broke, healed, c') \<and>
     3 \<in> set broke \<and> (\<exists>e'. shareEntry c' 3 = Some e' \<and> SE_Broken e' \<noteq> None)"
proof -
  obtain b h c' where p: "ProbeShares (\<lambda>_. Inl ''missing'') (\<lambda>_. Some ''missing'') demo_core = (b, h, c')"
    by (metis prod_cases3)
  have e: "shareEntry demo_core 3 = Some demo_entry" "SE_Broken demo_entry = None"
    by (simp_all add: demo_core_def shareEntry_def demo_entry_def)
  from spec [OF probe_settles [OF demo_core_history p], of 3] p show ?thesis by (auto simp: e)
qed

end
