(* ===== verification/Sc_Storage.thy ===== *)
theory Sc_Storage
  imports Sc_Core
begin

unbundle bit_operations_syntax

text \<open>
  The storage seam \<open>vfs.Root\<close> (\<open>internal/fs/vfs/backend.go\<close>, \<open>types.go\<close>) and the entries the
  domain builds from what it reports (\<open>files/etag.go\<close>, \<open>files/entry.go\<close>). The driver behind the
  seam is a separate package, so it is the argument \<open>driver\<close>; what the domain relies on of it is
  the predicate \<open>posix\<close>, the documented effect of each call on a tree of names.
\<close>

section \<open>Stat results\<close>

datatype kind = KindOther | KindFile | KindDir | KindSymlink

record stat =
  st_Dev :: "64 word"
  st_Ino :: "64 word"
  st_BtimeNs :: "int option"
  st_MtimeNs :: int
  st_CtimeNs :: "int option"
  st_Size :: int
  st_Kind :: kind

definition Kind_IsDir :: "kind \<Rightarrow> bool" where
  "Kind_IsDir k \<longleftrightarrow> k = KindDir"

text \<open>The signed fields are written as their 64-bit pattern; the digest is a separate package.\<close>

definition putUint64 :: "64 word \<Rightarrow> 8 word list" where
  "putUint64 v = map (\<lambda>i. ucast (drop_bit (8 * i) v AND 0xff)) [0..<8]"

definition putInt64 :: "int \<Rightarrow> 8 word list" where
  "putInt64 v = map (\<lambda>i. word_of_int (drop_bit (8 * i) v AND 0xff)) [0..<8]"

definition etag_buffer :: "stat \<Rightarrow> 8 word list" where
  "etag_buffer st =
     putUint64 (st_Dev st) @ putUint64 (st_Ino st) @ putUint64 (word_of_int (st_Size st)) @
     putInt64 (st_MtimeNs st) @ putInt64 (case st_CtimeNs st of None \<Rightarrow> 0 | Some t \<Rightarrow> t)"

definition etagBytes :: nat where "etagBytes = 16"

definition hex_byte :: "8 word \<Rightarrow> string" where
  "hex_byte b = [''0123456789abcdef'' ! unat (drop_bit 4 b), ''0123456789abcdef'' ! unat (b AND 15)]"

definition FileETag :: "(8 word list \<Rightarrow> 8 word list) \<Rightarrow> stat \<Rightarrow> string \<times> bool" where
  "FileETag sum256 st = (concat (map hex_byte (take etagBytes (sum256 (etag_buffer st)))), True)"

definition ident_Of :: "int \<Rightarrow> stat \<Rightarrow> ident" where
  "ident_Of share st = \<lparr>I_Share = share, I_Dev = st_Dev st, I_Ino = st_Ino st, I_Btime = st_BtimeNs st\<rparr>"

section \<open>The driver\<close>

text \<open>
  One call each. A durable write stages a file and runs the caller's writer on it:
  \<open>drv_Stage\<close> says how far the driver gets, \<open>drv_WriteError\<close> the error of a write that does not
  land, \<open>drv_Publish\<close> the state after a published write of the given content. Opening for reading
  gives what the descriptor shows for its whole life: its metadata and its bytes. A listing is
  the user-facing one, which hides the control names; \<open>drv_EntryKind\<close> is the kind it shows beside
  a name.
\<close>

record 'fs driver =
  drv_Stat :: "share_root \<Rightarrow> safe_path \<Rightarrow> 'fs \<Rightarrow> (vfs_error, stat) result"
  drv_ReadDir :: "share_root \<Rightarrow> safe_path \<Rightarrow> 'fs \<Rightarrow> (vfs_error, string list) result"
  drv_Mkdir :: "share_root \<Rightarrow> safe_path \<Rightarrow> 'fs \<Rightarrow> vfs_error option \<times> 'fs"
  drv_Rmdir :: "share_root \<Rightarrow> safe_path \<Rightarrow> 'fs \<Rightarrow> vfs_error option \<times> 'fs"
  drv_Unlink :: "share_root \<Rightarrow> safe_path \<Rightarrow> 'fs \<Rightarrow> vfs_error option \<times> 'fs"
  drv_Rename :: "share_root \<Rightarrow> safe_path \<Rightarrow> safe_path \<Rightarrow> bool \<Rightarrow> 'fs \<Rightarrow> vfs_error option \<times> 'fs"
  drv_Stage :: "share_root \<Rightarrow> safe_path \<Rightarrow> 'fs \<Rightarrow> durable_run"
  drv_WriteError :: "share_root \<Rightarrow> safe_path \<Rightarrow> 'fs \<Rightarrow> vfs_error"
  drv_Publish :: "share_root \<Rightarrow> safe_path \<Rightarrow> string \<Rightarrow> 'fs \<Rightarrow> 'fs"
  drv_PublishPart :: "share_root \<Rightarrow> safe_path \<Rightarrow> safe_path \<Rightarrow> bool \<Rightarrow> 'fs \<Rightarrow> vfs_error option \<times> 'fs"
  drv_EntryKind :: "share_root \<Rightarrow> safe_path \<Rightarrow> string \<Rightarrow> 'fs \<Rightarrow> kind"
  drv_OpenRead :: "share_root \<Rightarrow> safe_path \<Rightarrow> 'fs \<Rightarrow> (vfs_error, stat \<times> string) result"

text \<open>What is stored at a name: a directory, or a file (or link) with its size.\<close>

datatype node = Folder | Leaf (content: string)

type_synonym tree = "int \<Rightarrow> string list \<Rightarrow> node option"

definition node_stat :: "node \<Rightarrow> stat \<Rightarrow> bool" where
  "node_stat n st \<longleftrightarrow>
     Kind_IsDir (st_Kind st) = (n = Folder) \<and>
     (case n of Folder \<Rightarrow> True | Leaf s \<Rightarrow> st_Size st = int (length s))"

definition put :: "int \<Rightarrow> string list \<Rightarrow> node option \<Rightarrow> tree \<Rightarrow> tree" where
  "put share p n t = t(share := (t share)(p := n))"

definition moved :: "int \<Rightarrow> string list \<Rightarrow> string list \<Rightarrow> tree \<Rightarrow> tree" where
  "moved share src dst t =
     t(share := (\<lambda>q. if prefix dst q then t share (src @ drop (length dst) q)
                     else if prefix src q then None else t share q))"

text \<open>
  The laws. A call that fails changes nothing that a name shows. Names are listed once, without
  the control names; a directory is removed only when nothing is left below it.
\<close>

definition posix_stat :: "'fs driver \<Rightarrow> ('fs \<Rightarrow> tree) \<Rightarrow> bool" where
  "posix_stat d view \<longleftrightarrow>
     (\<forall>r p fs st. drv_Stat d r p fs = Inr st \<longrightarrow> (\<exists>n. view fs (SR_ID r) (sf_comps p) = Some n \<and> node_stat n st)) \<and>
     (\<forall>r p fs e. drv_Stat d r p fs = Inl e \<longrightarrow> mapVFSErr e = ErrNotFound \<longrightarrow> view fs (SR_ID r) (sf_comps p) = None)"

definition posix_readdir :: "'fs driver \<Rightarrow> ('fs \<Rightarrow> tree) \<Rightarrow> bool" where
  "posix_readdir d view \<longleftrightarrow>
     (\<forall>r p fs names. drv_ReadDir d r p fs = Inr names \<longrightarrow>
        distinct names \<and>
        set names = {n. view fs (SR_ID r) (sf_comps p @ [n]) \<noteq> None \<and> \<not> IsReservedName n})"

definition posix_mkdir :: "'fs driver \<Rightarrow> ('fs \<Rightarrow> tree) \<Rightarrow> bool" where
  "posix_mkdir d view \<longleftrightarrow>
     (\<forall>r p fs e fs'. drv_Mkdir d r p fs = (e, fs') \<longrightarrow>
        (case e of
           None \<Rightarrow> view fs (SR_ID r) (sf_comps p) = None \<and> view fs' = put (SR_ID r) (sf_comps p) (Some Folder) (view fs)
         | Some _ \<Rightarrow> view fs' = view fs))"

definition posix_remove :: "'fs driver \<Rightarrow> ('fs \<Rightarrow> tree) \<Rightarrow> bool" where
  "posix_remove d view \<longleftrightarrow>
     (\<forall>r p fs e fs'. drv_Unlink d r p fs = (e, fs') \<longrightarrow>
        (case e of
           None \<Rightarrow> (\<exists>s. view fs (SR_ID r) (sf_comps p) = Some (Leaf s)) \<and> view fs' = put (SR_ID r) (sf_comps p) None (view fs)
         | Some _ \<Rightarrow> view fs' = view fs)) \<and>
     (\<forall>r p fs e fs'. drv_Rmdir d r p fs = (e, fs') \<longrightarrow>
        (case e of
           None \<Rightarrow> view fs (SR_ID r) (sf_comps p) = Some Folder \<and>
             (\<forall>q. strict_prefix (sf_comps p) q \<longrightarrow> view fs (SR_ID r) q = None) \<and>
             view fs' = put (SR_ID r) (sf_comps p) None (view fs)
         | Some _ \<Rightarrow> view fs' = view fs))"

definition posix_rename :: "'fs driver \<Rightarrow> ('fs \<Rightarrow> tree) \<Rightarrow> bool" where
  "posix_rename d view \<longleftrightarrow>
     (\<forall>r src dst fs e fs'. drv_Rename d r src dst True fs = (e, fs') \<longrightarrow>
        (case e of
           None \<Rightarrow> view fs (SR_ID r) (sf_comps src) \<noteq> None \<and>
             (\<forall>q. prefix (sf_comps dst) q \<longrightarrow> view fs (SR_ID r) q = None) \<and>
             \<not> prefix (sf_comps src) (sf_comps dst) \<and> \<not> prefix (sf_comps dst) (sf_comps src) \<and>
             view fs' = moved (SR_ID r) (sf_comps src) (sf_comps dst) (view fs)
         | Some _ \<Rightarrow> view fs' = view fs))"

definition posix_publish :: "'fs driver \<Rightarrow> ('fs \<Rightarrow> tree) \<Rightarrow> bool" where
  "posix_publish d view \<longleftrightarrow>
     (\<forall>r p s fs. drv_Stage d r p fs = Staged True \<longrightarrow>
        view fs (SR_ID r) (sf_comps p) \<noteq> Some Folder \<and>
        view (drv_Publish d r p s fs) = put (SR_ID r) (sf_comps p) (Some (Leaf s)) (view fs)) \<and>
     (\<forall>r part p replacing fs e fs'. drv_PublishPart d r part p replacing fs = (e, fs') \<longrightarrow>
        (case e of
           None \<Rightarrow> (\<exists>s. view fs (SR_ID r) (sf_comps part) = Some (Leaf s) \<and>
             view fs' = put (SR_ID r) (sf_comps part) None (put (SR_ID r) (sf_comps p) (Some (Leaf s)) (view fs)))
         | Some _ \<Rightarrow> view fs' = view fs))"

definition posix_open :: "'fs driver \<Rightarrow> ('fs \<Rightarrow> tree) \<Rightarrow> bool" where
  "posix_open d view \<longleftrightarrow>
     (\<forall>r p fs st s. drv_OpenRead d r p fs = Inr (st, s) \<longrightarrow>
        (\<exists>n. view fs (SR_ID r) (sf_comps p) = Some n \<and> node_stat n st \<and> (n = Folder \<or> n = Leaf s)))"

definition posix :: "'fs driver \<Rightarrow> ('fs \<Rightarrow> tree) \<Rightarrow> bool" where
  "posix d view \<longleftrightarrow> posix_stat d view \<and> posix_readdir d view \<and> posix_mkdir d view \<and> posix_remove d view \<and>
     posix_rename d view \<and> posix_publish d view \<and> posix_open d view"

text \<open>A name stands only inside a folder.\<close>

definition closed_tree :: "tree \<Rightarrow> bool" where
  "closed_tree t \<longleftrightarrow> (\<forall>share p n. t share (p @ [n]) \<noteq> None \<longrightarrow> t share p = Some Folder)"

lemma closed_tree_prefix:
  assumes "closed_tree t" and "t share q \<noteq> None" and "strict_prefix p q"
  shows "t share p = Some Folder"
  using assms(2,3)
proof (induction q rule: rev_induct)
  case (snoc n q)
  have q: "t share q = Some Folder" using assms(1) snoc.prems(1) unfolding closed_tree_def by blast
  from snoc.prems(2) consider "p = q" | "strict_prefix p q" by (auto simp: strict_prefix_def prefix_snoc)
  then show ?case using q snoc.IH by cases auto
qed simp

text \<open>
  A driver without faults answers for everything that is there: the hypothesis of the statements
  that say nothing is left out.
\<close>

definition faultless :: "'fs driver \<Rightarrow> ('fs \<Rightarrow> tree) \<Rightarrow> bool" where
  "faultless d view \<longleftrightarrow>
     (\<forall>r p fs. view fs (SR_ID r) (sf_comps p) \<noteq> None \<longrightarrow> (\<exists>st. drv_Stat d r p fs = Inr st)) \<and>
     (\<forall>r p fs. view fs (SR_ID r) (sf_comps p) = Some Folder \<longrightarrow> (\<exists>names. drv_ReadDir d r p fs = Inr names)) \<and>
     (\<forall>r p fs. view fs (SR_ID r) (sf_comps p) \<noteq> None \<longrightarrow> (\<exists>x. drv_OpenRead d r p fs = Inr x))"

section \<open>A tree in memory\<close>

text \<open>A driver that keeps the laws: the names of every share in one association list.\<close>

type_synonym mem_fs = "((int \<times> string list) \<times> node) list"

definition mem_view :: "mem_fs \<Rightarrow> tree" where
  "mem_view fs = (\<lambda>share q. map_of fs (share, q))"

definition mem_stat :: "node \<Rightarrow> stat" where
  "mem_stat n = \<lparr>st_Dev = 1, st_Ino = 1, st_BtimeNs = None, st_MtimeNs = 0, st_CtimeNs = None,
     st_Size = (case n of Folder \<Rightarrow> 0 | Leaf s \<Rightarrow> int (length s)),
     st_Kind = (case n of Folder \<Rightarrow> KindDir | Leaf _ \<Rightarrow> KindFile)\<rparr>"

definition mem_key :: "share_root \<Rightarrow> safe_path \<Rightarrow> int \<times> string list" where
  "mem_key r p = (SR_ID r, sf_comps p)"

definition mem_drop :: "int \<times> string list \<Rightarrow> mem_fs \<Rightarrow> mem_fs" where
  "mem_drop k fs = filter (\<lambda>e. fst e \<noteq> k) fs"

definition mem_below :: "int \<times> string list \<Rightarrow> (int \<times> string list) \<Rightarrow> bool" where
  "mem_below k k' \<longleftrightarrow> fst k' = fst k \<and> prefix (snd k) (snd k')"

definition mem_rename :: "share_root \<Rightarrow> safe_path \<Rightarrow> safe_path \<Rightarrow> bool \<Rightarrow> mem_fs \<Rightarrow> vfs_error option \<times> mem_fs" where
  "mem_rename r src dst noReplace fs =
     (let k = mem_key r src; k' = mem_key r dst in
      if map_of fs k = None then (Some VNotFound, fs)
      else if list_ex (\<lambda>e. mem_below k' (fst e)) fs then (Some VExists, fs)
      else if mem_below k k' \<or> mem_below k' k then (Some (VOther ''EINVAL''), fs)
      else (None, map (\<lambda>e. if mem_below k (fst e)
                          then ((SR_ID r, sf_comps dst @ drop (length (sf_comps src)) (snd (fst e))), snd e) else e) fs))"

definition mem_driver :: "mem_fs driver" where
  "mem_driver =
     \<lparr>drv_Stat = (\<lambda>r p fs. case map_of fs (mem_key r p) of None \<Rightarrow> Inl VNotFound | Some n \<Rightarrow> Inr (mem_stat n)),
      drv_ReadDir = (\<lambda>r p fs.
        if map_of fs (mem_key r p) = Some Folder
        then Inr (remdups (map (\<lambda>e. last (snd (fst e)))
               (filter (\<lambda>e. fst (fst e) = SR_ID r \<and> snd (fst e) \<noteq> [] \<and> butlast (snd (fst e)) = sf_comps p \<and>
                            \<not> IsReservedName (last (snd (fst e)))) fs)))
        else Inl VNotFound),
      drv_Mkdir = (\<lambda>r p fs. if map_of fs (mem_key r p) = None then (None, (mem_key r p, Folder) # fs) else (Some VExists, fs)),
      drv_Rmdir = (\<lambda>r p fs.
        if map_of fs (mem_key r p) \<noteq> Some Folder then (Some VNotFound, fs)
        else if list_ex (\<lambda>e. mem_below (mem_key r p) (fst e) \<and> fst e \<noteq> mem_key r p) fs then (Some VNotEmpty, fs)
        else (None, mem_drop (mem_key r p) fs)),
      drv_Unlink = (\<lambda>r p fs. case map_of fs (mem_key r p) of
          None \<Rightarrow> (Some VNotFound, fs)
        | Some Folder \<Rightarrow> (Some VIsDirectory, fs)
        | Some (Leaf _) \<Rightarrow> (None, mem_drop (mem_key r p) fs)),
      drv_Rename = mem_rename,
      drv_Stage = (\<lambda>r p fs. if map_of fs (mem_key r p) = Some Folder then NotStaged else Staged True),
      drv_WriteError = (\<lambda>_ _ _. VIsDirectory),
      drv_Publish = (\<lambda>r p s fs. (mem_key r p, Leaf s) # fs),
      drv_PublishPart = (\<lambda>r part p _ fs. case map_of fs (mem_key r part) of
          Some (Leaf s) \<Rightarrow> (None, mem_drop (mem_key r part) ((mem_key r p, Leaf s) # fs))
        | _ \<Rightarrow> (Some VNotFound, fs)),
      drv_EntryKind = (\<lambda>r p name fs. case map_of fs (SR_ID r, sf_comps p @ [name]) of
          Some n \<Rightarrow> st_Kind (mem_stat n)
        | None \<Rightarrow> KindOther),
      drv_OpenRead = (\<lambda>r p fs. case map_of fs (mem_key r p) of
          None \<Rightarrow> Inl VNotFound
        | Some n \<Rightarrow> Inr (mem_stat n, case n of Folder \<Rightarrow> [] | Leaf s \<Rightarrow> s))\<rparr>"

lemma mem_drop_of [simp]: "map_of (mem_drop k fs) k' = (if k' = k then None else map_of fs k')"
  by (induction fs) (auto simp: mem_drop_def)

lemma mem_view_drop: "mem_view (mem_drop (share, q) fs) = put share q None (mem_view fs)"
  by (auto simp: mem_view_def put_def fun_eq_iff)

lemma mem_view_put: "mem_view (((share, q), n) # fs) = put share q (Some n) (mem_view fs)"
  by (auto simp: mem_view_def put_def fun_eq_iff)

lemma mem_in_dom: "map_of fs k \<noteq> None \<longleftrightarrow> k \<in> fst ` set fs"
  by (metis map_of_eq_None_iff)

definition renamed_at :: "int \<Rightarrow> string list \<Rightarrow> string list \<Rightarrow> mem_fs \<Rightarrow> int \<Rightarrow> string list \<Rightarrow> node option" where
  "renamed_at share src dst fs s q =
     (if s = share \<and> prefix dst q then map_of fs (share, src @ drop (length dst) q)
      else if s = share \<and> prefix src q then None else map_of fs (s, q))"

lemma renamed_at_hit:
  "prefix src q' \<Longrightarrow> \<not> prefix dst q' \<Longrightarrow> renamed_at share src dst (((share, q'), n) # fs) s q =
     (if (s, q) = (share, dst @ drop (length src) q') then Some n else renamed_at share src dst fs s q)"
  by (auto simp: renamed_at_def prefix_def)

lemma renamed_at_miss:
  "\<not> (s' = share \<and> prefix src q') \<Longrightarrow> \<not> (s' = share \<and> prefix dst q') \<Longrightarrow>
     renamed_at share src dst (((s', q'), n) # fs) s q =
     (if (s, q) = (s', q') then Some n else renamed_at share src dst fs s q)"
  by (auto simp: renamed_at_def)

lemma map_of_rename:
  assumes "\<And>e. e \<in> set fs \<Longrightarrow> \<not> (fst (fst e) = share \<and> prefix dst (snd (fst e)))"
  shows "map_of (map (\<lambda>e. if fst (fst e) = share \<and> prefix src (snd (fst e))
      then ((share, dst @ drop (length src) (snd (fst e))), snd e) else e) fs) (s, q) = renamed_at share src dst fs s q"
  using assms
proof (induction fs)
  case (Cons e fs)
  obtain s' q' n where e: "e = ((s', q'), n)" by (metis surj_pair)
  have "\<not> (s' = share \<and> prefix dst q')" using Cons.prems [of e] e by simp
  with Cons show ?case
    by (cases "s' = share \<and> prefix src q'") (auto simp: e renamed_at_hit renamed_at_miss)
qed (simp add: renamed_at_def)

lemma butlast_last_iff: "q \<noteq> [] \<and> butlast q = p \<and> last q = n \<longleftrightarrow> q = p @ [n]"
  by (metis append_butlast_last_id butlast_snoc last_snoc snoc_eq_iff_butlast)

lemma mem_posix: "posix mem_driver mem_view"
  unfolding posix_def
proof (intro conjI)
  show "posix_stat mem_driver mem_view"
    by (auto simp: posix_stat_def mem_driver_def mem_view_def mem_key_def node_stat_def mem_stat_def Kind_IsDir_def
        split: option.splits node.splits)
  show "posix_readdir mem_driver mem_view"
    unfolding posix_readdir_def
  proof (intro allI impI)
    fix r p fs names
    assume "drv_ReadDir mem_driver r p fs = Inr names"
    then have names: "names = remdups (map (\<lambda>e. last (snd (fst e)))
        (filter (\<lambda>e. fst (fst e) = SR_ID r \<and> snd (fst e) \<noteq> [] \<and> butlast (snd (fst e)) = sf_comps p \<and>
                     \<not> IsReservedName (last (snd (fst e)))) fs))"
      by (auto simp: mem_driver_def split: if_splits)
    have "n \<in> set names \<longleftrightarrow> (SR_ID r, sf_comps p @ [n]) \<in> fst ` set fs \<and> \<not> IsReservedName n" for n
    proof -
      have "n \<in> set names \<longleftrightarrow> (\<exists>e\<in>set fs. fst (fst e) = SR_ID r \<and>
          (snd (fst e) \<noteq> [] \<and> butlast (snd (fst e)) = sf_comps p \<and> last (snd (fst e)) = n) \<and> \<not> IsReservedName n)"
        unfolding names by auto
      then show ?thesis unfolding butlast_last_iff by (force simp: image_iff)
    qed
    then have "set names = {n. map_of fs (SR_ID r, sf_comps p @ [n]) \<noteq> None \<and> \<not> IsReservedName n}"
      unfolding mem_in_dom by blast
    then show "distinct names \<and> set names = {n. mem_view fs (SR_ID r) (sf_comps p @ [n]) \<noteq> None \<and> \<not> IsReservedName n}"
      by (simp add: names mem_view_def)
  qed
  show "posix_mkdir mem_driver mem_view"
    by (auto simp: posix_mkdir_def mem_driver_def mem_key_def mem_view_put split: option.splits) (simp add: mem_view_def)
  show "posix_remove mem_driver mem_view"
    by (auto simp: posix_remove_def mem_driver_def mem_key_def mem_view_drop mem_below_def list_ex_iff mem_in_dom
        split: option.splits node.splits if_splits) (auto simp: mem_view_def map_of_eq_None_iff strict_prefix_def)
  show "posix_rename mem_driver mem_view"
    unfolding posix_rename_def
  proof (intro allI impI)
    fix r src dst fs e fs'
    assume "drv_Rename mem_driver r src dst True fs = (e, fs')"
    then show "case e of
        None \<Rightarrow> mem_view fs (SR_ID r) (sf_comps src) \<noteq> None \<and>
          (\<forall>q. prefix (sf_comps dst) q \<longrightarrow> mem_view fs (SR_ID r) q = None) \<and>
          \<not> prefix (sf_comps src) (sf_comps dst) \<and> \<not> prefix (sf_comps dst) (sf_comps src) \<and>
          mem_view fs' = moved (SR_ID r) (sf_comps src) (sf_comps dst) (mem_view fs)
      | Some _ \<Rightarrow> mem_view fs' = mem_view fs"
      using map_of_rename [of fs "SR_ID r" "sf_comps dst" "sf_comps src"]
      by (auto simp: mem_driver_def mem_rename_def mem_key_def mem_below_def list_ex_iff Let_def fun_eq_iff mem_view_def
          moved_def renamed_at_def map_of_eq_None_iff split: if_splits option.splits)
  qed
  show "posix_publish mem_driver mem_view"
    by (auto simp: posix_publish_def mem_driver_def mem_key_def mem_view_drop mem_view_put
        split: option.splits node.splits if_splits) (simp_all add: mem_view_def)
  show "posix_open mem_driver mem_view"
    by (auto simp: posix_open_def mem_driver_def mem_key_def mem_view_def mem_stat_def node_stat_def Kind_IsDir_def
        split: option.splits node.splits)
qed

lemma mem_faultless: "faultless mem_driver mem_view"
  by (auto simp: faultless_def mem_driver_def mem_view_def mem_key_def)

end
