(* ===== verification/Sc_Journal.thy ===== *)
theory Sc_Journal
  imports Sc_VfsPath Sc_Ident "HOL-Library.Multiset" "HOL-Library.Product_Lexorder"
begin

text \<open>
  The journal of writes, \<open>internal/db/journal/journal.go\<close> with the statements of
  \<open>internal/db/journal/sql.go\<close>: one row per account and file holding the last thing the
  account did to it, the account's oldest rows trimmed past a cap in the same transaction. The
  abstract view of an account is its list of touched files, newest first; recording moves a
  file to the front of that list and cuts it at the cap.
\<close>

section \<open>Operations and events\<close>

datatype journal_op = OpUpload | OpEdit | OpCopy | OpMove | OpRestore

definition Op_String :: "journal_op \<Rightarrow> string" where
  "Op_String oper =
     (case oper of
        OpEdit \<Rightarrow> ''edit''
      | OpCopy \<Rightarrow> ''copy''
      | OpMove \<Rightarrow> ''move''
      | OpRestore \<Rightarrow> ''restore''
      | OpUpload \<Rightarrow> ''upload'')"

definition ParseOp :: "string \<Rightarrow> journal_op" where
  "ParseOp s =
     (if s = ''edit'' then OpEdit
      else if s = ''copy'' then OpCopy
      else if s = ''move'' then OpMove
      else if s = ''restore'' then OpRestore
      else OpUpload)"

record journal_event =
  je_Account :: int
  je_Share :: int
  je_Path :: share_path
  je_Op :: journal_op
  je_AtNs :: int

record journal_row =
  jr_rowid :: int
  jr_user :: int
  jr_share :: int
  jr_path :: string
  jr_op :: string
  jr_at :: int

text \<open>The open file: its rows, and whether its transactions fail (a full or read-only disk).\<close>

record journal_db =
  jd_rows :: "journal_row list"
  jd_fails :: bool

datatype journal_error = JournalWrite | JournalShare int | JournalPath path_error

definition JournalRowsPerAccount :: nat where "JournalRowsPerAccount = 1000"

section \<open>Statements\<close>

text \<open>The key of the table's unique constraint, and the row number the store gives a new row.\<close>

definition row_key :: "journal_row \<Rightarrow> int \<times> int \<times> string" where
  "row_key r = (jr_user r, jr_share r, jr_path r)"

definition next_rowid :: "journal_row list \<Rightarrow> int" where
  "next_rowid rows = Max (insert 0 (jr_rowid ` set rows)) + 1"

definition sqlUpsertEvent :: "int \<Rightarrow> int \<Rightarrow> string \<Rightarrow> string \<Rightarrow> int \<Rightarrow> journal_row list \<Rightarrow> journal_row list" where
  "sqlUpsertEvent user share path oper at rows =
     (if (user, share, path) \<in> row_key ` set rows
      then map (\<lambda>r. if row_key r = (user, share, path) then r\<lparr>jr_op := oper, jr_at := at\<rparr> else r) rows
      else rows @ [\<lparr>jr_rowid = next_rowid rows, jr_user = user, jr_share = share, jr_path = path, jr_op = oper, jr_at = at\<rparr>])"

text \<open>\<open>ORDER BY at_ns DESC, rowid DESC\<close>.\<close>

definition order_key :: "journal_row \<Rightarrow> int \<times> int" where
  "order_key r = (- jr_at r, - jr_rowid r)"

definition newest :: "journal_row list \<Rightarrow> journal_row list" where
  "newest rows = sort_key order_key rows"

abbreviation rows_of :: "int \<Rightarrow> journal_row list \<Rightarrow> journal_row list" where
  "rows_of user rows \<equiv> filter (\<lambda>r. jr_user r = user) rows"

definition sqlTrimAccount :: "int \<Rightarrow> nat \<Rightarrow> journal_row list \<Rightarrow> journal_row list" where
  "sqlTrimAccount user keep rows =
     (let excess = drop keep (newest (rows_of user rows)) in filter (\<lambda>r. jr_rowid r \<notin> jr_rowid ` set excess) rows)"

definition sqlRecentForAccount :: "int \<Rightarrow> nat \<Rightarrow> journal_row list \<Rightarrow> journal_row list" where
  "sqlRecentForAccount user limit rows = take limit (newest (rows_of user rows))"

definition sqlRecentSince :: "int \<Rightarrow> int \<Rightarrow> nat \<Rightarrow> journal_row list \<Rightarrow> journal_row list" where
  "sqlRecentSince user since limit rows = take limit (newest (filter (\<lambda>r. jr_user r = user \<and> jr_at r \<ge> since) rows))"

section \<open>The journal\<close>

text \<open>\<open>None\<close> is the journal a deployment runs without: a no-op for writes, empty for reads.\<close>

definition Record :: "int \<Rightarrow> journal_event \<Rightarrow> journal_db option \<Rightarrow> journal_error option \<times> journal_db option" where
  "Record now e d =
     (case d of
        None \<Rightarrow> (None, None)
      | Some j \<Rightarrow>
          if jd_fails j then (Some JournalWrite, Some j)
          else (None, Some (j\<lparr>jd_rows := sqlTrimAccount (je_Account e) JournalRowsPerAccount
            (sqlUpsertEvent (je_Account e) (je_Share e) (sp_raw (je_Path e)) (Op_String (je_Op e)) now (jd_rows j))\<rparr>)))"

fun scan_events :: "'enc text_library \<Rightarrow> int \<Rightarrow> journal_row list \<Rightarrow> (journal_error, journal_event list) result" where
  "scan_events T account [] = Inr []"
| "scan_events T account (r # rows) =
     (case Narrow (Unsigned 32) (Signed 64) (jr_share r) of
        None \<Rightarrow> Inl (JournalShare (jr_share r))
      | Some s \<Rightarrow>
          (case ParseSharePath T (jr_path r) of
             Inl e \<Rightarrow> Inl (JournalPath e)
           | Inr p \<Rightarrow>
               (case scan_events T account rows of
                  Inl e \<Rightarrow> Inl e
                | Inr out \<Rightarrow>
                    Inr (\<lparr>je_Account = account, je_Share = s, je_Path = p, je_Op = ParseOp (jr_op r), je_AtNs = jr_at r\<rparr> # out))))"

definition RecentSince ::
  "'enc text_library \<Rightarrow> journal_db option \<Rightarrow> int \<Rightarrow> int \<Rightarrow> int \<Rightarrow> (journal_error, journal_event list) result" where
  "RecentSince T d account since limit =
     (case d of
        None \<Rightarrow> Inr []
      | Some j \<Rightarrow>
          (let lim = (if limit \<le> 0 \<or> limit > int JournalRowsPerAccount then JournalRowsPerAccount else nat limit)
           in scan_events T account
                (if since > 0 then sqlRecentSince account since lim (jd_rows j) else sqlRecentForAccount account lim (jd_rows j))))"

definition journal_Recent ::
  "'enc text_library \<Rightarrow> journal_db option \<Rightarrow> int \<Rightarrow> int \<Rightarrow> (journal_error, journal_event list) result" where
  "journal_Recent T d account limit = RecentSince T d account 0 limit"

section \<open>Lemmas\<close>

lemma op_roundtrip [simp]: "ParseOp (Op_String oper) = oper"
  by (cases oper) (simp_all add: ParseOp_def Op_String_def)

definition journal_ok :: "journal_row list \<Rightarrow> bool" where
  "journal_ok rows \<longleftrightarrow> distinct (map jr_rowid rows) \<and> distinct (map row_key rows) \<and>
     (\<forall>u. length (rows_of u rows) \<le> JournalRowsPerAccount)"

lemma order_key_inj: "distinct (map jr_rowid rows) \<Longrightarrow> inj_on order_key (set rows)"
  by (auto simp: distinct_map inj_on_def order_key_def)

lemma mset_newest [simp]: "mset (newest rows) = mset rows"
  by (simp add: newest_def)

lemma set_newest [simp]: "set (newest rows) = set rows"
  by (simp add: newest_def)

lemma length_newest [simp]: "length (newest rows) = length rows"
  by (simp add: newest_def)

text \<open>The listing is determined by the rows: any arrangement of them that is in order is the listing.\<close>

lemma newest_eqI:
  assumes "mset rows = mset ys" and "distinct (map jr_rowid rows)" and "sorted (map order_key ys)"
  shows "newest rows = ys"
  unfolding newest_def using assms by (intro sort_key_inj_key_eq order_key_inj)

lemma sorted_newest: "sorted (map order_key (newest rows))"
  by (simp add: newest_def)

lemma newest_filter: "newest (filter P rows) = filter P (newest rows)"
  by (simp add: newest_def filter_sort)

lemma distinct_newest:
  "distinct (map jr_rowid rows) \<Longrightarrow> distinct (map jr_rowid (newest (filter P rows)))"
  using mset_eq_imp_distinct_iff [of "map jr_rowid (newest (filter P rows))" "map jr_rowid (filter P rows)"]
  by (simp add: distinct_map_filter)

lemma rows_of_trim:
  assumes "distinct (map jr_rowid rows)"
  shows "newest (rows_of u (sqlTrimAccount user keep rows)) =
    (if u = user then take keep (newest (rows_of u rows)) else newest (rows_of u rows))"
proof -
  let ?own = "newest (rows_of user rows)"
  let ?gone = "jr_rowid ` set (drop keep ?own)"
  have own: "distinct (map jr_rowid ?own)"
    using assms by (rule distinct_newest)
  have inj: "inj_on jr_rowid (set rows)" using assms by (simp add: distinct_map)
  have other: "jr_rowid r \<notin> ?gone" if "r \<in> set rows" "jr_user r \<noteq> user" for r
  proof
    assume "jr_rowid r \<in> ?gone"
    then obtain q where q: "q \<in> set (drop keep ?own)" "jr_rowid q = jr_rowid r" by auto
    then have "q \<in> set (rows_of user rows)" by (metis in_set_dropD set_newest)
    with that q(2) inj show False by (auto dest: inj_onD)
  qed
  have "jr_rowid r \<notin> ?gone" if "r \<in> set (take keep ?own)" for r
  proof -
    have "distinct (map jr_rowid (take keep ?own) @ map jr_rowid (drop keep ?own))"
      using own by (simp flip: map_append)
    then show ?thesis using that by auto
  qed
  then have "filter (\<lambda>r. jr_rowid r \<notin> ?gone) (take keep ?own) = take keep ?own" by (simp add: filter_True)
  moreover have "filter (\<lambda>r. jr_rowid r \<notin> ?gone) (drop keep ?own) = []" by (simp add: filter_empty_conv)
  ultimately have same: "filter (\<lambda>r. jr_rowid r \<notin> ?gone) ?own = take keep ?own"
    by (metis append_Nil2 append_take_drop_id filter_append)
  have "rows_of u (sqlTrimAccount user keep rows) = filter (\<lambda>r. jr_rowid r \<notin> ?gone) (rows_of u rows)"
    by (simp add: sqlTrimAccount_def Let_def conj_commute)
  moreover have "filter (\<lambda>r. jr_rowid r \<notin> ?gone) (rows_of u rows) = rows_of u rows" if "u \<noteq> user"
    by (rule filter_True) (use that other in auto)
  moreover have "newest (filter (\<lambda>r. jr_rowid r \<notin> ?gone) (rows_of user rows)) = filter (\<lambda>r. jr_rowid r \<notin> ?gone) ?own"
    by (rule newest_filter)
  ultimately show ?thesis using same by (cases "u = user") (simp_all only: if_True if_False simp_thms)
qed

lemma next_rowid_fresh: "r \<in> set rows \<Longrightarrow> jr_rowid r < next_rowid rows"
  using Max_ge [of "insert 0 (jr_rowid ` set rows)" "jr_rowid r"] by (simp add: next_rowid_def)

lemma upsert_present:
  assumes "distinct (map row_key (xs @ r # ys))" and "row_key r = (user, share, path)"
  shows "sqlUpsertEvent user share path oper at (xs @ r # ys) = xs @ r\<lparr>jr_op := oper, jr_at := at\<rparr> # ys"
proof -
  have "row_key q \<noteq> row_key r" if "q \<in> set xs \<union> set ys" for q using assms(1) that by (auto simp: image_iff)
  then have "map (\<lambda>q. if row_key q = row_key r then q\<lparr>jr_op := oper, jr_at := at\<rparr> else q) xs = xs"
    "map (\<lambda>q. if row_key q = row_key r then q\<lparr>jr_op := oper, jr_at := at\<rparr> else q) ys = ys"
    by (auto intro!: map_idI)
  then show ?thesis using assms(2) by (simp add: sqlUpsertEvent_def)
qed

text \<open>What an upsert does to the rows, as a multiset: the file's row is the new one, the others are kept.\<close>

lemma upsert_cases:
  assumes "distinct (map jr_rowid rows)" and "distinct (map row_key rows)"
  obtains r where "row_key r = (user, share, path)" "jr_op r = oper" "jr_at r = at"
    "mset (sqlUpsertEvent user share path oper at rows) = add_mset r (mset (filter (\<lambda>q. row_key q \<noteq> (user, share, path)) rows))"
    "distinct (map jr_rowid (sqlUpsertEvent user share path oper at rows))"
    "distinct (map row_key (sqlUpsertEvent user share path oper at rows))"
proof (cases "(user, share, path) \<in> row_key ` set rows")
  case True
  then obtain r xs ys where r: "rows = xs @ r # ys" "row_key r = (user, share, path)"
    by (metis (no_types, lifting) imageE split_list)
  let ?r = "r\<lparr>jr_op := oper, jr_at := at\<rparr>"
  have ups: "sqlUpsertEvent user share path oper at rows = xs @ ?r # ys"
    using upsert_present assms(2) r by simp
  have keys: "row_key ?r = row_key r" "jr_rowid ?r = jr_rowid r" by (simp_all add: row_key_def)
  have "filter (\<lambda>q. row_key q \<noteq> (user, share, path)) rows = xs @ ys"
    using assms(2) r by (auto intro!: arg_cong2 [where f = append] filter_True) (metis imageI)+
  then show ?thesis using that [of ?r] ups keys r assms by simp
next
  case False
  let ?r = "\<lparr>jr_rowid = next_rowid rows, jr_user = user, jr_share = share, jr_path = path, jr_op = oper, jr_at = at\<rparr>"
  have "filter (\<lambda>q. row_key q \<noteq> (user, share, path)) rows = rows"
    by (rule filter_True) (use False in \<open>force simp: image_iff\<close>)
  moreover have "sqlUpsertEvent user share path oper at rows = rows @ [?r]" using False by (simp add: sqlUpsertEvent_def)
  moreover have "row_key ?r = (user, share, path)" by (simp add: row_key_def)
  ultimately show ?thesis
    using that [of ?r] False assms next_rowid_fresh [of _ rows] by (force simp: image_iff)
qed

section \<open>The abstract journal\<close>

text \<open>What an account sees: the files it touched, each once, newest first.\<close>

definition touch :: "journal_row \<Rightarrow> (int \<times> string) \<times> string \<times> int" where
  "touch r = ((jr_share r, jr_path r), jr_op r, jr_at r)"

definition touched :: "int \<Rightarrow> journal_row list \<Rightarrow> ((int \<times> string) \<times> string \<times> int) list" where
  "touched user rows = map touch (newest (rows_of user rows))"

definition touch_front ::
  "int \<times> string \<Rightarrow> string \<Rightarrow> int \<Rightarrow> ((int \<times> string) \<times> string \<times> int) list \<Rightarrow> ((int \<times> string) \<times> string \<times> int) list" where
  "touch_front file oper at ts = take JournalRowsPerAccount ((file, oper, at) # filter (\<lambda>t. fst t \<noteq> file) ts)"

lemma newest_upsert:
  assumes "distinct (map jr_rowid rows)" and "distinct (map row_key rows)"
    and "\<forall>r\<in>set (rows_of user rows). jr_at r < at"
  shows "map touch (newest (rows_of u (sqlUpsertEvent user share path oper at rows))) =
    (if u = user then ((share, path), oper, at) # filter (\<lambda>t. fst t \<noteq> (share, path)) (touched u rows) else touched u rows)"
proof -
  obtain r where r: "row_key r = (user, share, path)" "jr_op r = oper" "jr_at r = at"
    and ups: "mset (sqlUpsertEvent user share path oper at rows) =
      add_mset r (mset (filter (\<lambda>q. row_key q \<noteq> (user, share, path)) rows))"
    and ids: "distinct (map jr_rowid (sqlUpsertEvent user share path oper at rows))"
    using upsert_cases [OF assms(1,2)] by metis
  have user: "jr_user r = user" "touch r = ((share, path), oper, at)" using r by (auto simp: row_key_def touch_def)
  have part: "mset (rows_of u (sqlUpsertEvent user share path oper at rows)) =
    mset (if u = user then r # filter (\<lambda>q. row_key q \<noteq> (user, share, path)) (newest (rows_of u rows)) else newest (rows_of u rows))"
  proof -
    have "filter (\<lambda>q. jr_user q = u \<and> row_key q \<noteq> (user, share, path)) rows = rows_of u rows" if "u \<noteq> user"
      using that by (intro filter_cong) (auto simp: row_key_def)
    then show ?thesis
      using ups user(1) by (simp add: mset_filter filter_filter_mset flip: newest_filter) (simp add: conj_commute flip: mset_filter)
  qed
  have sorted: "sorted (map order_key (if u = user then r # filter (\<lambda>q. row_key q \<noteq> (user, share, path)) (newest (rows_of u rows)) else newest (rows_of u rows)))"
  proof (cases "u = user")
    case True
    have "order_key r \<le> order_key q" if "q \<in> set (rows_of user rows)" for q
      using assms(3) r(3) that by (auto simp: order_key_def)
    then show ?thesis using True sorted_newest by (auto intro: sorted_filter)
  qed (simp add: sorted_newest)
  have "newest (rows_of u (sqlUpsertEvent user share path oper at rows)) =
    (if u = user then r # filter (\<lambda>q. row_key q \<noteq> (user, share, path)) (newest (rows_of u rows)) else newest (rows_of u rows))"
    using part ids sorted by (intro newest_eqI) (simp_all add: distinct_map_filter)
  moreover have "map touch (filter (\<lambda>q. row_key q \<noteq> (user, share, path)) (newest (rows_of user rows))) =
      filter (\<lambda>t. fst t \<noteq> (share, path)) (touched user rows)"
    by (auto simp: touched_def filter_map comp_def touch_def row_key_def intro!: arg_cong [where f = "map touch"] filter_cong)
  ultimately show ?thesis using user(2) by (simp add: touched_def)
qed

lemma touched_Record:
  assumes "journal_ok (jd_rows j)" and "\<not> jd_fails j"
    and "\<forall>r\<in>set (rows_of (je_Account e) (jd_rows j)). jr_at r < now"
    and "Record now e (Some j) = (err, d)"
  shows "\<exists>j'. err = None \<and> d = Some j' \<and> \<not> jd_fails j' \<and> journal_ok (jd_rows j') \<and>
    (\<forall>u. touched u (jd_rows j') =
      (if u = je_Account e
       then touch_front (je_Share e, sp_raw (je_Path e)) (Op_String (je_Op e)) now (touched u (jd_rows j))
       else touched u (jd_rows j)))"
proof -
  let ?ups = "sqlUpsertEvent (je_Account e) (je_Share e) (sp_raw (je_Path e)) (Op_String (je_Op e)) now (jd_rows j)"
  let ?rows = "sqlTrimAccount (je_Account e) JournalRowsPerAccount ?ups"
  have dist: "distinct (map jr_rowid (jd_rows j))" "distinct (map row_key (jd_rows j))"
    using assms(1) by (auto simp: journal_ok_def)
  have ups: "distinct (map jr_rowid ?ups)" "distinct (map row_key ?ups)" by (rule upsert_cases [OF dist]; assumption)+
  have list: "touched v ?rows = (if v = je_Account e
       then touch_front (je_Share e, sp_raw (je_Path e)) (Op_String (je_Op e)) now (touched v (jd_rows j))
       else touched v (jd_rows j))" for v
    using newest_upsert [OF dist assms(3), of v "je_Share e" "sp_raw (je_Path e)" "Op_String (je_Op e)"]
      rows_of_trim [OF ups(1), of v "je_Account e" JournalRowsPerAccount]
    by (cases "v = je_Account e") (simp_all only: touched_def touch_front_def if_True if_False simp_thms flip: take_map)
  have "length (rows_of v ?rows) \<le> JournalRowsPerAccount" for v
  proof -
    have "length (touched v (jd_rows j)) \<le> JournalRowsPerAccount"
      using assms(1) by (simp add: touched_def journal_ok_def)
    then have "length (touched v ?rows) \<le> JournalRowsPerAccount" unfolding list by (simp add: touch_front_def)
    then show ?thesis by (simp add: touched_def)
  qed
  then have "journal_ok ?rows"
    using ups by (simp add: journal_ok_def sqlTrimAccount_def Let_def distinct_map_filter)
  then show ?thesis using assms(2,4) list by (auto simp: Record_def)
qed

section \<open>Histories\<close>

text \<open>
  A history is a list of recorded events with the clock's reading. What an account should see
  of it: its events from the newest on, only the last one of each file.
\<close>

definition record_all :: "(int \<times> journal_event) list \<Rightarrow> journal_db \<Rightarrow> journal_db option" where
  "record_all es j = fold (\<lambda>(now, e) d. snd (Record now e d)) es (Some j)"

abbreviation file_of :: "journal_event \<Rightarrow> int \<times> share_path" where
  "file_of e \<equiv> (je_Share e, je_Path e)"

fun last_writes :: "journal_event list \<Rightarrow> journal_event list" where
  "last_writes [] = []"
| "last_writes (e # es) = e # filter (\<lambda>x. file_of x \<noteq> file_of e) (last_writes es)"

definition writes_by :: "int \<Rightarrow> (int \<times> journal_event) list \<Rightarrow> journal_event list" where
  "writes_by u es = rev (map (\<lambda>(now, e). e\<lparr>je_AtNs := now\<rparr>) (filter (\<lambda>x. je_Account (snd x) = u) es))"

definition touch_of :: "journal_event \<Rightarrow> (int \<times> string) \<times> string \<times> int" where
  "touch_of e = ((je_Share e, sp_raw (je_Path e)), Op_String (je_Op e), je_AtNs e)"

lemma set_last_writes: "set (last_writes es) \<subseteq> set es"
  by (induction es) auto

lemma distinct_last_writes: "distinct (map file_of (last_writes es))"
  by (induction es) (auto simp: distinct_map_filter)

text \<open>Cutting at the cap before or after a file moves to the front leaves the same listing.\<close>

lemma take_filter_one:
  assumes "distinct (map f xs)"
  shows "take n (filter (\<lambda>x. f x \<noteq> y) (take (Suc n) xs)) = take n (filter (\<lambda>x. f x \<noteq> y) xs)"
  using assms
proof (induction xs arbitrary: n)
  case (Cons x xs)
  show ?case
  proof (cases "f x = y")
    case True
    then have "filter (\<lambda>z. f z \<noteq> y) xs = xs" using Cons.prems by (auto intro!: filter_True) (metis imageI)
    moreover have "filter (\<lambda>z. f z \<noteq> y) (take n xs) = take n xs"
      using Cons.prems True by (auto intro!: filter_True dest!: in_set_takeD) (metis imageI)
    ultimately show ?thesis using True by simp
  next
    case False
    with Cons show ?thesis by (cases n) auto
  qed
qed simp

lemma touch_front_take:
  assumes "distinct (map fst ts)"
  shows "touch_front f oper at (take JournalRowsPerAccount ts) =
    take JournalRowsPerAccount ((f, oper, at) # filter (\<lambda>t. fst t \<noteq> f) ts)"
  using take_filter_one [OF assms, of 999 f] by (simp add: touch_front_def JournalRowsPerAccount_def)

lemma touch_of_file: "fst (touch_of a) = fst (touch_of b) \<longleftrightarrow> file_of a = file_of b"
  by (auto simp: touch_of_def share_path.expand)

lemma touch_of_distinct: "distinct (map file_of es) \<Longrightarrow> distinct (map fst (map touch_of es))"
  by (auto simp: distinct_map inj_on_def touch_of_def share_path.expand)

lemma touched_history:
  assumes "sorted_wrt (<) (map fst es)"
  shows "\<exists>j. record_all es \<lparr>jd_rows = [], jd_fails = False\<rparr> = Some j \<and> \<not> jd_fails j \<and> journal_ok (jd_rows j) \<and>
    (\<forall>u. touched u (jd_rows j) = take JournalRowsPerAccount (map touch_of (last_writes (writes_by u es))))"
  using assms
proof (induction es rule: rev_induct)
  case Nil
  then show ?case by (auto simp: record_all_def journal_ok_def touched_def newest_def writes_by_def)
next
  case (snoc x es)
  obtain now e where x: "x = (now, e)" by (rule prod.exhaust)
  from snoc obtain j where j: "record_all es \<lparr>jd_rows = [], jd_fails = False\<rparr> = Some j" "\<not> jd_fails j" "journal_ok (jd_rows j)"
    and ts: "\<And>u. touched u (jd_rows j) = take JournalRowsPerAccount (map touch_of (last_writes (writes_by u es)))"
    by (auto simp: sorted_wrt_append)
  have older: "\<forall>r\<in>set (rows_of (je_Account e) (jd_rows j)). jr_at r < now"
  proof
    fix r assume "r \<in> set (rows_of (je_Account e) (jd_rows j))"
    then have "touch r \<in> set (touched (je_Account e) (jd_rows j))" by (auto simp: touched_def)
    then have "touch r \<in> touch_of ` set (writes_by (je_Account e) es)"
      using set_last_writes by (fastforce simp: ts dest!: in_set_takeD)
    then show "jr_at r < now"
      using snoc.prems x by (auto simp: writes_by_def touch_def touch_of_def sorted_wrt_append)
  qed
  obtain err d where rec: "Record now e (Some j) = (err, d)" by (rule prod.exhaust)
  note step = touched_Record [OF j(3,2) older rec]
  let ?f = "(je_Share e, sp_raw (je_Path e))"
  have front: "touch_front ?f (Op_String (je_Op e)) now (take JournalRowsPerAccount (map touch_of (last_writes (writes_by (je_Account e) es)))) =
      take JournalRowsPerAccount (map touch_of (last_writes (writes_by (je_Account e) (es @ [x]))))"
  proof -
    have "filter (\<lambda>t. fst t \<noteq> ?f) (map touch_of ys) = map touch_of (filter (\<lambda>y. file_of y \<noteq> file_of e) ys)" for ys
      using touch_of_file [of _ e] by (auto simp: filter_map comp_def touch_of_def intro!: arg_cong [where f = "map touch_of"] filter_cong)
    then show ?thesis
      using touch_front_take [OF touch_of_distinct [OF distinct_last_writes]] x
      by (simp add: writes_by_def touch_of_def [of "e\<lparr>je_AtNs := now\<rparr>"])
  qed
  have other: "writes_by u (es @ [x]) = writes_by u es" if "u \<noteq> je_Account e" for u
    using that x by (simp add: writes_by_def)
  have "record_all (es @ [x]) \<lparr>jd_rows = [], jd_fails = False\<rparr> = d"
    using j(1) rec x by (simp add: record_all_def)
  moreover obtain j' where "d = Some j'" "\<not> jd_fails j'" "journal_ok (jd_rows j')"
    "\<And>u. touched u (jd_rows j') = (if u = je_Account e then touch_front ?f (Op_String (je_Op e)) now (touched u (jd_rows j)) else touched u (jd_rows j))"
    using step by blast
  moreover have "(if u = je_Account e then touch_front ?f (Op_String (je_Op e)) now (touched u (jd_rows j)) else touched u (jd_rows j)) =
      take JournalRowsPerAccount (map touch_of (last_writes (writes_by u (es @ [x]))))" for u
    using front other [of u] by (simp add: ts)
  ultimately show ?case by auto
qed

section \<open>Reading back\<close>

text \<open>An event the file system tier produced: its share fits the column and its path parses back.\<close>

definition storable :: "'enc text_library \<Rightarrow> journal_event \<Rightarrow> bool" where
  "storable T e \<longleftrightarrow> fits (Unsigned 32) (je_Share e) \<and> ParseSharePath T (sp_raw (je_Path e)) = Inr (je_Path e)"

lemma scan_events_touch:
  assumes "map touch rows = map touch_of evs" and "\<forall>e\<in>set evs. storable T e \<and> je_Account e = u"
  shows "scan_events T u rows = Inr evs"
  using assms
proof (induction rows arbitrary: evs)
  case (Cons r rows)
  from Cons.prems obtain e evs' where evs: "evs = e # evs'" "touch r = touch_of e" "map touch rows = map touch_of evs'" by (cases evs) auto
  then have r: "jr_share r = je_Share e" "jr_path r = sp_raw (je_Path e)" "jr_op r = Op_String (je_Op e)" "jr_at r = je_AtNs e"
    by (auto simp: touch_def touch_of_def)
  have e: "storable T e" "je_Account e = u" using Cons.prems(2) evs(1) by auto
  have "Narrow (Unsigned 32) (Signed 64) (je_Share e) = Some (je_Share e)"
    using e(1) by (auto simp: storable_def Narrow_spec fits_def)
  with Cons.IH [OF evs(3)] Cons.prems(2) evs(1) e r show ?case by (simp add: storable_def)
qed simp

lemma take_filter_prefix:
  assumes "sorted_wrt (\<lambda>a b. P b \<longrightarrow> P a) xs" and "k \<le> n"
  shows "take k (filter P (take n xs)) = take k (filter P xs)"
  using assms
proof (induction xs arbitrary: n k)
  case (Cons x xs)
  show ?case
  proof (cases "P x")
    case True
    with Cons show ?thesis by (cases n; cases k) auto
  next
    case False
    then have "filter P xs = []" using Cons.prems(1) by (auto simp: filter_empty_conv)
    moreover then have "filter P (take m xs) = []" for m by (auto simp: filter_empty_conv dest: in_set_takeD)
    ultimately show ?thesis using False by (cases n) auto
  qed
qed simp

lemma last_writes_order:
  "sorted_wrt (\<lambda>a b. je_AtNs b < je_AtNs a) es \<Longrightarrow> sorted_wrt (\<lambda>a b. je_AtNs b < je_AtNs a) (last_writes es)"
  using set_last_writes by (induction es) (auto simp: sorted_wrt_filter)

lemma writes_by_order:
  assumes "sorted_wrt (<) (map fst es)"
  shows "sorted_wrt (\<lambda>a b. je_AtNs b < je_AtNs a) (writes_by u es)"
proof -
  have "sorted_wrt (\<lambda>a b. je_AtNs a < je_AtNs b) (map (\<lambda>(now, e). e\<lparr>je_AtNs := now\<rparr>) (filter (\<lambda>x. je_Account (snd x) = u) es))"
    using assms by (auto simp: sorted_wrt_map split_def intro!: sorted_wrt_filter)
  then show ?thesis by (simp add: writes_by_def sorted_wrt_rev)
qed

definition in_window :: "int \<Rightarrow> journal_event \<Rightarrow> bool" where
  "in_window since e \<longleftrightarrow> since \<le> 0 \<or> since \<le> je_AtNs e"

text \<open>
  C20. The listing of recent writes is exact. After any history of recorded writes under an advancing
  clock, an account asking for up to a thousand rows gets the files it wrote in the window,
  newest first, each once with the last thing the account did to it; the rows of other accounts
  and the trimming of old rows never show.
\<close>
theorem recent_lists_last_writes:
  assumes "sorted_wrt (<) (map fst es)" and "\<forall>(now, e)\<in>set es. storable T e"
    and "0 < limit" and "limit \<le> 1000"
  shows "RecentSince T (record_all es \<lparr>jd_rows = [], jd_fails = False\<rparr>) u since limit =
    Inr (take (nat limit) (filter (in_window since) (last_writes (writes_by u es))))"
proof -
  let ?L = "last_writes (writes_by u es)"
  let ?out = "take (nat limit) (filter (in_window since) ?L)"
  let ?P = "\<lambda>t. since \<le> 0 \<or> since \<le> snd (snd t)"
  obtain j where j: "record_all es \<lparr>jd_rows = [], jd_fails = False\<rparr> = Some j"
    and ts: "touched u (jd_rows j) = take JournalRowsPerAccount (map touch_of ?L)"
    using touched_history [OF assms(1)] by blast
  let ?rows = "take (nat limit) (filter (\<lambda>r. since \<le> 0 \<or> since \<le> jr_at r) (newest (rows_of u (jd_rows j))))"
  have "sorted_wrt (\<lambda>a b. ?P b \<longrightarrow> ?P a) (map touch_of ?L)"
    unfolding sorted_wrt_map
    by (rule sorted_wrt_mono_rel [OF _ last_writes_order [OF writes_by_order [OF assms(1)]]]) (auto simp: touch_of_def)
  moreover have "nat limit \<le> JournalRowsPerAccount" using assms(4) by (simp add: JournalRowsPerAccount_def)
  ultimately have "take (nat limit) (filter ?P (touched u (jd_rows j))) = take (nat limit) (filter ?P (map touch_of ?L))"
    unfolding ts by (rule take_filter_prefix)
  then have "map touch ?rows = map touch_of ?out"
    by (simp add: touched_def filter_map comp_def take_map touch_def touch_of_def in_window_def [abs_def])
  moreover have "\<forall>e\<in>set ?out. storable T e \<and> je_Account e = u"
    using set_last_writes [of "writes_by u es"] assms(2)
    by (fastforce simp: writes_by_def storable_def dest!: in_set_takeD)
  ultimately have "scan_events T u ?rows = Inr ?out" by (rule scan_events_touch)
  then show ?thesis
    using assms(3,4) j
    by (auto simp: RecentSince_def Let_def JournalRowsPerAccount_def sqlRecentSince_def sqlRecentForAccount_def newest_filter conj_commute)
qed

text \<open>Two accounts, three writes; the first file of account 1 is written twice.\<close>

definition demo_writes :: "(int \<times> journal_event) list" where
  "demo_writes =
     [(10, \<lparr>je_Account = 1, je_Share = 3, je_Path = SharePath ''a'', je_Op = OpUpload, je_AtNs = 0\<rparr>),
      (20, \<lparr>je_Account = 1, je_Share = 3, je_Path = SharePath ''b'', je_Op = OpUpload, je_AtNs = 0\<rparr>),
      (30, \<lparr>je_Account = 2, je_Share = 3, je_Path = SharePath ''a'', je_Op = OpMove, je_AtNs = 0\<rparr>),
      (40, \<lparr>je_Account = 1, je_Share = 3, je_Path = SharePath ''a'', je_Op = OpRestore, je_AtNs = 0\<rparr>)]"

theorem recent_lists_last_writes_witness:
  "RecentSince latin1_library (record_all demo_writes \<lparr>jd_rows = [], jd_fails = False\<rparr>) 1 15 10 =
     Inr [\<lparr>je_Account = 1, je_Share = 3, je_Path = SharePath ''a'', je_Op = OpRestore, je_AtNs = 40\<rparr>,
          \<lparr>je_Account = 1, je_Share = 3, je_Path = SharePath ''b'', je_Op = OpUpload, je_AtNs = 20\<rparr>]"
proof -
  have "\<forall>(now, e)\<in>set demo_writes. storable latin1_library e"
    by (simp add: demo_writes_def storable_def fits_def ParseSharePath_def path_eval_simps)
  moreover have "sorted_wrt (<) (map fst demo_writes)" by (simp add: demo_writes_def)
  ultimately show ?thesis
    using recent_lists_last_writes [of demo_writes latin1_library 10 1 15]
    by (simp add: demo_writes_def writes_by_def in_window_def)
qed

end
