(* ===== verification/Sc_Write.thy ===== *)
theory Sc_Write
  imports Sc_Storage Sc_Journal
begin

unbundle bit_operations_syntax

text \<open>
  The mutations of the domain, \<open>internal/files/write.go\<close>: every one takes a resolution, checks
  the permission bits and the precondition, acts through one driver call, then invalidates and
  journals. The state is the domain with the storage, the journal rows and the directories
  whose cached rollup was invalidated.
\<close>

section \<open>Entries\<close>

record entry =
  e_Name :: string
  e_Path :: share_path
  e_Kind :: kind
  e_IsDir :: bool
  e_Size :: int
  e_MTimeNs :: int
  e_BTimeNs :: "int option"
  e_Ident :: ident
  e_ETag :: string
  e_ETagWeak :: bool
  e_Perms :: perms

record 'fs world =
  w_core :: core
  w_fs :: 'fs
  w_journal :: "journal_db option"
  w_dirty :: "(int \<times> safe_path) list"

text \<open>
  What the domain is assembled with: the driver, the ledger, the journal's clock, the digest, and
  the recursive size of a directory as the rollup of \<open>aggregate.go\<close> reports it.
\<close>

record 'fs files_env =
  fe_driver :: "'fs driver"
  fe_quota :: "state_db quota_sink option"
  fe_now :: int
  fe_sum256 :: "8 word list \<Rightarrow> 8 word list"
  fe_rsize :: "int \<Rightarrow> safe_path \<Rightarrow> 'fs \<Rightarrow> (files_error, int) result"

abbreviation stat_at :: "'fs files_env \<Rightarrow> resolved \<Rightarrow> safe_path \<Rightarrow> 'fs world \<Rightarrow> (vfs_error, stat) result" where
  "stat_at env r p w \<equiv> drv_Stat (fe_driver env) (r_root r) p (w_fs w)"

definition zero_ident :: ident where
  "zero_ident = \<lparr>I_Share = 0, I_Dev = 0, I_Ino = 0, I_Btime = None\<rparr>"

definition buildEntryFromStat :: "'fs files_env \<Rightarrow> resolved \<Rightarrow> string \<Rightarrow> safe_path \<Rightarrow> stat \<Rightarrow> entry" where
  "buildEntryFromStat env r name p st =
     (case FileETag (fe_sum256 env) st of (etag, weak) \<Rightarrow>
        \<lparr>e_Name = name, e_Path = SafePath_Share p, e_Kind = st_Kind st, e_IsDir = Kind_IsDir (st_Kind st),
         e_Size = st_Size st, e_MTimeNs = st_MtimeNs st, e_BTimeNs = st_BtimeNs st,
         e_Ident = ident_Of (r_share r) st, e_ETag = etag, e_ETagWeak = weak, e_Perms = r_perms r\<rparr>)"

definition EntryAt :: "'fs files_env \<Rightarrow> resolved \<Rightarrow> stat \<Rightarrow> entry" where
  "EntryAt env r st = buildEntryFromStat env r (SafePath_Name (r_path r)) (r_path r) st"

definition buildEntry :: "'fs files_env \<Rightarrow> resolved \<Rightarrow> string \<Rightarrow> safe_path \<Rightarrow> 'fs world \<Rightarrow> entry" where
  "buildEntry env r name p w =
     (case stat_at env r p w of
        Inl _ \<Rightarrow> \<lparr>e_Name = name, e_Path = SafePath_Share p, e_Kind = KindOther, e_IsDir = False, e_Size = 0,
                  e_MTimeNs = 0, e_BTimeNs = None, e_Ident = zero_ident, e_ETag = [], e_ETagWeak = False,
                  e_Perms = r_perms r\<rparr>
      | Inr st \<Rightarrow> buildEntryFromStat env r name p st)"

section \<open>Bookkeeping after the commit\<close>

definition record_op :: "'fs files_env \<Rightarrow> resolved \<Rightarrow> journal_op \<Rightarrow> 'fs world \<Rightarrow> 'fs world" where
  "record_op env r oper w =
     (case w_journal w of
        None \<Rightarrow> w
      | Some _ \<Rightarrow>
          (case Narrow (Unsigned 32) (Signed 64) (r_user r) of
             None \<Rightarrow> w
           | Some account \<Rightarrow>
               w\<lparr>w_journal := snd (Record (fe_now env)
                  \<lparr>je_Account = account, je_Share = r_share r, je_Path = SafePath_Share (r_path r), je_Op = oper, je_AtNs = 0\<rparr>
                  (w_journal w))\<rparr>))"

definition markDirty :: "int \<Rightarrow> safe_path \<Rightarrow> 'fs world \<Rightarrow> 'fs world" where
  "markDirty share p w =
     (case ShareRoot (w_core w) share of
        None \<Rightarrow> w
      | Some _ \<Rightarrow> w\<lparr>w_dirty := w_dirty w @ [(share, SafePath_Parent p)]\<rparr>)"

definition ledger :: "(state_db \<Rightarrow> state_db) \<Rightarrow> 'fs world \<Rightarrow> 'fs world" where
  "ledger f w = w\<lparr>w_core := (w_core w)\<lparr>k_db := f (k_db (w_core w))\<rparr>\<rparr>"

section \<open>Creating and replacing\<close>

definition precondition :: "'fs files_env \<Rightarrow> string option \<Rightarrow> stat \<Rightarrow> files_error option" where
  "precondition env ifMatch st =
     (case ifMatch of None \<Rightarrow> None | Some _ \<Rightarrow> Some (ErrPrecondition (fst (FileETag (fe_sum256 env) st))))"

definition Mkdir ::
  "'enc text_library \<Rightarrow> 'fs files_env \<Rightarrow> resolved \<Rightarrow> 'fs world \<Rightarrow> (files_error, entry) result \<times> 'fs world" where
  "Mkdir T env r w =
     (case Require r Create of
        Some e \<Rightarrow> (Inl e, w)
      | None \<Rightarrow>
          (case requireCreatableLeaf T (r_path r) of
             Some e \<Rightarrow> (Inl (mapVFSErr (VPath e)), w)
           | None \<Rightarrow>
               (case drv_Mkdir (fe_driver env) (r_root r) (r_path r) (w_fs w) of
                  (Some e, fs) \<Rightarrow> (Inl (mapVFSErr e), w\<lparr>w_fs := fs\<rparr>)
                | (None, fs) \<Rightarrow>
                    (let w' = record_op env r OpUpload (markDirty (r_share r) (r_path r) (w\<lparr>w_fs := fs\<rparr>)) in
                     (Inr (buildEntry env r (SafePath_Name (r_path r)) (r_path r) w'), w')))))"

fun mkdir_parents ::
  "'enc text_library \<Rightarrow> 'fs files_env \<Rightarrow> resolved \<Rightarrow> safe_path \<Rightarrow> string list \<Rightarrow> 'fs world \<Rightarrow>
     files_error option \<times> 'fs world" where
  "mkdir_parents T env r cur [] w = (None, w)"
| "mkdir_parents T env r cur (cmp # comps) w =
     (case SafePath_Join T cur cmp of
        Inl e \<Rightarrow> (Some (mapVFSErr (VPath e)), w)
      | Inr next \<Rightarrow>
          (case stat_at env r next w of
             Inr st \<Rightarrow>
               if \<not> Kind_IsDir (st_Kind st) then (Some ErrExists, w)
               else mkdir_parents T env r next comps w
           | Inl _ \<Rightarrow>
               (case drv_Mkdir (fe_driver env) (r_root r) next (w_fs w) of (e, fs) \<Rightarrow>
                  (case e of
                     Some e' \<Rightarrow>
                       if e' \<noteq> VExists then (Some (mapVFSErr e'), w\<lparr>w_fs := fs\<rparr>)
                       else mkdir_parents T env r next comps (markDirty (r_share r) next (w\<lparr>w_fs := fs\<rparr>))
                   | None \<Rightarrow> mkdir_parents T env r next comps (markDirty (r_share r) next (w\<lparr>w_fs := fs\<rparr>))))))"

definition MkdirParents ::
  "'enc text_library \<Rightarrow> 'fs files_env \<Rightarrow> resolved \<Rightarrow> 'fs world \<Rightarrow> files_error option \<times> 'fs world" where
  "MkdirParents T env r w =
     (case Require r Create of
        Some e \<Rightarrow> (Some e, w)
      | None \<Rightarrow>
          (let parent = SafePath_Parent (r_path r) in
           if SafePath_IsRoot parent then (None, w)
           else mkdir_parents T env r RootPath (sf_comps parent) w))"

definition prepareWrite ::
  "'enc text_library \<Rightarrow> 'fs files_env \<Rightarrow> resolved \<Rightarrow> string option \<Rightarrow> 'fs world \<Rightarrow>
     (files_error, stat option) result" where
  "prepareWrite T env r ifMatch w =
     (case Require r (Write OR Create) of
        Some e \<Rightarrow> Inl e
      | None \<Rightarrow>
          (case stat_at env r (r_path r) w of
             Inr st \<Rightarrow> (case precondition env ifMatch st of Some e \<Rightarrow> Inl e | None \<Rightarrow> Inr (Some st))
           | Inl serr \<Rightarrow>
               if mapVFSErr serr = ErrNotFound then
                 (if ifMatch \<noteq> None then Inl (ErrPrecondition [])
                  else (case requireCreatableLeaf T (r_path r) of
                    Some e \<Rightarrow> Inl (mapVFSErr (VPath e))
                  | None \<Rightarrow> Inr None))
               else Inl (mapVFSErr serr)))"

text \<open>
  A body: the chunks the copy loop writes, and whether the reader ended and every write to the
  staging file succeeded. Growth is asked for up to the end of each chunk before it is written.
\<close>

record body =
  b_chunks :: "string list"
  b_ok :: bool

definition body_targets :: "body \<Rightarrow> int list" where
  "body_targets b = map (\<lambda>i. int (length (concat (take (Suc i) (b_chunks b))))) [0..<length (b_chunks b)]"

definition body_text :: "body \<Rightarrow> string" where
  "body_text b = concat (b_chunks b)"

definition write_failure :: "'fs files_env \<Rightarrow> resolved \<Rightarrow> 'fs world \<Rightarrow> core_error \<Rightarrow> files_error" where
  "write_failure env r w e =
     (if e \<in> {WriteFailed, StatFailed, StageFailed, PublishFailed}
      then mapVFSErr (drv_WriteError (fe_driver env) (r_root r) (r_path r) (w_fs w)) else ErrWrite e)"

definition finishWrite ::
  "'fs files_env \<Rightarrow> resolved \<Rightarrow> core_error option \<Rightarrow> 'fs world \<Rightarrow> (files_error, entry) result \<times> 'fs world" where
  "finishWrite env r werr w =
     (case werr of
        Some e \<Rightarrow> (Inl (write_failure env r w e), w)
      | None \<Rightarrow>
          (let w' = record_op env r OpUpload (markDirty (r_share r) (r_path r) w) in
           (Inr (buildEntry env r (SafePath_Name (r_path r)) (r_path r) w'), w')))"

definition publish_if :: "'fs files_env \<Rightarrow> resolved \<Rightarrow> string \<Rightarrow> core_error option \<Rightarrow> 'fs world \<Rightarrow> 'fs world" where
  "publish_if env r s werr w =
     (if werr = None then w\<lparr>w_fs := drv_Publish (fe_driver env) (r_root r) (r_path r) s (w_fs w)\<rparr> else w)"

definition WriteStream ::
  "'enc text_library \<Rightarrow> 'fs files_env \<Rightarrow> resolved \<Rightarrow> body \<Rightarrow> string option \<Rightarrow> 'fs world \<Rightarrow>
     (files_error, entry) result \<times> 'fs world" where
  "WriteStream T env r src ifMatch w =
     (case prepareWrite T env r ifMatch w of
        Inl e \<Rightarrow> (Inl e, w)
      | Inr prior \<Rightarrow>
          (case writeDurableQuotaStream (fe_quota env) (r_user r)
                  (drv_Stage (fe_driver env) (r_root r) (r_path r) (w_fs w))
                  (map_option st_Size prior) (body_targets src) (b_ok src)
                  (Some (int (length (body_text src)))) (k_db (w_core w)) of
             (werr, _, db) \<Rightarrow>
               finishWrite env r werr (publish_if env r (body_text src) werr (ledger (\<lambda>_. db) w))))"

definition CreateFile ::
  "'enc text_library \<Rightarrow> 'fs files_env \<Rightarrow> resolved \<Rightarrow> string option \<Rightarrow> string option \<Rightarrow> 'fs world \<Rightarrow>
     (files_error, entry) result \<times> 'fs world" where
  "CreateFile T env r written ifMatch w =
     (case prepareWrite T env r ifMatch w of
        Inl e \<Rightarrow> (Inl e, w)
      | Inr prior \<Rightarrow>
          (case writeDurableQuota (fe_quota env) (r_user r)
                  (drv_Stage (fe_driver env) (r_root r) (r_path r) (w_fs w))
                  (map_option st_Size prior) (written \<noteq> None)
                  (map_option (\<lambda>s. int (length s)) written) (k_db (w_core w)) of
             (werr, _, db) \<Rightarrow>
               finishWrite env r werr
                 (publish_if env r (case written of None \<Rightarrow> [] | Some s \<Rightarrow> s) werr (ledger (\<lambda>_. db) w))))"

section \<open>Publishing an upload\<close>

text \<open>
  The commit half for a part file that is already in place beside its destination: the caller's
  validator, the name rule for a destination that is new, the reservation of the growth, and the
  rename with the settlement behind it.
\<close>

definition publish_matched :: "'fs files_env \<Rightarrow> string \<Rightarrow> (vfs_error, stat) result \<Rightarrow> files_error option" where
  "publish_matched env ifMatch prior =
     (if ifMatch = [] then None
      else (case prior of
        Inl _ \<Rightarrow> Some (ErrPrecondition [])
      | Inr st \<Rightarrow>
          (let cur = fst (FileETag (fe_sum256 env) st) in
           if cur \<noteq> ifMatch then Some (ErrPrecondition cur) else None)))"

definition publish_admitted :: "'enc text_library \<Rightarrow> safe_path \<Rightarrow> (vfs_error, stat) result \<Rightarrow> files_error option" where
  "publish_admitted T dest prior =
     (case prior of
        Inr _ \<Rightarrow> None
      | Inl serr \<Rightarrow>
          if mapVFSErr serr = ErrNotFound
          then (case requireCreatableLeaf T dest of Some e \<Rightarrow> Some (mapVFSErr (VPath e)) | None \<Rightarrow> None)
          else Some (mapVFSErr serr))"

definition publish_step ::
  "'fs files_env \<Rightarrow> resolved \<Rightarrow> safe_path \<Rightarrow> int \<Rightarrow> bool \<Rightarrow> 'fs world \<Rightarrow> (files_error, entry) result \<times> 'fs world" where
  "publish_step env r part delta replacing w =
     (case (if delta > 0 then reserveQuota (fe_quota env) (r_user r) delta (k_db (w_core w)) else (Inr no_hold, k_db (w_core w))) of
        (Inl e, db) \<Rightarrow> (Inl (ErrWrite e), ledger (\<lambda>_. db) w)
      | (Inr hold, db) \<Rightarrow>
          (case drv_PublishPart (fe_driver env) (r_root r) part (r_path r) replacing (w_fs w) of
             (Some e, fs) \<Rightarrow> (Inl (mapVFSErr e), ledger (\<lambda>_. snd (releaseQuota (fe_quota env) (r_user r) hold db)) (w\<lparr>w_fs := fs\<rparr>))
           | (None, fs) \<Rightarrow>
               (let w' = record_op env r OpUpload (markDirty (r_share r) (r_path r)
                      (ledger (\<lambda>_. settleQuota (fe_quota env) (r_user r) delta hold db) (w\<lparr>w_fs := fs\<rparr>)))
                in (Inr (buildEntry env r (SafePath_Name (r_path r)) (r_path r) w'), w'))))"

definition PublishPart ::
  "'enc text_library \<Rightarrow> 'fs files_env \<Rightarrow> resolved \<Rightarrow> safe_path \<Rightarrow> string \<Rightarrow> 'fs world \<Rightarrow>
     (files_error, entry) result \<times> 'fs world" where
  "PublishPart T env r part ifMatch w =
     (case Require r (Write OR Create) of
        Some e \<Rightarrow> (Inl e, w)
      | None \<Rightarrow>
          if \<not> IsReservedName (SafePath_Name part) then (Inl ErrDenied, w)
          else if SafePath_Parent part \<noteq> SafePath_Parent (r_path r) then (Inl ErrDenied, w)
          else (case stat_at env r part w of
            Inl e \<Rightarrow> (Inl (mapVFSErr e), w)
          | Inr partSt \<Rightarrow>
              (let prior = stat_at env r (r_path r) w in
               case publish_matched env ifMatch prior of
                 Some e \<Rightarrow> (Inl e, w)
               | None \<Rightarrow>
                   (case publish_admitted T (r_path r) prior of
                      Some e \<Rightarrow> (Inl e, w)
                    | None \<Rightarrow>
                        publish_step env r part (deltaOf (st_Size partSt) (case prior of Inl _ \<Rightarrow> 0 | Inr st \<Rightarrow> st_Size st))
                          (\<not> isl prior) w))))"

section \<open>Renaming\<close>

definition Rename_op ::
  "'enc text_library \<Rightarrow> 'fs files_env \<Rightarrow> resolved \<Rightarrow> string \<Rightarrow> string option \<Rightarrow> 'fs world \<Rightarrow>
     (files_error, entry) result \<times> 'fs world" where
  "Rename_op T env r newName ifMatch w =
     (case Require r Rename of
        Some e \<Rightarrow> (Inl e, w)
      | None \<Rightarrow>
          (case stat_at env r (r_path r) w of
             Inl e \<Rightarrow> (Inl (mapVFSErr e), w)
           | Inr st \<Rightarrow>
               (case precondition env ifMatch st of
                  Some e \<Rightarrow> (Inl e, w)
                | None \<Rightarrow>
                    (case SafePath_Join T (SafePath_Parent (r_path r)) newName of
                       Inl e \<Rightarrow> (Inl (ErrVfs (VPath e)), w)
                     | Inr dest \<Rightarrow>
                         (case drv_Rename (fe_driver env) (r_root r) (r_path r) dest True (w_fs w) of
                            (Some e, fs) \<Rightarrow> (Inl (mapVFSErr e), w\<lparr>w_fs := fs\<rparr>)
                          | (None, fs) \<Rightarrow>
                              (let renamed = r\<lparr>r_path := dest\<rparr>;
                                   w' = record_op env renamed OpMove
                                     (markDirty (r_share r) dest (markDirty (r_share r) (r_path r) (w\<lparr>w_fs := fs\<rparr>)))
                               in (Inr (buildEntry env renamed (SafePath_Name dest) dest w'), w')))))))"

section \<open>Deleting\<close>

definition int64Minus :: "int \<Rightarrow> int" where
  "int64Minus v = (if v > max_i64 then min_i64 else - v)"

lemma JoinExisting_depth: "JoinExisting p n = Inr q \<Longrightarrow> length (sf_comps p) < length (sf_comps q) \<and> length (sf_comps q) \<le> 256"
  by (auto dest!: JoinExisting_Inr dest: push_Inr)

text \<open>
  The recursive delete and its loop over the listed names. The depth is bounded by the number
  of components a path may have, since a longer join is skipped.
\<close>

function deleteRecursive ::
    "'fs driver \<Rightarrow> core \<Rightarrow> perms \<Rightarrow> resolved \<Rightarrow> 'fs \<Rightarrow> files_error option \<times> 'fs"
  and delete_children ::
    "'fs driver \<Rightarrow> core \<Rightarrow> perms \<Rightarrow> resolved \<Rightarrow> string list \<Rightarrow> 'fs \<Rightarrow> files_error option \<times> 'fs" where
  "deleteRecursive d c authority r fs =
     (case drv_ReadDir d (r_root r) (r_path r) fs of
        Inl e \<Rightarrow> (Some (mapVFSErr e), fs)
      | Inr entries \<Rightarrow>
          (case delete_children d c authority r entries fs of
             (Some e, fs1) \<Rightarrow> (Some e, fs1)
           | (None, fs1) \<Rightarrow>
               (case drv_Rmdir d (r_root r) (r_path r) fs1 of
                  (Some e, fs2) \<Rightarrow> (Some (mapVFSErr e), fs2)
                | (None, fs2) \<Rightarrow> (None, fs2))))"
| "delete_children d c authority r [] fs = (None, fs)"
| "delete_children d c authority r (name # names) fs =
     (case JoinExisting (r_path r) name of
        Inl _ \<Rightarrow> delete_children d c authority r names fs
      | Inr child \<Rightarrow>
          (case drv_Stat d (r_root r) child fs of
             Inl _ \<Rightarrow> delete_children d c authority r names fs
           | Inr st \<Rightarrow>
               (case ResolveUnder c r child authority of
                  Inl e \<Rightarrow> (Some e, fs)
                | Inr sub \<Rightarrow>
                    if Kind_IsDir (st_Kind st) then
                      (case deleteRecursive d c authority sub fs of
                         (Some e, fs1) \<Rightarrow> (Some e, fs1)
                       | (None, fs1) \<Rightarrow> delete_children d c authority r names fs1)
                    else
                      (case drv_Unlink d (r_root r) child fs of
                         (Some e, fs1) \<Rightarrow> (Some (mapVFSErr e), fs1)
                       | (None, fs1) \<Rightarrow> delete_children d c authority r names fs1))))"
  by pat_completeness auto
termination
proof (relation "measures
    [\<lambda>x. case x of Inl (d, c, a, r, fs) \<Rightarrow> 256 - length (sf_comps (r_path r)) | Inr (d, c, a, r, ns, fs) \<Rightarrow> 256 - length (sf_comps (r_path r)),
     \<lambda>x. case x of Inl _ \<Rightarrow> 1 | Inr _ \<Rightarrow> 0,
     \<lambda>x. case x of Inl _ \<Rightarrow> 0 | Inr (d, c, a, r, ns, fs) \<Rightarrow> length ns]", goal_cases)
  case (5 d c authority r name names fs child st sub)
  then show ?case
    using JoinExisting_depth [of "r_path r" name child] ResolveUnder_Inr(1) [of c r child authority sub] by (simp add: diff_less_mono2)
qed auto

declare deleteRecursive.simps [simp del]

definition deleteResolved ::
  "'fs files_env \<Rightarrow> resolved \<Rightarrow> stat \<Rightarrow> bool \<Rightarrow> perms \<Rightarrow> 'fs world \<Rightarrow> files_error option \<times> 'fs world" where
  "deleteResolved env r st charge authority w =
     (let settle = (\<lambda>freed w.
        markDirty (r_share r) (r_path r)
          (if charge \<and> freed > 0 then ledger (chargeQuota (fe_quota env) (r_user r) (int64Minus freed)) w else w))
      in
      if Kind_IsDir (st_Kind st) then
        (case fe_rsize env (r_share r) (r_path r) (w_fs w) of
           Inl e \<Rightarrow> (Some e, w)
         | Inr freed \<Rightarrow>
             (case deleteRecursive (fe_driver env) (w_core w) authority r (w_fs w) of
                (Some e, fs) \<Rightarrow> (Some e, w\<lparr>w_fs := fs\<rparr>)
              | (None, fs) \<Rightarrow> (None, settle freed (w\<lparr>w_fs := fs\<rparr>))))
      else
        (case drv_Unlink (fe_driver env) (r_root r) (r_path r) (w_fs w) of
           (Some e, fs) \<Rightarrow> (Some (mapVFSErr e), w\<lparr>w_fs := fs\<rparr>)
         | (None, fs) \<Rightarrow> (None, settle (st_Size st) (w\<lparr>w_fs := fs\<rparr>))))"

section \<open>What a recursive delete removes\<close>

text \<open>Names vanish, each for a reason; nothing else changes.\<close>

definition shrinks :: "(int \<Rightarrow> string list \<Rightarrow> bool) \<Rightarrow> tree \<Rightarrow> tree \<Rightarrow> bool" where
  "shrinks P t t' \<longleftrightarrow> (\<forall>share q. t' share q \<noteq> t share q \<longrightarrow> t' share q = None \<and> P share q)"

lemma shrinks_refl [simp]: "shrinks P t t"
  by (simp add: shrinks_def)

lemma shrinks_trans: "shrinks P t t1 \<Longrightarrow> shrinks P t1 t2 \<Longrightarrow> shrinks P t t2"
  unfolding shrinks_def by metis

lemma shrinks_mono: "shrinks P t t' \<Longrightarrow> (\<And>share q. P share q \<Longrightarrow> Q share q) \<Longrightarrow> shrinks Q t t'"
  unfolding shrinks_def by blast

lemma shrinks_put: "P share q \<Longrightarrow> shrinks P t (put share q None t)"
  by (simp add: shrinks_def put_def)

lemma drv_Unlink_law:
  assumes "posix_remove d view" and "drv_Unlink d r p fs = (e, fs')"
  shows "e = None \<Longrightarrow> (\<exists>s. view fs (SR_ID r) (sf_comps p) = Some (Leaf s)) \<and> view fs' = put (SR_ID r) (sf_comps p) None (view fs)"
    "e \<noteq> None \<Longrightarrow> view fs' = view fs"
proof -
  have law: "case e of
      None \<Rightarrow> (\<exists>s. view fs (SR_ID r) (sf_comps p) = Some (Leaf s)) \<and> view fs' = put (SR_ID r) (sf_comps p) None (view fs)
    | Some _ \<Rightarrow> view fs' = view fs"
    using assms unfolding posix_remove_def by blast
  then show "e = None \<Longrightarrow> (\<exists>s. view fs (SR_ID r) (sf_comps p) = Some (Leaf s)) \<and> view fs' = put (SR_ID r) (sf_comps p) None (view fs)"
    "e \<noteq> None \<Longrightarrow> view fs' = view fs" by auto
qed

lemma drv_Rmdir_law:
  assumes "posix_remove d view" and "drv_Rmdir d r p fs = (e, fs')"
  shows "e = None \<Longrightarrow> view fs (SR_ID r) (sf_comps p) = Some Folder \<and>
      (\<forall>q. strict_prefix (sf_comps p) q \<longrightarrow> view fs (SR_ID r) q = None) \<and> view fs' = put (SR_ID r) (sf_comps p) None (view fs)"
    "e \<noteq> None \<Longrightarrow> view fs' = view fs"
proof -
  have law: "case e of
      None \<Rightarrow> view fs (SR_ID r) (sf_comps p) = Some Folder \<and>
        (\<forall>q. strict_prefix (sf_comps p) q \<longrightarrow> view fs (SR_ID r) q = None) \<and> view fs' = put (SR_ID r) (sf_comps p) None (view fs)
    | Some _ \<Rightarrow> view fs' = view fs"
    using assms unfolding posix_remove_def by blast
  then show "e = None \<Longrightarrow> view fs (SR_ID r) (sf_comps p) = Some Folder \<and>
      (\<forall>q. strict_prefix (sf_comps p) q \<longrightarrow> view fs (SR_ID r) q = None) \<and> view fs' = put (SR_ID r) (sf_comps p) None (view fs)"
    "e \<noteq> None \<Longrightarrow> view fs' = view fs" by auto
qed

text \<open>A name below the target may go only where the authority is effective.\<close>

definition removable :: "core \<Rightarrow> perms \<Rightarrow> resolved \<Rightarrow> int \<Rightarrow> string list \<Rightarrow> bool" where
  "removable c authority r share q \<longleftrightarrow>
     share = SR_ID (r_root r) \<and> strict_prefix (sf_comps (r_path r)) q \<and>
     Has (effectiveLocked (k_acl c) (r_user r) (r_share r) q) authority"

lemma ResolveUnder_removable:
  assumes "JoinExisting (r_path r) name = Inr child" and "ResolveUnder c r child authority = Inr sub"
  shows "removable c authority r (SR_ID (r_root r)) (sf_comps child)"
    "removable c authority sub share q \<Longrightarrow> removable c authority r share q"
proof -
  have child: "sf_comps child = sf_comps (r_path r) @ [name]"
    using assms(1) by (auto dest!: JoinExisting_Inr dest: push_Inr)
  note sub = ResolveUnder_Inr [OF assms(2)]
  have "Has (effectiveLocked (k_acl c) (r_user r) (r_share r) (sf_comps child)) authority"
    using sub(1,3) by (auto simp: Has_iff bit_and_iff)
  with child show "removable c authority r (SR_ID (r_root r)) (sf_comps child)"
    by (simp add: removable_def strict_prefix_def)
  show "removable c authority sub share q \<Longrightarrow> removable c authority r share q"
    using sub(1) child by (auto simp: removable_def strict_prefix_def prefix_def)
qed

abbreviation at_or_below :: "core \<Rightarrow> perms \<Rightarrow> resolved \<Rightarrow> int \<Rightarrow> string list \<Rightarrow> bool" where
  "at_or_below c authority r \<equiv>
     (\<lambda>share q. share = SR_ID (r_root r) \<and> q = sf_comps (r_path r) \<or> removable c authority r share q)"

lemma deleteRecursive_shrinks:
  "posix_remove d view \<Longrightarrow>
     shrinks (at_or_below c authority r) (view fs) (view (snd (deleteRecursive d c authority r fs)))"
  "posix_remove d view \<Longrightarrow>
     shrinks (removable c authority r) (view fs) (view (snd (delete_children d c authority r names fs)))"
proof (induction d c authority r fs and d c authority r names fs
    rule: deleteRecursive_delete_children.induct)
  case (1 d c authority r fs)
  show ?case
  proof (cases "drv_ReadDir d (r_root r) (r_path r) fs")
    case (Inr entries)
    obtain e fs1 where kids: "delete_children d c authority r entries fs = (e, fs1)" by (rule prod.exhaust)
    have below: "shrinks (at_or_below c authority r) (view fs) (view fs1)"
      by (rule shrinks_mono [of "removable c authority r"]) (use 1(1) [OF Inr 1(2)] kids in simp_all)
    obtain e2 fs2 where rm: "drv_Rmdir d (r_root r) (r_path r) fs1 = (e2, fs2)" by (rule prod.exhaust)
    have "shrinks (at_or_below c authority r) (view fs1) (view fs2)"
      using drv_Rmdir_law [OF 1(2) rm] by (cases e2) (auto intro: shrinks_put)
    from shrinks_trans [OF below this] below show ?thesis
      by (simp add: deleteRecursive.simps Inr kids rm split: option.splits)
  qed (simp add: deleteRecursive.simps)
next
  case (2 d c authority r fs)
  show ?case by simp
next
  case (3 d c authority r name names fs)
  note skip_join = 3(1) and skip_stat = 3(2) and sub_IH = 3(3) and rest_dir = 3(4) and rest_file = 3(5)
  show ?case
  proof (cases "JoinExisting (r_path r) name")
    case (Inl e)
    with skip_join 3(6) show ?thesis by simp
  next
    case join: (Inr child)
    show ?thesis
    proof (cases "drv_Stat d (r_root r) child fs")
      case (Inl e)
      with skip_stat 3(6) join show ?thesis by simp
    next
      case st: (Inr st)
      show ?thesis
      proof (cases "ResolveUnder c r child authority")
        case (Inl e)
        with join st show ?thesis by simp
      next
        case sub: (Inr sub)
        note rem = ResolveUnder_removable [OF join sub]
        show ?thesis
        proof (cases "Kind_IsDir (st_Kind st)")
          case True
          obtain e fs1 where del: "deleteRecursive d c authority sub fs = (e, fs1)" by (rule prod.exhaust)
          have below: "shrinks (removable c authority r) (view fs) (view fs1)"
            by (rule shrinks_mono [of "at_or_below c authority sub"])
              (use sub_IH [OF join st sub True 3(6)] del rem ResolveUnder_Inr(1) [OF sub] in auto)
          show ?thesis
            using below shrinks_trans [OF below rest_dir [OF join st sub True del [symmetric] _ 3(6)]]
            by (simp add: join st sub True del split: option.splits)
        next
          case False
          obtain e fs1 where del: "drv_Unlink d (r_root r) child fs = (e, fs1)" by (rule prod.exhaust)
          have below: "shrinks (removable c authority r) (view fs) (view fs1)"
            using drv_Unlink_law [OF 3(6) del] rem(1) by (cases e) (auto intro: shrinks_put)
          show ?thesis
            using below shrinks_trans [OF below rest_file [OF join st sub False del [symmetric] _ 3(6)]]
            by (simp add: join st sub False del split: option.splits)
        qed
      qed
    qed
  qed
qed

lemma deleteRecursive_complete:
  assumes "posix_remove d view" and "deleteRecursive d c authority r fs = (None, fs')"
    and "prefix (sf_comps (r_path r)) q"
  shows "view fs' (SR_ID (r_root r)) q = None"
proof -
  from assms(2) obtain fs1 where rm: "drv_Rmdir d (r_root r) (r_path r) fs1 = (None, fs')"
    by (subst (asm) deleteRecursive.simps) (auto split: sum.splits prod.splits option.splits)
  from drv_Rmdir_law(1) [OF assms(1) rm] assms(3) show ?thesis
    by (cases "q = sf_comps (r_path r)") (auto simp: put_def strict_prefix_def)
qed

section \<open>Lemmas on the bookkeeping\<close>

lemma markDirty_fields [simp]:
  "w_core (markDirty share p w) = w_core w" "w_fs (markDirty share p w) = w_fs w"
  "w_journal (markDirty share p w) = w_journal w"
  by (simp_all add: markDirty_def split: option.splits)

lemma record_op_fields [simp]:
  "w_core (record_op env r op w) = w_core w" "w_fs (record_op env r op w) = w_fs w"
  "w_dirty (record_op env r op w) = w_dirty w"
  by (simp_all add: record_op_def Let_def split: option.splits)

lemma ledger_fields [simp]:
  "w_fs (ledger f w) = w_fs w" "w_journal (ledger f w) = w_journal w" "w_dirty (ledger f w) = w_dirty w"
  "k_db (w_core (ledger f w)) = f (k_db (w_core w))" "k_acl (w_core (ledger f w)) = k_acl (w_core w)"
  "k_shares (w_core (ledger f w)) = k_shares (w_core w)"
  by (simp_all add: ledger_def)

lemma publish_if_fields [simp]:
  "w_core (publish_if env r s werr w) = w_core w" "w_journal (publish_if env r s werr w) = w_journal w"
  "w_dirty (publish_if env r s werr w) = w_dirty w"
  by (simp_all add: publish_if_def)

lemma prepareWrite_Inr:
  assumes "prepareWrite T env r ifMatch w = Inr prior"
  shows "Has (r_perms r) (Write OR Create)" "ifMatch = None"
    "prior = Some st \<Longrightarrow> stat_at env r (r_path r) w = Inr st"
    "prior = None \<Longrightarrow> \<exists>e. stat_at env r (r_path r) w = Inl e \<and> mapVFSErr e = ErrNotFound"
  using assms by (auto simp: prepareWrite_def Require_def precondition_def split: sum.splits option.splits if_splits)

lemma body_target_last:
  assumes "body_text b \<noteq> []"
  shows "int (length (body_text b)) \<in> set (body_targets b)"
proof -
  from assms have "b_chunks b \<noteq> []" by (auto simp: body_text_def)
  then have "length (b_chunks b) - 1 < length (b_chunks b)" "take (Suc (length (b_chunks b) - 1)) (b_chunks b) = b_chunks b"
    by simp_all
  then show ?thesis unfolding body_targets_def body_text_def
    by (auto simp: image_iff intro!: bexI [of _ "length (b_chunks b) - 1"])
qed

lemma body_targets_bound: "t \<in> set (body_targets b) \<Longrightarrow> t \<le> int (length (body_text b))"
  unfolding body_targets_def body_text_def
  by (auto simp flip: length_append concat_append) (metis append_take_drop_id concat_append le_add1 length_append)

section \<open>Properties of writes\<close>

text \<open>What a driver reports as sizes is a file length that the ledger's sums can hold.\<close>

definition sizes_fit :: "'fs driver \<Rightarrow> 'fs \<Rightarrow> bool" where
  "sizes_fit d fs \<longleftrightarrow> (\<forall>r p st. drv_Stat d r p fs = Inr st \<longrightarrow> 0 \<le> st_Size st \<and> st_Size st \<le> size_bound)"

definition node_size :: "node option \<Rightarrow> int" where
  "node_size n = (case n of Some (Leaf s) \<Rightarrow> int (length s) | _ \<Rightarrow> 0)"

lemma stream_staged:
  "writeDurableQuotaStream quota u run prior targets ok staged db = (None, delta, db') \<Longrightarrow> run = Staged True"
  by (cases run) (auto simp: writeDurableQuotaStream_def finish_durable_def split: prod.splits option.splits if_splits)

lemma prior_size:
  assumes "posix_stat d view" and "prepareWrite T env r ifMatch w = Inr prior" and "fe_driver env = d"
    and "view (w_fs w) (SR_ID (r_root r)) (sf_comps (r_path r)) \<noteq> Some Folder"
  shows "old_size (map_option st_Size prior) = node_size (view (w_fs w) (SR_ID (r_root r)) (sf_comps (r_path r)))"
proof (cases prior)
  case None
  then obtain e where "stat_at env r (r_path r) w = Inl e" "mapVFSErr e = ErrNotFound"
    using prepareWrite_Inr(4) [OF assms(2)] by blast
  then have "view (w_fs w) (SR_ID (r_root r)) (sf_comps (r_path r)) = None"
    using assms(1,3) unfolding posix_stat_def by blast
  with None show ?thesis by (simp add: old_size_def node_size_def)
next
  case (Some st)
  then have "stat_at env r (r_path r) w = Inr st" using prepareWrite_Inr(3) [OF assms(2)] by blast
  then obtain n where "view (w_fs w) (SR_ID (r_root r)) (sf_comps (r_path r)) = Some n" "node_stat n st"
    using assms(1,3) unfolding posix_stat_def by blast
  with Some assms(4) show ?thesis by (auto simp: old_size_def node_size_def node_stat_def split: node.splits)
qed


text \<open>A small deployment: user 2 may use 10 bytes and uses 4; the file a/f of share 3 holds three bytes.\<close>

definition demo_files_env :: "mem_fs files_env" where
  "demo_files_env = \<lparr>fe_driver = mem_driver, fe_quota = Some state_quota, fe_now = 100,
     fe_sum256 = (\<lambda>bs. take 32 (bs @ replicate 32 0)), fe_rsize = (\<lambda>_ _ _. Inr 0)\<rparr>"

definition demo_files :: mem_fs where
  "demo_files = [((3, []), Folder), ((3, [''a'']), Folder), ((3, [''a'', ''f'']), Leaf ''abc'')]"

definition demo_world :: "mem_fs world" where
  "demo_world = \<lparr>w_core = demo_core\<lparr>k_db := demo_ledger\<rparr>, w_fs = demo_files, w_journal = Some \<lparr>jd_rows = [], jd_fails = False\<rparr>, w_dirty = []\<rparr>"

definition demo_target :: resolved where
  "demo_target = \<lparr>r_user = 2, r_share = 3, r_root = demo_root, r_path = SafePath [''a'', ''f''], r_perms = 255\<rparr>"

definition demo_body :: body where
  "demo_body = \<lparr>b_chunks = [''hel'', ''lo!''], b_ok = True\<rparr>"

lemma mem_sizes_fit:
  assumes "list_all (\<lambda>e. node_size (Some (snd e)) \<le> size_bound) fs"
  shows "sizes_fit mem_driver fs"
  unfolding sizes_fit_def
proof (intro allI impI)
  fix r p st
  assume "drv_Stat mem_driver r p fs = Inr st"
  then obtain n where n: "map_of fs (mem_key r p) = Some n" "st = mem_stat n"
    by (auto simp: mem_driver_def split: option.splits)
  then have "node_size (Some n) \<le> size_bound"
    using assms by (auto simp: list_all_iff dest!: map_of_SomeD)
  with n(2) show "0 \<le> st_Size st \<and> st_Size st \<le> size_bound"
    by (cases n) (auto simp: mem_stat_def node_size_def size_bound_def)
qed

lemma demo_sizes: "sizes_fit mem_driver demo_files"
  by (rule mem_sizes_fit) (simp add: demo_files_def node_size_def size_bound_def)

lemma demo_fields [simp]:
  "fe_driver demo_files_env = mem_driver" "fe_quota demo_files_env = Some state_quota"
  "r_user demo_target = 2" "r_share demo_target = 3" "r_root demo_target = demo_root"
  "r_path demo_target = SafePath [''a'', ''f'']" "r_perms demo_target = 255"
  "k_db (w_core demo_world) = demo_ledger" "w_fs demo_world = demo_files"
  "b_ok demo_body" "body_text demo_body = ''hello!''" "body_targets demo_body = [3, 6]"
  by (simp_all add: demo_files_env_def demo_target_def demo_world_def demo_body_def body_text_def body_targets_def)

lemma demo_stage:
  "prepareWrite T demo_files_env demo_target None demo_world = Inr (Some (mem_stat (Leaf ''abc'')))"
  "drv_Stage mem_driver demo_root (SafePath [''a'', ''f'']) demo_files = Staged True"
  by (simp_all add: prepareWrite_def Require_def Has_def perm_consts demo_files_def mem_driver_def mem_key_def
      demo_root_def precondition_def)

lemma demo_stream:
  "fst (writeDurableQuotaStream (Some state_quota) 2 (Staged True) (Some 3) [3, 6] True (Some 6) demo_ledger) = None"
  by (simp add: writeDurableQuotaStream_def stream_callback_def old_size_def deltaOf_def Narrow_spec fits_def
      wrap_i64_def wrap_u64_def reserveQuota_def reserveGrowth_def state_quota_def Quota_Reserve_def db_Write_def
      sqlReserveQuota_def demo_ledger_def finish_durable_def streamReserveStep_def no_hold_def settle_staged_def Let_def)


end
