(* ===== verification/Sc_Recent.thy ===== *)
theory Sc_Recent
  imports Sc_Write
begin

text \<open>
  The listing of an account's own recent writes, \<open>internal/files/recent.go\<close>: the journal
  supplies the rows, and every row is judged again before it is shown, against the projected
  roots, the scope asked for, the resolve gate and the storage.
\<close>

section \<open>Paths and windows\<close>

definition leafOf :: "share_path \<Rightarrow> string" where
  "leafOf p =
     (let s = sp_raw p in
      case LastIndexByte slash s of Some i \<Rightarrow> drop (i + 1) s | None \<Rightarrow> s)"

definition pathInScope :: "string \<Rightarrow> string \<Rightarrow> bool" where
  "pathInScope path0 scope0 =
     (let path = TrimByte slash path0; scope = TrimByte slash scope0 in
      if scope = [] then True
      else if path = scope then True
      else length path > length scope \<and> HasPrefix path scope \<and> path ! length scope = slash)"

record recent_hit =
  rh_Vpath :: vpath
  rh_Share :: string
  rh_Subpath :: share_path
  rh_Name :: string
  rh_Size :: int
  rh_MTimeNs :: int
  rh_AtNs :: int
  rh_Op :: journal_op

record recent_query =
  rq_SinceNs :: int
  rq_Limit :: int
  rq_Scope :: string

definition RecentWindow :: int where "RecentWindow = 14 * 24 * 3600 * 1000000000"
definition RecentLimit :: int where "RecentLimit = 100"
definition RecentMaxLimit :: int where "RecentMaxLimit = 500"

definition RecentLimitOf :: "int \<Rightarrow> int" where
  "RecentLimitOf n = (if n \<le> 0 then RecentLimit else min n RecentMaxLimit)"

definition RecentSinceOf :: "int \<Rightarrow> int \<Rightarrow> int" where
  "RecentSinceOf sinceNs now = (if sinceNs > 0 then sinceNs else wrap_i64 (now - RecentWindow))"

section \<open>The listing\<close>

text \<open>One journal row judged again: dropped without a trace, or shown. Resolving may mint a home.\<close>

definition recent_row ::
  "'enc text_library \<Rightarrow> home_env \<Rightarrow> 'fs files_env \<Rightarrow> int \<Rightarrow> string \<Rightarrow> journal_event \<Rightarrow> 'fs world \<Rightarrow>
     recent_hit option \<times> 'fs world" where
  "recent_row T henv env user scope e w =
     (case VpathFor T (w_core w) user (je_Share e) (je_Path e) of
        Inl _ \<Rightarrow> (None, w)
      | Inr vp \<Rightarrow>
          if \<not> pathInScope (vp_raw vp) scope then (None, w)
          else (case Resolve T henv user vp Read (w_core w) of
            (Inl _, c) \<Rightarrow> (None, w\<lparr>w_core := c\<rparr>)
          | (Inr r, c) \<Rightarrow>
              (case stat_at env r (r_path r) w of
                 Inl _ \<Rightarrow> (None, w\<lparr>w_core := c\<rparr>)
               | Inr st \<Rightarrow>
                   (Some \<lparr>rh_Vpath = vp, rh_Share = Vpath_Label vp, rh_Subpath = je_Path e, rh_Name = leafOf (je_Path e),
                          rh_Size = st_Size st, rh_MTimeNs = st_MtimeNs st, rh_AtNs = je_AtNs e, rh_Op = je_Op e\<rparr>,
                    w\<lparr>w_core := c\<rparr>))))"

fun recent_rows ::
  "'enc text_library \<Rightarrow> home_env \<Rightarrow> 'fs files_env \<Rightarrow> int \<Rightarrow> string \<Rightarrow> journal_event list \<Rightarrow> 'fs world \<Rightarrow>
     recent_hit list \<times> 'fs world" where
  "recent_rows T henv env user scope [] w = ([], w)"
| "recent_rows T henv env user scope (e # es) w =
     (case recent_row T henv env user scope e w of
        (hit, w1) \<Rightarrow>
          (case recent_rows T henv env user scope es w1 of
             (hits, w2) \<Rightarrow> ((case hit of Some h \<Rightarrow> [h] | None \<Rightarrow> []) @ hits, w2)))"

datatype recent_error = RecentNarrow int | RecentJournal journal_error

definition core_Recent ::
  "'enc text_library \<Rightarrow> home_env \<Rightarrow> 'fs files_env \<Rightarrow> int \<Rightarrow> recent_query \<Rightarrow> 'fs world \<Rightarrow>
     (recent_error, recent_hit list) result \<times> 'fs world" where
  "core_Recent T henv env user q w =
     (if w_journal w = None then (Inr [], w)
      else (case Narrow (Unsigned 32) (Signed 64) user of
        None \<Rightarrow> (Inl (RecentNarrow user), w)
      | Some account \<Rightarrow>
          (case RecentSince T (w_journal w) account (rq_SinceNs q) (rq_Limit q) of
             Inl e \<Rightarrow> (Inl (RecentJournal e), w)
           | Inr events \<Rightarrow>
               (case recent_rows T henv env user (rq_Scope q) events w of (hits, w') \<Rightarrow> (Inr hits, w')))))"

section \<open>What a listing shows\<close>

lemma Resolve_permits:
  assumes "Resolve T henv user vp need c = (Inr r, c')"
  shows "r_user r = user" "bit need i \<Longrightarrow> permits (k_acl c') user (r_share r) (sf_comps (r_path r)) i"
proof -
  have r: "resolve_label T c' user vp need = Inr r" using assms by (auto simp: Resolve_def Let_def split: if_splits)
  show "r_user r = user" using resolve_label_Inr [OF r] by metis
  assume "bit need i"
  moreover have "Allowed (evaluateLocked (k_acl c') user (r_share r) (sf_comps (r_path r)) need)"
    using resolve_label_Inr [OF r] by metis
  ultimately show "permits (k_acl c') user (r_share r) (sf_comps (r_path r)) i"
    using evaluateLocked_allowed [of need] by (cases "need = 0") auto
qed

text \<open>An account whose home exists, or that has none to mint: resolving changes nothing.\<close>

definition settled :: "'enc text_library \<Rightarrow> home_env \<Rightarrow> int \<Rightarrow> core \<Rightarrow> bool" where
  "settled T henv user c \<longleftrightarrow> ensureHome T henv user c = c"

lemma Resolve_settled: "settled T henv user c \<Longrightarrow> snd (Resolve T henv user vp need c) = c"
  by (simp add: Resolve_def settled_def Let_def)

lemma recent_row_settled:
  assumes "settled T henv user (w_core w)" and "recent_row T henv env user scope e w = (hit, w1)"
  shows "w1 = w"
proof -
  have "Resolve T henv user vp Read (w_core w) = (fst (Resolve T henv user vp Read (w_core w)), w_core w)" for vp
    using Resolve_settled [OF assms(1)] by (metis prod.collapse)
  then have res: "c = w_core w" if "Resolve T henv user vp Read (w_core w) = (x, c)" for vp x c
    using that by (metis snd_conv)
  show ?thesis
  proof (cases "VpathFor T (w_core w) user (je_Share e) (je_Path e)")
    case (Inr vp)
    obtain x c where x: "Resolve T henv user vp Read (w_core w) = (x, c)" by (rule prod.exhaust)
    with assms(2) Inr res [OF x] show ?thesis by (auto simp: recent_row_def split: sum.splits if_splits)
  qed (use assms(2) in \<open>simp add: recent_row_def\<close>)
qed

lemma recent_row_hit:
  assumes "settled T henv user (w_core w)" and "recent_row T henv env user scope e w = (Some h, w1)"
  shows "rh_Subpath h = je_Path e \<and> rh_AtNs h = je_AtNs e \<and> rh_Op h = je_Op e \<and> pathInScope (vp_raw (rh_Vpath h)) scope \<and>
    (\<exists>r st. fst (Resolve T henv user (rh_Vpath h) Read (w_core w)) = Inr r \<and> r_user r = user \<and>
       permits (k_acl (w_core w)) user (r_share r) (sf_comps (r_path r)) 0 \<and>
       stat_at env r (r_path r) w = Inr st \<and> rh_Size h = st_Size st \<and> rh_MTimeNs h = st_MtimeNs st)"
proof -
  obtain vp where vp: "VpathFor T (w_core w) user (je_Share e) (je_Path e) = Inr vp" "pathInScope (vp_raw vp) scope"
    using assms(2) by (auto simp: recent_row_def split: sum.splits if_splits)
  obtain x c where x: "Resolve T henv user vp Read (w_core w) = (x, c)" by (rule prod.exhaust)
  then have c: "c = w_core w" using Resolve_settled [OF assms(1)] by (metis snd_conv)
  obtain r where r: "x = Inr r" using assms(2) vp x by (cases x) (auto simp: recent_row_def)
  have "permits (k_acl c) user (r_share r) (sf_comps (r_path r)) 0" "r_user r = user"
    using Resolve_permits(2) [OF x [unfolded r], of 0] Resolve_permits(1) [OF x [unfolded r]] by (simp_all add: Read_def)
  with assms(2) vp x r c show ?thesis by (auto simp: recent_row_def split: sum.splits)
qed

lemma recent_rows_settled:
  assumes "settled T henv user (w_core w)" and "recent_rows T henv env user scope es w = (hits, w1)"
  shows "w1 = w \<and> (\<forall>h\<in>set hits. \<exists>e\<in>set es. recent_row T henv env user scope e w = (Some h, w))"
  using assms(2)
proof (induction es arbitrary: hits w1)
  case (Cons e es)
  obtain hit w2 where row: "recent_row T henv env user scope e w = (hit, w2)" by (rule prod.exhaust)
  have w2: "w2 = w" by (rule recent_row_settled [OF assms(1) row])
  obtain hits' w3 where rest: "recent_rows T henv env user scope es w = (hits', w3)" by (rule prod.exhaust)
  from Cons.IH [OF rest] Cons.prems row rest w2 show ?case by (auto split: option.splits)
qed simp


text \<open>User 5 wrote a/x of share 3, which its root \<open>docs\<close> projects, and a file that is gone since.\<close>

definition recent_world :: "mem_fs world" where
  "recent_world = \<lparr>w_core = demo_core, w_fs = [((3, [''a'', ''x'']), Leaf ''hi'')],
     w_journal = Some \<lparr>jd_rows =
       [\<lparr>jr_rowid = 1, jr_user = 5, jr_share = 3, jr_path = ''a/x'', jr_op = ''upload'', jr_at = 7\<rparr>,
        \<lparr>jr_rowid = 2, jr_user = 5, jr_share = 3, jr_path = ''a/y'', jr_op = ''move'', jr_at = 9\<rparr>], jd_fails = False\<rparr>,
     w_dirty = []\<rparr>"

definition recent_ask :: recent_query where
  "recent_ask = \<lparr>rq_SinceNs = 0, rq_Limit = 10, rq_Scope = ''/docs/''\<rparr>"

definition recent_answer :: recent_hit where
  "recent_answer = \<lparr>rh_Vpath = Vpath ''docs/x'', rh_Share = ''docs'', rh_Subpath = SharePath ''a/x'', rh_Name = ''x'',
     rh_Size = 2, rh_MTimeNs = 0, rh_AtNs = 7, rh_Op = OpUpload\<rparr>"

lemma recent_demo: "fst (core_Recent latin1_library demo_env demo_files_env 5 recent_ask recent_world) = Inr [recent_answer]"
  by code_simp


end
