(* ===== verification/Sc_Base64.thy ===== *)
theory Sc_Base64
  imports Sc_Prelude
begin

text \<open>
  The unpadded URL alphabet of Go's \<open>encoding/base64\<close> (\<open>RawURLEncoding\<close>), as the trash uses it
  to keep a path in one name. The decoder skips line breaks, refuses a character outside the
  alphabet and a last group of one character, and does not look at the unused bits.
\<close>

definition b64_alphabet :: string where
  "b64_alphabet = ''ABCDEFGHIJKLMNOPQRSTUVWXYZabcdefghijklmnopqrstuvwxyz0123456789-_''"

definition b64_char :: "nat \<Rightarrow> char" where
  "b64_char n = b64_alphabet ! n"

definition b64_digit :: "char \<Rightarrow> nat option" where
  "b64_digit c = IndexByte c b64_alphabet"

fun b64_groups :: "nat list \<Rightarrow> nat list" where
  "b64_groups [] = []"
| "b64_groups [a] = [a div 4, a mod 4 * 16]"
| "b64_groups [a, b] = [a div 4, a mod 4 * 16 + b div 16, b mod 16 * 4]"
| "b64_groups (a # b # c # rest) =
     [a div 4, a mod 4 * 16 + b div 16, b mod 16 * 4 + c div 64, c mod 64] @ b64_groups rest"

definition EncodeToString :: "string \<Rightarrow> string" where
  "EncodeToString s = map b64_char (b64_groups (map of_char s))"

fun b64_bytes :: "nat list \<Rightarrow> nat list option" where
  "b64_bytes [] = Some []"
| "b64_bytes [x] = None"
| "b64_bytes [x, y] = Some [x * 4 + y div 16]"
| "b64_bytes [x, y, z] = Some [x * 4 + y div 16, y mod 16 * 16 + z div 4]"
| "b64_bytes (x # y # z # u # rest) =
     (case b64_bytes rest of
        None \<Rightarrow> None
      | Some bs \<Rightarrow> Some ([x * 4 + y div 16, y mod 16 * 16 + z div 4, z mod 4 * 64 + u] @ bs))"

fun b64_digits :: "string \<Rightarrow> nat list option" where
  "b64_digits [] = Some []"
| "b64_digits (c # cs) =
     (if c = CHR 0x0A \<or> c = CHR 0x0D then b64_digits cs
      else (case (b64_digit c, b64_digits cs) of (Some d, Some ds) \<Rightarrow> Some (d # ds) | _ \<Rightarrow> None))"

definition DecodeString :: "string \<Rightarrow> string option" where
  "DecodeString s =
     (case b64_digits s of
        None \<Rightarrow> None
      | Some ds \<Rightarrow> (case b64_bytes ds of None \<Rightarrow> None | Some bs \<Rightarrow> Some (map char_of bs)))"

section \<open>The round trip\<close>

lemma b64_groups_small: "\<forall>b\<in>set bs. b < 256 \<Longrightarrow> \<forall>d\<in>set (b64_groups bs). d < 64"
proof (induction bs rule: b64_groups.induct)
  case (4 a b c rest)
  then have "a < 256" "b < 256" "c < 256" by auto
  then have "a div 4 < 64" "b div 16 < 16" "c div 64 < 4" "a mod 4 < 4" "b mod 16 < 16" by simp_all
  then have "a mod 4 * 16 + b div 16 < 64" "b mod 16 * 4 + c div 64 < 64" by linarith+
  with 4 \<open>a div 4 < 64\<close> show ?case by auto
next
  case (3 a b)
  then have "a < 256" "b < 256" by auto
  then have "a div 4 < 64" "b div 16 < 16" "a mod 4 < 4" "b mod 16 < 16" by simp_all
  then show ?case by auto
qed auto

lemma pack:
  fixes x y k :: nat
  assumes "y < k"
  shows "(x * k + y) div k = x" "(x * k + y) mod k = y"
  using assms by simp_all

lemma b64_bytes_groups: "\<forall>b\<in>set bs. b < 256 \<Longrightarrow> b64_bytes (b64_groups bs) = Some bs"
proof (induction bs rule: b64_groups.induct)
  case (4 a b c rest)
  then have "b div 16 < 16" "c div 64 < 4" by auto
  note p = pack [OF this(1), of "a mod 4"] pack [OF this(2), of "b mod 16"] mod_less [OF this(1)] mod_less [OF this(2)]
  have "b64_bytes (b64_groups (a # b # c # rest)) =
      Some ([a div 4 * 4 + a mod 4, b div 16 * 16 + b mod 16, c div 64 * 64 + c mod 64] @ rest)"
    using 4 p by simp
  then show ?case by (simp only: div_mult_mod_eq append_Cons append_Nil)
next
  case (3 a b)
  then have "b div 16 < 16" by auto
  note p = pack [OF this, of "a mod 4"] mod_less [OF this]
  have "b64_bytes (b64_groups [a, b]) = Some [a div 4 * 4 + a mod 4, b div 16 * 16 + b mod 16]"
    using p by simp
  then show ?case by (simp only: div_mult_mod_eq)
next
  case (2 a)
  have "b64_bytes (b64_groups [a]) = Some [a div 4 * 4 + a mod 4]" by simp
  then show ?case by (simp only: div_mult_mod_eq)
qed simp

lemma b64_char_digit: "d < 64 \<Longrightarrow> b64_digit (b64_char d) = Some d"
proof -
  have "list_all (\<lambda>d. b64_digit (b64_char d) = Some d) [0..<64]" by code_simp
  then show "d < 64 \<Longrightarrow> b64_digit (b64_char d) = Some d" by (simp add: list_all_iff)
qed

lemma b64_char_plain: "d < 64 \<Longrightarrow> b64_char d \<notin> {CHR 0x0A, CHR 0x0D, CHR 0x00, CHR ''/'', CHR ''.'', CHR '' '', CHR '':''}"
proof -
  have "list_all (\<lambda>d. b64_char d \<notin> {CHR 0x0A, CHR 0x0D, CHR 0x00, CHR ''/'', CHR ''.'', CHR '' '', CHR '':''}) [0..<64]" by code_simp
  then show "d < 64 \<Longrightarrow> b64_char d \<notin> {CHR 0x0A, CHR 0x0D, CHR 0x00, CHR ''/'', CHR ''.'', CHR '' '', CHR '':''}" by (simp add: list_all_iff)
qed

lemma b64_digits_chars: "\<forall>d\<in>set ds. d < 64 \<Longrightarrow> b64_digits (map b64_char ds) = Some ds"
  using b64_char_plain by (induction ds) (auto simp: b64_char_digit)

lemma of_char_small: "\<forall>b\<in>set (map of_char s). b < (256 :: nat)"
  by auto

theorem DecodeString_EncodeToString: "DecodeString (EncodeToString s) = Some s"
proof -
  have "b64_digits (EncodeToString s) = Some (b64_groups (map of_char s))"
    unfolding EncodeToString_def by (rule b64_digits_chars [OF b64_groups_small [OF of_char_small]])
  then show ?thesis by (simp add: DecodeString_def b64_bytes_groups comp_def)
qed

lemma length_EncodeToString: "length (EncodeToString s) = (4 * length s + 2) div 3"
proof -
  have "length (b64_groups bs) = (4 * length bs + 2) div 3" for bs
    by (induction bs rule: b64_groups.induct) auto
  then show ?thesis by (simp add: EncodeToString_def)
qed

lemma EncodeToString_chars:
  "c \<in> set (EncodeToString s) \<Longrightarrow> c \<notin> {CHR 0x0A, CHR 0x0D, CHR 0x00, CHR ''/'', CHR ''.'', CHR '' '', CHR '':''}"
  using b64_groups_small [OF of_char_small] b64_char_plain unfolding EncodeToString_def by fastforce

end
