(* ===== verification/Sc_Trash.thy ===== *)
theory Sc_Trash
  imports Sc_Write Sc_Base64
begin

unbundle bit_operations_syntax

text \<open>
  Deleting through the trash: \<open>internal/files/trash.go\<close> and the \<open>Delete\<close> of \<open>write.go\<close> that
  chooses between the trash and the permanent delete, with the uncached measure of a subtree
  (\<open>treeBytes\<close> of \<open>quota.go\<close>). The random bytes of an entry id are an argument; no bytes stand
  for a random source that failed.
\<close>

section \<open>Entry names\<close>

definition trashDir :: string where "trashDir = ''.sctrash''"

definition hexLower :: "8 word list \<Rightarrow> string" where
  "hexLower bs = concat (map hex_byte bs)"

definition newTrashID :: "8 word list option \<Rightarrow> (files_error, string) result" where
  "newTrashID rnd = (case rnd of None \<Rightarrow> Inl ErrRandom | Some bs \<Rightarrow> Inr (hexLower (take 8 bs)))"

definition encodeOrigPath :: "safe_path \<Rightarrow> string" where
  "encodeOrigPath p = EncodeToString (SafePath_String p)"

definition decodeOrigPath :: "'enc text_library \<Rightarrow> string \<Rightarrow> safe_path option" where
  "decodeOrigPath T encoded =
     (case DecodeString encoded of
        None \<Rightarrow> None
      | Some raw \<Rightarrow> (case ParseSafePath T raw of Inl _ \<Rightarrow> None | Inr p \<Rightarrow> Some p))"

definition splitTrashName :: "string \<Rightarrow> (string \<times> string) option" where
  "splitTrashName name =
     (case Cut (CHR ''-'') name of (ident, rest, found) \<Rightarrow>
        if \<not> found \<or> ident = [] then None else Some (ident, rest))"

definition trashDisplayName :: "'enc text_library \<Rightarrow> string \<Rightarrow> string" where
  "trashDisplayName T rest = (case decodeOrigPath T rest of Some p \<Rightarrow> SafePath_Name p | None \<Rightarrow> rest)"

definition ctimeOrMtime :: "stat \<Rightarrow> int" where
  "ctimeOrMtime st = (case st_CtimeNs st of Some t \<Rightarrow> t | None \<Rightarrow> st_MtimeNs st)"

text \<open>The origin an entry name carries: its decoded path, or the legacy bare name; none is the root path.\<close>

definition orig_safe :: "'enc text_library \<Rightarrow> string \<Rightarrow> safe_path" where
  "orig_safe T rest =
     (case decodeOrigPath T rest of
        Some p \<Rightarrow> p
      | None \<Rightarrow> (case ParseSafePath T rest of Inr p \<Rightarrow> p | Inl _ \<Rightarrow> RootPath))"

section \<open>Moving into the trash\<close>

definition ensureTrashDir ::
  "'fs files_env \<Rightarrow> resolved \<Rightarrow> 'fs world \<Rightarrow> (files_error, safe_path) result \<times> 'fs world" where
  "ensureTrashDir env r w =
     (case JoinControl RootPath trashDir of
        Inl e \<Rightarrow> (Inl (ErrVfs (VPath e)), w)
      | Inr dir \<Rightarrow>
          (case drv_Mkdir (fe_driver env) (r_root r) dir (w_fs w) of (e, fs) \<Rightarrow>
             (case e of
                Some e' \<Rightarrow> if e' \<noteq> VExists then (Inl (mapVFSErr e'), w\<lparr>w_fs := fs\<rparr>) else (Inr dir, w\<lparr>w_fs := fs\<rparr>)
              | None \<Rightarrow> (Inr dir, w\<lparr>w_fs := fs\<rparr>))))"

definition trashMove ::
  "'fs files_env \<Rightarrow> 8 word list option \<Rightarrow> resolved \<Rightarrow> 'fs world \<Rightarrow> files_error option \<times> 'fs world" where
  "trashMove env rnd r w =
     (case ensureTrashDir env r w of
        (Inl e, w1) \<Rightarrow> (Some e, w1)
      | (Inr dir, w1) \<Rightarrow>
          (case newTrashID rnd of
             Inl e \<Rightarrow> (Some e, w1)
           | Inr ident \<Rightarrow>
               (case JoinControl dir (ident @ CHR ''-'' # encodeOrigPath (r_path r)) of
                  Inl e \<Rightarrow> (Some (ErrVfs (VPath e)), w1)
                | Inr entry \<Rightarrow>
                    (case drv_Rename (fe_driver env) (r_root r) (r_path r) entry True (w_fs w1) of
                       (Some e, fs) \<Rightarrow> (Some (mapVFSErr e), w1\<lparr>w_fs := fs\<rparr>)
                     | (None, fs) \<Rightarrow>
                         (None, markDirty (r_share r) entry (markDirty (r_share r) (r_path r) (w1\<lparr>w_fs := fs\<rparr>)))))))"

definition Delete_op ::
  "'fs files_env \<Rightarrow> 8 word list option \<Rightarrow> resolved \<Rightarrow> bool \<Rightarrow> 'fs world \<Rightarrow> files_error option \<times> 'fs world" where
  "Delete_op env rnd r permanent w =
     (case Require r Delete of
        Some e \<Rightarrow> (Some e, w)
      | None \<Rightarrow>
          (case stat_at env r (r_path r) w of
             Inl e \<Rightarrow> (Some (mapVFSErr e), w)
           | Inr st \<Rightarrow>
               if \<not> permanent \<and> (case shareEntry (w_core w) (r_share r) of Some e \<Rightarrow> SE_Trash e | None \<Rightarrow> False)
               then trashMove env rnd r w
               else deleteResolved env r st True Delete w))"

section \<open>Listing\<close>

record trash_entry =
  te_ID :: string
  te_Name :: string
  te_OrigPath :: string
  te_IsDir :: bool
  te_Size :: int
  te_DeletedAtNs :: int

definition trash_row ::
  "'enc text_library \<Rightarrow> 'fs files_env \<Rightarrow> resolved \<Rightarrow> safe_path \<Rightarrow> 'fs world \<Rightarrow> string \<Rightarrow> trash_entry option" where
  "trash_row T env r dir w name =
     (case splitTrashName name of
        None \<Rightarrow> None
      | Some (ident, rest) \<Rightarrow>
          (case JoinExisting dir name of
             Inl _ \<Rightarrow> None
           | Inr p \<Rightarrow>
               (case stat_at env r p w of
                  Inl _ \<Rightarrow> None
                | Inr st \<Rightarrow>
                    (let orig = orig_safe T rest;
                         row = \<lparr>te_ID = ident, te_Name = trashDisplayName T rest,
                                te_OrigPath = (case decodeOrigPath T rest of Some q \<Rightarrow> SafePath_String q | None \<Rightarrow> []),
                                te_IsDir = Kind_IsDir (st_Kind st), te_Size = st_Size st, te_DeletedAtNs = ctimeOrMtime st\<rparr>
                     in if r_user r \<noteq> 0 \<and> SafePath_String orig \<noteq> [] then
                          (if Allowed (evaluateLocked (k_acl (w_core w)) (r_user r) (r_share r) (aclPath orig) Read)
                           then Some row else None)
                        else if r_user r \<noteq> 0 \<and> \<not> SafePath_IsRoot (r_path r) then None
                        else Some row))))"

definition TrashList ::
  "'enc text_library \<Rightarrow> 'fs files_env \<Rightarrow> resolved \<Rightarrow> 'fs world \<Rightarrow> (files_error, trash_entry list) result" where
  "TrashList T env r w =
     (case Require r Read of
        Some e \<Rightarrow> Inl e
      | None \<Rightarrow>
          (case JoinControl RootPath trashDir of
             Inl e \<Rightarrow> Inl (ErrVfs (VPath e))
           | Inr dir \<Rightarrow>
               (case drv_ReadDir (fe_driver env) (r_root r) dir (w_fs w) of
                  Inl e \<Rightarrow> if e = VNotFound then Inr [] else Inl (mapVFSErr e)
                | Inr names \<Rightarrow> Inr (List.map_filter (trash_row T env r dir w) names))))"

section \<open>Restoring\<close>

definition requireTrash :: "resolved \<Rightarrow> 'fs world \<Rightarrow> files_error option" where
  "requireTrash r w =
     (case shareEntry (w_core w) (r_share r) of
        None \<Rightarrow> Some ErrTrashDisabled
      | Some e \<Rightarrow> if SE_Trash e then None else Some ErrTrashDisabled)"

fun find_entry :: "string \<Rightarrow> safe_path \<Rightarrow> string list \<Rightarrow> (files_error, safe_path \<times> string) result" where
  "find_entry ident dir [] = Inl ErrNotFound"
| "find_entry ident dir (name # names) =
     (case splitTrashName name of
        None \<Rightarrow> find_entry ident dir names
      | Some (got, rest) \<Rightarrow>
          if got \<noteq> ident then find_entry ident dir names
          else (case JoinExisting dir name of
            Inl e \<Rightarrow> Inl (mapVFSErr (VPath e))
          | Inr p \<Rightarrow> Inr (p, rest)))"

definition findTrashEntry ::
  "'fs files_env \<Rightarrow> resolved \<Rightarrow> string \<Rightarrow> 'fs world \<Rightarrow> (files_error, safe_path \<times> safe_path \<times> string) result" where
  "findTrashEntry env r ident w =
     (case JoinControl RootPath trashDir of
        Inl e \<Rightarrow> Inl (ErrVfs (VPath e))
      | Inr dir \<Rightarrow>
          (case drv_ReadDir (fe_driver env) (r_root r) dir (w_fs w) of
             Inl e \<Rightarrow> if e = VNotFound then Inl ErrNotFound else Inl (mapVFSErr e)
           | Inr names \<Rightarrow> bind_r (find_entry ident dir names) (\<lambda>(p, rest). Inr (dir, p, rest))))"

fun ensureDirRecursive ::
  "'fs files_env \<Rightarrow> resolved \<Rightarrow> safe_path \<Rightarrow> string list \<Rightarrow> 'fs world \<Rightarrow> files_error option \<times> 'fs world" where
  "ensureDirRecursive env r cur [] w = (None, w)"
| "ensureDirRecursive env r cur (cmp # comps) w =
     (case JoinExisting cur cmp of
        Inl e \<Rightarrow> (Some (ErrVfs (VPath e)), w)
      | Inr next \<Rightarrow>
          (case drv_Mkdir (fe_driver env) (r_root r) next (w_fs w) of (e, fs) \<Rightarrow>
             if e \<noteq> None \<and> e \<noteq> Some VExists then (map_option mapVFSErr e, w\<lparr>w_fs := fs\<rparr>)
             else ensureDirRecursive env r next comps (w\<lparr>w_fs := fs\<rparr>)))"

definition restore_dest :: "'enc text_library \<Rightarrow> string \<Rightarrow> safe_path option" where
  "restore_dest T rest =
     (case decodeOrigPath T rest of
        Some p \<Rightarrow> Some p
      | None \<Rightarrow> (case ParseSafePath T rest of Inr p \<Rightarrow> Some p | Inl _ \<Rightarrow> None))"

definition TrashRestore ::
  "'enc text_library \<Rightarrow> 'fs files_env \<Rightarrow> resolved \<Rightarrow> string \<Rightarrow> 'fs world \<Rightarrow>
     (files_error, safe_path) result \<times> 'fs world" where
  "TrashRestore T env r ident w =
     (case Require r Create of
        Some e \<Rightarrow> (Inl e, w)
      | None \<Rightarrow>
          (case requireTrash r w of
             Some e \<Rightarrow> (Inl e, w)
           | None \<Rightarrow>
               (case findTrashEntry env r ident w of
                  Inl e \<Rightarrow> (Inl e, w)
                | Inr (dir, entry, rest) \<Rightarrow>
                    (case restore_dest T rest of
                       None \<Rightarrow> (Inl ErrNotFound, w)
                     | Some dest \<Rightarrow>
                         if r_user r \<noteq> 0 \<and>
                            \<not> Allowed (evaluateLocked (k_acl (w_core w)) (r_user r) (r_share r) (aclPath dest) Create)
                         then (Inl ErrDenied, w)
                         else
                           (case ensureDirRecursive env r RootPath (sf_comps (SafePath_Parent dest)) w of
                              (Some e, w1) \<Rightarrow> (Inl e, w1)
                            | (None, w1) \<Rightarrow>
                                (case pathExists (\<lambda>p. stat_at env r p w1) dest of
                                   Inl e \<Rightarrow> (Inl e, w1)
                                 | Inr exists \<Rightarrow>
                                     if exists then (Inl ErrConflict, w1)
                                     else (case drv_Rename (fe_driver env) (r_root r) entry dest True (w_fs w1) of
                                       (Some e, fs) \<Rightarrow> (Inl (mapVFSErr e), w1\<lparr>w_fs := fs\<rparr>)
                                     | (None, fs) \<Rightarrow>
                                         (Inr dest, markDirty (r_share r) dir (markDirty (r_share r) dest (w1\<lparr>w_fs := fs\<rparr>))))))))))"

section \<open>Measuring\<close>

definition max_u64 :: int where "max_u64 = 18446744073709551615"

definition joinTreeChild :: "safe_path \<Rightarrow> string \<Rightarrow> (path_error, safe_path) result" where
  "joinTreeChild parent name = (if IsReservedName name then JoinControl parent name else JoinExisting parent name)"

lemma joinTreeChild_depth:
  "joinTreeChild p n = Inr q \<Longrightarrow> length (sf_comps p) < length (sf_comps q) \<and> length (sf_comps q) \<le> 256"
  by (auto simp: joinTreeChild_def JoinControl_def JoinExisting_def split: if_splits option.splits dest: push_Inr)

function treeBytes :: "'fs driver \<Rightarrow> share_root \<Rightarrow> safe_path \<Rightarrow> 'fs \<Rightarrow> (files_error, int) result"
  and tree_sum :: "'fs driver \<Rightarrow> share_root \<Rightarrow> safe_path \<Rightarrow> string list \<Rightarrow> int \<Rightarrow> 'fs \<Rightarrow> (files_error, int) result" where
  "treeBytes d root p fs =
     (case drv_Stat d root p fs of
        Inl e \<Rightarrow> Inl (mapVFSErr e)
      | Inr st \<Rightarrow>
          if \<not> Kind_IsDir (st_Kind st) then Inr (st_Size st)
          else (case drv_ReadDir d root p fs of
            Inl e \<Rightarrow> Inl (mapVFSErr e)
          | Inr names \<Rightarrow> tree_sum d root p names 0 fs))"
| "tree_sum d root p [] acc fs = Inr acc"
| "tree_sum d root p (name # names) acc fs =
     (case joinTreeChild p name of
        Inl e \<Rightarrow> Inl (mapVFSErr (VPath e))
      | Inr child \<Rightarrow>
          (case treeBytes d root child fs of
             Inl e \<Rightarrow> Inl e
           | Inr sz \<Rightarrow> if max_u64 - acc < sz then Inr max_u64 else tree_sum d root p names (acc + sz) fs))"
  by pat_completeness auto
termination
proof (relation "measures
    [\<lambda>x. case x of Inl (d, r, p, fs) \<Rightarrow> 256 - length (sf_comps p) | Inr (d, r, p, ns, a, fs) \<Rightarrow> 256 - length (sf_comps p),
     \<lambda>x. case x of Inl _ \<Rightarrow> 1 | Inr _ \<Rightarrow> 0,
     \<lambda>x. case x of Inl _ \<Rightarrow> 0 | Inr (d, r, p, ns, a, fs) \<Rightarrow> length ns]", goal_cases)
  case (3 d root p name names acc fs child)
  then show ?case using joinTreeChild_depth [of p name child] by (simp add: diff_less_mono2)
qed auto

declare treeBytes.simps [simp del]

section \<open>Purging\<close>

text \<open>What one purged directory freed: the measure before less the measure after.\<close>

definition freed_bytes :: "int \<Rightarrow> (files_error, int) result \<Rightarrow> int" where
  "freed_bytes before after =
     (case after of
        Inr a \<Rightarrow> if a \<le> before then before - a else 0
      | Inl e \<Rightarrow> if e = ErrNotFound then before else 0)"

text \<open>Whether the caller may purge an entry, by the delete permission at its origin.\<close>

definition may_purge :: "'enc text_library \<Rightarrow> resolved \<Rightarrow> core \<Rightarrow> string \<Rightarrow> bool" where
  "may_purge T r c name =
     (case splitTrashName name of
        None \<Rightarrow> True
      | Some (_, rest) \<Rightarrow>
          if r_user r = 0 then True
          else (let orig = orig_safe T rest in
            if SafePath_String orig \<noteq> []
            then Allowed (evaluateLocked (k_acl c) (r_user r) (r_share r) (aclPath orig) Delete)
            else SafePath_IsRoot (r_path r)))"

definition purge_one ::
  "'fs files_env \<Rightarrow> resolved \<Rightarrow> safe_path \<Rightarrow> string \<Rightarrow> 'fs world \<Rightarrow> files_error list \<times> 'fs world" where
  "purge_one env r dir name w =
     (case JoinExisting dir name of
        Inl e \<Rightarrow> ([ErrVfs (VPath e)], w)
      | Inr p \<Rightarrow>
          (case stat_at env r p w of
             Inl e \<Rightarrow> ([mapVFSErr e], w)
           | Inr st \<Rightarrow>
               (let credit = (\<lambda>freed w.
                  if freed > 0 then ledger (chargeQuota (fe_quota env) (r_user r) (int64Minus freed)) w else w) in
                if Kind_IsDir (st_Kind st) then
                  (let before = (case treeBytes (fe_driver env) (r_root r) p (w_fs w) of Inr t \<Rightarrow> t | Inl _ \<Rightarrow> 0) in
                   case deleteRecursive (fe_driver env) (w_core w) Delete (r\<lparr>r_path := p\<rparr>) (w_fs w) of (derr, fs) \<Rightarrow>
                     (case derr of Some e \<Rightarrow> [e] | None \<Rightarrow> [],
                      credit (freed_bytes before (treeBytes (fe_driver env) (r_root r) p fs)) (w\<lparr>w_fs := fs\<rparr>)))
                else
                  (case drv_Unlink (fe_driver env) (r_root r) p (w_fs w) of
                     (Some e, fs) \<Rightarrow> ([mapVFSErr e], w\<lparr>w_fs := fs\<rparr>)
                   | (None, fs) \<Rightarrow> ([], credit (st_Size st) (w\<lparr>w_fs := fs\<rparr>))))))"

fun purge_loop ::
  "'enc text_library \<Rightarrow> 'fs files_env \<Rightarrow> resolved \<Rightarrow> string option \<Rightarrow> safe_path \<Rightarrow> string list \<Rightarrow> files_error list \<Rightarrow>
     bool \<Rightarrow> 'fs world \<Rightarrow> (files_error, files_error list \<times> bool) result \<times> 'fs world" where
  "purge_loop T env r ident dir [] failures matched w = (Inr (failures, matched), w)"
| "purge_loop T env r ident dir (name # names) failures matched w =
     (if (case ident of Some i \<Rightarrow> \<not> HasPrefix name (i @ ''-'') | None \<Rightarrow> False)
      then purge_loop T env r ident dir names failures matched w
      else if \<not> may_purge T r (w_core w) name then
        (if ident \<noteq> None then (Inl ErrDenied, w) else purge_loop T env r ident dir names failures matched w)
      else (case purge_one env r dir name w of (errs, w1) \<Rightarrow>
        purge_loop T env r ident dir names (failures @ errs) True w1))"

text \<open>The joined failures of a purge; none is success.\<close>

definition TrashPurge ::
  "'enc text_library \<Rightarrow> 'fs files_env \<Rightarrow> resolved \<Rightarrow> string option \<Rightarrow> 'fs world \<Rightarrow> files_error list \<times> 'fs world" where
  "TrashPurge T env r ident w =
     (case Require r Delete of
        Some e \<Rightarrow> ([e], w)
      | None \<Rightarrow>
          (case requireTrash r w of
             Some e \<Rightarrow> ([e], w)
           | None \<Rightarrow>
               (case JoinControl RootPath trashDir of
                  Inl e \<Rightarrow> ([ErrVfs (VPath e)], w)
                | Inr dir \<Rightarrow>
                    (case drv_ReadDir (fe_driver env) (r_root r) dir (w_fs w) of
                       Inl e \<Rightarrow> if e = VNotFound then ([], w) else ([mapVFSErr e], w)
                     | Inr names \<Rightarrow>
                         (case purge_loop T env r ident dir names [] False w of
                            (Inl e, w1) \<Rightarrow> ([e], w1)
                          | (Inr (failures, matched), w1) \<Rightarrow>
                              (let w2 = markDirty (r_share r) dir w1 in
                               if failures = [] \<and> ident \<noteq> None \<and> \<not> matched then ([ErrNotFound], w2)
                               else (failures, w2)))))))"

section \<open>Trees\<close>

lemma moved_back:
  assumes "\<And>q. prefix dst q \<Longrightarrow> t share q = None" and "\<not> prefix src dst" and "\<not> prefix dst src"
  shows "moved share dst src (moved share src dst t) = t"
proof -
  have "(moved share dst src (moved share src dst t)) share q = t share q" for q
  proof (cases "prefix src q")
    case True
    then obtain z where z: "q = src @ z" by (auto simp: prefix_def)
    then show ?thesis by (simp add: moved_def)
  next
    case False
    then show ?thesis using assms by (simp add: moved_def)
  qed
  then show ?thesis by (auto simp: moved_def fun_eq_iff)
qed

lemma drv_Mkdir_law:
  assumes "posix d view" and "drv_Mkdir d r p fs = (e, fs')"
  shows "e = None \<Longrightarrow> view fs (SR_ID r) (sf_comps p) = None \<and> view fs' = put (SR_ID r) (sf_comps p) (Some Folder) (view fs)"
    "e \<noteq> None \<Longrightarrow> view fs' = view fs"
proof -
  have "case e of
      None \<Rightarrow> view fs (SR_ID r) (sf_comps p) = None \<and> view fs' = put (SR_ID r) (sf_comps p) (Some Folder) (view fs)
    | Some _ \<Rightarrow> view fs' = view fs"
    using assms unfolding posix_def posix_mkdir_def by blast
  then show "e = None \<Longrightarrow> view fs (SR_ID r) (sf_comps p) = None \<and> view fs' = put (SR_ID r) (sf_comps p) (Some Folder) (view fs)"
    "e \<noteq> None \<Longrightarrow> view fs' = view fs" by auto
qed

lemma drv_Rename_law:
  assumes "posix d view" and "drv_Rename d r src dst True fs = (e, fs')"
  shows "e = None \<Longrightarrow> view fs (SR_ID r) (sf_comps src) \<noteq> None \<and>
      (\<forall>q. prefix (sf_comps dst) q \<longrightarrow> view fs (SR_ID r) q = None) \<and>
      \<not> prefix (sf_comps src) (sf_comps dst) \<and> \<not> prefix (sf_comps dst) (sf_comps src) \<and>
      view fs' = moved (SR_ID r) (sf_comps src) (sf_comps dst) (view fs)"
    "e \<noteq> None \<Longrightarrow> view fs' = view fs"
proof -
  have "case e of
      None \<Rightarrow> view fs (SR_ID r) (sf_comps src) \<noteq> None \<and>
        (\<forall>q. prefix (sf_comps dst) q \<longrightarrow> view fs (SR_ID r) q = None) \<and>
        \<not> prefix (sf_comps src) (sf_comps dst) \<and> \<not> prefix (sf_comps dst) (sf_comps src) \<and>
        view fs' = moved (SR_ID r) (sf_comps src) (sf_comps dst) (view fs)
    | Some _ \<Rightarrow> view fs' = view fs"
    using assms unfolding posix_def posix_rename_def by blast
  then show "e = None \<Longrightarrow> view fs (SR_ID r) (sf_comps src) \<noteq> None \<and>
      (\<forall>q. prefix (sf_comps dst) q \<longrightarrow> view fs (SR_ID r) q = None) \<and>
      \<not> prefix (sf_comps src) (sf_comps dst) \<and> \<not> prefix (sf_comps dst) (sf_comps src) \<and>
      view fs' = moved (SR_ID r) (sf_comps src) (sf_comps dst) (view fs)"
    "e \<noteq> None \<Longrightarrow> view fs' = view fs" by auto
qed

section \<open>Entry names, again\<close>

lemma length_hex_byte [simp]: "length (hex_byte b) = 2"
  by (simp add: hex_byte_def)

lemma length_hexLower: "length (hexLower bs) = 2 * length bs"
  by (induction bs) (simp_all add: hexLower_def)

definition hex_alphabet :: string where "hex_alphabet = ''0123456789abcdef''"

lemma hex_byte_nth: "hex_byte b = [hex_alphabet ! unat (drop_bit 4 b), hex_alphabet ! unat (b AND 15)]"
  by (simp only: hex_byte_def hex_alphabet_def)

lemma length_hex_alphabet: "length hex_alphabet = 16"
  by (simp add: hex_alphabet_def)

lemma nibbles_small:
  fixes b :: "8 word"
  shows "unat (drop_bit 4 b) < 16" "unat (b AND 15) < 16"
proof -
  have "unat b < 256" using unsigned_less [of b, where 'a = nat] by simp
  moreover have "unat (drop_bit 4 b) = unat b div 16" by (simp only: unat_drop_bit_eq) (simp add: drop_bit_eq_div)
  ultimately show "unat (drop_bit 4 b) < 16" by simp
  have mask: "b AND 15 = take_bit 4 b" by (simp add: take_bit_eq_mask mask_eq_exp_minus_1)
  have "unat (take_bit 4 b) = take_bit 4 (unat b)" by (rule unsigned_take_bit_eq)
  also have "\<dots> < 2 ^ 4" by (rule take_bit_nat_less_exp)
  also have "(2 :: nat) ^ 4 = 16" by simp
  finally show "unat (b AND 15) < 16" unfolding mask .
qed

lemma hexLower_chars: "set (hexLower bs) \<subseteq> set hex_alphabet"
proof -
  have "set (hex_byte b) \<subseteq> set hex_alphabet" for b
    using nibbles_small [of b] by (auto simp: hex_byte_nth length_hex_alphabet intro!: nth_mem)
  then show ?thesis by (auto simp: hexLower_def)
qed

lemma hexLower_plain: "CHR ''-'' \<notin> set (hexLower bs)"
  using hexLower_chars [of bs] by (auto simp: hex_alphabet_def)

lemma trash_name_split:
  assumes "bs \<noteq> []"
  shows "splitTrashName (hexLower bs @ CHR ''-'' # enc) = Some (hexLower bs, enc)"
proof -
  have "Cut (CHR ''-'') (hexLower bs @ CHR ''-'' # enc) = (hexLower bs, enc, True)" by (rule Cut_found [OF hexLower_plain])
  moreover have "hexLower bs \<noteq> []" using assms length_hexLower [of bs] by auto
  ultimately show ?thesis by (simp add: splitTrashName_def)
qed

lemma decode_encode_orig:
  "ParseSafePath T (SafePath_String p) = Inr p \<Longrightarrow> decodeOrigPath T (encodeOrigPath p) = Some p"
  by (simp add: decodeOrigPath_def encodeOrigPath_def DecodeString_EncodeToString)

lemma trash_dir: "JoinControl RootPath trashDir = Inr (SafePath [trashDir])"
  by (simp add: JoinControl_def validateCreatable_def existingRulesExceptReserved_def validateExisting_def trashDir_def
      IsReservedName_def reservedPrefixes_def HasPrefix_def HasSuffix_def path_limits control_byte_def
      isWindowsDeviceName_def windowsReservedDeviceNames_def EqualFoldASCII_def push_def checkComponentCount_def RootPath_def Let_def nul_def)

lemma JoinControl_comps:
  "JoinControl p name = Inr q \<Longrightarrow> sf_comps q = sf_comps p @ [name] \<and> length name \<le> 255"
  by (auto simp: JoinControl_def validateCreatable_def existingRulesExceptReserved_def validateExisting_def path_limits
      split: option.splits if_splits path_error.splits dest: push_Inr)

section \<open>What the trash does to the tree\<close>

definition trash_on :: "'fs world \<Rightarrow> int \<Rightarrow> bool" where
  "trash_on w share \<longleftrightarrow> (case shareEntry (w_core w) share of Some e \<Rightarrow> SE_Trash e | None \<Rightarrow> False)"

lemma ensureTrashDir_effect:
  assumes "posix (fe_driver env) view" and "ensureTrashDir env r w = (res, w1)"
  shows "w_core w1 = w_core w" "res = Inr dir \<Longrightarrow> dir = SafePath [trashDir]"
    "(share, q) \<noteq> (SR_ID (r_root r), [trashDir]) \<Longrightarrow> view (w_fs w1) share q = view (w_fs w) share q"
proof -
  obtain e fs where mk: "drv_Mkdir (fe_driver env) (r_root r) (SafePath [trashDir]) (w_fs w) = (e, fs)" by (rule prod.exhaust)
  have w1: "w1 = w\<lparr>w_fs := fs\<rparr>" and "res = Inr dir \<Longrightarrow> dir = SafePath [trashDir]"
    using assms(2) by (auto simp: ensureTrashDir_def trash_dir mk split: option.splits if_splits)
  then show "w_core w1 = w_core w" "res = Inr dir \<Longrightarrow> dir = SafePath [trashDir]" by simp_all
  show "(share, q) \<noteq> (SR_ID (r_root r), [trashDir]) \<Longrightarrow> view (w_fs w1) share q = view (w_fs w) share q"
    using drv_Mkdir_law [OF assms(1) mk] w1 by (cases e) (auto simp: put_def)
qed

lemma trashMove_effect:
  assumes "posix (fe_driver env) view" and "trashMove env (Some bs) r w = (None, w1)"
  defines "name \<equiv> hexLower (take 8 bs) @ CHR ''-'' # encodeOrigPath (r_path r)"
  shows "\<exists>w0. ensureTrashDir env r w = (Inr (SafePath [trashDir]), w0) \<and> w_core w1 = w_core w \<and> length name \<le> 255 \<and>
    view (w_fs w0) (SR_ID (r_root r)) (sf_comps (r_path r)) \<noteq> None \<and>
    (\<forall>q. prefix [trashDir, name] q \<longrightarrow> view (w_fs w0) (SR_ID (r_root r)) q = None) \<and>
    \<not> prefix (sf_comps (r_path r)) [trashDir, name] \<and> \<not> prefix [trashDir, name] (sf_comps (r_path r)) \<and>
    view (w_fs w1) = moved (SR_ID (r_root r)) (sf_comps (r_path r)) [trashDir, name] (view (w_fs w0))"
proof -
  obtain res w0 where et: "ensureTrashDir env r w = (res, w0)" by (rule prod.exhaust)
  note eff = ensureTrashDir_effect [OF assms(1) et]
  from assms(2) obtain dir where res: "res = Inr dir" by (auto simp: trashMove_def et split: sum.splits)
  then have dir: "dir = SafePath [trashDir]" using eff(2) by blast
  from assms(2) obtain entry where en: "JoinControl (SafePath [trashDir]) name = Inr entry"
    by (auto simp: trashMove_def et res dir newTrashID_def name_def split: sum.splits)
  note comps = JoinControl_comps [OF en]
  obtain e fs where rn: "drv_Rename (fe_driver env) (r_root r) (r_path r) entry True (w_fs w0) = (e, fs)" by (rule prod.exhaust)
  have "e = None" "view (w_fs w1) = view fs" "w_core w1 = w_core w0"
    using assms(2) by (auto simp: trashMove_def et res dir newTrashID_def name_def [symmetric] en rn split: option.splits)
  with drv_Rename_law(1) [OF assms(1) rn] comps eff(1) res dir et show ?thesis by auto
qed

text \<open>Restoring recreates only parents that are missing.\<close>

lemma ensureDirRecursive_present:
  assumes "posix (fe_driver env) view"
    and "\<And>k. k \<le> length comps \<Longrightarrow> view (w_fs w) (SR_ID (r_root r)) (sf_comps cur @ take k comps) \<noteq> None"
    and "ensureDirRecursive env r cur comps w = (res, w1)"
  shows "view (w_fs w1) = view (w_fs w) \<and> w_core w1 = w_core w"
  using assms(2,3)
proof (induction comps arbitrary: cur w)
  case (Cons cmp comps)
  show ?case
  proof (cases "JoinExisting cur cmp")
    case (Inl e)
    with Cons.prems(2) show ?thesis by auto
  next
    case (Inr nxt)
    then have nx: "sf_comps nxt = sf_comps cur @ [cmp]" by (auto dest!: JoinExisting_Inr dest: push_Inr)
    obtain e fs where mk: "drv_Mkdir (fe_driver env) (r_root r) nxt (w_fs w) = (e, fs)" by (rule prod.exhaust)
    have "view (w_fs w) (SR_ID (r_root r)) (sf_comps nxt) \<noteq> None" using Cons.prems(1) [of 1] nx by simp
    with drv_Mkdir_law [OF assms(1) mk] have same: "view fs = view (w_fs w)" "e \<noteq> None" by auto
    show ?thesis
    proof (cases "e = Some VExists")
      case True
      have "ensureDirRecursive env r nxt comps (w\<lparr>w_fs := fs\<rparr>) = (res, w1)"
        using Cons.prems(2) Inr mk True by simp
      moreover have "view (w_fs (w\<lparr>w_fs := fs\<rparr>)) (SR_ID (r_root r)) (sf_comps nxt @ take k comps) \<noteq> None"
        if "k \<le> length comps" for k
        using Cons.prems(1) [of "Suc k"] that nx same(1) by simp
      ultimately show ?thesis using Cons.IH [of "w\<lparr>w_fs := fs\<rparr>" nxt] same(1) by simp
    next
      case False
      with Cons.prems(2) Inr mk same show ?thesis by auto
    qed
  qed
qed simp

lemma find_entry_Inr:
  "find_entry ident dir names = Inr (p, rest) \<Longrightarrow>
     \<exists>n\<in>set names. splitTrashName n = Some (ident, rest) \<and> sf_comps p = sf_comps dir @ [n]"
  by (induction names) (auto split: option.splits if_splits sum.splits dest!: JoinExisting_Inr dest: push_Inr)

section \<open>Properties\<close>

lemma TrashRestore_Inr:
  assumes "TrashRestore T env r ident w = (Inr dest, w2)"
  shows "\<exists>dir entry rest w1 fs. findTrashEntry env r ident w = Inr (dir, entry, rest) \<and> restore_dest T rest = Some dest \<and>
    ensureDirRecursive env r RootPath (sf_comps (SafePath_Parent dest)) w = (None, w1) \<and>
    drv_Rename (fe_driver env) (r_root r) entry dest True (w_fs w1) = (None, fs) \<and>
    w_fs w2 = fs \<and> w_core w2 = w_core w1"
  using assms
  by (auto simp: TrashRestore_def split: option.splits sum.splits prod.splits if_splits)

lemma findTrashEntry_Inr:
  assumes "findTrashEntry env r ident w = Inr (dir, entry, rest)"
  shows "\<exists>names n. drv_ReadDir (fe_driver env) (r_root r) (SafePath [trashDir]) (w_fs w) = Inr names \<and> n \<in> set names \<and>
    splitTrashName n = Some (ident, rest) \<and> sf_comps entry = [trashDir, n]"
proof -
  from assms obtain names where names: "drv_ReadDir (fe_driver env) (r_root r) (SafePath [trashDir]) (w_fs w) = Inr names"
    "find_entry ident (SafePath [trashDir]) names = Inr (entry, rest)"
    by (auto simp: findTrashEntry_def trash_dir bind_r_eq_Inr split: sum.splits if_splits)
  from find_entry_Inr [OF names(2)] names(1) show ?thesis by auto
qed

lemma client_path_not_trash: "path_ok p \<Longrightarrow> \<not> prefix [trashDir] (sf_comps p)"
  by (cases "sf_comps p") (auto simp: path_ok_def ok_component_def trashDir_def IsReservedName_def reservedPrefixes_def)

text \<open>
  C23. Restoring undoes a delete. When a delete through the trash succeeds, restoring the entry it
  minted puts the path and everything below it back where they were: every name of every share
  shows what it showed before, the trash directory itself apart, and no account is charged or
  credited on the way.
\<close>
theorem restore_undoes_delete:
  assumes "posix (fe_driver env) view" and "closed_tree (view (w_fs w))"
    and "path_ok (r_path r)" and "\<not> SafePath_IsRoot (r_path r)"
    and "ParseSafePath T (SafePath_String (r_path r)) = Inr (r_path r)"
    and "bs \<noteq> []" and "trash_on w (r_share r)"
    and fresh: "\<And>n rest. view (w_fs w) (SR_ID (r_root r)) [trashDir, n] \<noteq> None \<Longrightarrow>
                  splitTrashName n \<noteq> Some (hexLower (take 8 bs), rest)"
    and del: "Delete_op env (Some bs) r False w = (None, w1)"
    and res: "TrashRestore T env r (hexLower (take 8 bs)) w1 = (Inr dest, w2)"
  shows "dest = r_path r \<and> k_db (w_core w2) = k_db (w_core w) \<and>
    (\<forall>share q. (share, q) \<noteq> (SR_ID (r_root r), [trashDir]) \<longrightarrow> view (w_fs w2) share q = view (w_fs w) share q)"
proof -
  let ?s = "SR_ID (r_root r)" and ?p = "sf_comps (r_path r)"
  let ?name = "hexLower (take 8 bs) @ CHR ''-'' # encodeOrigPath (r_path r)"
  have "trashMove env (Some bs) r w = (None, w1)"
    using del assms(7) by (auto simp: Delete_op_def trash_on_def split: option.splits sum.splits)
  from trashMove_effect [OF assms(1) this] obtain w0 where
    et: "ensureTrashDir env r w = (Inr (SafePath [trashDir]), w0)" and core1: "w_core w1 = w_core w" and
    there: "view (w_fs w0) ?s ?p \<noteq> None" and free: "\<And>q. prefix [trashDir, ?name] q \<Longrightarrow> view (w_fs w0) ?s q = None" and
    apart: "\<not> prefix ?p [trashDir, ?name]" "\<not> prefix [trashDir, ?name] ?p" and
    v1: "view (w_fs w1) = moved ?s ?p [trashDir, ?name] (view (w_fs w0))" by blast
  note v0 = ensureTrashDir_effect(3) [OF assms(1) et]
  obtain dir entry rest w1' fs where fe: "findTrashEntry env r (hexLower (take 8 bs)) w1 = Inr (dir, entry, rest)"
    and rd: "restore_dest T rest = Some dest"
    and ed: "ensureDirRecursive env r RootPath (sf_comps (SafePath_Parent dest)) w1 = (None, w1')"
    and rn: "drv_Rename (fe_driver env) (r_root r) entry dest True (w_fs w1') = (None, fs)"
    and w2: "w_fs w2 = fs" "w_core w2 = w_core w1'"
    using TrashRestore_Inr [OF res] by blast
  obtain names n where ls: "drv_ReadDir (fe_driver env) (r_root r) (SafePath [trashDir]) (w_fs w1) = Inr names" "n \<in> set names"
    and n: "splitTrashName n = Some (hexLower (take 8 bs), rest)" and en: "sf_comps entry = [trashDir, n]"
    using findTrashEntry_Inr [OF fe] by blast
  have "view (w_fs w1) ?s [trashDir, n] \<noteq> None"
    using assms(1) ls unfolding posix_def posix_readdir_def by (metis (mono_tags, lifting) append_Cons append_Nil mem_Collect_eq safe_path.sel)
  then have "n = ?name"
    using fresh [of n rest] n v0 [of ?s "[trashDir, n]"] by (auto simp: v1 moved_def split: if_splits)
  then have rest: "rest = encodeOrigPath (r_path r)" using n trash_name_split [of "take 8 bs"] assms(6) by (cases bs) auto
  then have dest: "dest = r_path r" using rd decode_encode_orig [OF assms(5)] by (simp add: restore_dest_def)
  have out: "\<not> prefix [trashDir] ?p" using client_path_not_trash [OF assms(3)] .
  have p0: "view (w_fs w) ?s ?p \<noteq> None" using there v0 [of ?s ?p] out by (cases "?p = [trashDir]") auto
  have parents: "view (w_fs w1) ?s (take k ?p) \<noteq> None" if "k < length ?p" for k
  proof -
    have sp: "prefix (take k ?p) ?p" "length (take k ?p) < length ?p" using that by (simp_all add: take_is_prefix)
    then have "view (w_fs w) ?s (take k ?p) = Some Folder"
      using closed_tree_prefix [OF assms(2) p0] by (auto simp: strict_prefix_def)
    moreover have "take k ?p \<noteq> [trashDir]" using sp(1) out by metis
    moreover have "\<not> prefix [trashDir, ?name] (take k ?p)" using apart(2) sp(1) prefix_order.trans by blast
    moreover have "\<not> prefix ?p (take k ?p)" using sp(2) prefix_length_le by fastforce
    ultimately show ?thesis using v0 [of ?s "take k ?p"] by (auto simp: v1 moved_def)
  qed
  have "view (w_fs w1') = view (w_fs w1) \<and> w_core w1' = w_core w1"
  proof (rule ensureDirRecursive_present [OF assms(1) _ ed])
    fix k assume "k \<le> length (sf_comps (SafePath_Parent dest))"
    then have "sf_comps RootPath @ take k (sf_comps (SafePath_Parent dest)) = take (min k (length ?p - 1)) ?p" "min k (length ?p - 1) < length ?p"
      using assms(4) by (auto simp: dest SafePath_Parent_def SafePath_IsRoot_def RootPath_def butlast_conv_take min_def)
        (metis Suc_pred length_greater_0_conv less_Suc_eq_le)+
    then show "view (w_fs w1) ?s (sf_comps RootPath @ take k (sf_comps (SafePath_Parent dest))) \<noteq> None"
      using parents by metis
  qed
  then have "view (w_fs w2) = moved ?s [trashDir, ?name] ?p (moved ?s ?p [trashDir, ?name] (view (w_fs w0)))" "w_core w2 = w_core w"
    using drv_Rename_law(1) [OF assms(1) rn] w2 en \<open>n = ?name\<close> dest v1 core1 by auto
  with moved_back [of "[trashDir, ?name]" "view (w_fs w0)" ?s ?p] free apart have "view (w_fs w2) = view (w_fs w0)" by metis
  with v0 dest \<open>w_core w2 = w_core w\<close> show ?thesis by auto
qed

text \<open>
  C24. A permanent delete removes only what the caller may delete, and all of it or it says so.
  Whatever it returns, a name that vanished is the target or stands below it at a path where the
  delete permission is effective, the caller held it at the target, and every other name shows
  what it showed. When it reports success nothing is left at or below the target.
\<close>
theorem delete_within_authority:
  assumes "posix (fe_driver env) view" and "closed_tree (view (w_fs w))"
    and "permanent \<or> \<not> trash_on w (r_share r)"
    and "Delete_op env rnd r permanent w = (res, w')"
  shows "shrinks (at_or_below (w_core w) Delete r) (view (w_fs w)) (view (w_fs w')) \<and>
    (view (w_fs w') \<noteq> view (w_fs w) \<longrightarrow> Has (r_perms r) Delete) \<and>
    (res = None \<longrightarrow> (\<forall>q. prefix (sf_comps (r_path r)) q \<longrightarrow> view (w_fs w') (SR_ID (r_root r)) q = None))"
proof (cases "Require r Delete = None \<and> (\<exists>st. stat_at env r (r_path r) w = Inr st)")
  case False
  then have "w' = w" "res \<noteq> None" using assms(4) by (auto simp: Delete_op_def split: option.splits sum.splits dest: sym)
  then show ?thesis by auto
next
  case True
  then obtain st where st: "stat_at env r (r_path r) w = Inr st" and has: "Has (r_perms r) Delete"
    by (auto simp: Require_def split: if_splits)
  have run: "deleteResolved env r st True Delete w = (res, w')"
    using assms(3,4) True st by (auto simp: Delete_op_def trash_on_def split: option.splits)
  have law: "posix_remove (fe_driver env) view" using assms(1) by (simp add: posix_def)
  show ?thesis
  proof (cases "Kind_IsDir (st_Kind st)")
    case True
    obtain e fs where del: "deleteRecursive (fe_driver env) (w_core w) Delete r (w_fs w) = (e, fs)" by (rule prod.exhaust)
    have sh: "shrinks (at_or_below (w_core w) Delete r) (view (w_fs w)) (view fs)"
      using deleteRecursive_shrinks(1) [OF law, where c = "w_core w" and authority = Delete and r = r and fs = "w_fs w"]
      by (simp only: del snd_conv)
    have gone: "e = None \<Longrightarrow> prefix (sf_comps (r_path r)) q \<Longrightarrow> view fs (SR_ID (r_root r)) q = None" for q
      using deleteRecursive_complete [OF law] del by blast
    consider "w_fs w' = w_fs w" "res \<noteq> None" | "w_fs w' = fs" "res = e"
      using run True del by (auto simp: deleteResolved_def Let_def split: sum.splits option.splits)
    then show ?thesis
    proof cases
      case 1
      then show ?thesis by auto
    next
      case 2
      show ?thesis unfolding 2 by (intro conjI impI allI sh has gone)
    qed
  next
    case False
    obtain e fs where del: "drv_Unlink (fe_driver env) (r_root r) (r_path r) (w_fs w) = (e, fs)" by (rule prod.exhaust)
    have w': "w_fs w' = fs" "res = map_option mapVFSErr e"
      using run False del by (auto simp: deleteResolved_def Let_def split: option.splits)
    show ?thesis
    proof (cases e)
      case None
      note un = drv_Unlink_law(1) [OF law del None]
      have "view (w_fs w) (SR_ID (r_root r)) q = None" if "strict_prefix (sf_comps (r_path r)) q" for q
        using un closed_tree_prefix [OF assms(2) _ that, of "SR_ID (r_root r)"] by (cases "view (w_fs w) (SR_ID (r_root r)) q") auto
      then have "view fs (SR_ID (r_root r)) q = None" if "prefix (sf_comps (r_path r)) q" for q
        using un that by (cases "q = sf_comps (r_path r)") (simp_all add: put_def strict_prefix_def)
      moreover have "shrinks (at_or_below (w_core w) Delete r) (view (w_fs w)) (view fs)"
        using un shrinks_put [of "at_or_below (w_core w) Delete r" "SR_ID (r_root r)" "sf_comps (r_path r)"] by simp
      ultimately show ?thesis unfolding w'(1) by (intro conjI impI allI has)
    next
      case (Some e')
      then have "view fs = view (w_fs w)" "res \<noteq> None" using w' drv_Unlink_law(2) [OF law del] by simp_all
      with w' show ?thesis by auto
    qed
  qed
qed

text \<open>
  A path too long for its own trash name cannot be deleted: on a share with trash, a delete
  that does not ask to be permanent never succeeds for a path of more than 178 bytes, since the
  name of the trash entry carries the whole path in base64 and no name is longer than 255 bytes.
\<close>
theorem trash_refuses_long_paths:
  assumes "posix (fe_driver env) view" and "trash_on w (r_share r)" and "length bs = 8"
    and "178 < length (SafePath_String (r_path r))"
  shows "fst (Delete_op env (Some bs) r False w) \<noteq> None"
proof
  assume ok: "fst (Delete_op env (Some bs) r False w) = None"
  then obtain w1 where "Delete_op env (Some bs) r False w = (None, w1)" by (metis prod.collapse)
  then have "trashMove env (Some bs) r w = (None, w1)"
    using assms(2) by (auto simp: Delete_op_def trash_on_def split: option.splits sum.splits)
  from trashMove_effect [OF assms(1) this]
  have "length (hexLower bs @ CHR ''-'' # encodeOrigPath (r_path r)) \<le> 255" using assms(3) by auto
  with assms(3,4) show False by (simp add: length_hexLower encodeOrigPath_def length_EncodeToString)
qed

section \<open>A share with a protected folder\<close>

text \<open>User 5 may do everything on share 3 except delete inside a/keep; the share keeps a trash.\<close>

definition kept_acl :: acl_tables where
  "kept_acl = load_tables
     [\<lparr>g_ID = 1, g_User = 5, g_Group = 0, g_Share = 3, g_Subpath = [], g_Allow = 255, g_Deny = 0, g_Inherit = True,
       g_Label = [], g_CreatedNs = 0\<rparr>,
      \<lparr>g_ID = 2, g_User = 5, g_Group = 0, g_Share = 3, g_Subpath = [''a'', ''keep''], g_Allow = 0, g_Deny = Delete,
       g_Inherit = True, g_Label = [], g_CreatedNs = 0\<rparr>] []"

definition kept_core :: core where
  "kept_core = \<lparr>k_db = empty_db, k_acl = kept_acl, k_shares = [(3, demo_entry\<lparr>SE_Trash := True\<rparr>)]\<rparr>"

definition kept_world :: "mem_fs world" where
  "kept_world = \<lparr>w_core = kept_core,
     w_fs = [((3, []), Folder), ((3, [''a'']), Folder), ((3, [''a'', ''keep'']), Folder),
             ((3, [''a'', ''keep'', ''f'']), Leaf ''x'')],
     w_journal = None, w_dirty = []\<rparr>"

definition kept_target :: resolved where
  "kept_target = \<lparr>r_user = 5, r_share = 3, r_root = demo_root, r_path = SafePath [''a''], r_perms = 255\<rparr>"

definition kept_env :: "mem_fs files_env" where
  "kept_env = \<lparr>fe_driver = mem_driver, fe_quota = None, fe_now = 0, fe_sum256 = (\<lambda>_. []),
     fe_rsize = (\<lambda>_ _ _. Inr 1)\<rparr>"

definition trashed_name :: string where "trashed_name = ''0000000000000000-YQ''"

definition trashed_world :: "mem_fs world" where
  "trashed_world = \<lparr>w_core = kept_core,
     w_fs = [((3, [trashDir]), Folder), ((3, []), Folder), ((3, [trashDir, trashed_name]), Folder),
        ((3, [trashDir, trashed_name, ''keep'']), Folder), ((3, [trashDir, trashed_name, ''keep'', ''f'']), Leaf ''x'')],
     w_journal = None, w_dirty = [(3, RootPath), (3, SafePath [trashDir])]\<rparr>"

lemma kept_denied: "\<not> Allowed (evaluateLocked kept_acl 5 3 [''a'', ''keep'', ''f''] Delete)"
  by code_simp

lemma kept_permanent:
  "(case Delete_op kept_env None kept_target True kept_world of (e, w) \<Rightarrow> (e, w_fs w)) = (Some ErrDenied, w_fs kept_world)"
  by code_simp

lemma kept_trashed_parts:
  "(case Delete_op kept_env (Some (replicate 8 0)) kept_target False kept_world of (e, w) \<Rightarrow> (e, w_fs w, w_journal w, w_dirty w)) =
     (None, w_fs trashed_world, w_journal trashed_world, w_dirty trashed_world)"
  by code_simp

lemma kept_trashed: "Delete_op kept_env (Some (replicate 8 0)) kept_target False kept_world = (None, trashed_world)"
proof -
  obtain e w1 where run: "Delete_op kept_env (Some (replicate 8 0)) kept_target False kept_world = (e, w1)" by (rule prod.exhaust)
  have parts: "e = None" "w_fs w1 = w_fs trashed_world" "w_journal w1 = w_journal trashed_world" "w_dirty w1 = w_dirty trashed_world"
    using kept_trashed_parts unfolding run by simp_all
  have tr: "trash_on kept_world (r_share kept_target)"
    by (simp add: trash_on_def kept_world_def kept_core_def kept_target_def shareEntry_def)
  have "trashMove kept_env (Some (replicate 8 0)) kept_target kept_world = (None, w1)"
    using run parts(1) tr by (auto simp: Delete_op_def trash_on_def split: option.splits sum.splits)
  moreover have "posix (fe_driver kept_env) mem_view" using mem_posix by (simp add: kept_env_def)
  ultimately have "w_core w1 = w_core kept_world" using trashMove_effect by blast
  then have "w1 = trashed_world" using parts(2-4) by (intro world.equality) (simp_all add: kept_world_def trashed_world_def)
  with run parts(1) show ?thesis by simp
qed

lemma kept_purged_one:
  "(case purge_one kept_env kept_target (SafePath [trashDir]) trashed_name trashed_world of (e, w) \<Rightarrow> (e, w_fs w)) =
     ([], [((3, [trashDir]), Folder), ((3, []), Folder)])"
  by code_simp

lemma kept_may_purge: "may_purge latin1_library kept_target kept_core trashed_name"
  by code_simp

lemma kept_listing:
  "drv_ReadDir (fe_driver kept_env) (r_root kept_target) (SafePath [trashDir]) (w_fs trashed_world) = Inr [trashed_name]"
  by code_simp

lemma kept_require: "Require kept_target Delete = None" "requireTrash kept_target trashed_world = None"
  "HasPrefix trashed_name (''0000000000000000'' @ ''-'')"
  by code_simp+

text \<open>
  C25. The trash walks around a protected folder. A caller who is denied deletion inside a folder,
  and whose permanent delete of the folder's parent is therefore refused with nothing removed,
  can delete the parent into the trash and purge that entry: both calls succeed and the
  protected files are gone for good, because the purge asks for the permission at the place the
  entry has in the trash and not where its files came from.
\<close>
theorem trash_bypasses_deny:
  "\<exists>w w1 w2 w3. \<not> Allowed (evaluateLocked (k_acl (w_core w)) 5 3 [''a'', ''keep'', ''f''] Delete) \<and>
     mem_view (w_fs w) 3 [''a'', ''keep'', ''f''] = Some (Leaf ''x'') \<and>
     Delete_op kept_env None kept_target True w = (Some ErrDenied, w1) \<and> mem_view (w_fs w1) = mem_view (w_fs w) \<and>
     Delete_op kept_env (Some (replicate 8 0)) kept_target False w = (None, w2) \<and>
     TrashPurge latin1_library kept_env kept_target (Some ''0000000000000000'') w2 = ([], w3) \<and>
     (\<forall>q s. mem_view (w_fs w3) 3 q \<noteq> Some (Leaf s))"
proof -
  obtain e1 w1 where perm: "Delete_op kept_env None kept_target True kept_world = (e1, w1)" by (rule prod.exhaust)
  obtain e2 w2 where one: "purge_one kept_env kept_target (SafePath [trashDir]) trashed_name trashed_world = (e2, w2)"
    by (rule prod.exhaust)
  have p: "e1 = Some ErrDenied" "w_fs w1 = w_fs kept_world" using kept_permanent unfolding perm by simp_all
  have o: "e2 = []" "w_fs w2 = [((3, [trashDir]), Folder), ((3, []), Folder)]" using kept_purged_one unfolding one by simp_all
  have may: "may_purge latin1_library kept_target (w_core trashed_world) trashed_name"
    using kept_may_purge by (simp add: trashed_world_def)
  have purge: "TrashPurge latin1_library kept_env kept_target (Some ''0000000000000000'') trashed_world =
      ([], markDirty (r_share kept_target) (SafePath [trashDir]) w2)"
    using kept_require kept_listing may one o(1) by (simp add: TrashPurge_def trash_dir Let_def)
  have gone: "mem_view (w_fs w2) 3 q \<noteq> Some (Leaf s)" for q s by (simp add: o(2) mem_view_def)
  have acl: "\<not> Allowed (evaluateLocked (k_acl (w_core kept_world)) 5 3 [''a'', ''keep'', ''f''] Delete)"
    using kept_denied by (simp add: kept_world_def kept_core_def)
  show ?thesis
    by (rule exI [of _ kept_world], rule exI [of _ w1], rule exI [of _ trashed_world], rule exI)
      (use acl perm p kept_trashed purge gone in \<open>auto simp: mem_view_def kept_world_def\<close>)
qed

section \<open>Concrete runs of the properties\<close>

lemma mem_closed:
  assumes "list_all (\<lambda>e. snd (fst e) = [] \<or> map_of fs (fst (fst e), butlast (snd (fst e))) = Some Folder) fs"
  shows "closed_tree (mem_view fs)"
  unfolding closed_tree_def mem_view_def
proof (intro allI impI)
  fix share p n
  assume "map_of fs (share, p @ [n]) \<noteq> None"
  then obtain e where "e \<in> set fs" "fst e = (share, p @ [n])" unfolding mem_in_dom by force
  with assms show "map_of fs (share, p) = Some Folder" by (auto simp: list_all_iff)
qed

lemma kept_closed: "closed_tree (mem_view (w_fs kept_world))"
  by (rule mem_closed) code_simp

lemma kept_posix: "posix (fe_driver kept_env) mem_view"
  using mem_posix by (simp add: kept_env_def)

lemma kept_trash_on: "trash_on kept_world (r_share kept_target)"
  by (simp add: trash_on_def kept_world_def kept_core_def kept_target_def shareEntry_def)

lemma kept_no_authority: "\<not> Has (effectiveLocked (k_acl (w_core kept_world)) 5 3 [''a'', ''keep'', ''f'']) Delete"
  by code_simp

theorem delete_within_authority_witness:
  "\<exists>res w'. Delete_op kept_env None kept_target True kept_world = (res, w') \<and>
     mem_view (w_fs w') 3 [''a'', ''keep'', ''f''] = mem_view (w_fs kept_world) 3 [''a'', ''keep'', ''f'']"
proof -
  obtain res w' where run: "Delete_op kept_env None kept_target True kept_world = (res, w')" by (rule prod.exhaust)
  have "shrinks (at_or_below (w_core kept_world) Delete kept_target) (mem_view (w_fs kept_world)) (mem_view (w_fs w'))"
    using delete_within_authority [OF kept_posix kept_closed _ run] by blast
  moreover have "\<not> at_or_below (w_core kept_world) Delete kept_target 3 [''a'', ''keep'', ''f'']"
    using kept_no_authority by (simp add: removable_def kept_target_def)
  ultimately have "mem_view (w_fs w') 3 [''a'', ''keep'', ''f''] = mem_view (w_fs kept_world) 3 [''a'', ''keep'', ''f'']"
    unfolding shrinks_def by blast
  with run show ?thesis by blast
qed

theorem trash_refuses_long_paths_witness:
  "fst (Delete_op kept_env (Some (replicate 8 0)) (kept_target\<lparr>r_path := SafePath [replicate 179 (CHR ''x'')]\<rparr>) False kept_world) \<noteq> None"
proof (rule trash_refuses_long_paths [OF kept_posix])
  show "trash_on kept_world (r_share (kept_target\<lparr>r_path := SafePath [replicate 179 (CHR ''x'')]\<rparr>))" using kept_trash_on by simp
qed (simp_all add: SafePath_String_def)

lemma kept_restored:
  "fst (TrashRestore latin1_library kept_env kept_target ''0000000000000000'' trashed_world) = Inr (SafePath [''a''])"
  by code_simp

lemma kept_fresh: "mem_view (w_fs kept_world) 3 [trashDir, n] = None"
  by (simp add: mem_view_def kept_world_def trashDir_def)

lemma kept_path: "path_ok (r_path kept_target)" "\<not> SafePath_IsRoot (r_path kept_target)"
  "ParseSafePath latin1_library (SafePath_String (r_path kept_target)) = Inr (r_path kept_target)"
  "SR_ID (r_root kept_target) = 3" "r_share kept_target = 3"
  by (simp_all add: kept_target_def demo_root_def path_ok_def ok_component_def SafePath_IsRoot_def SafePath_String_def
      path_eval_simps)

lemma zero_id: "hexLower (take 8 (replicate 8 0)) = ''0000000000000000''"
  by code_simp

theorem restore_undoes_delete_witness:
  "\<exists>w1 w2. Delete_op kept_env (Some (replicate 8 0)) kept_target False kept_world = (None, w1) \<and>
     mem_view (w_fs w1) 3 [''a'', ''keep'', ''f''] = None \<and>
     TrashRestore latin1_library kept_env kept_target ''0000000000000000'' w1 = (Inr (SafePath [''a'']), w2) \<and>
     mem_view (w_fs w2) 3 [''a'', ''keep'', ''f''] = Some (Leaf ''x'')"
proof -
  obtain w2 where res: "TrashRestore latin1_library kept_env kept_target ''0000000000000000'' trashed_world = (Inr (SafePath [''a'']), w2)"
    using kept_restored by (metis prod.collapse)
  have "\<forall>share q. (share, q) \<noteq> (SR_ID (r_root kept_target), [trashDir]) \<longrightarrow>
      mem_view (w_fs w2) share q = mem_view (w_fs kept_world) share q"
    using restore_undoes_delete [OF kept_posix kept_closed kept_path(1-3) _ kept_trash_on _ kept_trashed res [folded zero_id]]
      kept_fresh kept_path(4) by auto
  then have "mem_view (w_fs w2) 3 [''a'', ''keep'', ''f''] = mem_view (w_fs kept_world) 3 [''a'', ''keep'', ''f'']" by simp
  also have "\<dots> = Some (Leaf ''x'')" by (simp add: mem_view_def kept_world_def)
  finally show ?thesis using kept_trashed res by (auto simp: mem_view_def trashed_world_def trashDir_def)
qed

text \<open>The same share with a deletable file listed before the protected folder, and one byte on the account.\<close>

definition partial_world :: "mem_fs world" where
  "partial_world = \<lparr>w_core = kept_core\<lparr>k_db := empty_db\<lparr>user_rows := [\<lparr>U_Id = 5, U_Quota = None, U_Usage = 2\<rparr>]\<rparr>\<rparr>,
     w_fs = [((3, []), Folder), ((3, [''a'']), Folder), ((3, [''a'', ''f'']), Leaf ''x''), ((3, [''a'', ''keep'']), Folder)],
     w_journal = None, w_dirty = []\<rparr>"

lemma partial_run:
  "(case Delete_op (kept_env\<lparr>fe_quota := Some state_quota\<rparr>) None kept_target True partial_world of (e, w) \<Rightarrow>
      (e, map_of (w_fs w) (3, [''a'', ''f'']), db_usage (k_db (w_core w)) 5, w_dirty w)) =
     (Some ErrDenied, None, Some 2, [])"
  by code_simp

text \<open>
  A recursive delete that stops half way is not settled: the files it already removed stay
  charged to the account, and no rollup above them is invalidated, although a purge of the trash
  settles exactly this case.
\<close>
theorem partial_delete_not_settled:
  "\<exists>w w'. Delete_op (kept_env\<lparr>fe_quota := Some state_quota\<rparr>) None kept_target True w = (Some ErrDenied, w') \<and>
     mem_view (w_fs w) 3 [''a'', ''f''] = Some (Leaf ''x'') \<and> mem_view (w_fs w') 3 [''a'', ''f''] = None \<and>
     db_usage (k_db (w_core w')) 5 = db_usage (k_db (w_core w)) 5 \<and> w_dirty w' = w_dirty w"
proof -
  obtain e w' where run: "Delete_op (kept_env\<lparr>fe_quota := Some state_quota\<rparr>) None kept_target True partial_world = (e, w')"
    by (rule prod.exhaust)
  have "e = Some ErrDenied" "map_of (w_fs w') (3, [''a'', ''f'']) = None" "db_usage (k_db (w_core w')) 5 = Some 2" "w_dirty w' = []"
    using partial_run unfolding run by simp_all
  with run show ?thesis
    by (intro exI [of _ partial_world] exI [of _ w']) (simp add: mem_view_def partial_world_def db_usage_def)
qed

end
