(* ===== verification/Sc_Read.thy ===== *)
theory Sc_Read
  imports Sc_Write
begin

text \<open>
  Reading, \<open>internal/files/read.go\<close>: a stream bounded to a byte range of one open descriptor, and
  the walk that feeds a server-side archive. The copy loop that drains a stream is the standard
  library's, with its buffer of 32 KiB.
\<close>

section \<open>Streams\<close>

definition streamChunk :: nat where "streamChunk = 262144"

record stream =
  sm_content :: string
  sm_pos :: int
  sm_end :: int

datatype stream_stop = StreamEOF | StreamNarrow int

definition Remaining :: "stream \<Rightarrow> int" where
  "Remaining s = sm_end s - min (sm_pos s) (sm_end s)"

text \<open>One read into a buffer of the given length; \<open>ReadAt\<close> fills it unless the file ends.\<close>

definition Stream_Read :: "nat \<Rightarrow> stream \<Rightarrow> (stream_stop, string) result \<times> stream" where
  "Stream_Read len s =
     (if sm_pos s \<ge> sm_end s then (Inl StreamEOF, s)
      else (case Narrow (Signed 64) (Unsigned 64) (sm_pos s) of
        None \<Rightarrow> (Inl (StreamNarrow (sm_pos s)), s)
      | Some off \<Rightarrow>
          (let span = (case Narrow (Signed 64) (Unsigned 64) (sm_end s - sm_pos s) of None \<Rightarrow> int streamChunk | Some n \<Rightarrow> n);
               want = min (min span (int len)) (int streamChunk)
           in if want = 0 then (Inr [], s)
              else (let got = take (nat want) (drop (nat off) (sm_content s)) in
                if got = [] then (Inl StreamEOF, s\<lparr>sm_end := sm_pos s\<rparr>)
                else (Inr got, s\<lparr>sm_pos := sm_pos s + int (length got)\<rparr>)))))"

definition copyBuffer :: nat where "copyBuffer = 32768"

lemma Stream_Read_Inr:
  assumes "Stream_Read len s = (Inr got, s')" and "got \<noteq> []"
  shows "sm_pos s < sm_end s \<and> s' = s\<lparr>sm_pos := sm_pos s + int (length got)\<rparr>"
proof (cases "sm_pos s \<ge> sm_end s")
  case False
  moreover obtain off where "Narrow (Signed 64) (Unsigned 64) (sm_pos s) = Some off"
    using assms(1) False by (cases "Narrow (Signed 64) (Unsigned 64) (sm_pos s)") (simp_all add: Stream_Read_def)
  ultimately show ?thesis
    using assms by (simp add: Stream_Read_def Let_def del: length_take length_drop take_eq_Nil split: if_split_asm) metis
qed (use assms in \<open>simp add: Stream_Read_def\<close>)

lemma Stream_Read_advances:
  assumes "Stream_Read len s = (Inr got, s')" and "got \<noteq> []"
  shows "sm_pos s < sm_end s" "sm_pos s < sm_pos s'" "sm_end s' = sm_end s"
  using Stream_Read_Inr [OF assms] assms(2) by simp_all

text \<open>The copy loop: read until the stream says it is over. A read that brings nothing ends it.\<close>

function stream_copy :: "stream \<Rightarrow> string \<times> stream_stop" where
  "stream_copy s =
     (case Stream_Read copyBuffer s of
        (Inl stop, _) \<Rightarrow> ([], stop)
      | (Inr got, s') \<Rightarrow>
          if got = [] then ([], StreamEOF)
          else (case stream_copy s' of (rest, stop) \<Rightarrow> (got @ rest, stop)))"
  by pat_completeness auto
termination
proof (relation "measure (\<lambda>s. nat (sm_end s - sm_pos s))", goal_cases)
  case (2 s x s' got)
  then have "Stream_Read copyBuffer s = (Inr got, s')" by simp
  from Stream_Read_advances(1-3) [OF this 2(3)] show ?case by simp
qed simp

declare stream_copy.simps [simp del]

definition satAdd :: "int \<Rightarrow> int" where
  "satAdd v = (if v = 18446744073709551615 then v else v + 1)"

record fid_entry =
  fi_Name :: string
  fi_Size :: int
  fi_MTime :: int
  fi_ETag :: string
  fi_ETagWeak :: bool

definition openFid :: "'fs files_env \<Rightarrow> resolved \<Rightarrow> 'fs world \<Rightarrow> (files_error, string \<times> fid_entry) result" where
  "openFid env r w =
     (case drv_OpenRead (fe_driver env) (r_root r) (r_path r) (w_fs w) of
        Inl e \<Rightarrow> Inl (mapVFSErr e)
      | Inr (st, bytes) \<Rightarrow>
          if Kind_IsDir (st_Kind st) then Inl ErrDenied
          else (case FileETag (fe_sum256 env) st of (etag, weak) \<Rightarrow>
            Inr (bytes, \<lparr>fi_Name = SafePath_Name (r_path r), fi_Size = st_Size st, fi_MTime = st_MtimeNs st,
                         fi_ETag = etag, fi_ETagWeak = weak\<rparr>)))"

definition OpenStream ::
  "'fs files_env \<Rightarrow> resolved \<Rightarrow> (int \<times> int) option \<Rightarrow> 'fs world \<Rightarrow> (files_error, fid_entry \<times> stream) result" where
  "OpenStream env r rng w =
     (case Require r Download of
        Some e \<Rightarrow> Inl e
      | None \<Rightarrow>
          (case openFid env r w of
             Inl e \<Rightarrow> Inl e
           | Inr (bytes, entry) \<Rightarrow>
               (let start = (case rng of None \<Rightarrow> 0 | Some (a, _) \<Rightarrow> min a (fi_Size entry));
                    stop = (case rng of None \<Rightarrow> fi_Size entry | Some (_, b) \<Rightarrow> max (min (satAdd b) (fi_Size entry)) start)
                in Inr (entry, \<lparr>sm_content = bytes, sm_pos = start, sm_end = stop\<rparr>))))"

definition OpenRandom :: "'fs files_env \<Rightarrow> resolved \<Rightarrow> 'fs world \<Rightarrow> (files_error, fid_entry \<times> string \<times> int) result" where
  "OpenRandom env r w =
     (case Require r (Read OR Download) of
        Some e \<Rightarrow> Inl e
      | None \<Rightarrow>
          (case openFid env r w of
             Inl e \<Rightarrow> Inl e
           | Inr (bytes, entry) \<Rightarrow>
               (case Narrow (Signed 64) (Unsigned 64) (fi_Size entry) of
                  None \<Rightarrow> Inl (ErrWrite (NotRepresentable (fi_Size entry)))
                | Some sz \<Rightarrow> Inr (entry, bytes, sz))))"

section \<open>What a stream delivers\<close>

lemma stream_copy_exact:
  assumes "0 \<le> sm_pos s" and "sm_pos s \<le> sm_end s" and "sm_end s \<le> int (length (sm_content s))"
    and "int (length (sm_content s)) \<le> max_i64"
  shows "stream_copy s = (take (nat (sm_end s - sm_pos s)) (drop (nat (sm_pos s)) (sm_content s)), StreamEOF)"
  using assms
proof (induction s rule: stream_copy.induct)
  case (1 s)
  let ?len = "sm_end s - sm_pos s"
  show ?case
  proof (cases "sm_pos s \<ge> sm_end s")
    case True
    then show ?thesis by (subst stream_copy.simps) (simp add: Stream_Read_def)
  next
    case False
    define want where "want = min (min ?len (int copyBuffer)) (int streamChunk)"
    define got where "got = take (nat want) (drop (nat (sm_pos s)) (sm_content s))"
    let ?s = "s\<lparr>sm_pos := sm_pos s + int (length got)\<rparr>"
    have "Narrow (Signed 64) (Unsigned 64) v = Some v" if "0 \<le> v" "v \<le> max_i64" for v
      using that by (subst Narrow_spec) (auto simp: fits_def max_i64_def)
    then have nar: "Narrow (Signed 64) (Unsigned 64) (sm_pos s) = Some (sm_pos s)" "Narrow (Signed 64) (Unsigned 64) ?len = Some ?len"
      using 1(2-5) False by auto
    have want: "0 < want" "want \<le> ?len" using False by (simp_all add: want_def copyBuffer_def streamChunk_def)
    have "nat want \<le> length (sm_content s) - nat (sm_pos s)" using want(2) 1(2,4) by linarith
    then have len: "length got = nat want" by (simp add: got_def)
    then have got: "got \<noteq> []" using want(1) by auto
    have read: "Stream_Read copyBuffer s = (Inr got, ?s)"
      using False nar want(1) got by (simp add: Stream_Read_def Let_def flip: want_def got_def)
    have "stream_copy ?s = (take (nat (sm_end ?s - sm_pos ?s)) (drop (nat (sm_pos ?s)) (sm_content ?s)), StreamEOF)"
      using 1(1) [OF read [symmetric] refl got] len want 1(2-5) by simp
    moreover have "got @ take (nat (?len - want)) (drop (nat (sm_pos s + want)) (sm_content s)) =
        take (nat ?len) (drop (nat (sm_pos s)) (sm_content s))"
    proof -
      have "nat ?len = nat want + nat (?len - want)" "nat (sm_pos s + want) = nat want + nat (sm_pos s)" using want 1(2) by auto
      then show ?thesis by (simp only: got_def take_add drop_drop)
    qed
    ultimately show ?thesis
      using read got len want(1) by (subst stream_copy.simps) (simp add: diff_diff_eq)
  qed
qed

definition range_bytes :: "(int \<times> int) option \<Rightarrow> string \<Rightarrow> string" where
  "range_bytes rng c = (case rng of None \<Rightarrow> c | Some (a, b) \<Rightarrow> take (nat (b - a + 1)) (drop (nat a) c))"

definition range_ok :: "(int \<times> int) option \<Rightarrow> bool" where
  "range_ok rng \<longleftrightarrow> (case rng of None \<Rightarrow> True | Some (a, b) \<Rightarrow> 0 \<le> a \<and> a \<le> b \<and> b < 18446744073709551616)"

lemma openFid_leaf:
  assumes "posix_open (fe_driver env) view" and "openFid env r w = Inr (c, entry)"
  shows "view (w_fs w) (SR_ID (r_root r)) (sf_comps (r_path r)) = Some (Leaf c)" "fi_Size entry = int (length c)"
proof -
  obtain st where st: "drv_OpenRead (fe_driver env) (r_root r) (r_path r) (w_fs w) = Inr (st, c)" "\<not> Kind_IsDir (st_Kind st)"
    "fi_Size entry = st_Size st"
    using assms(2) by (auto simp: openFid_def split: sum.splits if_splits prod.splits)
  obtain n where "view (w_fs w) (SR_ID (r_root r)) (sf_comps (r_path r)) = Some n" "node_stat n st" "n = Folder \<or> n = Leaf c"
    using assms(1) st(1) unfolding posix_open_def by blast
  with st(2,3) show "view (w_fs w) (SR_ID (r_root r)) (sf_comps (r_path r)) = Some (Leaf c)" "fi_Size entry = int (length c)"
    by (auto simp: node_stat_def)
qed



section \<open>Archives\<close>

record walk_entry =
  we_RelPath :: string
  we_IsDir :: bool
  we_Readable :: bool
  we_Size :: int
  we_MTimeNs :: int

text \<open>
  The visitor gets a row and, for a readable file, its open stream; its answer includes the close
  of that stream. An error ends the walk.
\<close>

type_synonym 'v visitor = "walk_entry \<Rightarrow> stream option \<Rightarrow> 'v \<Rightarrow> files_error option \<times> 'v"

definition reportUnreadableArchiveEntry :: "'v visitor \<Rightarrow> string \<Rightarrow> bool \<Rightarrow> 'v \<Rightarrow> files_error option \<times> 'v" where
  "reportUnreadableArchiveEntry visit rel isDir =
     visit \<lparr>we_RelPath = rel, we_IsDir = isDir, we_Readable = False, we_Size = 0, we_MTimeNs = 0\<rparr> None"

definition child_rel :: "string \<Rightarrow> string \<Rightarrow> string" where
  "child_rel rel name = (if rel \<noteq> [] then rel @ [slash] @ name else name)"

definition visit_file ::
  "'fs files_env \<Rightarrow> 'v visitor \<Rightarrow> 'fs world \<Rightarrow> resolved \<Rightarrow> string \<Rightarrow> 'v \<Rightarrow> files_error option \<times> 'v" where
  "visit_file env visit w child rel v =
     (if \<not> Has (r_perms child) Read then reportUnreadableArchiveEntry visit rel False v
      else (case OpenStream env child None w of
        Inl _ \<Rightarrow> reportUnreadableArchiveEntry visit rel False v
      | Inr (entry, s) \<Rightarrow>
          visit \<lparr>we_RelPath = rel, we_IsDir = False, we_Readable = True, we_Size = fi_Size entry, we_MTimeNs = fi_MTime entry\<rparr>
            (Some s) v))"

function walkArchive ::
    "'fs files_env \<Rightarrow> 'v visitor \<Rightarrow> 'fs world \<Rightarrow> resolved \<Rightarrow> string \<Rightarrow> 'v \<Rightarrow> files_error option \<times> 'v"
  and walk_children ::
    "'fs files_env \<Rightarrow> 'v visitor \<Rightarrow> 'fs world \<Rightarrow> resolved \<Rightarrow> string \<Rightarrow> string list \<Rightarrow> 'v \<Rightarrow> files_error option \<times> 'v" where
  "walkArchive env visit w r rel v =
     (case drv_ReadDir (fe_driver env) (r_root r) (r_path r) (w_fs w) of
        Inl _ \<Rightarrow> reportUnreadableArchiveEntry visit rel True v
      | Inr names \<Rightarrow>
          (case (if rel \<noteq> []
                 then visit \<lparr>we_RelPath = rel, we_IsDir = True, we_Readable = True, we_Size = 0, we_MTimeNs = 0\<rparr> None v
                 else (None, v)) of
             (Some e, v1) \<Rightarrow> (Some e, v1)
           | (None, v1) \<Rightarrow> walk_children env visit w r rel names v1))"
| "walk_children env visit w r rel [] v = (None, v)"
| "walk_children env visit w r rel (name # names) v =
     (let isDir = Kind_IsDir (drv_EntryKind (fe_driver env) (r_root r) (r_path r) name (w_fs w));
          lost = reportUnreadableArchiveEntry visit (child_rel rel name)
      in case (case JoinExisting (r_path r) name of
           Inl _ \<Rightarrow> lost isDir v
         | Inr p \<Rightarrow>
             (case ResolveUnder (w_core w) r p 0 of
                Inl _ \<Rightarrow> lost isDir v
              | Inr child \<Rightarrow>
                  (case stat_at env r p w of
                     Inl _ \<Rightarrow> lost isDir v
                   | Inr st \<Rightarrow>
                       if Kind_IsDir (st_Kind st) then
                         (if Has (r_perms child) Read then walkArchive env visit w child (child_rel rel name) v
                          else lost True v)
                       else visit_file env visit w child (child_rel rel name) v))) of
           (Some e, v1) \<Rightarrow> (Some e, v1)
         | (None, v1) \<Rightarrow> walk_children env visit w r rel names v1)"
  by pat_completeness auto
termination
proof (relation "measures
    [\<lambda>x. case x of Inl (e, f, w, r, rel, v) \<Rightarrow> 256 - length (sf_comps (r_path r)) | Inr (e, f, w, r, rel, ns, v) \<Rightarrow> 256 - length (sf_comps (r_path r)),
     \<lambda>x. case x of Inl _ \<Rightarrow> 1 | Inr _ \<Rightarrow> 0,
     \<lambda>x. case x of Inl _ \<Rightarrow> 0 | Inr (e, f, w, r, rel, ns, v) \<Rightarrow> length ns]", goal_cases)
  case (3 env visit w r rel name names v isDir lost p child st)
  then show ?case
    using JoinExisting_depth [of "r_path r" name p] ResolveUnder_Inr(1) [of "w_core w" r p 0 child] by (simp add: diff_less_mono2)
qed auto

declare walkArchive.simps [simp del] walk_children.simps [simp del]

definition ArchiveWalk ::
  "'fs files_env \<Rightarrow> 'v visitor \<Rightarrow> 'fs world \<Rightarrow> resolved \<Rightarrow> 'v \<Rightarrow> files_error option \<times> 'v" where
  "ArchiveWalk env visit w r v =
     (case Require r Read of
        Some e \<Rightarrow> (Some e, v)
      | None \<Rightarrow>
          (case stat_at env r (r_path r) w of
             Inl e \<Rightarrow> (Some (mapVFSErr e), v)
           | Inr st \<Rightarrow>
               if \<not> Kind_IsDir (st_Kind st) then
                 (case OpenStream env r None w of
                    Inl e \<Rightarrow> (Some e, v)
                  | Inr (entry, s) \<Rightarrow>
                      visit \<lparr>we_RelPath = SafePath_Name (r_path r), we_IsDir = False, we_Readable = True,
                             we_Size = fi_Size entry, we_MTimeNs = fi_MTime entry\<rparr> (Some s) v)
               else walkArchive env visit w r (SafePath_Name (r_path r)) v))"

section \<open>What an archive holds\<close>

text \<open>The visitor of the archive writers: every row, with the bytes of its stream.\<close>

definition gather :: "(walk_entry \<times> string option) list visitor" where
  "gather e s v = (None, v @ [(e, map_option (\<lambda>s. fst (stream_copy s)) s)])"

definition contents :: "(walk_entry \<times> string option) list \<Rightarrow> (string \<times> string) set" where
  "contents rows = {(we_RelPath e, b) | e b. (e, Some b) \<in> set rows}"

lemma contents_simps [simp]:
  "contents [] = {}" "contents (xs @ ys) = contents xs \<union> contents ys"
  "contents [(e, None)] = {}" "contents [(e, Some b)] = {(we_RelPath e, b)}"
  by (auto simp: contents_def)

fun joinable :: "safe_path \<Rightarrow> string list \<Rightarrow> bool" where
  "joinable p [] = True"
| "joinable p (n # ns) = (case JoinExisting p n of Inr q \<Rightarrow> joinable q ns | Inl _ \<Rightarrow> False)"

text \<open>Read and download are granted at every step from the directory down to the name.\<close>

definition carried :: "acl_tables \<Rightarrow> resolved \<Rightarrow> string list \<Rightarrow> bool" where
  "carried t r rest \<longleftrightarrow> Has (r_perms r) (Read OR Download) \<and>
     (\<forall>k. 0 < k \<and> k \<le> length rest \<longrightarrow>
        Has (effectiveLocked t (r_user r) (r_share r) (sf_comps (r_path r) @ take k rest)) (Read OR Download))"

lemma Has_both: "Has p (Read OR Download) \<longleftrightarrow> Has p Read \<and> Has p Download"
  by (auto simp: Has_iff bit_or_iff)

lemma Has_masked: "Has (a AND b) want \<longleftrightarrow> Has a want \<and> Has b want"
  by (auto simp: Has_iff bit_and_iff)

lemma JoinExisting_comps: "JoinExisting p n = Inr q \<Longrightarrow> sf_comps q = sf_comps p @ [n]"
  by (auto dest!: JoinExisting_Inr dest: push_Inr)

lemma all_steps:
  "(\<forall>k. 0 < k \<and> k \<le> Suc n \<longrightarrow> Q k) \<longleftrightarrow> Q 1 \<and> (\<forall>k. 0 < k \<and> k \<le> n \<longrightarrow> Q (Suc k))"
proof (intro iffI allI impI)
  fix k
  assume steps: "Q 1 \<and> (\<forall>k. 0 < k \<and> k \<le> n \<longrightarrow> Q (Suc k))" and k: "0 < k \<and> k \<le> Suc n"
  then show "Q k" by (cases "k = 1") (auto dest: spec [of _ "k - 1"])
qed simp

lemma carried_Cons:
  assumes "JoinExisting (r_path r) n = Inr p" and "ResolveUnder c r p 0 = Inr child"
  shows "carried (k_acl c) r (n # rest) \<longleftrightarrow> carried (k_acl c) child rest"
proof -
  have child: "child = r\<lparr>r_path := p, r_perms := effectiveLocked (k_acl c) (r_user r) (r_share r) (sf_comps p) AND r_perms r\<rparr>"
    by (rule ResolveUnder_Inr(1) [OF assms(2)])
  have p: "sf_comps p = sf_comps (r_path r) @ [n]" by (rule JoinExisting_comps [OF assms(1)])
  show ?thesis
    unfolding carried_def child length_Cons all_steps by (simp add: p Has_masked conj_ac)
qed

lemma ResolveUnder_zero:
  assumes "JoinExisting (r_path r) n = Inr p"
  shows "\<exists>child. ResolveUnder c r p 0 = Inr child"
proof -
  have "Under p (r_path r)" using JoinExisting_comps [OF assms] by (simp add: Under_prefix)
  then show ?thesis by (simp add: ResolveUnder_def Has_def Let_def)
qed

text \<open>The files below a directory that an archive of it holds: their names in the archive and their bytes.\<close>

definition archived_if ::
  "('fs \<Rightarrow> tree) \<Rightarrow> 'fs world \<Rightarrow> resolved \<Rightarrow> string \<Rightarrow> (string list \<Rightarrow> bool) \<Rightarrow> (string \<times> string) set" where
  "archived_if view w r rel P =
     {(foldl child_rel rel rest, c) | rest c. P rest \<and> joinable (r_path r) rest \<and>
        view (w_fs w) (SR_ID (r_root r)) (sf_comps (r_path r) @ rest) = Some (Leaf c) \<and> carried (k_acl (w_core w)) r rest}"

abbreviation archived :: "('fs \<Rightarrow> tree) \<Rightarrow> 'fs world \<Rightarrow> resolved \<Rightarrow> string \<Rightarrow> (string \<times> string) set" where
  "archived view w r rel \<equiv> archived_if view w r rel (\<lambda>rest. rest \<noteq> [])"

abbreviation archived_via :: "('fs \<Rightarrow> tree) \<Rightarrow> 'fs world \<Rightarrow> resolved \<Rightarrow> string \<Rightarrow> string \<Rightarrow> (string \<times> string) set" where
  "archived_via view w r rel n \<equiv> archived_if view w r rel (\<lambda>rest. \<exists>ns. rest = n # ns)"

lemma archived_via_child:
  assumes "JoinExisting (r_path r) n = Inr p" and "ResolveUnder (w_core w) r p 0 = Inr child"
  shows "archived_via view w r rel n = archived_if view w child (child_rel rel n) (\<lambda>_. True)"
proof -
  have child: "r_path child = p" "r_root child = r_root r" using ResolveUnder_Inr(1) [OF assms(2)] by simp_all
  have p: "sf_comps p = sf_comps (r_path r) @ [n]" by (rule JoinExisting_comps [OF assms(1)])
  show ?thesis
    unfolding archived_if_def child
    apply (auto simp: assms(1) p carried_Cons [OF assms])
    subgoal for rest c by (rule exI [of _ "n # rest"]) (simp add: assms(1) carried_Cons [OF assms])
    done
qed

text \<open>The assumptions of the storage an archive is read from.\<close>

definition walkable :: "'fs files_env \<Rightarrow> ('fs \<Rightarrow> tree) \<Rightarrow> 'fs world \<Rightarrow> bool" where
  "walkable env view w \<longleftrightarrow> posix (fe_driver env) view \<and> faultless (fe_driver env) view \<and> closed_tree (view (w_fs w)) \<and>
     (\<forall>share p c. view (w_fs w) share p = Some (Leaf c) \<longrightarrow> int (length c) \<le> max_i64)"

lemma OpenStream_faultless:
  assumes "walkable env view w" and "view (w_fs w) (SR_ID (r_root r)) (sf_comps (r_path r)) = Some (Leaf c)"
  shows "if Has (r_perms r) Download then \<exists>entry s. OpenStream env r None w = Inr (entry, s) \<and> fst (stream_copy s) = c
    else isl (OpenStream env r None w)"
proof (cases "Has (r_perms r) Download")
  case True
  obtain st bytes where open_it: "drv_OpenRead (fe_driver env) (r_root r) (r_path r) (w_fs w) = Inr (st, bytes)"
    using assms unfolding walkable_def faultless_def by (metis option.distinct(1) surj_pair)
  have st: "node_stat (Leaf c) st" "bytes = c"
    using assms open_it unfolding walkable_def posix_def posix_open_def by (metis node.distinct(1) node.inject option.inject)+
  obtain entry where fid: "openFid env r w = Inr (c, entry)" "fi_Size entry = int (length c)"
    using open_it st by (cases "FileETag (fe_sum256 env) st") (auto simp: openFid_def node_stat_def)
  then have run: "OpenStream env r None w = Inr (entry, \<lparr>sm_content = c, sm_pos = 0, sm_end = int (length c)\<rparr>)"
    using True by (simp add: OpenStream_def Require_def Let_def)
  moreover have "int (length c) \<le> max_i64" using assms by (auto simp: walkable_def)
  ultimately show ?thesis using True stream_copy_exact [of "\<lparr>sm_content = c, sm_pos = 0, sm_end = int (length c)\<rparr>"] by simp
qed (simp add: OpenStream_def Require_def)

lemma visit_file_gather:
  assumes "walkable env view w" and "view (w_fs w) (SR_ID (r_root child)) (sf_comps (r_path child)) = Some (Leaf c)"
  shows "\<exists>new. visit_file env gather w child rel v = (None, v @ new) \<and>
    contents new = (if Has (r_perms child) (Read OR Download) then {(rel, c)} else {})"
  using OpenStream_faultless [OF assms]
  by (auto simp: visit_file_def reportUnreadableArchiveEntry_def gather_def Has_both isl_def split: if_splits)

text \<open>One name of a listing: the rows it adds hold exactly the files reached through it.\<close>

lemma archived_leaf:
  assumes "closed_tree (view (w_fs w))" and "view (w_fs w) (SR_ID (r_root r)) (sf_comps (r_path r)) = Some (Leaf c)"
  shows "archived_if view w r rel (\<lambda>_. True) = (if Has (r_perms r) (Read OR Download) then {(rel, c)} else {})"
proof -
  have only: "view (w_fs w) (SR_ID (r_root r)) (sf_comps (r_path r) @ rest) = Some (Leaf x) \<longleftrightarrow> rest = [] \<and> x = c" for rest x
  proof (cases "rest = []")
    case False
    then have "strict_prefix (sf_comps (r_path r)) (sf_comps (r_path r) @ rest)" by (simp add: strict_prefix_def)
    from closed_tree_prefix [OF assms(1) _ this] assms(2) False show ?thesis by fastforce
  qed (use assms(2) in auto)
  show ?thesis by (auto simp: archived_if_def only carried_def)
qed

lemma archived_gone:
  assumes "closed_tree (view (w_fs w))" and "view (w_fs w) (SR_ID (r_root r)) (sf_comps (r_path r)) = None"
  shows "archived_if view w r rel P = {}"
proof -
  have "view (w_fs w) (SR_ID (r_root r)) (sf_comps (r_path r) @ rest) = None" for rest
  proof (cases "rest = []")
    case False
    then have "strict_prefix (sf_comps (r_path r)) (sf_comps (r_path r) @ rest)" by (simp add: strict_prefix_def)
    from closed_tree_prefix [OF assms(1) _ this] assms(2) show ?thesis by fastforce
  qed (simp add: assms(2))
  then show ?thesis by (auto simp: archived_if_def)
qed

lemma archived_unread: "\<not> Has (r_perms r) Read \<Longrightarrow> archived_if view w r rel P = {}"
  by (auto simp: archived_if_def carried_def Has_both)

lemma archived_folder:
  "view (w_fs w) (SR_ID (r_root r)) (sf_comps (r_path r)) = Some Folder \<Longrightarrow> archived_if view w r rel (\<lambda>_. True) = archived view w r rel"
  by (auto simp: archived_if_def) (metis append_Nil2 node.distinct(1) option.inject)

lemma archived_names:
  assumes "posix_readdir (fe_driver env) view" and "closed_tree (view (w_fs w))"
    and "drv_ReadDir (fe_driver env) (r_root r) (r_path r) (w_fs w) = Inr names"
  shows "archived view w r rel = (\<Union>n\<in>set names. archived_via view w r rel n)"
proof -
  have names: "set names = {n. view (w_fs w) (SR_ID (r_root r)) (sf_comps (r_path r) @ [n]) \<noteq> None \<and> \<not> IsReservedName n}"
    using assms(1,3) unfolding posix_readdir_def by blast
  have "n \<in> set names" if "joinable (r_path r) (n # ns)" "view (w_fs w) (SR_ID (r_root r)) (sf_comps (r_path r) @ n # ns) = Some x" for n ns x
  proof -
    have "\<not> IsReservedName n" using that(1) by (auto dest!: JoinExisting_Inr simp: ok_component_def split: sum.splits)
    moreover have "view (w_fs w) (SR_ID (r_root r)) (sf_comps (r_path r) @ [n]) \<noteq> None"
    proof (cases ns)
      case (Cons m ms)
      have "strict_prefix (sf_comps (r_path r) @ [n]) (sf_comps (r_path r) @ n # ns)" using Cons by (simp add: strict_prefix_def)
      from closed_tree_prefix [OF assms(2) _ this] that(2) show ?thesis by fastforce
    qed (use that(2) in simp)
    ultimately show ?thesis by (simp add: names)
  qed
  note listed = this
  show ?thesis
  proof (intro equalityI subsetI)
    fix z
    assume "z \<in> archived view w r rel"
    then obtain rest c where z: "z = (foldl child_rel rel rest, c)" "rest \<noteq> []" "joinable (r_path r) rest"
      "view (w_fs w) (SR_ID (r_root r)) (sf_comps (r_path r) @ rest) = Some (Leaf c)" "carried (k_acl (w_core w)) r rest"
      unfolding archived_if_def by blast
    obtain n ns where rest: "rest = n # ns" using z(2) by (cases rest) auto
    have "n \<in> set names" using listed z(3,4) rest by blast
    moreover have "z \<in> archived_via view w r rel n" unfolding archived_if_def using z rest by blast
    ultimately show "z \<in> (\<Union>n\<in>set names. archived_via view w r rel n)" by blast
  qed (auto simp: archived_if_def)
qed

lemma archived_unjoinable: "JoinExisting (r_path r) n = Inl e \<Longrightarrow> archived_via view w r rel n = {}"
  by (auto simp: archived_if_def)

lemma lost_gather:
  "reportUnreadableArchiveEntry gather rel d v = (None, v @ [(\<lparr>we_RelPath = rel, we_IsDir = d, we_Readable = False, we_Size = 0, we_MTimeNs = 0\<rparr>, None)])"
  by (simp add: reportUnreadableArchiveEntry_def gather_def)

text \<open>The body of the loop over a listing.\<close>

definition walk_step ::
  "'fs files_env \<Rightarrow> 'v visitor \<Rightarrow> 'fs world \<Rightarrow> resolved \<Rightarrow> string \<Rightarrow> string \<Rightarrow> 'v \<Rightarrow> files_error option \<times> 'v" where
  "walk_step env visit w r rel name v =
     (let isDir = Kind_IsDir (drv_EntryKind (fe_driver env) (r_root r) (r_path r) name (w_fs w));
          lost = reportUnreadableArchiveEntry visit (child_rel rel name)
      in case JoinExisting (r_path r) name of
           Inl _ \<Rightarrow> lost isDir v
         | Inr p \<Rightarrow>
             (case ResolveUnder (w_core w) r p 0 of
                Inl _ \<Rightarrow> lost isDir v
              | Inr child \<Rightarrow>
                  (case stat_at env r p w of
                     Inl _ \<Rightarrow> lost isDir v
                   | Inr st \<Rightarrow>
                       if Kind_IsDir (st_Kind st) then
                         (if Has (r_perms child) Read then walkArchive env visit w child (child_rel rel name) v
                          else lost True v)
                       else visit_file env visit w child (child_rel rel name) v)))"

lemma walk_children_Cons:
  "walk_children env visit w r rel (name # names) v =
     (case walk_step env visit w r rel name v of
        (Some e, v1) \<Rightarrow> (Some e, v1)
      | (None, v1) \<Rightarrow> walk_children env visit w r rel names v1)"
  by (simp only: walk_children.simps walk_step_def Let_def)

lemma walk_step_gather:
  assumes "walkable env view w"
    and "\<And>p child st. JoinExisting (r_path r) name = Inr p \<Longrightarrow> ResolveUnder (w_core w) r p 0 = Inr child \<Longrightarrow>
      stat_at env r p w = Inr st \<Longrightarrow> Kind_IsDir (st_Kind st) \<Longrightarrow> Has (r_perms child) Read \<Longrightarrow>
      view (w_fs w) (SR_ID (r_root child)) (sf_comps (r_path child)) = Some Folder \<Longrightarrow>
      \<exists>new. walkArchive env gather w child (child_rel rel name) v = (None, v @ new) \<and>
        contents new = archived view w child (child_rel rel name)"
  shows "\<exists>new. walk_step env gather w r rel name v = (None, v @ new) \<and> contents new = archived_via view w r rel name"
proof (cases "JoinExisting (r_path r) name")
  case (Inl e)
  then show ?thesis by (simp add: walk_step_def lost_gather archived_unjoinable)
next
  case join: (Inr p)
  obtain child where child: "ResolveUnder (w_core w) r p 0 = Inr child" using ResolveUnder_zero [OF join] by blast
  have at: "r_path child = p" "r_root child = r_root r" using ResolveUnder_Inr(1) [OF child] by simp_all
  note via = archived_via_child [OF join child, of view rel]
  have tree: "closed_tree (view (w_fs w))" "posix_stat (fe_driver env) view" using assms(1) by (auto simp: walkable_def posix_def)
  show ?thesis
  proof (cases "stat_at env r p w")
    case (Inl e)
    then have "view (w_fs w) (SR_ID (r_root child)) (sf_comps (r_path child)) = None"
      using assms(1) at unfolding walkable_def faultless_def by (metis Inl_Inr_False)
    then show ?thesis using join child Inl via archived_gone [where view = view and w = w and r = child, OF tree(1)] by (simp add: walk_step_def lost_gather)
  next
    case st: (Inr st)
    obtain n where n: "view (w_fs w) (SR_ID (r_root child)) (sf_comps (r_path child)) = Some n" "node_stat n st"
      using tree(2) st at unfolding posix_stat_def by metis
    show ?thesis
    proof (cases "Kind_IsDir (st_Kind st)")
      case True
      then have n: "view (w_fs w) (SR_ID (r_root child)) (sf_comps (r_path child)) = Some Folder" using n by (simp add: node_stat_def)
      show ?thesis
      proof (cases "Has (r_perms child) Read")
        case read: True
        from assms(2) [OF join child st True read n] show ?thesis
          using join child st True read via archived_folder [where view = view and w = w and r = child, OF n] by (simp add: walk_step_def)
      next
        case False
        then show ?thesis using join child st True via archived_unread [OF False, of view w "child_rel rel name" "\<lambda>_. True"] by (simp add: walk_step_def lost_gather)
      qed
    next
      case False
      then obtain c where c: "view (w_fs w) (SR_ID (r_root child)) (sf_comps (r_path child)) = Some (Leaf c)"
        using n by (cases n) (auto simp: node_stat_def)
      then show ?thesis
        using join child st False via archived_leaf [where view = view and w = w and r = child, OF tree(1) c] visit_file_gather [OF assms(1) c] by (simp add: walk_step_def)
    qed
  qed
qed

lemma walk_gather:
  fixes env :: "'fs files_env" and w :: "'fs world"
  shows "walkable env view w \<Longrightarrow> visit = gather \<Longrightarrow>
      view (w_fs w) (SR_ID (r_root r)) (sf_comps (r_path r)) = Some Folder \<Longrightarrow>
      \<exists>new. walkArchive env visit w r rel v = (None, v @ new) \<and> contents new = archived view w r rel"
    and "walkable env view w \<Longrightarrow> visit = gather \<Longrightarrow>
      \<exists>new. walk_children env visit w r rel names v = (None, v @ new) \<and>
        contents new = (\<Union>n\<in>set names. archived_via view w r rel n)"
proof (induction env visit w r rel v and env visit w r rel names v rule: walkArchive_walk_children.induct)
  case (1 env visit w r rel v)
  obtain names where names: "drv_ReadDir (fe_driver env) (r_root r) (r_path r) (w_fs w) = Inr names"
    using 1(2,4) unfolding walkable_def faultless_def by blast
  let ?row = "\<lparr>we_RelPath = rel, we_IsDir = True, we_Readable = True, we_Size = 0, we_MTimeNs = 0\<rparr>"
  define v1 where "v1 = v @ (if rel \<noteq> [] then [(?row, None)] else [])"
  have all: "archived view w r rel = (\<Union>n\<in>set names. archived_via view w r rel n)"
    using 1(2) names by (intro archived_names) (auto simp: walkable_def posix_def)
  have row: "(if rel \<noteq> [] then visit ?row None v else (None, v)) = (None, v1)"
    using 1(3) by (simp add: v1_def gather_def)
  obtain new where "walk_children env visit w r rel names v1 = (None, v1 @ new)"
    "contents new = (\<Union>n\<in>set names. archived_via view w r rel n)"
    using 1(1) [OF names row [symmetric] refl 1(2,3)] by blast
  then show ?case
    using names all row by (intro exI [of _ "(if rel \<noteq> [] then [(?row, None)] else []) @ new"]) (simp add: walkArchive.simps v1_def)
next
  case (2 env visit w r rel v)
  then show ?case by (simp add: walk_children.simps)
next
  case (3 env visit w r rel name names v)
  have "\<exists>new. walk_step env gather w r rel name v = (None, v @ new) \<and> contents new = archived_via view w r rel name"
    by (rule walk_step_gather [OF 3(3)]) (rule 3(1) [OF refl refl _ _ _ _ _ 3(3,4), unfolded 3(4)])
  then obtain new where new: "walk_step env visit w r rel name v = (None, v @ new)" "contents new = archived_via view w r rel name"
    unfolding 3(4) by blast
  have "\<exists>new'. walk_children env visit w r rel names (v @ new) = (None, (v @ new) @ new') \<and>
      contents new' = (\<Union>n\<in>set names. archived_via view w r rel n)"
    by (rule 3(2) [OF refl refl _ refl 3(3,4)]) (simp only: new(1) [symmetric, unfolded walk_step_def Let_def])
  then obtain new' where "walk_children env visit w r rel names (v @ new) = (None, (v @ new) @ new')"
    "contents new' = (\<Union>n\<in>set names. archived_via view w r rel n)" by blast
  with new show ?case by (intro exI [of _ "new @ new'"]) (simp add: walk_children_Cons)
qed


text \<open>User 5 may read share 3 but download nothing inside a/keep: the archive of a carries a/f only.\<close>

definition archive_acl :: acl_tables where
  "archive_acl = load_tables
     [\<lparr>g_ID = 1, g_User = 5, g_Group = 0, g_Share = 3, g_Subpath = [], g_Allow = 255, g_Deny = 0, g_Inherit = True,
       g_Label = [], g_CreatedNs = 0\<rparr>,
      \<lparr>g_ID = 2, g_User = 5, g_Group = 0, g_Share = 3, g_Subpath = [''a'', ''keep''], g_Allow = 0, g_Deny = Download,
       g_Inherit = True, g_Label = [], g_CreatedNs = 0\<rparr>] []"

definition archive_world :: "mem_fs world" where
  "archive_world = demo_world\<lparr>w_core := demo_core\<lparr>k_acl := archive_acl\<rparr>,
     w_fs := [((3, []), Folder), ((3, [''a'']), Folder), ((3, [''a'', ''f'']), Leaf ''abc''),
              ((3, [''a'', ''keep'']), Folder), ((3, [''a'', ''keep'', ''g'']), Leaf ''x'')]\<rparr>"

lemma archive_closed: "closed_tree (mem_view (w_fs archive_world))"
  unfolding closed_tree_def
proof (intro allI impI)
  fix share p n
  assume "mem_view (w_fs archive_world) share (p @ [n]) \<noteq> None"
  then have "share = 3 \<and> (p @ [n] \<in> {[''a''], [''a'', ''f''], [''a'', ''keep''], [''a'', ''keep'', ''g'']})"
    by (auto simp: mem_view_def archive_world_def split: if_splits)
  then have "share = 3 \<and> p \<in> {[], [''a''], [''a'', ''keep'']}"
    by (auto simp: append_eq_Cons_conv)
  then show "mem_view (w_fs archive_world) share p = Some Folder"
    by (auto simp: mem_view_def archive_world_def)
qed

lemma archive_walkable: "walkable demo_files_env mem_view archive_world"
  unfolding walkable_def using mem_posix mem_faultless archive_closed
  by (auto simp: mem_view_def archive_world_def max_i64_def split: if_splits)

lemma archive_perms:
  "Has (effectiveLocked archive_acl 5 3 [''a'', ''f'']) (Read OR Download)"
  "\<not> Has (effectiveLocked archive_acl 5 3 [''a'', ''keep'', ''g'']) (Read OR Download)"
  by code_simp+


end
