(* ===== verification/Sc_LockTable.thy ===== *)
theory Sc_LockTable
  imports Sc_StateDb Sc_VfsPath
begin

text \<open>
  The durable half of WebDAV locking, \<open>internal/db/state/davlock.go\<close> and the lock part of
  \<open>internal/db/state/dav.go\<close>, with the statements of \<open>internal/db/state/dav_sql.go\<close>. A lock
  is admitted only when no live lock conflicts, inside one transaction.
\<close>

section \<open>Data\<close>

record dav_lock =
  L_Token :: string
  L_Ident :: ident
  L_Path :: string
  L_Principal :: int
  L_Owner :: string
  L_Depth :: int
  L_Scope :: int
  L_ExpiresNs :: int
  L_TimeoutS :: int

definition LockExclusive :: int where "LockExclusive = 0"
definition LockShared :: int where "LockShared = 1"
definition LockDepthZero :: int where "LockDepthZero = 0"
definition LockDepthInfinity :: int where "LockDepthInfinity = - 1"
definition DavLocksPerUser :: int where "DavLocksPerUser = 256"

definition row_of :: "dav_lock \<Rightarrow> lock_row" where
  "row_of l =
     \<lparr>R_Token = L_Token l, R_Share = I_Share (L_Ident l), R_Ident = ToSQL (L_Ident l),
      R_Path = L_Path l, R_Principal = L_Principal l, R_Owner = L_Owner l, R_Depth = L_Depth l,
      R_Scope = L_Scope l, R_ExpiresNs = L_ExpiresNs l, R_TimeoutS = L_TimeoutS l\<rparr>"

definition scanDavLock :: "lock_row \<Rightarrow> (state_error, dav_lock) result" where
  "scanDavLock r =
     (case FromSQL (R_Share r) (R_Ident r) of
        None \<Rightarrow> Inl (CorruptRow (R_Token r))
      | Some i \<Rightarrow>
          Inr \<lparr>L_Token = R_Token r, L_Ident = i, L_Path = R_Path r, L_Principal = R_Principal r,
               L_Owner = R_Owner r, L_Depth = R_Depth r, L_Scope = R_Scope r,
               L_ExpiresNs = R_ExpiresNs r, L_TimeoutS = R_TimeoutS r\<rparr>)"

fun scan_rows :: "lock_row list \<Rightarrow> (state_error, dav_lock list) result" where
  "scan_rows [] = Inr []"
| "scan_rows (r # rs) = bind_r (scanDavLock r) (\<lambda>l. bind_r (scan_rows rs) (\<lambda>ls. Inr (l # ls)))"

section \<open>Statements\<close>

definition sqlSweepDavLocks :: "int \<Rightarrow> lock_row list \<Rightarrow> lock_row list" where
  "sqlSweepDavLocks now rows = filter (\<lambda>r. \<not> R_ExpiresNs r \<le> now) rows"

definition sqlSelectDavLocks :: "int \<Rightarrow> lock_row list \<Rightarrow> lock_row list" where
  "sqlSelectDavLocks now rows = sort_key R_Token (filter (\<lambda>r. R_ExpiresNs r > now) rows)"

definition sqlLiveDavLocksInShare :: "int \<Rightarrow> int \<Rightarrow> lock_row list \<Rightarrow> lock_row list" where
  "sqlLiveDavLocksInShare share now rows =
     sort_key R_Token (filter (\<lambda>r. R_Share r = share \<and> R_ExpiresNs r > now) rows)"

definition sqlCountDavLocks :: "int \<Rightarrow> int \<Rightarrow> lock_row list \<Rightarrow> int" where
  "sqlCountDavLocks who now rows =
     int (length (filter (\<lambda>r. R_Principal r = who \<and> R_ExpiresNs r > now) rows))"

text \<open>The insert fails on a token that exists and on a who that is no user.\<close>

definition sqlInsertDavLock :: "lock_row \<Rightarrow> state_db \<Rightarrow> (state_error, state_db) result" where
  "sqlInsertDavLock r db =
     (if R_Token r \<in> R_Token ` set (lock_rows db) then Inl ConstraintFailed
      else if R_Principal r \<notin> U_Id ` set (user_rows db) then Inl ConstraintFailed
      else Inr (db\<lparr>lock_rows := lock_rows db @ [r]\<rparr>))"

definition sqlRefreshDavLock ::
  "int \<Rightarrow> int \<Rightarrow> string \<Rightarrow> int \<Rightarrow> lock_row list \<Rightarrow> lock_row list \<times> nat" where
  "sqlRefreshDavLock expires timeout token now rows =
     (let hit = (\<lambda>r. R_Token r = token \<and> R_ExpiresNs r > now) in
      (map (\<lambda>r. if hit r then r\<lparr>R_ExpiresNs := expires, R_TimeoutS := timeout\<rparr> else r) rows,
       length (filter hit rows)))"

definition sqlDeleteDavLock :: "string \<Rightarrow> lock_row list \<Rightarrow> lock_row list" where
  "sqlDeleteDavLock token rows = filter (\<lambda>r. R_Token r \<noteq> token) rows"

section \<open>Conflicts\<close>

definition pathCovers :: "string \<Rightarrow> string \<Rightarrow> bool" where
  "pathCovers ancestor descendant =
     (if ancestor = descendant then True
      else if ancestor = ''/'' then True
      else HasPrefix descendant (TrimSuffix ancestor ''/'' @ ''/''))"

definition locksOverlap :: "dav_lock \<Rightarrow> dav_lock \<Rightarrow> bool" where
  "locksOverlap held want =
     (if L_Path held = L_Path want then True
      else if L_Depth held = LockDepthInfinity \<and> pathCovers (L_Path held) (L_Path want) then True
      else if L_Depth want = LockDepthInfinity \<and> pathCovers (L_Path want) (L_Path held) then True
      else False)"

definition LocksConflict :: "dav_lock \<Rightarrow> dav_lock \<Rightarrow> bool" where
  "LocksConflict held want =
     (if L_Scope held = LockShared \<and> L_Scope want = LockShared then False
      else locksOverlap held want)"

section \<open>Operations\<close>

definition liveLocksInShare ::
  "int \<Rightarrow> int \<Rightarrow> state_db \<Rightarrow> (state_error, dav_lock list) result" where
  "liveLocksInShare share now db = scan_rows (sqlLiveDavLocksInShare share now (lock_rows db))"

definition admit_tx ::
  "dav_lock \<Rightarrow> int \<Rightarrow> state_db \<Rightarrow> (state_error, unit \<times> state_db) result" where
  "admit_tx l now db0 =
     (let db = db0\<lparr>lock_rows := sqlSweepDavLocks now (lock_rows db0)\<rparr> in
      bind_r (liveLocksInShare (I_Share (L_Ident l)) now db) (\<lambda>live.
        if list_ex (\<lambda>held. LocksConflict held l) live then Inl ErrLockConflict
        else (let n = sqlCountDavLocks (L_Principal l) now (lock_rows db) in
          if n \<ge> DavLocksPerUser
          then Inl (Exceed ''dav locks per user'' DavLocksPerUser (n + 1))
          else bind_r (sqlInsertDavLock (row_of l) db) (\<lambda>db'. Inr ((), db')))))"

definition AdmitDavLock ::
  "dav_lock \<Rightarrow> int \<Rightarrow> state_db \<Rightarrow> (state_error, unit) result \<times> state_db" where
  "AdmitDavLock l now db =
     (case EnsureWritable db of
        Some e \<Rightarrow> (Inl e, db)
      | None \<Rightarrow> db_Write (admit_tx l now) db)"

definition DavLocks :: "int \<Rightarrow> state_db \<Rightarrow> (state_error, dav_lock list) result" where
  "DavLocks now db = scan_rows (sqlSelectDavLocks now (lock_rows db))"

definition RefreshDavLock ::
  "string \<Rightarrow> int \<Rightarrow> int \<Rightarrow> int \<Rightarrow> state_db \<Rightarrow> (state_error, unit) result \<times> state_db" where
  "RefreshDavLock token expires timeout now =
     db_Write (\<lambda>db. case sqlRefreshDavLock expires timeout token now (lock_rows db) of (rows, n) \<Rightarrow>
       if n = 0 then Inl ErrNoSuchLock else Inr ((), db\<lparr>lock_rows := rows\<rparr>))"

definition DropDavLock :: "string \<Rightarrow> state_db \<Rightarrow> (state_error, unit) result \<times> state_db" where
  "DropDavLock token =
     db_Write (\<lambda>db. Inr ((), db\<lparr>lock_rows := sqlDeleteDavLock token (lock_rows db)\<rparr>))"

definition SweepDavLocks :: "int \<Rightarrow> state_db \<Rightarrow> (state_error, int) result \<times> state_db" where
  "SweepDavLocks now =
     db_Write (\<lambda>db. let rows = sqlSweepDavLocks now (lock_rows db) in
       Inr (int (length (lock_rows db)) - int (length rows), db\<lparr>lock_rows := rows\<rparr>))"

section \<open>The contract of a lock table\<close>

text \<open>
  What the locking layer needs of a table, independent of how it is stored: the claims live
  at an instant only ever shrink with time, admitting a lock adds at most its own claim and
  only when no live claim conflicts, and every other operation at an instant leaves live only
  claims that were live at that instant. From these three laws no two live claims conflict.
\<close>

locale lock_table =
  fixes inv :: "'db \<Rightarrow> bool"
    and live :: "'db \<Rightarrow> int \<Rightarrow> 'c set"
    and conflict :: "'c \<Rightarrow> 'c \<Rightarrow> bool"
    and admits :: "'c \<Rightarrow> int \<Rightarrow> 'db \<Rightarrow> 'db \<Rightarrow> bool"
    and maintains :: "int \<Rightarrow> 'db \<Rightarrow> 'db \<Rightarrow> bool"
  assumes live_antimono: "t \<le> t' \<Longrightarrow> live db t' \<subseteq> live db t"
    and conflict_sym: "conflict c c' \<Longrightarrow> conflict c' c"
    and admits_law: "inv db \<Longrightarrow> admits c now db db' \<Longrightarrow>
      inv db' \<and> live db' now \<subseteq> insert c (live db now) \<and> (\<forall>h\<in>live db now. \<not> conflict h c)"
    and maintains_law: "inv db \<Longrightarrow> maintains now db db' \<Longrightarrow> inv db' \<and> live db' now \<subseteq> live db now"
begin

definition exclusive :: "int \<Rightarrow> 'db \<Rightarrow> bool" where
  "exclusive now db \<longleftrightarrow> inv db \<and> (\<forall>x\<in>live db now. \<forall>y\<in>live db now. x \<noteq> y \<longrightarrow> \<not> conflict x y)"

lemma exclusive_later: "exclusive t db \<Longrightarrow> t \<le> now \<Longrightarrow> exclusive now db"
  using live_antimono [of t now db] by (auto simp: exclusive_def)

lemma exclusive_admits:
  assumes "exclusive t db" and "t \<le> now" and "admits c now db db'"
  shows "exclusive now db'"
proof -
  have ex: "exclusive now db" using exclusive_later assms(1,2) by blast
  then have "inv db" by (simp add: exclusive_def)
  note law = admits_law [OF this assms(3)]
  with ex show ?thesis
    unfolding exclusive_def by (metis (no_types, lifting) conflict_sym insert_iff subsetD)
qed

lemma exclusive_maintains:
  assumes "exclusive t db" and "t \<le> now" and "maintains now db db'"
  shows "exclusive now db'"
  using exclusive_later [OF assms(1,2)] maintains_law [OF _ assms(3)]
  unfolding exclusive_def by (meson subsetD)

end

section \<open>The table meets the contract\<close>

definition share_ok :: "int \<Rightarrow> bool" where
  "share_ok s \<longleftrightarrow> 0 \<le> s \<and> s < 4294967296"

definition table_ok :: "state_db \<Rightarrow> bool" where
  "table_ok db \<longleftrightarrow> distinct (map R_Token (lock_rows db)) \<and> list_all (\<lambda>r. share_ok (R_Share r)) (lock_rows db)"

text \<open>A claim is a row without its lease, which is all a conflict depends on.\<close>

definition claim :: "lock_row \<Rightarrow> lock_row" where
  "claim r = r\<lparr>R_ExpiresNs := 0, R_TimeoutS := 0\<rparr>"

definition live_claims :: "state_db \<Rightarrow> int \<Rightarrow> lock_row set" where
  "live_claims db now = claim ` {r \<in> set (lock_rows db). R_ExpiresNs r > now}"

definition rows_conflict :: "lock_row \<Rightarrow> lock_row \<Rightarrow> bool" where
  "rows_conflict h w \<longleftrightarrow>
     R_Share h = R_Share w \<and> \<not> (R_Scope h = LockShared \<and> R_Scope w = LockShared) \<and>
     (R_Path h = R_Path w \<or>
      R_Depth h = LockDepthInfinity \<and> pathCovers (R_Path h) (R_Path w) \<or>
      R_Depth w = LockDepthInfinity \<and> pathCovers (R_Path w) (R_Path h))"

lemma FromSQL_share: "share_ok s \<Longrightarrow> \<exists>i. FromSQL s row = Some i \<and> I_Share i = s"
  by (auto simp: FromSQL_def Narrow_spec fits_def share_ok_def split: prod.split)

lemma scan_total:
  "share_ok (R_Share r) \<Longrightarrow> \<exists>l. scanDavLock r = Inr l \<and> I_Share (L_Ident l) = R_Share r"
  using FromSQL_share [of "R_Share r" "R_Ident r"] by (auto simp: scanDavLock_def)

lemma scan_fields:
  "scanDavLock r = Inr l \<Longrightarrow>
     L_Token l = R_Token r \<and> L_Path l = R_Path r \<and> L_Depth l = R_Depth r \<and> L_Scope l = R_Scope r \<and>
     L_ExpiresNs l = R_ExpiresNs r \<and> L_Principal l = R_Principal r \<and> L_TimeoutS l = R_TimeoutS r \<and>
     L_Owner l = R_Owner r"
  by (auto simp: scanDavLock_def split: option.splits)

lemma scan_rows_total:
  "list_all (\<lambda>r. share_ok (R_Share r)) rs \<Longrightarrow> \<exists>ls. scan_rows rs = Inr ls"
proof (induction rs)
  case (Cons r rs)
  with scan_total [of r] show ?case by auto
qed simp

lemma scan_rows_set:
  "scan_rows rs = Inr ls \<Longrightarrow> l \<in> set ls \<longleftrightarrow> (\<exists>r\<in>set rs. scanDavLock r = Inr l)"
  by (induction rs arbitrary: ls) (auto simp: bind_r_eq_Inr)

lemma LocksConflict_rows:
  assumes "scanDavLock h = Inr l" and "scanDavLock w = Inr l'"
  shows "R_Share h = R_Share w \<and> LocksConflict l l' \<longleftrightarrow> rows_conflict h w"
  using scan_fields [OF assms(1)] scan_fields [OF assms(2)]
  by (auto simp: LocksConflict_def locksOverlap_def rows_conflict_def)

lemma LocksConflict_row_of:
  assumes "scanDavLock h = Inr l"
  shows "R_Share h = I_Share (L_Ident w) \<and> LocksConflict l w \<longleftrightarrow> rows_conflict h (row_of w)"
  using scan_fields [OF assms]
  by (auto simp: LocksConflict_def locksOverlap_def rows_conflict_def row_of_def)

lemma rows_conflict_claim [simp]: "rows_conflict (claim h) (claim w) = rows_conflict h w"
  by (simp add: rows_conflict_def claim_def)

lemma rows_conflict_sym: "rows_conflict h w \<Longrightarrow> rows_conflict w h"
  by (auto simp: rows_conflict_def)

lemma claim_R_Token [simp]: "R_Token (claim r) = R_Token r"
  by (simp add: claim_def)

lemma AdmitDavLock_Inr:
  assumes "AdmitDavLock l now db = (Inr (), db')" and "table_ok db"
  shows "lock_rows db' = sqlSweepDavLocks now (lock_rows db) @ [row_of l]"
    and "L_Token l \<notin> R_Token ` set (sqlSweepDavLocks now (lock_rows db))"
    and "\<And>r. r \<in> set (lock_rows db) \<Longrightarrow> R_ExpiresNs r > now \<Longrightarrow> \<not> rows_conflict r (row_of l)"
    and "sqlCountDavLocks (L_Principal l) now (lock_rows db) < DavLocksPerUser"
    and "user_rows db' = user_rows db" and "prop_rows db' = prop_rows db"
    and "L_Principal l \<in> U_Id ` set (user_rows db)"
proof -
  let ?rows = "sqlSweepDavLocks now (lock_rows db)"
  let ?db = "db\<lparr>lock_rows := ?rows\<rparr>"
  let ?share = "I_Share (L_Ident l)"
  from assms(1) have "admit_tx l now db = Inr ((), db')"
    by (auto simp: AdmitDavLock_def EnsureWritable_def db_Write_Inr split: option.splits if_splits)
  then obtain live where live: "liveLocksInShare ?share now ?db = Inr live"
    and nc: "\<not> list_ex (\<lambda>held. LocksConflict held l) live"
    and cnt: "sqlCountDavLocks (L_Principal l) now ?rows < DavLocksPerUser"
    and ins: "sqlInsertDavLock (row_of l) ?db = Inr db'"
    by (auto simp: admit_tx_def Let_def bind_r_eq_Inr not_le split: if_splits)
  from ins show "lock_rows db' = ?rows @ [row_of l]" and "L_Token l \<notin> R_Token ` set ?rows"
    and "user_rows db' = user_rows db" and "prop_rows db' = prop_rows db"
    and "L_Principal l \<in> U_Id ` set (user_rows db)"
    by (auto simp: sqlInsertDavLock_def row_of_def split: if_splits)
  have "filter (\<lambda>r. R_Principal r = L_Principal l \<and> R_ExpiresNs r > now) ?rows =
        filter (\<lambda>r. R_Principal r = L_Principal l \<and> R_ExpiresNs r > now) (lock_rows db)"
    by (auto simp: sqlSweepDavLocks_def intro!: filter_cong)
  with cnt show "sqlCountDavLocks (L_Principal l) now (lock_rows db) < DavLocksPerUser"
    by (simp add: sqlCountDavLocks_def)
  fix r assume r: "r \<in> set (lock_rows db)" "R_ExpiresNs r > now"
  show "\<not> rows_conflict r (row_of l)"
  proof
    assume c: "rows_conflict r (row_of l)"
    from assms(2) r have "share_ok (R_Share r)" by (auto simp: table_ok_def list_all_iff)
    then obtain h where h: "scanDavLock r = Inr h" using scan_total by blast
    with c LocksConflict_row_of have cf: "R_Share r = ?share" "LocksConflict h l" by blast+
    with r have "r \<in> set (sqlLiveDavLocksInShare ?share now ?rows)"
      by (simp add: sqlLiveDavLocksInShare_def sqlSweepDavLocks_def)
    with live h have "h \<in> set live" by (auto simp: liveLocksInShare_def scan_rows_set)
    with nc cf show False by (auto simp: list_ex_iff)
  qed
qed

inductive table_admits :: "lock_row \<Rightarrow> int \<Rightarrow> state_db \<Rightarrow> state_db \<Rightarrow> bool" where
  "share_ok (I_Share (L_Ident l)) \<Longrightarrow> AdmitDavLock l now db = (Inr (), db') \<Longrightarrow>
     table_admits (claim (row_of l)) now db db'"

text \<open>Everything else that can happen to the table.\<close>

inductive table_maintains :: "int \<Rightarrow> state_db \<Rightarrow> state_db \<Rightarrow> bool" where
  refused: "AdmitDavLock l now db = (Inl e, db') \<Longrightarrow> table_maintains now db db'"
| refresh: "RefreshDavLock token expires timeout now db = (r, db') \<Longrightarrow> table_maintains now db db'"
| drop: "DropDavLock token db = (r, db') \<Longrightarrow> table_maintains now db db'"
| sweep: "SweepDavLocks now db = (n, db') \<Longrightarrow> table_maintains now db db'"
| guard: "table_maintains now db (SetWritesBlocked b db)"

inductive_cases table_admitsE: "table_admits c now db db'"
inductive_cases table_maintainsE: "table_maintains now db db'"

lemma claim_token_inj:
  "table_ok db \<Longrightarrow> r \<in> set (lock_rows db) \<Longrightarrow> r' \<in> set (lock_rows db) \<Longrightarrow> R_Token r = R_Token r' \<Longrightarrow> r = r'"
  by (auto simp: table_ok_def distinct_map inj_on_def)

lemma table_ok_filter: "table_ok db \<Longrightarrow> table_ok (db\<lparr>lock_rows := filter P (lock_rows db)\<rparr>)"
  by (auto simp: table_ok_def list_all_iff distinct_map_filter)

lemma live_claims_filter: "live_claims (db\<lparr>lock_rows := filter P (lock_rows db)\<rparr>) now \<subseteq> live_claims db now"
  by (auto simp: live_claims_def)

lemma refreshed_rows:
  assumes "sqlRefreshDavLock expires timeout token now rows = (rows', n)"
  shows "map claim rows' = map claim rows" and "map R_Token rows' = map R_Token rows"
    and "\<And>r'. r' \<in> set rows' \<Longrightarrow> R_ExpiresNs r' > now \<Longrightarrow>
           \<exists>r\<in>set rows. R_ExpiresNs r > now \<and> claim r = claim r'"
proof -
  have rows': "rows' = map (\<lambda>r. if R_Token r = token \<and> R_ExpiresNs r > now
      then r\<lparr>R_ExpiresNs := expires, R_TimeoutS := timeout\<rparr> else r) rows"
    using assms by (simp add: sqlRefreshDavLock_def Let_def)
  then show "map claim rows' = map claim rows" "map R_Token rows' = map R_Token rows"
    by (simp_all add: claim_def)
  fix r' assume "r' \<in> set rows'" "R_ExpiresNs r' > now"
  with rows' obtain r where "r \<in> set rows" "R_ExpiresNs r > now"
    "r' = r \<or> r' = r\<lparr>R_ExpiresNs := expires, R_TimeoutS := timeout\<rparr>"
    by (auto split: if_splits)
  then show "\<exists>r\<in>set rows. R_ExpiresNs r > now \<and> claim r = claim r'"
    by (intro bexI [of _ r]) (auto simp: claim_def)
qed

lemma refresh_keeps:
  assumes "table_ok db" and "RefreshDavLock token expires timeout now db = (r, db')"
  shows "table_ok db' \<and> live_claims db' now \<subseteq> live_claims db now"
proof (cases r)
  case (Inl e)
  with assms show ?thesis by (auto simp: RefreshDavLock_def db_Write_Inl)
next
  case (Inr u)
  obtain rows n where rows: "sqlRefreshDavLock expires timeout token now (lock_rows db) = (rows, n)"
    by fastforce
  with assms(2) Inr have db': "db' = db\<lparr>lock_rows := rows\<rparr>"
    by (auto simp: RefreshDavLock_def db_Write_Inr split: if_splits)
  note fresh = refreshed_rows [OF rows]
  have "map R_Share rows = map R_Share (lock_rows db)"
    using arg_cong [OF fresh(1), of "map R_Share"] by (simp add: comp_def claim_def)
  then have "list_all share_ok (map R_Share rows) = list_all share_ok (map R_Share (lock_rows db))"
    by simp
  then have "table_ok db'"
    using assms(1) fresh(2) db' by (simp add: table_ok_def list.pred_map comp_def)
  moreover have "live_claims db' now \<subseteq> live_claims db now"
    using fresh(3) db' by (fastforce simp: live_claims_def image_iff)
  ultimately show ?thesis by blast
qed

lemma maintains_keeps:
  assumes "table_ok db" and "table_maintains now db db'"
  shows "table_ok db' \<and> live_claims db' now \<subseteq> live_claims db now"
  using assms(2)
proof cases
  case (refused l e)
  then have "db' = db" by (auto simp: AdmitDavLock_def db_Write_Inl split: option.splits)
  with assms(1) show ?thesis by simp
next
  case (refresh token expires timeout r)
  with assms(1) show ?thesis by (rule refresh_keeps)
next
  case (drop token r)
  then have "db' = db\<lparr>lock_rows := filter (\<lambda>r. R_Token r \<noteq> token) (lock_rows db)\<rparr>"
    by (auto simp: DropDavLock_def db_Write_def sqlDeleteDavLock_def)
  with assms(1) table_ok_filter live_claims_filter show ?thesis by blast
next
  case (sweep n)
  then have "db' = db\<lparr>lock_rows := filter (\<lambda>r. \<not> R_ExpiresNs r \<le> now) (lock_rows db)\<rparr>"
    by (auto simp: SweepDavLocks_def db_Write_def sqlSweepDavLocks_def Let_def)
  with assms(1) table_ok_filter live_claims_filter show ?thesis by blast
next
  case (guard b)
  with assms(1) show ?thesis by (simp add: SetWritesBlocked_def table_ok_def live_claims_def)
qed

lemma admits_keeps:
  assumes "table_ok db" and "table_admits c now db db'"
  shows "table_ok db' \<and> live_claims db' now \<subseteq> insert c (live_claims db now) \<and>
         (\<forall>h\<in>live_claims db now. \<not> rows_conflict h c)"
proof -
  from assms(2) obtain l where l: "share_ok (I_Share (L_Ident l))" "c = claim (row_of l)"
    "AdmitDavLock l now db = (Inr (), db')" by (rule table_admitsE) blast
  note facts = AdmitDavLock_Inr [OF l(3) assms(1)]
  have "table_ok (db\<lparr>lock_rows := sqlSweepDavLocks now (lock_rows db)\<rparr>)"
    using table_ok_filter [OF assms(1)] by (simp add: sqlSweepDavLocks_def)
  then have "table_ok db'"
    using facts(1,2) l(1) by (auto simp: table_ok_def row_of_def)
  moreover have "live_claims db' now \<subseteq> insert c (live_claims db now)"
    using facts(1) l(2) by (auto simp: live_claims_def sqlSweepDavLocks_def)
  moreover have "\<forall>h\<in>live_claims db now. \<not> rows_conflict h c"
    using facts(3) l(2) by (auto simp: live_claims_def)
  ultimately show ?thesis by blast
qed

interpretation lt: lock_table table_ok live_claims rows_conflict table_admits table_maintains
proof unfold_locales
  fix t t' :: int and db assume "t \<le> t'"
  then show "live_claims db t' \<subseteq> live_claims db t" by (auto simp: live_claims_def)
qed (auto dest: rows_conflict_sym admits_keeps maintains_keeps)

text \<open>
  A history of the table: any operations in any order, at instants that do not go back.
\<close>

inductive lock_history :: "int \<Rightarrow> state_db \<Rightarrow> bool" where
  start: "lock_rows db = [] \<Longrightarrow> lock_history now db"
| wait: "lock_history t db \<Longrightarrow> t \<le> now \<Longrightarrow> lock_history now db"
| admit: "lock_history t db \<Longrightarrow> t \<le> now \<Longrightarrow> share_ok (I_Share (L_Ident l)) \<Longrightarrow>
    AdmitDavLock l now db = (r, db') \<Longrightarrow> lock_history now db'"
| refresh: "lock_history t db \<Longrightarrow> t \<le> now \<Longrightarrow>
    RefreshDavLock token expires timeout now db = (r, db') \<Longrightarrow> lock_history now db'"
| drop: "lock_history t db \<Longrightarrow> t \<le> now \<Longrightarrow> DropDavLock token db = (r, db') \<Longrightarrow> lock_history now db'"
| sweep: "lock_history t db \<Longrightarrow> t \<le> now \<Longrightarrow> SweepDavLocks now db = (n, db') \<Longrightarrow> lock_history now db'"
| guard: "lock_history t db \<Longrightarrow> lock_history t (SetWritesBlocked b db)"

lemma admit_either:
  assumes "AdmitDavLock l now db = (r, db')" and "share_ok (I_Share (L_Ident l))"
  shows "table_admits (claim (row_of l)) now db db' \<or> table_maintains now db db'"
  using assms by (cases r) (auto intro: table_admits.intros table_maintains.refused)

lemma history_exclusive: "lock_history now db \<Longrightarrow> lt.exclusive now db"
proof (induction rule: lock_history.induct)
  case (start db now)
  then have "table_ok db" and "live_claims db now = {}"
    by (simp_all add: table_ok_def live_claims_def)
  then show ?case by (simp add: lt.exclusive_def)
next
  case (wait t db now)
  then show ?case using lt.exclusive_later by blast
next
  case (admit t db now l r db')
  from admit_either [OF admit.hyps(4,3)] show ?case
    using lt.exclusive_admits [OF admit.IH admit.hyps(2)] lt.exclusive_maintains [OF admit.IH admit.hyps(2)]
    by blast
next
  case (refresh t db now token expires timeout r db')
  from lt.exclusive_maintains [OF refresh.IH refresh.hyps(2) table_maintains.refresh [OF refresh.hyps(3)]]
  show ?case .
next
  case (drop t db now token r db')
  from lt.exclusive_maintains [OF drop.IH drop.hyps(2) table_maintains.drop [OF drop.hyps(3)]]
  show ?case .
next
  case (sweep t db now n db')
  from lt.exclusive_maintains [OF sweep.IH sweep.hyps(2) table_maintains.sweep [OF sweep.hyps(3)]]
  show ?case .
next
  case (guard t db b)
  from lt.exclusive_maintains [OF guard.IH order_refl table_maintains.guard] show ?case .
qed

lemma history_table_ok: "lock_history now db \<Longrightarrow> table_ok db"
  using history_exclusive by (simp add: lt.exclusive_def)

lemma DavLocks_total: "table_ok db \<Longrightarrow> \<exists>ls. DavLocks now db = Inr ls"
  unfolding DavLocks_def
  by (rule scan_rows_total) (auto simp: table_ok_def sqlSelectDavLocks_def list_all_iff)

lemma DavLocks_set:
  "DavLocks now db = Inr ls \<Longrightarrow>
     l \<in> set ls \<longleftrightarrow> (\<exists>r\<in>set (lock_rows db). R_ExpiresNs r > now \<and> scanDavLock r = Inr l)"
  by (auto simp: DavLocks_def scan_rows_set sqlSelectDavLocks_def)

section \<open>The per-user bound\<close>

lemma count_antimono: "t \<le> now \<Longrightarrow> sqlCountDavLocks who now rows \<le> sqlCountDavLocks who t rows"
  unfolding sqlCountDavLocks_def by (induction rows) auto

lemma count_filter: "sqlCountDavLocks who now (filter P rows) \<le> sqlCountDavLocks who now rows"
  unfolding sqlCountDavLocks_def by (induction rows) auto

lemma count_append:
  "sqlCountDavLocks who now (rows @ [r]) \<le>
     sqlCountDavLocks who now rows + (if who = R_Principal r then 1 else 0)"
  by (simp add: sqlCountDavLocks_def)

lemma count_refresh:
  assumes "sqlRefreshDavLock expires timeout token now rows = (rows', n)"
  shows "sqlCountDavLocks who now rows' \<le> sqlCountDavLocks who now rows"
proof -
  have "rows' = map (\<lambda>r. if R_Token r = token \<and> R_ExpiresNs r > now
      then r\<lparr>R_ExpiresNs := expires, R_TimeoutS := timeout\<rparr> else r) rows"
    using assms by (simp add: sqlRefreshDavLock_def Let_def)
  then show ?thesis unfolding sqlCountDavLocks_def by (induction rows arbitrary: rows') auto
qed

definition bounded_users :: "int \<Rightarrow> state_db \<Rightarrow> bool" where
  "bounded_users now db \<longleftrightarrow> (\<forall>who. sqlCountDavLocks who now (lock_rows db) \<le> DavLocksPerUser)"

lemma bounded_users_later: "bounded_users t db \<Longrightarrow> t \<le> now \<Longrightarrow> bounded_users now db"
  unfolding bounded_users_def using count_antimono order_trans by blast

lemma bounded_users_admit:
  assumes "bounded_users now db" and "table_ok db" and "AdmitDavLock l now db = (r, db')"
  shows "bounded_users now db'"
proof (cases r)
  case (Inl e)
  with assms show ?thesis by (auto simp: AdmitDavLock_def db_Write_Inl split: option.splits)
next
  case (Inr u)
  with assms(3) have ok: "AdmitDavLock l now db = (Inr (), db')" by simp
  note facts = AdmitDavLock_Inr [OF ok assms(2)]
  have "sqlCountDavLocks who now (lock_rows db') \<le> DavLocksPerUser" for who
  proof -
    let ?swept = "sqlSweepDavLocks now (lock_rows db)"
    have "sqlCountDavLocks who now ?swept \<le> sqlCountDavLocks who now (lock_rows db)"
      unfolding sqlSweepDavLocks_def by (rule count_filter)
    moreover have "sqlCountDavLocks who now (lock_rows db') \<le>
        sqlCountDavLocks who now ?swept + (if who = L_Principal l then 1 else 0)"
      using count_append [of who now ?swept "row_of l"] facts(1) by (simp add: row_of_def)
    ultimately have "sqlCountDavLocks who now (lock_rows db') \<le>
        sqlCountDavLocks who now (lock_rows db) + (if who = L_Principal l then 1 else 0)"
      by linarith
    moreover have "sqlCountDavLocks who now (lock_rows db) \<le> DavLocksPerUser"
      using assms(1) by (simp add: bounded_users_def)
    ultimately show ?thesis using facts(4) by (cases "who = L_Principal l") simp_all
  qed
  then show ?thesis by (simp add: bounded_users_def)
qed

lemma bounded_users_refresh:
  assumes "bounded_users now db" and "RefreshDavLock token expires timeout now db = (r, db')"
  shows "bounded_users now db'"
proof (cases r)
  case (Inl e)
  with assms show ?thesis by (auto simp: RefreshDavLock_def db_Write_Inl)
next
  case (Inr u)
  obtain rows n where rows: "sqlRefreshDavLock expires timeout token now (lock_rows db) = (rows, n)"
    by fastforce
  with assms(2) Inr have "db' = db\<lparr>lock_rows := rows\<rparr>"
    by (auto simp: RefreshDavLock_def db_Write_Inr split: if_splits)
  with assms(1) count_refresh [OF rows] show ?thesis
    by (auto simp: bounded_users_def intro: order_trans)
qed

lemma bounded_users_filter:
  "bounded_users now db \<Longrightarrow> bounded_users now (db\<lparr>lock_rows := filter P (lock_rows db)\<rparr>)"
  using count_filter [of _ now P "lock_rows db"] by (auto simp: bounded_users_def intro: order_trans)

lemma history_bounded: "lock_history now db \<Longrightarrow> bounded_users now db"
proof (induction rule: lock_history.induct)
  case (admit t db now l r db')
  then show ?case
    using bounded_users_admit [OF bounded_users_later [OF admit.IH admit.hyps(2)]] history_table_ok by blast
next
  case (refresh t db now token expires timeout r db')
  then show ?case using bounded_users_refresh bounded_users_later by blast
next
  case (drop t db now token r db')
  then show ?case using bounded_users_filter bounded_users_later
    by (auto simp: DropDavLock_def db_Write_def sqlDeleteDavLock_def)
next
  case (sweep t db now n db')
  then show ?case using bounded_users_filter bounded_users_later
    by (auto simp: SweepDavLocks_def db_Write_def sqlSweepDavLocks_def Let_def)
next
  case (wait t db now)
  then show ?case using bounded_users_later by blast
qed (simp_all add: bounded_users_def sqlCountDavLocks_def DavLocksPerUser_def SetWritesBlocked_def)

lemma history_no_conflict:
  assumes "lock_history now db"
  shows "\<exists>ls. DavLocks now db = Inr ls \<and>
           (\<forall>l\<in>set ls. \<forall>l'\<in>set ls. L_Token l \<noteq> L_Token l' \<and> I_Share (L_Ident l) = I_Share (L_Ident l') \<longrightarrow>
              \<not> LocksConflict l l')"
proof -
  have ok: "table_ok db" and ex: "lt.exclusive now db"
    using assms history_table_ok history_exclusive by blast+
  obtain ls where ls: "DavLocks now db = Inr ls" using DavLocks_total [OF ok] by blast
  have "\<not> LocksConflict l l'" if l: "l \<in> set ls" "l' \<in> set ls" "L_Token l \<noteq> L_Token l'"
    "I_Share (L_Ident l) = I_Share (L_Ident l')" for l l'
  proof -
    obtain r r' where r: "r \<in> set (lock_rows db)" "R_ExpiresNs r > now" "scanDavLock r = Inr l"
      and r': "r' \<in> set (lock_rows db)" "R_ExpiresNs r' > now" "scanDavLock r' = Inr l'"
      using l(1,2) DavLocks_set [OF ls] by blast
    have "share_ok (R_Share r)" "share_ok (R_Share r')"
      using ok r(1) r'(1) by (auto simp: table_ok_def list_all_iff)
    with scan_total [of r] scan_total [of r'] r(3) r'(3) l(4) have "R_Share r = R_Share r'" by auto
    moreover have "claim r \<noteq> claim r'"
      using l(3) scan_fields [OF r(3)] scan_fields [OF r'(3)] by (metis claim_R_Token)
    then have "\<not> rows_conflict r r'"
      using ex r r' by (force simp: lt.exclusive_def live_claims_def)
    ultimately show ?thesis using LocksConflict_rows [OF r(3) r'(3)] by blast
  qed
  with ls show ?thesis by blast
qed

section \<open>Properties\<close>

definition demo_db :: state_db where
  "demo_db = empty_db\<lparr>user_rows := [\<lparr>U_Id = 1, U_Quota = None, U_Usage = 0\<rparr>,
     \<lparr>U_Id = 2, U_Quota = Some 10, U_Usage = 4\<rparr>]\<rparr>"

definition demo_ident :: ident where
  "demo_ident = \<lparr>I_Share = 7, I_Dev = 1, I_Ino = 2, I_Btime = None\<rparr>"

definition demo_lock :: "string \<Rightarrow> string \<Rightarrow> int \<Rightarrow> int \<Rightarrow> dav_lock" where
  "demo_lock token path who depth =
     \<lparr>L_Token = token, L_Ident = demo_ident, L_Path = path, L_Principal = who, L_Owner = [],
      L_Depth = depth, L_Scope = LockExclusive, L_ExpiresNs = 100, L_TimeoutS = 1\<rparr>"

lemmas lock_eval_simps = AdmitDavLock_def EnsureWritable_def demo_db_def db_Write_def admit_tx_def
  sqlSweepDavLocks_def liveLocksInShare_def sqlLiveDavLocksInShare_def sqlCountDavLocks_def
  DavLocksPerUser_def sqlInsertDavLock_def row_of_def demo_lock_def demo_ident_def LockExclusive_def
  LockShared_def LockDepthInfinity_def LockDepthZero_def

text \<open>
  C3. Mutual exclusion: after any history of admissions, refreshes, releases and sweeps, at
  instants that do not go back, the live locks can be read without error and no two of them
  on one share conflict: two overlapping locks are both shared. In particular a refresh
  cannot bring back a lock that expired and was meanwhile replaced.
\<close>
theorem live_locks_never_conflict:
  assumes "lock_history now db"
  shows "\<exists>ls. DavLocks now db = Inr ls \<and>
           (\<forall>l\<in>set ls. \<forall>l'\<in>set ls. L_Token l \<noteq> L_Token l' \<and> I_Share (L_Ident l) = I_Share (L_Ident l') \<longrightarrow>
              \<not> LocksConflict l l')"
  using assms by (rule history_no_conflict)

lemma demo_admit:
  "AdmitDavLock (demo_lock ''t'' ''a'' 1 0) 5 demo_db =
     (Inr (), demo_db\<lparr>lock_rows := [row_of (demo_lock ''t'' ''a'' 1 0)]\<rparr>)"
  by (simp add: lock_eval_simps)

lemma demo_history: "lock_history 5 (demo_db\<lparr>lock_rows := [row_of (demo_lock ''t'' ''a'' 1 0)]\<rparr>)"
proof -
  have "lock_history 5 demo_db" by (rule lock_history.start) (simp add: demo_db_def)
  from lock_history.admit [OF this order_refl _ demo_admit] show ?thesis
    by (simp add: demo_lock_def demo_ident_def share_ok_def)
qed

theorem live_locks_never_conflict_witness:
  "\<exists>ls. DavLocks 5 (demo_db\<lparr>lock_rows := [row_of (demo_lock ''t'' ''a'' 1 0)]\<rparr>) = Inr ls"
  using live_locks_never_conflict [OF demo_history] by blast

text \<open>
  No account ever holds more than 256 live locks, whatever it does to the table.
\<close>
theorem locks_per_user_bounded:
  assumes "lock_history now db"
  shows "sqlCountDavLocks who now (lock_rows db) \<le> 256"
  using history_bounded [OF assms] by (simp add: bounded_users_def DavLocksPerUser_def)

theorem locks_per_user_bounded_witness:
  "sqlCountDavLocks 1 5 [row_of (demo_lock ''t'' ''a'' 1 0)] \<le> 256"
  using locks_per_user_bounded [OF demo_history, of 1] by (simp add: demo_db_def)

end
