(* ===== verification/Sc_DavPath.thy ===== *)
theory Sc_DavPath
  imports Sc_VfsPath
begin

text \<open>
  URL paths of the WebDAV mount: \<open>internal/dav/path.go\<close> (splitting, percent decoding, the
  one href encoder of the tree) and \<open>internal/dav/destination.go\<close> (the \<open>Destination\<close> and
  \<open>Overwrite\<close> headers of COPY and MOVE).
\<close>

section \<open>Definitions\<close>

datatype dav_path_error = ErrBadEscape | ErrEncodedSeparator | ErrNUL | ErrDotSegment

definition unhex :: "char \<Rightarrow> nat option" where
  "unhex c =
     (let b = byte_of c in
      if 48 \<le> b \<and> b \<le> 57 then Some (b - 48)
      else if 97 \<le> b \<and> b \<le> 102 then Some (b - 97 + 10)
      else if 65 \<le> b \<and> b \<le> 70 then Some (b - 65 + 10)
      else None)"

text \<open>The decoding loop: a percent sign needs two hex digits after it.\<close>

fun unescape_loop :: "string \<Rightarrow> (dav_path_error, string) result" where
  "unescape_loop [] = Inr []"
| "unescape_loop (c # s) =
     (if c \<noteq> CHR ''%'' then bind_r (unescape_loop s) (\<lambda>r. Inr (c # r))
      else (case s of
        h # l # rest \<Rightarrow>
          (case (unhex h, unhex l) of
             (Some hi, Some lo) \<Rightarrow>
               bind_r (unescape_loop rest) (\<lambda>r. Inr (char_of (hi * 16 + lo) # r))
           | _ \<Rightarrow> Inl ErrBadEscape)
      | _ \<Rightarrow> Inl ErrBadEscape))"

definition unescapeSegment :: "string \<Rightarrow> (dav_path_error, string) result" where
  "unescapeSegment seg = (if CHR ''%'' \<notin> set seg then Inr seg else unescape_loop seg)"

definition checkSegment :: "string \<Rightarrow> dav_path_error option" where
  "checkSegment seg =
     (if slash \<in> set seg then Some ErrEncodedSeparator
      else if nul \<in> set seg then Some ErrNUL
      else if seg = ''.'' \<or> seg = ''..'' then Some ErrDotSegment
      else None)"

fun decode_segments :: "string list \<Rightarrow> (dav_path_error, string list) result" where
  "decode_segments [] = Inr []"
| "decode_segments (seg # segs) =
     (if seg = [] then decode_segments segs
      else bind_r (unescapeSegment seg) (\<lambda>decoded.
        case checkSegment decoded of
          Some e \<Rightarrow> Inl e
        | None \<Rightarrow> bind_r (decode_segments segs) (\<lambda>out. Inr (decoded # out))))"

fun check_segments :: "string list \<Rightarrow> dav_path_error option" where
  "check_segments [] = None"
| "check_segments (seg # segs) =
     (case checkSegment seg of Some e \<Rightarrow> Some e | None \<Rightarrow> check_segments segs)"

definition SplitPath :: "'enc text_library \<Rightarrow> string \<Rightarrow> (dav_path_error, string list) result" where
  "SplitPath T raw =
     bind_r (decode_segments (Split slash (TrimPrefix raw ''/''))) (\<lambda>out0.
       let out = Components T out0 in
       case check_segments out of Some e \<Rightarrow> Inl e | None \<Rightarrow> Inr out)"

definition unreserved :: "char \<Rightarrow> bool" where
  "unreserved c =
     (let b = byte_of c :: nat in
      (97 \<le> b \<and> b \<le> 122) \<or> (65 \<le> b \<and> b \<le> 90) \<or> (48 \<le> b \<and> b \<le> 57) \<or>
      c = CHR ''-'' \<or> c = CHR ''.'' \<or> c = CHR ''_'' \<or> c = CHR ''~'')"

definition hexDigits :: string where "hexDigits = ''0123456789ABCDEF''"

fun appendEscaped :: "string \<Rightarrow> string \<Rightarrow> string" where
  "appendEscaped out [] = out"
| "appendEscaped out (c # seg) =
     appendEscaped
       (if unreserved c then out @ [c]
        else out @ [CHR ''%'', hexDigits ! (byte_of c div 16), hexDigits ! (byte_of c mod 16)])
       seg"

fun href_loop :: "string \<Rightarrow> nat \<Rightarrow> string list \<Rightarrow> string" where
  "href_loop out i [] = out"
| "href_loop out i (seg # segs) =
     href_loop (appendEscaped (if i > 0 then out @ ''/'' else out) seg) (Suc i) segs"

definition EncodeHref :: "string list \<Rightarrow> bool \<Rightarrow> string" where
  "EncodeHref segments collection =
     (let out = href_loop ''/'' 0 segments in
      if collection \<and> segments \<noteq> [] then out @ ''/'' else out)"

section \<open>Destination and Overwrite\<close>

datatype dest_error = ErrNoDestination | ErrForeignDestination | DestPath dav_path_error

definition is_alpha :: "char \<Rightarrow> bool" where
  "is_alpha c = (let b = byte_of c :: nat in (97 \<le> b \<and> b \<le> 122) \<or> (65 \<le> b \<and> b \<le> 90))"

definition scheme_char :: "nat \<Rightarrow> char \<Rightarrow> bool" where
  "scheme_char j c \<longleftrightarrow>
     \<not> (j = 0 \<and> \<not> is_alpha c) \<and>
     (is_alpha c \<or> is_digit c \<or> c = CHR ''+'' \<or> c = CHR ''-'' \<or> c = CHR ''.'')"

fun scheme_ok :: "nat \<Rightarrow> string \<Rightarrow> bool" where
  "scheme_ok j [] = True"
| "scheme_ok j (c # cs) = (scheme_char j c \<and> scheme_ok (Suc j) cs)"

definition schemeOf :: "string \<Rightarrow> string" where
  "schemeOf value =
     (case Index ''://'' value of
        None \<Rightarrow> []
      | Some i \<Rightarrow> if i = 0 then []
                   else if scheme_ok 0 (take i value) then take i value else [])"

definition stripUserinfo :: "string \<Rightarrow> string" where
  "stripUserinfo host =
     (case LastIndexByte (CHR ''@'') host of Some i \<Rightarrow> drop (i + 1) host | None \<Rightarrow> host)"

definition split_host :: "string \<Rightarrow> string \<times> string" where
  "split_host rest =
     (case IndexByte slash rest of Some i \<Rightarrow> (take i rest, drop i rest) | None \<Rightarrow> (rest, ''/''))"

definition drop_query :: "string \<Rightarrow> string" where
  "drop_query path = (case IndexByte (CHR ''?'') path of Some i \<Rightarrow> take i path | None \<Rightarrow> path)"

definition dest_path ::
  "'enc text_library \<Rightarrow> string \<Rightarrow> (dest_error, string list) result" where
  "dest_path T path =
     (if \<not> HasPrefix path ''/'' then Inl ErrNoDestination
      else (case SplitPath T (drop_query path) of Inl e \<Rightarrow> Inl (DestPath e) | Inr segs \<Rightarrow> Inr segs))"

definition ParseDestination ::
  "'enc text_library \<Rightarrow> (string \<Rightarrow> string \<Rightarrow> bool) \<Rightarrow> string \<Rightarrow> string \<Rightarrow>
     (dest_error, string list) result" where
  "ParseDestination T fold_runes value0 requestHost =
     (let value = TrimSpace value0 in
      if value = [] then Inl ErrNoDestination
      else (let scheme = schemeOf value in
        if scheme \<noteq> [] then
          (case split_host (drop (length scheme + 3) value) of (host, path) \<Rightarrow>
             if \<not> EqualFold fold_runes (stripUserinfo host) (stripUserinfo requestHost)
             then Inl ErrForeignDestination
             else dest_path T path)
        else dest_path T value))"

definition Overwrite :: "string \<Rightarrow> bool" where
  "Overwrite value \<longleftrightarrow> \<not> EqualFoldASCII (TrimSpace value) ''F''"

section \<open>Lemmas on the escaping\<close>

definition esc :: "char \<Rightarrow> string" where
  "esc c = (if unreserved c then [c]
            else [CHR ''%'', hexDigits ! (byte_of c div 16), hexDigits ! (byte_of c mod 16)])"

definition escape :: "string \<Rightarrow> string" where
  "escape s = concat (map esc s)"

lemma appendEscaped_eq: "appendEscaped out s = out @ escape s"
  by (induction out s rule: appendEscaped.induct) (simp_all add: escape_def esc_def)

lemma href_loop_Suc: "href_loop out (Suc i) segs = out @ concat (map (\<lambda>s. slash # escape s) segs)"
  by (induction segs arbitrary: out i) (simp_all add: appendEscaped_eq)

lemma Join_concat: "Join c (x # xs) = x @ concat (map (\<lambda>s. c # s) xs)"
  by (induction xs arbitrary: x) simp_all

lemma EncodeHref_eq:
  "EncodeHref segs coll =
     slash # Join slash (map escape segs) @ (if coll \<and> segs \<noteq> [] then ''/'' else [])"
  by (cases segs)
    (simp_all add: EncodeHref_def Let_def href_loop_Suc appendEscaped_eq Join_concat comp_def)

lemma hexDigits_nth:
  assumes "k < 16"
  shows "unhex (hexDigits ! k) = Some k \<and> unreserved (hexDigits ! k)"
proof -
  have "\<forall>k\<in>set [0..<16]. unhex (hexDigits ! k) = Some k \<and> unreserved (hexDigits ! k)"
    by (simp add: upt_rec hexDigits_def unhex_def unreserved_def)
  with assms show ?thesis by simp
qed

lemma unreserved_no_percent: "unreserved c \<Longrightarrow> c \<noteq> CHR ''%'' \<and> c \<noteq> slash \<and> c \<noteq> CHR ''?'' \<and> plain_char c"
  by (auto simp: unreserved_def Let_def plain_char_def)

lemma byte_halves:
  fixes c :: char
  shows "byte_of c div 16 < (16::nat)" "byte_of c mod 16 < (16::nat)"
    "char_of (byte_of c div 16 * 16 + byte_of c mod 16 :: nat) = c"
proof -
  show "byte_of c div 16 < (16::nat)" using nat_of_char_less_256 [of c] by linarith
qed simp_all

lemma unescape_loop_escape: "unescape_loop (escape s) = Inr s"
proof (induction s)
  case (Cons c s)
  show ?case
  proof (cases "unreserved c")
    case True
    with unreserved_no_percent Cons show ?thesis by (auto simp: escape_def esc_def)
  next
    case False
    with Cons hexDigits_nth [OF byte_halves(1)] hexDigits_nth [OF byte_halves(2)] byte_halves(3) [of c]
    show ?thesis by (simp add: escape_def esc_def)
  qed
qed (simp add: escape_def)

lemma unescape_loop_plain: "CHR ''%'' \<notin> set s \<Longrightarrow> unescape_loop s = Inr s"
  by (induction s) auto

lemma unescapeSegment_escape: "unescapeSegment (escape s) = Inr s"
  using unescape_loop_escape [of s] unescape_loop_plain [of "escape s"]
  by (auto simp: unescapeSegment_def)

lemma escape_chars: "c \<in> set (escape s) \<Longrightarrow> unreserved c \<or> c = CHR ''%''"
  using hexDigits_nth [OF byte_halves(1)] hexDigits_nth [OF byte_halves(2)]
  by (auto simp: escape_def esc_def split: if_splits)

lemma escape_no_slash: "slash \<notin> set (escape s)"
  using escape_chars [of slash s] unreserved_no_percent [of slash] by auto

lemma escape_Nil_iff [simp]: "escape s = [] \<longleftrightarrow> s = []"
  by (cases s) (auto simp: escape_def esc_def)

section \<open>Segments\<close>

definition ok_segment :: "string \<Rightarrow> bool" where
  "ok_segment s \<longleftrightarrow> slash \<notin> set s \<and> nul \<notin> set s \<and> s \<noteq> ''.'' \<and> s \<noteq> ''..''"

lemma checkSegment_None: "checkSegment s = None \<longleftrightarrow> ok_segment s"
  by (auto simp: checkSegment_def ok_segment_def)

lemma check_segments_None: "check_segments ss = None \<longleftrightarrow> list_all ok_segment ss"
  by (induction ss) (auto simp: checkSegment_None [symmetric] split: option.splits)

lemma decode_segments_ok: "decode_segments ss = Inr out \<Longrightarrow> list_all ok_segment out"
  by (induction ss arbitrary: out)
    (auto simp: bind_r_eq_Inr checkSegment_None split: if_splits option.splits)

lemma decode_segments_escape:
  "list_all (\<lambda>s. s \<noteq> [] \<and> ok_segment s) ss \<Longrightarrow> decode_segments (map escape ss) = Inr ss"
  by (induction ss) (auto simp: unescapeSegment_escape checkSegment_None split: option.split)

lemma decode_segments_snoc_Nil: "decode_segments (ss @ [[]]) = decode_segments ss"
proof (induction ss)
  case (Cons s ss)
  then have eq: "decode_segments (ss @ [[]]) = decode_segments ss" by simp
  show ?case by (simp only: append_Cons decode_segments.simps eq)
qed simp

lemma Split_snoc_sep: "Split c (s @ [c]) = Split c s @ [[]]"
  by (induction s) (auto split: list.splits)

lemma Split_Join_escape:
  "ss \<noteq> [] \<Longrightarrow> Split slash (Join slash (map escape ss)) = map escape ss"
  by (rule Split_Join) (auto simp: escape_no_slash)

lemma SplitPath_EncodeHref:
  assumes "list_all (\<lambda>s. s \<noteq> [] \<and> ok_segment s \<and> IsNormalized T s) segs"
  shows "SplitPath T (EncodeHref segs coll) = Inr segs"
proof -
  have dec: "decode_segments (map escape segs) = Inr segs"
    using assms by (intro decode_segments_escape) (auto simp: list_all_iff)
  have "Components T segs = segs"
    using assms by (intro Components_clean) (auto simp: components_dirty_def list_all_iff list_ex_iff)
  moreover have "check_segments segs = None"
    using assms by (auto simp: check_segments_None list_all_iff)
  moreover have "decode_segments (Split slash (TrimPrefix (EncodeHref segs coll) ''/'')) = Inr segs"
  proof (cases "segs = []")
    case True
    then show ?thesis by (simp add: EncodeHref_eq TrimPrefix_def)
  next
    case False
    with dec Split_Join_escape [OF False] show ?thesis
      by (auto simp: EncodeHref_eq TrimPrefix_def Split_snoc_sep decode_segments_snoc_Nil)
  qed
  ultimately show ?thesis by (simp add: SplitPath_def Let_def)
qed

lemma href_chars:
  assumes "c \<in> set (EncodeHref segs coll)"
  shows "unreserved c \<or> c = CHR ''%'' \<or> c = slash"
proof -
  have "c \<in> set (Join slash ss) \<Longrightarrow> c = slash \<or> (\<exists>s\<in>set ss. c \<in> set s)" for ss
    by (induction slash ss rule: Join.induct) auto
  from this [of "map escape segs"] assms escape_chars show ?thesis
    by (auto simp: EncodeHref_eq split: if_splits)
qed


section \<open>Destinations\<close>

lemma Index_scheme: "CHR '':'' \<notin> set s \<Longrightarrow> Index ''://'' (s @ ''://'' @ rest) = Some (length s)"
  by (induction s) auto

lemma scheme_ok_colon: "scheme_ok j s \<Longrightarrow> CHR '':'' \<notin> set s"
  by (induction s arbitrary: j) (auto simp: scheme_char_def is_alpha_def is_digit_def)

lemma schemeOf_url: "scheme_ok 0 s \<Longrightarrow> s \<noteq> [] \<Longrightarrow> schemeOf (s @ ''://'' @ rest) = s"
  using Index_scheme [OF scheme_ok_colon, of 0 s rest] by (simp add: schemeOf_def)

lemma split_host_url:
  "slash \<notin> set h \<Longrightarrow> split_host (h @ EncodeHref segs coll) = (h, EncodeHref segs coll)"
  by (simp add: split_host_def EncodeHref_eq IndexByte_append)

lemma drop_query_href: "drop_query (EncodeHref segs coll) = EncodeHref segs coll"
proof -
  have "CHR ''?'' \<notin> set (EncodeHref segs coll)"
    using href_chars [of "CHR ''?''" segs coll] unreserved_no_percent by auto
  then have "IndexByte (CHR ''?'') (EncodeHref segs coll) = None" by (simp add: IndexByte_None)
  then show ?thesis by (simp add: drop_query_def)
qed

lemma HasPrefix_href: "HasPrefix (EncodeHref segs coll) ''/''"
  by (simp add: EncodeHref_eq)

lemma href_plain: "list_all plain_char (EncodeHref segs coll)"
  using href_chars unreserved_no_percent by (fastforce simp: list_all_iff plain_char_def)

lemma TrimSpace_url:
  assumes "scheme_ok 0 s" "s \<noteq> []"
  shows "TrimSpace (s @ ''://'' @ h @ EncodeHref segs coll) = s @ ''://'' @ h @ EncodeHref segs coll"
proof -
  have "EncodeHref segs coll \<noteq> []" by (simp add: EncodeHref_eq)
  then have "plain_char (last (EncodeHref segs coll))"
    using href_plain [of segs coll] by (simp add: list_all_iff)
  moreover have "plain_char (hd s)"
    using assms by (cases s) (auto simp: scheme_char_def is_alpha_def plain_char_def Let_def)
  ultimately show ?thesis
    using assms(2) \<open>EncodeHref segs coll \<noteq> []\<close> by (intro TrimSpace_plain_ends) simp
qed

lemma schemeOf_no_colon: "CHR '':'' \<notin> set v \<Longrightarrow> schemeOf v = []"
proof -
  assume "CHR '':'' \<notin> set v"
  then have "Index ''://'' v = None" by (induction v) auto
  then show ?thesis by (simp add: schemeOf_def)
qed

lemma ParseDestination_href:
  assumes "list_all (\<lambda>s. s \<noteq> [] \<and> ok_segment s \<and> IsNormalized T s) segs"
  shows "dest_path T (EncodeHref segs coll) = Inr segs"
    and "ParseDestination T fr (EncodeHref segs coll) requestHost = Inr segs"
proof -
  show dp: "dest_path T (EncodeHref segs coll) = Inr segs"
    using SplitPath_EncodeHref [OF assms, of coll]
    by (simp add: dest_path_def HasPrefix_href drop_query_href)
  have "CHR '':'' \<notin> set (EncodeHref segs coll)"
    using href_chars [of "CHR '':''" segs coll] by (auto simp: unreserved_def)
  moreover have "EncodeHref segs coll \<noteq> []" by (simp add: EncodeHref_eq)
  ultimately show "ParseDestination T fr (EncodeHref segs coll) requestHost = Inr segs"
    using dp schemeOf_no_colon TrimSpace_plain [OF href_plain, of segs coll]
    by (simp add: ParseDestination_def Let_def)
qed

section \<open>Properties\<close>



text \<open>
  Hrefs round-trip and are inert in XML: what the encoder renders contains only
  unreserved characters, percent signs and separators, so nothing in it is markup or starts a
  query, and splitting it gives back exactly the segments, with or without the trailing
  separator of a collection.
\<close>
theorem href_roundtrip:
  assumes "list_all (\<lambda>s. s \<noteq> [] \<and> ok_segment s \<and> IsNormalized T s) segs"
  shows "SplitPath T (EncodeHref segs coll) = Inr segs \<and>
         list_all (\<lambda>c. unreserved c \<or> c = CHR ''%'' \<or> c = slash) (EncodeHref segs coll)"
  using SplitPath_EncodeHref [OF assms] href_chars by (auto simp: list_all_iff)

theorem href_roundtrip_witness:
  "SplitPath latin1_library (EncodeHref [''a&b'', ''c''] True) = Inr [''a&b'', ''c''] \<and>
   EncodeHref [''a&b'', ''c''] True = ''/a%26b/c/''"
proof -
  have "list_all (\<lambda>s. s \<noteq> [] \<and> ok_segment s \<and> IsNormalized latin1_library s) [''a&b'', ''c'']"
    by (simp add: ok_segment_def nul_def IsNormalized_def latin1_library_def ValidString_def)
  from href_roundtrip [OF this, of True] show ?thesis
    by (simp add: EncodeHref_def unreserved_def hexDigits_def)
qed

text \<open>
  Destinations: an absolute URL with any well-formed scheme is accepted exactly when its
  host, without user information and up to case folding, is the request's, and then names the
  segments its path encodes; the bare path is accepted without a host comparison.
\<close>
theorem destination_roundtrip:
  assumes "list_all (\<lambda>s. s \<noteq> [] \<and> ok_segment s \<and> IsNormalized T s) segs"
    and "scheme_ok 0 scheme" and "scheme \<noteq> []" and "slash \<notin> set host"
  shows "ParseDestination T fr (scheme @ ''://'' @ host @ EncodeHref segs coll) requestHost =
           (if EqualFold fr (stripUserinfo host) (stripUserinfo requestHost)
            then Inr segs else Inl ErrForeignDestination) \<and>
         ParseDestination T fr (EncodeHref segs coll) requestHost = Inr segs"
proof -
  have "ParseDestination T fr (scheme @ ''://'' @ host @ EncodeHref segs coll) requestHost =
           (if EqualFold fr (stripUserinfo host) (stripUserinfo requestHost)
            then Inr segs else Inl ErrForeignDestination)"
    using assms(3) ParseDestination_href(1) [OF assms(1)]
    unfolding ParseDestination_def Let_def TrimSpace_url [OF assms(2,3)] schemeOf_url [OF assms(2,3)]
    by (simp add: split_host_url [OF assms(4)])
  then show ?thesis using ParseDestination_href(2) [OF assms(1)] by blast
qed

theorem destination_roundtrip_witness:
  "ParseDestination latin1_library (\<lambda>_ _. False) ''https://Host/dav/c'' ''host'' = Inr [''dav'', ''c''] \<and>
   ParseDestination latin1_library (\<lambda>_ _. False) ''https://evil/dav/c'' ''host'' = Inl ErrForeignDestination"
proof -
  have 1: "list_all (\<lambda>s. s \<noteq> [] \<and> ok_segment s \<and> IsNormalized latin1_library s) [''dav'', ''c'']"
    by (simp add: ok_segment_def nul_def IsNormalized_def latin1_library_def ValidString_def)
  have 2: "scheme_ok 0 ''https''" by (simp add: scheme_char_def is_alpha_def)
  have 3: "EncodeHref [''dav'', ''c''] False = ''/dav/c''" by (simp add: EncodeHref_def unreserved_def)
  have 4: "stripUserinfo ''Host'' = ''Host''" "stripUserinfo ''host'' = ''host''" "stripUserinfo ''evil'' = ''evil''"
    by (simp_all add: stripUserinfo_def LastIndexByte_def)
  show ?thesis
    using destination_roundtrip [OF 1 2, of "''Host''" "\<lambda>_ _. False" False "''host''"]
      destination_roundtrip [OF 1 2, of "''evil''" "\<lambda>_ _. False" False "''host''"]
    by (simp add: 3 4 to_lower_def char_of_def bit_iff_odd)
qed

end
