(* ===== verification/Sc_Range.thy ===== *)
theory Sc_Range
  imports Sc_Prelude
begin

text \<open>
  Byte ranges and validators: \<open>internal/server/httpx/rangehdr.go\<close> (the \<open>Range\<close> header of
  the web surface, signed 64-bit offsets) and the parsing half of
  \<open>internal/dav/content.go\<close> (the same header on the WebDAV surface, unsigned offsets, and
  the validator lists of the conditional headers). Go's \<open>int64\<close> and \<open>uint64\<close> results are
  wrapped where the sources add or subtract.
\<close>

section \<open>The web surface\<close>

datatype range_error = ErrRangeUnsatisfiable | ErrRangeUnsupported

record byte_range =
  Start :: int
  End :: int

definition Range_Length :: "byte_range \<Rightarrow> int" where
  "Range_Length r = wrap_i64 (End r - Start r)"

definition ContentRange :: "byte_range \<Rightarrow> int \<Rightarrow> string" where
  "ContentRange r tot =
     ''bytes '' @ int_digits (Start r) @ ''-'' @ int_digits (wrap_i64 (End r - 1)) @ ''/'' @
     int_digits tot"

definition UnsatisfiedRange :: "int \<Rightarrow> string" where
  "UnsatisfiedRange sz = ''bytes */'' @ int_digits sz"

text \<open>
  \<open>ParseRange\<close>: \<^term>\<open>Inr None\<close> is the absent header, \<^term>\<open>Inr (Some r)\<close> one range. The
  suffix form and the offset form are the two branches of the source's \<open>switch\<close>.
\<close>

definition suffix_range :: "string \<Rightarrow> int \<Rightarrow> (range_error, byte_range option) result" where
  "suffix_range lst sz =
     (case ParseInt64 lst of
        None \<Rightarrow> Inl ErrRangeUnsupported
      | Some n \<Rightarrow>
          if n < 0 then Inl ErrRangeUnsupported
          else if n = 0 then Inl ErrRangeUnsatisfiable
          else (let n' = (if n > sz then sz else n)
                in Inr (Some \<lparr>Start = wrap_i64 (sz - n'), End = sz\<rparr>)))"

definition offset_range ::
  "string \<Rightarrow> string \<Rightarrow> int \<Rightarrow> (range_error, byte_range option) result" where
  "offset_range frst lst sz =
     (case ParseInt64 frst of
        None \<Rightarrow> Inl ErrRangeUnsupported
      | Some start \<Rightarrow>
          if start < 0 then Inl ErrRangeUnsupported
          else if start \<ge> sz then Inl ErrRangeUnsatisfiable
          else if lst = [] then Inr (Some \<lparr>Start = start, End = sz\<rparr>)
          else (case ParseInt64 lst of
                  None \<Rightarrow> Inl ErrRangeUnsupported
                | Some lastByte \<Rightarrow>
                    if lastByte < 0 then Inl ErrRangeUnsupported
                    else if lastByte < start then Inl ErrRangeUnsupported
                    else (let end1 = wrap_i64 (lastByte + 1);
                              end2 = (if end1 > sz then sz else end1)
                          in Inr (Some \<lparr>Start = start, End = end2\<rparr>))))"

definition ParseRange :: "string \<Rightarrow> int \<Rightarrow> (range_error, byte_range option) result" where
  "ParseRange header sz =
     (let h = TrimSpace header in
      if h = [] then Inr None
      else if sz \<le> 0 then Inl ErrRangeUnsatisfiable
      else (case CutPrefix h ''bytes='' of
              None \<Rightarrow> Inl ErrRangeUnsupported
            | Some spec \<Rightarrow>
                if CHR '','' \<in> set spec then Inl ErrRangeUnsupported
                else (case Cut (CHR ''-'') spec of (f, l, hasDash) \<Rightarrow>
                  if \<not> hasDash then Inl ErrRangeUnsupported
                  else (let frst = TrimSpace f; lst = TrimSpace l in
                    if frst = [] \<and> lst = [] then Inl ErrRangeUnsupported
                    else if frst = [] then suffix_range lst sz
                    else offset_range frst lst sz))))"

section \<open>The WebDAV surface\<close>

text \<open>
  \<open>parseByteRange\<close>: both ends inclusive. \<^term>\<open>Inl ()\<close> is \<open>ErrBadRange\<close>, the only
  error the function has.
\<close>

definition dav_suffix :: "string \<Rightarrow> int \<Rightarrow> (unit, (int \<times> int) option) result" where
  "dav_suffix lst sz =
     (case ParseUint64 lst of
        None \<Rightarrow> Inl ()
      | Some n \<Rightarrow>
          if n = 0 then Inl ()
          else if sz = 0 then Inl ()
          else (let n' = (if n > sz then sz else n)
                in Inr (Some (wrap_u64 (sz - n'), wrap_u64 (sz - 1)))))"

definition dav_open :: "string \<Rightarrow> int \<Rightarrow> (unit, (int \<times> int) option) result" where
  "dav_open frst sz =
     (case ParseUint64 frst of
        None \<Rightarrow> Inl ()
      | Some start \<Rightarrow>
          if start \<ge> sz then Inl () else Inr (Some (start, wrap_u64 (sz - 1))))"

definition dav_closed :: "string \<Rightarrow> string \<Rightarrow> int \<Rightarrow> (unit, (int \<times> int) option) result" where
  "dav_closed frst lst sz =
     (case (ParseUint64 frst, ParseUint64 lst) of
        (Some start, Some fin) \<Rightarrow>
          if start > fin \<or> start \<ge> sz then Inl ()
          else Inr (Some (start, if fin \<ge> sz then wrap_u64 (sz - 1) else fin))
      | _ \<Rightarrow> Inl ())"

definition parseByteRange :: "string \<Rightarrow> int \<Rightarrow> (unit, (int \<times> int) option) result" where
  "parseByteRange header sz =
     (let h = TrimSpace header in
      if h = [] then Inr None
      else (case CutPrefix h ''bytes='' of
              None \<Rightarrow> Inl ()
            | Some spec \<Rightarrow>
                if CHR '','' \<in> set spec then Inl ()
                else (case Cut (CHR ''-'') spec of (f, l, found) \<Rightarrow>
                  if \<not> found then Inl ()
                  else (let frst = TrimSpace f; lst = TrimSpace l in
                    if frst = [] \<and> lst = [] then Inl ()
                    else if frst = [] then dav_suffix lst sz
                    else if lst = [] then dav_open frst sz
                    else dav_closed frst lst sz))))"

section \<open>Validators\<close>

text \<open>A string in double quotes of at least two bytes, and what is between them.\<close>

definition quoted :: "string \<Rightarrow> string option" where
  "quoted s = (if length s < 2 \<or> hd s \<noteq> CHR 0x22 \<or> last s \<noteq> CHR 0x22 then None
               else Some (butlast (tl s)))"

text \<open>
  \<open>parseValidator\<close> returns a token and whether the header is usable; \<open>If-Match: *\<close> is
  usable and names no token.
\<close>

definition parseValidator :: "string \<Rightarrow> string option \<times> bool" where
  "parseValidator header =
     (let h = TrimSpace header in
      if h = [] then (None, False)
      else if h = ''*'' then (None, True)
      else if HasPrefix h ''W/'' then (None, False)
      else (case quoted h of Some t \<Rightarrow> (Some t, True) | None \<Rightarrow> (None, False)))"

definition validator_part :: "string \<Rightarrow> string option" where
  "validator_part part = quoted (TrimPrefix (TrimSpace part) ''W/'')"

definition anyValidatorMatches :: "string \<Rightarrow> string \<Rightarrow> bool" where
  "anyValidatorMatches header etag \<longleftrightarrow>
     list_ex (\<lambda>part. validator_part part = Some etag) (Split (CHR '','') header)"

text \<open>\<open>notModified\<close>: whether a conditional read is answered with 304.\<close>

definition notModified :: "string \<Rightarrow> string \<Rightarrow> bool" where
  "notModified ifNoneMatch etag =
     (let header = TrimSpace ifNoneMatch in
      if header = [] then False
      else if header \<noteq> ''*'' \<and> \<not> anyValidatorMatches header etag then False
      else True)"

definition ETagHeader :: "string \<Rightarrow> bool \<Rightarrow> string" where
  "ETagHeader etag weak =
     (if weak then ''W/'' @ [CHR 0x22] @ etag @ [CHR 0x22] else [CHR 0x22] @ etag @ [CHR 0x22])"

section \<open>Lemmas\<close>

lemma suffix_range_bounds:
  assumes "0 < sz" "in_i64 sz" "suffix_range l sz = Inr (Some r)"
  shows "0 \<le> Start r \<and> Start r < End r \<and> End r = sz"
  using assms wrap_i64_id
  by (auto simp: suffix_range_def Let_def in_i64_def min_i64_def max_i64_def
      split: option.splits if_splits)

lemma offset_range_bounds:
  assumes "0 < sz" "in_i64 sz" "offset_range f l sz = Inr (Some r)"
  shows "0 \<le> Start r \<and> Start r < sz \<and> End r \<le> sz \<and>
    (Start r < End r \<longleftrightarrow> ParseInt64 l \<noteq> Some max_i64) \<and> (ParseInt64 l = Some max_i64 \<longrightarrow> End r = min_i64)"
proof -
  from assms(3) obtain st where st: "ParseInt64 f = Some st" "0 \<le> st" "st < sz" "Start r = st"
    by (auto simp: offset_range_def Let_def split: option.splits if_splits)
  show ?thesis
  proof (cases "l = []")
    case True
    then have "ParseInt64 l = None" by (simp add: ParseInt64_def)
    moreover from True st assms have "r = \<lparr>Start = st, End = sz\<rparr>" by (auto simp: offset_range_def)
    ultimately show ?thesis using st by simp
  next
    case False
    with assms(3) st obtain lb where lb: "ParseInt64 l = Some lb" "st \<le> lb"
      "End r = (if wrap_i64 (lb + 1) > sz then sz else wrap_i64 (lb + 1))"
      by (cases r) (auto simp: offset_range_def Let_def split: option.splits if_splits)
    show ?thesis
    proof (cases "lb = max_i64")
      case True
      with lb st assms(1) show ?thesis by (simp add: wrap_i64_max_succ min_i64_def)
    next
      case False
      with ParseInt64_range [OF lb(1)] have "wrap_i64 (lb + 1) = lb + 1"
        using lb st by (intro wrap_i64_id) (auto simp: in_i64_def min_i64_def)
      with False lb st show ?thesis by auto
    qed
  qed
qed

lemma ParseRange_form:
  assumes "ParseRange h sz = Inr (Some r)"
  obtains (suffix) l where "0 < sz" "suffix_range l sz = Inr (Some r)"
  | (offset) f l where "0 < sz" "offset_range f l sz = Inr (Some r)"
      "\<exists>f' l'. TrimSpace h = ''bytes='' @ f' @ CHR ''-'' # l' \<and> f = TrimSpace f' \<and> l = TrimSpace l'"
proof -
  let ?h = "TrimSpace h"
  from assms obtain spec where spec: "0 < sz" "CutPrefix ?h ''bytes='' = Some spec"
    and rest: "(case Cut (CHR ''-'') spec of (f, l, hasDash) \<Rightarrow>
                  if \<not> hasDash then Inl ErrRangeUnsupported
                  else (let first = TrimSpace f; last = TrimSpace l in
                    if first = [] \<and> last = [] then Inl ErrRangeUnsupported
                    else if first = [] then suffix_range last sz
                    else offset_range first last sz)) = Inr (Some r)"
    by (auto simp: ParseRange_def Let_def split: if_splits option.splits)
  show thesis
  proof (cases rule: Cut_cases [of spec "CHR ''-''"])
    case (found f' l')
    with spec(2) have "?h = ''bytes='' @ f' @ CHR ''-'' # l'"
      by (auto simp: CutPrefix_def HasPrefix_iff_prefix prefix_def split: if_splits)
    with found rest spec(1) show thesis
      using suffix [of "TrimSpace l'"] offset [of "TrimSpace f'" "TrimSpace l'"]
      by (auto simp: Let_def split: if_splits)
  next
    case missing
    with rest show thesis by simp
  qed
qed

lemma digits_no_punct: "CHR ''-'' \<notin> set (nat_digits n)" "CHR '','' \<notin> set (nat_digits n)"
  using nat_digits_text [of n] by (auto simp: list_all_iff is_digit_def)

lemma nat_digits_not_Nil [simp]: "nat_digits n \<noteq> []"
  using nat_digits_text [of n] by simp

definition range_text :: "nat \<Rightarrow> nat \<Rightarrow> string" where
  "range_text a b = ''bytes='' @ nat_digits a @ ''-'' @ nat_digits b"

lemma range_text_trim: "TrimSpace (range_text a b) = range_text a b"
  using nat_digits_plain [of a] nat_digits_plain [of b]
  by (intro TrimSpace_plain) (simp add: range_text_def plain_char_def)

lemma range_text_cut:
  "CutPrefix (range_text a b) ''bytes='' = Some (nat_digits a @ CHR ''-'' # nat_digits b)"
  by (simp add: range_text_def CutPrefix_def)

lemma range_text_not_Nil: "range_text a b \<noteq> []"
  by (simp add: range_text_def)

lemmas range_text_simps = range_text_trim range_text_cut range_text_not_Nil digits_no_punct
  Cut_found [OF digits_no_punct(1)] TrimSpace_plain [OF nat_digits_plain]


lemma quoted_text: "quoted ([CHR 0x22] @ t @ [CHR 0x22]) = Some t"
  by (simp add: quoted_def)

lemma ETagHeader_trim: "TrimSpace (ETagHeader e w) = ETagHeader e w"
  by (rule TrimSpace_plain_ends) (simp add: ETagHeader_def plain_char_def)

lemma validator_part_ETagHeader: "validator_part (ETagHeader e w) = Some e"
  using quoted_text [of e]
  by (cases w) (simp_all add: validator_part_def ETagHeader_trim, simp_all add: ETagHeader_def TrimPrefix_def)

lemmas range_eval_simps = TrimSpace_plain plain_char_def ParseInt64_def ParseUint64_def is_digit_def
  digit_val_def wrap_u64_def wrap_i64_def

section \<open>Properties\<close>

text \<open>
  A range accepted on the WebDAV surface lies inside the file: both ends are offsets of
  existing bytes, in order, so the reader and the \<open>Content-Range\<close> header never leave it.
\<close>
theorem dav_range_in_file:
  assumes "parseByteRange h sz = Inr (Some (a, b))" and "in_u64 sz"
  shows "0 \<le> a \<and> a \<le> b \<and> b < sz"
proof -
  have wrap: "0 < sz \<Longrightarrow> wrap_u64 (sz - 1) = sz - 1"
    using assms(2) by (intro wrap_u64_id) (simp add: in_u64_def)
  have wrap2: "0 \<le> n \<Longrightarrow> n \<le> sz \<Longrightarrow> wrap_u64 (sz - n) = sz - n" for n
    using assms(2) by (intro wrap_u64_id) (simp add: in_u64_def)
  have "dav_suffix l sz = Inr (Some (a, b)) \<Longrightarrow> ?thesis" for l
    using assms(2) wrap wrap2 wrap2 [of sz]
    by (auto simp: dav_suffix_def Let_def in_u64_def split: option.splits if_splits dest!: ParseUint64_range)
  moreover have "dav_open f sz = Inr (Some (a, b)) \<Longrightarrow> ?thesis" for f
    using wrap by (auto simp: dav_open_def in_u64_def split: option.splits if_splits dest!: ParseUint64_range)
  moreover have "dav_closed f l sz = Inr (Some (a, b)) \<Longrightarrow> ?thesis" for f l
    using wrap by (auto simp: dav_closed_def in_u64_def split: option.splits if_splits dest!: ParseUint64_range)
  ultimately show ?thesis using assms(1)
    by (auto simp: parseByteRange_def Let_def split: if_splits option.splits prod.splits)
qed

theorem dav_range_in_file_witness:
  "parseByteRange ''bytes=2-9'' 5 = Inr (Some (2, 4)) \<and> in_u64 5 \<and> (4::int) < 5"
proof -
  have 1: "parseByteRange ''bytes=2-9'' 5 = Inr (Some (2, 4))"
    by (simp add: parseByteRange_def CutPrefix_def dav_closed_def range_eval_simps)
  have 2: "in_u64 5" by (simp add: in_u64_def)
  show ?thesis using 1 2 dav_range_in_file [OF 1 2] by simp
qed

text \<open>
  A range accepted on the web surface starts inside the file and never ends past it, and
  it is non-empty except for one header shape: a last byte of exactly \<open>2^63 - 1\<close>, whose
  successor wraps, so that the range ends at the smallest \<open>int64\<close>.
\<close>
theorem web_range_in_file:
  assumes "ParseRange h sz = Inr (Some r)" and "in_i64 sz"
  shows "0 \<le> Start r \<and> Start r < sz \<and> End r \<le> sz \<and>
    (Start r < End r \<or> End r = min_i64 \<and>
       (\<exists>f l. TrimSpace h = ''bytes='' @ f @ CHR ''-'' # l \<and> ParseInt64 (TrimSpace l) = Some max_i64))"
  using assms(1)
proof (cases rule: ParseRange_form)
  case (suffix l)
  with suffix_range_bounds [OF suffix(1) assms(2) suffix(2)] show ?thesis by simp
next
  case (offset f l)
  with offset_range_bounds [OF offset(1) assms(2) offset(2)] show ?thesis by blast
qed

theorem web_range_in_file_witness:
  "ParseRange ''bytes=2-9'' 5 = Inr (Some \<lparr>Start = 2, End = 5\<rparr>) \<and> in_i64 5 \<and> (2::int) < 5"
proof -
  have 1: "ParseRange ''bytes=2-9'' 5 = Inr (Some \<lparr>Start = 2, End = 5\<rparr>)"
    by (simp add: ParseRange_def CutPrefix_def offset_range_def range_eval_simps)
  have 2: "in_i64 5" by (simp add: in_i64_def min_i64_def max_i64_def)
  show ?thesis using 1 2 web_range_in_file [OF 1 2] by simp
qed

text \<open>
  That shape exists: a ten-byte file asked for \<open>bytes=0-9223372036854775807\<close>, a range the
  comment in the source promises to clamp to the file, is accepted with a negative end and a
  negative length, where the WebDAV parser clamps the same header to the whole file.
\<close>
theorem web_range_overflow:
  "ParseRange ''bytes=0-9223372036854775807'' 10 = Inr (Some \<lparr>Start = 0, End = min_i64\<rparr>) \<and>
   Range_Length \<lparr>Start = 0, End = min_i64\<rparr> = min_i64 \<and>
   parseByteRange ''bytes=0-9223372036854775807'' 10 = Inr (Some (0, 9))"
proof -
  let ?l = "''9223372036854775807''"
  have plain: "list_all plain_char (''bytes=0-'' @ ?l)" by (simp add: plain_char_def)
  then have trim: "TrimSpace (''bytes=0-'' @ ?l) = ''bytes=0-'' @ ?l" "TrimSpace ?l = ?l" "TrimSpace ''0'' = ''0''"
    by (auto intro!: TrimSpace_plain simp: plain_char_def simp del: append_Cons)
  have nums: "ParseUint64 ?l = Some max_i64" "ParseUint64 ''0'' = Some 0"
    by (simp_all add: ParseUint64_def is_digit_def digit_val_def max_i64_def)
  then have ints: "ParseInt64 ?l = Some max_i64" "ParseInt64 ''0'' = Some 0"
    by (simp_all add: ParseInt64_def max_i64_def)
  have "offset_range ''0'' ?l 10 = Inr (Some \<lparr>Start = 0, End = min_i64\<rparr>)"
    using ints by (simp add: offset_range_def wrap_i64_max_succ, simp add: min_i64_def max_i64_def)
  moreover have "dav_closed ''0'' ?l 10 = Inr (Some (0, 9))"
    using nums by (simp add: dav_closed_def max_i64_def wrap_u64_def)
  moreover have "wrap_i64 min_i64 = min_i64" by (rule wrap_i64_id) (simp add: in_i64_def min_i64_def max_i64_def)
  ultimately show ?thesis
    using trim by (simp add: ParseRange_def parseByteRange_def CutPrefix_def Range_Length_def)
qed

text \<open>
  A well-formed range is served exactly on both surfaces: \<open>bytes=a-b\<close> with \<open>a \<le> b\<close>
  inside the file parses to those two offsets, and the \<open>Content-Range\<close> answer names them.
\<close>
theorem range_header_roundtrip:
  assumes "a \<le> b" and "int b < sz" and "sz \<le> max_i64"
  shows "parseByteRange (range_text a b) sz = Inr (Some (int a, int b)) \<and>
         ParseRange (range_text a b) sz = Inr (Some \<lparr>Start = int a, End = int b + 1\<rparr>) \<and>
         ContentRange \<lparr>Start = int a, End = int b + 1\<rparr> sz =
           ''bytes '' @ nat_digits a @ ''-'' @ nat_digits b @ ''/'' @ nat_digits (nat sz)"
proof -
  have u: "ParseUint64 (nat_digits a) = Some (int a)" "ParseUint64 (nat_digits b) = Some (int b)"
    using assms by (intro ParseUint64_nat_digits; simp add: max_i64_def)+
  have i: "ParseInt64 (nat_digits a) = Some (int a)" "ParseInt64 (nat_digits b) = Some (int b)"
    using assms by (intro ParseInt64_nat_digits; simp)+
  have w: "wrap_i64 (int b + 1) = int b + 1" "wrap_i64 (int b) = int b"
    using assms by (auto intro!: wrap_i64_id simp: in_i64_def min_i64_def)
  have "parseByteRange (range_text a b) sz = dav_closed (nat_digits a) (nat_digits b) sz"
    by (simp add: parseByteRange_def Let_def range_text_simps)
  moreover have "ParseRange (range_text a b) sz = offset_range (nat_digits a) (nat_digits b) sz"
    using assms by (simp add: ParseRange_def Let_def range_text_simps)
  ultimately show ?thesis
    using assms u i w
    by (simp add: dav_closed_def offset_range_def ContentRange_def int_digits_def Let_def)
qed

theorem range_header_roundtrip_witness:
  "(3::nat) \<le> 7 \<and> parseByteRange (range_text 3 7) 100 = Inr (Some (3, 7))"
  using range_header_roundtrip [of 3 7 100] by (simp add: max_i64_def)

text \<open>
  Validators compare the way the surface documents: the header the server sends for a tag
  satisfies \<open>If-None-Match\<close> for that tag and no other, weak or strong, while \<open>If-Match\<close>
  accepts the strong form only and yields exactly the tag.
\<close>
theorem validator_comparison:
  assumes "CHR '','' \<notin> set e"
  shows "notModified (ETagHeader e w) e' = (e = e') \<and>
         parseValidator (ETagHeader e w) = (if w then (None, False) else (Some e, True))"
proof -
  have "Split (CHR '','') (ETagHeader e w) = [ETagHeader e w]"
    using assms by (intro Split_no_sep) (simp add: ETagHeader_def)
  moreover have "ETagHeader e w \<noteq> []" "ETagHeader e w \<noteq> ''*''" by (simp_all add: ETagHeader_def)
  moreover have "parseValidator (ETagHeader e w) = (if w then (None, False) else (Some e, True))"
    using quoted_text [of e] calculation ETagHeader_trim [of e w]
    by (cases w) (simp_all add: parseValidator_def, simp_all add: ETagHeader_def)
  ultimately show ?thesis
    by (simp add: notModified_def anyValidatorMatches_def validator_part_ETagHeader ETagHeader_trim)
qed

theorem validator_comparison_witness:
  "CHR '','' \<notin> set ''v1'' \<and> notModified (ETagHeader ''v1'' True) ''v1'' \<and>
   parseValidator (ETagHeader ''v1'' True) = (None, False)"
  using validator_comparison [of "''v1''" True "''v1''"] by simp

end
