(* ===== verification/Sc_DavIf.thy ===== *)
theory Sc_DavIf
  imports Sc_DavPath Sc_Range
begin

text \<open>
  The \<open>If\<close> header of the WebDAV surface, \<open>internal/dav/ifheader.go\<close>: the bounded parser of
  its grammar and the evaluation that decides whether a write may go ahead and which lock
  tokens it submits. A position in the header is the text that is left to read.
\<close>

section \<open>Data\<close>

datatype if_error = ErrBadIf | ErrIfTooLarge

record Limits =
  Lim_Bytes :: int
  Lim_Elements :: int
  Lim_Depth :: int
  Lim_NameBytes :: int
  Lim_TextBytes :: int
  Lim_Properties :: int
  Lim_Conditions :: int
  Lim_ReportLeaves :: int

definition DefaultLimits :: Limits where
  "DefaultLimits =
     \<lparr>Lim_Bytes = 262144, Lim_Elements = 10000, Lim_Depth = 64, Lim_NameBytes = 256,
      Lim_TextBytes = 65536, Lim_Properties = 1024, Lim_Conditions = 256, Lim_ReportLeaves = 10000\<rparr>"

record etag =
  Value :: string
  Weak :: bool

definition zero_etag :: etag where "zero_etag = \<lparr>Value = [], Weak = False\<rparr>"

record condition =
  Not :: bool
  Token :: string
  ETag :: etag

record condition_list =
  Resource :: "string list option"
  Conditions :: "condition list"

type_synonym if_header = "condition_list list"

definition StrongEquals :: "etag \<Rightarrow> etag \<Rightarrow> bool" where
  "StrongEquals e other \<longleftrightarrow> \<not> Weak e \<and> \<not> Weak other \<and> Value e = Value other"

definition IsToken :: "condition \<Rightarrow> bool" where
  "IsToken c \<longleftrightarrow> Token c \<noteq> []"

section \<open>Parsing\<close>

abbreviation dquote :: char where "dquote \<equiv> CHR 0x22"

definition ParseETag :: "string \<Rightarrow> etag option" where
  "ParseETag raw0 =
     (let raw1 = TrimSpace raw0;
          weak = HasPrefix raw1 ''W/'';
          raw = (if weak then drop 2 raw1 else raw1)
      in if length raw < 2 \<or> hd raw \<noteq> dquote \<or> last raw \<noteq> dquote then None
         else (let v = butlast (tl raw) in
           if dquote \<in> set v then None else Some \<lparr>Value = v, Weak = weak\<rparr>))"

definition blank :: "char \<Rightarrow> bool" where
  "blank c \<longleftrightarrow> c = CHR '' '' \<or> c = CHR 0x09"

text \<open>The optional negation, with the blanks after it.\<close>

definition parse_not :: "string \<Rightarrow> bool \<times> string" where
  "parse_not s =
     (if length s \<ge> 3 \<and> EqualFoldASCII (take 3 s) ''Not'' \<and>
         (length s = 3 \<or> blank (s ! 3) \<or> s ! 3 = CHR ''<'' \<or> s ! 3 = CHR ''['')
      then (True, dropWhile blank (drop 3 s)) else (False, s))"

definition parseCondition :: "Limits \<Rightarrow> string \<Rightarrow> (if_error, condition \<times> string) result" where
  "parseCondition lim s =
     (case parse_not s of (neg, r) \<Rightarrow>
        (case r of
           [] \<Rightarrow> Inl ErrBadIf
         | c # r' \<Rightarrow>
             if c = CHR ''<'' then
               (case IndexByte (CHR ''>'') r of
                  None \<Rightarrow> Inl ErrBadIf
                | Some e \<Rightarrow>
                    (let token = take (e - 1) r' in
                     if token = [] then Inl ErrBadIf
                     else if Lim_NameBytes lim > 0 \<and> int (length token) > Lim_NameBytes lim
                       then Inl ErrIfTooLarge
                     else Inr (\<lparr>Not = neg, Token = token, ETag = zero_etag\<rparr>, drop (e + 1) r)))
             else if c = CHR ''['' then
               (case IndexByte (CHR '']'') r of
                  None \<Rightarrow> Inl ErrBadIf
                | Some e \<Rightarrow>
                    (case ParseETag (take (e - 1) r') of
                       None \<Rightarrow> Inl ErrBadIf
                     | Some tag \<Rightarrow> Inr (\<lparr>Not = neg, Token = [], ETag = tag\<rparr>, drop (e + 1) r)))
             else Inl ErrBadIf))"

lemma parse_not_shorter: "parse_not s = (neg, r) \<Longrightarrow> length r \<le> length s"
  using length_dropWhile_le [of blank "drop 3 s"] by (auto simp: parse_not_def split: if_splits)

lemma parseCondition_shorter:
  assumes "parseCondition lim s = Inr (c, s')"
  shows "length s' < length s"
proof -
  obtain neg r where pn: "parse_not s = (neg, r)" by (cases "parse_not s")
  from assms pn obtain e where "s' = drop (e + 1) r" "r \<noteq> []"
    by (auto simp: parseCondition_def Let_def split: list.splits if_splits option.splits)
  with parse_not_shorter [OF pn] show ?thesis by (cases r) auto
qed

text \<open>The members of one parenthesised group, up to and including its closing parenthesis.\<close>

function parse_members ::
  "Limits \<Rightarrow> condition list \<Rightarrow> string \<Rightarrow> (if_error, condition list \<times> string) result" where
  "parse_members lim acc s =
     (case s of
        [] \<Rightarrow> Inl ErrBadIf
      | c # s' \<Rightarrow>
          if blank c then parse_members lim acc s'
          else if c = CHR '')'' then (if acc = [] then Inl ErrBadIf else Inr (acc, s'))
          else (case parseCondition lim s of
                  Inl e \<Rightarrow> Inl e
                | Inr (cond, next) \<Rightarrow>
                    if int (length acc) \<ge> Lim_Conditions lim then Inl ErrIfTooLarge
                    else parse_members lim (acc @ [cond]) next))"
  by pat_completeness auto
termination
  by (relation "measure (\<lambda>(lim, acc, s). length s)") (auto dest: parseCondition_shorter)

declare parse_members.simps [simp del]

definition parseList :: "Limits \<Rightarrow> string \<Rightarrow> (if_error, condition list \<times> string) result" where
  "parseList lim s = parse_members lim [] (drop 1 s)"

lemma parse_members_shorter:
  "parse_members lim acc s = Inr (cs, s') \<Longrightarrow> length s' < length s"
proof (induction lim acc s rule: parse_members.induct)
  case (1 lim acc s)
  show ?case
  proof (cases s)
    case Nil
    with "1.prems" show ?thesis by (simp add: parse_members.simps)
  next
    case (Cons c t)
    with 1 show ?thesis
      by (fastforce simp: parse_members.simps [of lim acc "c # t"] split: if_splits sum.splits
          dest: parseCondition_shorter)
  qed
qed

text \<open>The top level: blanks, resource tags and groups, in any order.\<close>

function parse_lists ::
  "'enc text_library \<Rightarrow> (string \<Rightarrow> string \<Rightarrow> bool) \<Rightarrow> Limits \<Rightarrow> string \<Rightarrow>
     string list option \<Rightarrow> if_header \<Rightarrow> string \<Rightarrow> (if_error, if_header) result" where
  "parse_lists T fr lim host resource out s =
     (case s of
        [] \<Rightarrow> if out = [] then Inl ErrBadIf else Inr out
      | c # s' \<Rightarrow>
          if blank c then parse_lists T fr lim host resource out s'
          else if c = CHR ''<'' then
            (case IndexByte (CHR ''>'') s of
               None \<Rightarrow> Inl ErrBadIf
             | Some e \<Rightarrow>
                 (case ParseDestination T fr (take (e - 1) s') host of
                    Inl _ \<Rightarrow> Inl ErrBadIf
                  | Inr segs \<Rightarrow> parse_lists T fr lim host (Some segs) out (drop (e + 1) s)))
          else if c = CHR ''('' then
            (case parseList lim s of
               Inl e \<Rightarrow> Inl e
             | Inr (conds, next) \<Rightarrow>
                 if int (length out) \<ge> Lim_Conditions lim then Inl ErrIfTooLarge
                 else parse_lists T fr lim host resource
                        (out @ [\<lparr>Resource = resource, Conditions = conds\<rparr>]) next)
          else Inl ErrBadIf)"
  by pat_completeness auto
termination
  by (relation "measure (\<lambda>(T, fr, lim, host, resource, out, s). length s)")
    (auto simp: parseList_def dest!: parse_members_shorter)

declare parse_lists.simps [simp del]

definition ParseIf ::
  "'enc text_library \<Rightarrow> (string \<Rightarrow> string \<Rightarrow> bool) \<Rightarrow> Limits \<Rightarrow> string \<Rightarrow> string \<Rightarrow>
     (if_error, if_header) result" where
  "ParseIf T fr lim header0 requestHost =
     (let header = TrimSpace header0 in
      if header = [] then Inr []
      else if Lim_Bytes lim > 0 \<and> int (length header) > Lim_Bytes lim then Inl ErrIfTooLarge
      else parse_lists T fr lim requestHost None [] header)"

section \<open>Evaluation\<close>

record resource_state =
  RS_ETag :: etag
  Exists :: bool
  Tokens :: "string list"

definition zero_state :: resource_state where
  "zero_state = \<lparr>RS_ETag = zero_etag, Exists = False, Tokens = []\<rparr>"

definition conditionHolds :: "condition \<Rightarrow> resource_state \<Rightarrow> bool" where
  "conditionHolds cond res =
     (let held = (if IsToken cond then list_ex (\<lambda>t. t = Token cond) (Tokens res)
                  else Exists res \<and> StrongEquals (ETag cond) (RS_ETag res))
      in if Not cond then \<not> held else held)"

definition list_target :: "string list \<Rightarrow> condition_list \<Rightarrow> string list" where
  "list_target defaultTarget l = (case Resource l of None \<Rightarrow> defaultTarget | Some r \<Rightarrow> r)"

fun evaluate_lists ::
  "string list \<Rightarrow> (string list \<Rightarrow> resource_state) \<Rightarrow> bool \<times> string list \<Rightarrow> if_header \<Rightarrow>
     bool \<times> string list" where
  "evaluate_lists d state (satisfied, submitted) [] = (satisfied, submitted)"
| "evaluate_lists d state (satisfied, submitted) (l # ls) =
     (let res = state (list_target d l) in
      if \<not> list_all (\<lambda>c. conditionHolds c res) (Conditions l)
      then evaluate_lists d state (satisfied, submitted) ls
      else evaluate_lists d state
             (True, submitted @ map Token (filter (\<lambda>c. IsToken c \<and> \<not> Not c) (Conditions l))) ls)"

definition EvaluateIf ::
  "if_header \<Rightarrow> string list \<Rightarrow> (string list \<Rightarrow> resource_state) \<Rightarrow> bool \<times> string list" where
  "EvaluateIf h defaultTarget state =
     (if h = [] then (True, []) else evaluate_lists defaultTarget state (False, []) h)"

section \<open>What the parser guarantees\<close>

definition bounded_condition :: "Limits \<Rightarrow> condition \<Rightarrow> bool" where
  "bounded_condition lim c \<longleftrightarrow>
     (Lim_NameBytes lim > 0 \<longrightarrow> int (length (Token c)) \<le> Lim_NameBytes lim) \<and>
     (IsToken c \<longrightarrow> ETag c = zero_etag) \<and> dquote \<notin> set (Value (ETag c))"

definition bounded_list :: "Limits \<Rightarrow> condition_list \<Rightarrow> bool" where
  "bounded_list lim l \<longleftrightarrow>
     Conditions l \<noteq> [] \<and> int (length (Conditions l)) \<le> Lim_Conditions lim \<and>
     list_all (bounded_condition lim) (Conditions l)"

lemma ParseETag_no_quote: "ParseETag s = Some t \<Longrightarrow> dquote \<notin> set (Value t)"
  by (auto simp: ParseETag_def Let_def split: if_splits)

lemma parseCondition_bounded: "parseCondition lim s = Inr (c, s') \<Longrightarrow> bounded_condition lim c"
  by (auto simp: parseCondition_def bounded_condition_def IsToken_def zero_etag_def Let_def
      split: list.splits if_splits option.splits prod.splits dest: ParseETag_no_quote)

lemma parse_members_eqs:
  "parse_members lim acc [] = Inl ErrBadIf"
  "blank c \<Longrightarrow> parse_members lim acc (c # t) = parse_members lim acc t"
  "parse_members lim acc (CHR '')'' # t) = (if acc = [] then Inl ErrBadIf else Inr (acc, t))"
  "\<not> blank c \<Longrightarrow> c \<noteq> CHR '')'' \<Longrightarrow> parse_members lim acc (c # t) =
     bind_r (parseCondition lim (c # t)) (\<lambda>(cond, next).
       if int (length acc) \<ge> Lim_Conditions lim then Inl ErrIfTooLarge
       else parse_members lim (acc @ [cond]) next)"
  by (subst parse_members.simps, simp add: blank_def split: sum.split)+

lemma parse_lists_eqs:
  "parse_lists T fr lim host resource out [] = (if out = [] then Inl ErrBadIf else Inr out)"
  "blank c \<Longrightarrow> parse_lists T fr lim host resource out (c # t) = parse_lists T fr lim host resource out t"
  "parse_lists T fr lim host resource out (CHR ''<'' # t) =
     (case IndexByte (CHR ''>'') (CHR ''<'' # t) of
        None \<Rightarrow> Inl ErrBadIf
      | Some e \<Rightarrow>
         (case ParseDestination T fr (take (e - 1) t) host of
            Inl _ \<Rightarrow> Inl ErrBadIf
          | Inr segs \<Rightarrow> parse_lists T fr lim host (Some segs) out (drop (e + 1) (CHR ''<'' # t))))"
  "parse_lists T fr lim host resource out (CHR ''('' # t) =
     bind_r (parseList lim (CHR ''('' # t)) (\<lambda>(conds, next).
       if int (length out) \<ge> Lim_Conditions lim then Inl ErrIfTooLarge
       else parse_lists T fr lim host resource (out @ [\<lparr>Resource = resource, Conditions = conds\<rparr>]) next)"
  "\<not> blank c \<Longrightarrow> c \<noteq> CHR ''<'' \<Longrightarrow> c \<noteq> CHR ''('' \<Longrightarrow>
     parse_lists T fr lim host resource out (c # t) = Inl ErrBadIf"
  by (subst parse_lists.simps, simp add: blank_def split: sum.split)+

lemma parse_members_bounded:
  "parse_members lim acc s = Inr (cs, s') \<Longrightarrow> list_all (bounded_condition lim) acc \<Longrightarrow>
     (acc = [] \<or> int (length acc) \<le> Lim_Conditions lim) \<Longrightarrow>
     cs \<noteq> [] \<and> int (length cs) \<le> Lim_Conditions lim \<and> list_all (bounded_condition lim) cs"
proof (induction lim acc s rule: parse_members.induct)
  case (1 lim acc s)
  show ?case
  proof (cases s)
    case Nil
    with "1.prems" show ?thesis by (simp add: parse_members_eqs)
  next
    case (Cons c t)
    consider (blank) "blank c" | (close) "c = CHR '')''"
      | (member) cond n where "\<not> blank c" "c \<noteq> CHR '')''" "parseCondition lim (c # t) = Inr (cond, n)"
          "\<not> Lim_Conditions lim \<le> int (length acc)"
      using "1.prems"(1) Cons
      by (cases "blank c"; cases "c = CHR '')''") (auto simp: parse_members_eqs bind_r_eq_Inr split: if_splits)
    then show ?thesis
    proof cases
      case blank
      with 1 Cons show ?thesis by (simp add: parse_members_eqs)
    next
      case close
      with 1 Cons show ?thesis by (auto simp: parse_members_eqs split: if_splits)
    next
      case member
      with 1 Cons parseCondition_bounded [OF member(3)] show ?thesis
        by (simp add: parse_members_eqs)
    qed
  qed
qed

lemma parse_lists_bounded:
  "parse_lists T fr lim host resource out s = Inr h \<Longrightarrow> list_all (bounded_list lim) out \<Longrightarrow>
     (out = [] \<or> int (length out) \<le> Lim_Conditions lim) \<Longrightarrow>
     h \<noteq> [] \<and> int (length h) \<le> Lim_Conditions lim \<and> list_all (bounded_list lim) h"
proof (induction T fr lim host resource out s rule: parse_lists.induct)
  case (1 T fr lim host resource out s)
  show ?case
  proof (cases s)
    case Nil
    with "1.prems" show ?thesis by (auto simp: parse_lists_eqs split: if_splits)
  next
    case (Cons c t)
    consider (blank) "blank c" | (tag) "\<not> blank c" "c = CHR ''<''" | (group) "\<not> blank c" "c = CHR ''(''"
      using "1.prems"(1) Cons by (cases "blank c") (auto simp: parse_lists_eqs blank_def, metis parse_lists_eqs(5) blank_def sum.distinct(1))
    then show ?thesis
    proof cases
      case blank
      with 1 Cons show ?thesis by (simp add: parse_lists_eqs)
    next
      case tag
      with 1 Cons show ?thesis by (auto simp: parse_lists_eqs split: option.splits sum.splits)
    next
      case group
      from group "1.prems"(1) Cons obtain cs n where
        pl: "parseList lim (c # t) = Inr (cs, n)" and lt: "\<not> Lim_Conditions lim \<le> int (length out)"
        and rec: "parse_lists T fr lim host resource (out @ [\<lparr>Resource = resource, Conditions = cs\<rparr>]) n = Inr h"
        by (auto simp: parse_lists_eqs bind_r_eq_Inr split: if_splits)
      have "bounded_list lim \<lparr>Resource = resource, Conditions = cs\<rparr>"
        using pl parse_members_bounded [of lim "[]"] by (auto simp: parseList_def bounded_list_def)
      then show ?thesis
        using "1.IH"(3) [OF Cons group(1) _ group(2), of "(cs, n)" cs n] pl lt rec "1.prems"(2) group Cons
        by (simp add: blank_def)
    qed
  qed
qed

section \<open>What evaluation computes\<close>

definition list_holds :: "string list \<Rightarrow> (string list \<Rightarrow> resource_state) \<Rightarrow> condition_list \<Rightarrow> bool" where
  "list_holds d state l \<longleftrightarrow> (\<forall>c\<in>set (Conditions l). conditionHolds c (state (list_target d l)))"

definition positive_tokens :: "condition_list \<Rightarrow> string list" where
  "positive_tokens l = map Token (filter (\<lambda>c. IsToken c \<and> \<not> Not c) (Conditions l))"

lemma evaluate_lists_eq:
  "evaluate_lists d state (b, toks) ls =
     (b \<or> (\<exists>l\<in>set ls. list_holds d state l),
      toks @ concat (map positive_tokens (filter (list_holds d state) ls)))"
proof (induction ls arbitrary: b toks)
  case (Cons l ls)
  have "list_all (\<lambda>c. conditionHolds c (state (list_target d l))) (Conditions l) = list_holds d state l"
    by (simp add: list_holds_def list_all_iff)
  with Cons show ?case by (simp add: Let_def positive_tokens_def)
qed simp

lemma EvaluateIf_eq:
  "EvaluateIf h d state =
     (h = [] \<or> (\<exists>l\<in>set h. list_holds d state l),
      concat (map positive_tokens (filter (list_holds d state) h)))"
  by (auto simp: EvaluateIf_def evaluate_lists_eq)

lemma positive_token_held:
  "list_holds d state l \<Longrightarrow> t \<in> set (positive_tokens l) \<Longrightarrow> t \<in> set (Tokens (state (list_target d l)))"
  by (fastforce simp: list_holds_def positive_tokens_def conditionHolds_def Let_def list_ex_iff split: if_splits)

section \<open>Printing\<close>

text \<open>The way a client writes a header: every tagged group after its own tag.\<close>

definition print_condition :: "condition \<Rightarrow> string" where
  "print_condition c =
     (if Not c then ''Not '' else []) @
     (if IsToken c then CHR ''<'' # Token c @ ''>''
      else CHR ''['' # ETagHeader (Value (ETag c)) (Weak (ETag c)) @ '']'')"

definition print_list :: "condition_list \<Rightarrow> string" where
  "print_list l =
     (case Resource l of None \<Rightarrow> [] | Some segs \<Rightarrow> CHR ''<'' # EncodeHref segs False @ ''>'') @
     CHR ''('' # concat (map print_condition (Conditions l)) @ '')''"

definition print_if :: "if_header \<Rightarrow> string" where
  "print_if h = concat (map print_list h)"

text \<open>Conditions and groups the grammar can spell within the limits.\<close>

definition printable_condition :: "Limits \<Rightarrow> condition \<Rightarrow> bool" where
  "printable_condition lim c \<longleftrightarrow>
     bounded_condition lim c \<and> CHR ''>'' \<notin> set (Token c) \<and> CHR '']'' \<notin> set (Value (ETag c))"

definition printable_list :: "'enc text_library \<Rightarrow> Limits \<Rightarrow> condition_list \<Rightarrow> bool" where
  "printable_list T lim l \<longleftrightarrow>
     bounded_list lim l \<and> list_all (printable_condition lim) (Conditions l) \<and>
     (case Resource l of None \<Rightarrow> True
      | Some segs \<Rightarrow> list_all (\<lambda>s. s \<noteq> [] \<and> ok_segment s \<and> IsNormalized T s) segs)"

lemma parse_not_Not:
  "x = CHR ''<'' \<or> x = CHR ''['' \<Longrightarrow> parse_not (''Not '' @ x # r) = (True, x # r)"
  by (auto simp: parse_not_def EqualFoldASCII_def blank_def)

lemma parse_not_positive:
  "x = CHR ''<'' \<or> x = CHR ''['' \<Longrightarrow> parse_not (x # r) = (False, x # r)"
  by (auto simp: parse_not_def EqualFoldASCII_def to_lower_def char_of_def bit_iff_odd)

lemma ParseETag_ETagHeader: "dquote \<notin> set v \<Longrightarrow> ParseETag (ETagHeader v w) = Some \<lparr>Value = v, Weak = w\<rparr>"
  by (cases w) (simp_all add: ParseETag_def ETagHeader_trim Let_def, simp_all add: ETagHeader_def)

lemma parseCondition_print:
  assumes "printable_condition lim c"
  shows "parseCondition lim (print_condition c @ rest) = Inr (c, rest)"
proof (cases "IsToken c")
  case True
  define body where "body = CHR ''<'' # Token c @ CHR ''>'' # rest"
  have pn: "parse_not (print_condition c @ rest) = (Not c, body)"
    using True parse_not_Not [of "CHR ''<''"] parse_not_positive [of "CHR ''<''"]
    by (simp add: print_condition_def body_def)
  have "IndexByte (CHR ''>'') body = Some (Suc (length (Token c)))"
    using assms by (simp add: body_def IndexByte_append printable_condition_def)
  with pn True assms show ?thesis
    by (cases c) (auto simp: parseCondition_def Let_def printable_condition_def bounded_condition_def
        IsToken_def body_def)
next
  case False
  let ?e = "ETagHeader (Value (ETag c)) (Weak (ETag c))"
  define body where "body = CHR ''['' # ?e @ CHR '']'' # rest"
  have pn: "parse_not (print_condition c @ rest) = (Not c, body)"
    using False parse_not_Not [of "CHR ''[''"] parse_not_positive [of "CHR ''[''"]
    by (simp add: print_condition_def body_def)
  have "CHR '']'' \<notin> set ?e" using assms by (simp add: ETagHeader_def printable_condition_def)
  then have "IndexByte (CHR '']'') body = Some (Suc (length ?e))"
    by (simp add: body_def IndexByte_append)
  moreover have "ParseETag ?e = Some (ETag c)"
    using assms by (simp add: ParseETag_ETagHeader printable_condition_def bounded_condition_def)
  ultimately show ?thesis using pn False
    by (cases c) (auto simp: parseCondition_def IsToken_def body_def)
qed

lemma print_condition_head:
  "\<exists>x r. print_condition c = x # r \<and> \<not> blank x \<and> x \<noteq> CHR '')''"
  by (auto simp: print_condition_def blank_def)

lemma parse_members_print:
  "list_all (printable_condition lim) cs \<Longrightarrow> acc @ cs \<noteq> [] \<Longrightarrow>
     int (length (acc @ cs)) \<le> Lim_Conditions lim \<Longrightarrow>
     parse_members lim acc (concat (map print_condition cs) @ CHR '')'' # rest) = Inr (acc @ cs, rest)"
proof (induction cs arbitrary: acc)
  case Nil
  then show ?case by (simp add: parse_members_eqs)
next
  case (Cons c cs)
  let ?r = "concat (map print_condition cs) @ CHR '')'' # rest"
  obtain x r where x: "print_condition c = x # r" "\<not> blank x" "x \<noteq> CHR '')''"
    using print_condition_head by blast
  have "parseCondition lim (x # r @ ?r) = Inr (c, ?r)"
    using parseCondition_print [of lim c ?r] Cons.prems(1) x(1) by simp
  then have "parse_members lim acc (x # r @ ?r) = parse_members lim (acc @ [c]) ?r"
    using x Cons.prems(3) by (simp add: parse_members_eqs(4))
  with Cons.IH [of "acc @ [c]"] Cons.prems x(1) show ?case by simp
qed

text \<open>A group without a tag stays in the scope of the previous tag, so none may follow one.\<close>

fun tags_ok :: "bool \<Rightarrow> if_header \<Rightarrow> bool" where
  "tags_ok seen [] = True"
| "tags_ok seen (l # ls) = (if Resource l = None then \<not> seen \<and> tags_ok False ls else tags_ok True ls)"

lemma parse_tag:
  assumes "list_all (\<lambda>s. s \<noteq> [] \<and> ok_segment s \<and> IsNormalized T s) segs"
  shows "parse_lists T fr lim host r out (CHR ''<'' # EncodeHref segs False @ CHR ''>'' # rest) =
         parse_lists T fr lim host (Some segs) out rest"
proof -
  have "CHR ''>'' \<notin> set (EncodeHref segs False)"
    using href_chars [of "CHR ''>''" segs False] by (auto simp: unreserved_def)
  then show ?thesis
    by (simp add: parse_lists_eqs IndexByte_append ParseDestination_href [OF assms])
qed

lemma parse_group:
  assumes "printable_list T lim l" and "int (length out) < Lim_Conditions lim"
  shows "parse_lists T fr lim host r out
           (CHR ''('' # concat (map print_condition (Conditions l)) @ CHR '')'' # rest) =
         parse_lists T fr lim host r (out @ [\<lparr>Resource = r, Conditions = Conditions l\<rparr>]) rest"
  using assms parse_members_print [of lim "Conditions l" "[]" rest]
  by (simp add: parse_lists_eqs parseList_def printable_list_def bounded_list_def)

lemma parse_lists_print:
  "list_all (printable_list T lim) h \<Longrightarrow> tags_ok (r \<noteq> None) h \<Longrightarrow> out @ h \<noteq> [] \<Longrightarrow>
     int (length (out @ h)) \<le> Lim_Conditions lim \<Longrightarrow>
     parse_lists T fr lim host r out (print_if h) = Inr (out @ h)"
proof (induction h arbitrary: r out)
  case Nil
  then show ?case by (simp add: parse_lists_eqs print_if_def)
next
  case (Cons l h)
  have step: "parse_lists T fr lim host r out (print_if (l # h)) =
              parse_lists T fr lim host (Resource l) (out @ [l]) (print_if h)"
  proof (cases "Resource l")
    case None
    with Cons.prems have "r = None" by simp
    with None Cons.prems parse_group [of T lim l out] show ?thesis
      by (cases l) (simp add: print_if_def print_list_def)
  next
    case (Some segs)
    with Cons.prems parse_group [of T lim l out] parse_tag [of T segs] show ?thesis
      by (cases l) (simp add: print_if_def print_list_def printable_list_def)
  qed
  have "tags_ok (Resource l \<noteq> None) h" using Cons.prems(2) by (auto split: if_splits)
  with Cons.IH [of "Resource l" "out @ [l]"] Cons.prems step show ?case by simp
qed

lemma print_if_trim: "TrimSpace (print_if h) = print_if h"
proof (rule TrimSpace_plain_ends, cases h rule: rev_cases)
  case (snoc ys y)
  have "\<exists>x r. print_list l = x # r \<and> plain_char x" for l
    by (auto simp: print_list_def plain_char_def split: option.split)
  moreover have "\<exists>l ls. h = l # ls" using snoc by (cases ys) auto
  ultimately have "plain_char (hd (print_if h))"
    by (metis append_Cons concat.simps(2) list.sel(1) list.simps(9) print_if_def)
  moreover have "plain_char (last (print_if h))" "print_if h \<noteq> []"
    using snoc by (simp_all add: print_if_def print_list_def plain_char_def)
  ultimately show "print_if h = [] \<or> plain_char (hd (print_if h)) \<and> plain_char (last (print_if h))"
    by simp
qed (simp add: print_if_def)

lemma print_if_Nil: "print_if h = [] \<longleftrightarrow> h = []"
  by (auto simp: print_if_def print_list_def)

section \<open>Properties\<close>

text \<open>
  C38. Evaluation is OR across groups and AND within one, and it is honest about lock tokens: a
  token counts as submitted only when a group that held names it positively, and then the
  resource that group was evaluated against really holds it, so mentioning a token in a
  failed group or behind a negation unlocks nothing.
\<close>
theorem if_evaluation_sound:
  assumes "EvaluateIf h d state = (ok, submitted)"
  shows "(ok \<longleftrightarrow> h = [] \<or> (\<exists>l\<in>set h. list_holds d state l)) \<and>
         (\<forall>t\<in>set submitted. \<exists>l\<in>set h. list_holds d state l \<and>
            (\<exists>c\<in>set (Conditions l). Token c = t \<and> \<not> Not c) \<and> t \<in> set (Tokens (state (list_target d l))))"
proof -
  from assms have eq: "ok = (h = [] \<or> (\<exists>l\<in>set h. list_holds d state l))"
    "submitted = concat (map positive_tokens (filter (list_holds d state) h))"
    by (simp_all add: EvaluateIf_eq)
  have "\<exists>l\<in>set h. list_holds d state l \<and> t \<in> set (positive_tokens l)" if "t \<in> set submitted" for t
    using that eq(2) by auto
  moreover have "\<exists>c\<in>set (Conditions l). Token c = t \<and> \<not> Not c" if "t \<in> set (positive_tokens l)" for t l
    using that by (auto simp: positive_tokens_def)
  ultimately show ?thesis using eq(1) positive_token_held by blast
qed

definition token_condition :: "bool \<Rightarrow> string \<Rightarrow> condition" where
  "token_condition neg t = \<lparr>Not = neg, Token = t, ETag = zero_etag\<rparr>"

theorem if_evaluation_sound_witness:
  "EvaluateIf [\<lparr>Resource = None, Conditions = [token_condition False ''t'', token_condition True ''u'']\<rparr>]
     [''f''] (\<lambda>_. \<lparr>RS_ETag = zero_etag, Exists = True, Tokens = [''t'']\<rparr>) = (True, [''t'']) \<and>
   \<not> (\<exists>t\<in>set [''t'']. t \<notin> set [''t''])"
proof -
  let ?h = "[\<lparr>Resource = None, Conditions = [token_condition False ''t'', token_condition True ''u'']\<rparr>]"
  let ?st = "\<lambda>_::string list. \<lparr>RS_ETag = zero_etag, Exists = True, Tokens = [''t'']\<rparr>"
  have 1: "EvaluateIf ?h [''f''] ?st = (True, [''t''])"
    by (simp add: EvaluateIf_def list_target_def conditionHolds_def IsToken_def token_condition_def)
  show ?thesis using 1 if_evaluation_sound [OF 1] by simp
qed

text \<open>
  A header that parses is bounded: it has at least one group and at most the configured
  number, every group has at least one condition (so none holds vacuously) and at most the
  configured number, and no token is longer than the name limit.
\<close>
theorem if_parse_bounded:
  assumes "ParseIf T fr lim header host = Inr h" and "TrimSpace header \<noteq> []"
  shows "h \<noteq> [] \<and> int (length h) \<le> Lim_Conditions lim \<and>
         (\<forall>l\<in>set h. Conditions l \<noteq> [] \<and> int (length (Conditions l)) \<le> Lim_Conditions lim \<and>
            (\<forall>c\<in>set (Conditions l). Lim_NameBytes lim > 0 \<longrightarrow> int (length (Token c)) \<le> Lim_NameBytes lim))"
proof -
  from assms have "parse_lists T fr lim host None [] (TrimSpace header) = Inr h"
    by (auto simp: ParseIf_def Let_def split: if_splits)
  from parse_lists_bounded [OF this] show ?thesis
    by (auto simp: list_all_iff bounded_list_def bounded_condition_def)
qed

lemma parse_simple_if:
  "ParseIf latin1_library (\<lambda>_ _. False) DefaultLimits ''(<t>)'' ''h'' =
     Inr [\<lparr>Resource = None, Conditions = [token_condition False ''t'']\<rparr>]"
proof -
  let ?c = "token_condition False ''t''"
  let ?h = "[\<lparr>Resource = None, Conditions = [?c]\<rparr>]"
  have p: "print_if ?h = ''(<t>)''"
    by (simp add: print_if_def print_list_def print_condition_def IsToken_def token_condition_def)
  have "printable_condition DefaultLimits ?c"
    by (simp add: printable_condition_def bounded_condition_def token_condition_def DefaultLimits_def zero_etag_def)
  then have "parse_lists latin1_library (\<lambda>_ _. False) DefaultLimits ''h'' None [] (print_if ?h) = Inr ([] @ ?h)"
    by (intro parse_lists_print)
      (simp_all add: printable_list_def bounded_list_def printable_condition_def DefaultLimits_def)
  then show ?thesis using print_if_trim [of ?h] p by (simp add: ParseIf_def DefaultLimits_def)
qed

theorem if_parse_bounded_witness:
  "ParseIf latin1_library (\<lambda>_ _. False) DefaultLimits ''(<t>)'' ''h'' =
     Inr [\<lparr>Resource = None, Conditions = [token_condition False ''t'']\<rparr>] \<and>
   [token_condition False ''t''] \<noteq> []"
proof -
  have "TrimSpace ''(<t>)'' \<noteq> []" using TrimSpace_plain [of "''(<t>)''"] by (simp add: plain_char_def)
  from if_parse_bounded [OF parse_simple_if this] show ?thesis using parse_simple_if by simp
qed

text \<open>
  C39. Nothing a client can say is misread: every header spelled from conditions within the
  limits, with negations, tagged and untagged groups, weak and strong tags, parses back to
  exactly those groups and conditions.
\<close>
theorem if_header_roundtrip:
  assumes "list_all (printable_list T lim) h" and "tags_ok False h" and "h \<noteq> []"
    and "int (length h) \<le> Lim_Conditions lim" and "int (length (print_if h)) \<le> Lim_Bytes lim"
  shows "ParseIf T fr lim (print_if h) host = Inr h"
  using assms parse_lists_print [of T lim h None "[]" fr host] print_if_trim [of h] print_if_Nil [of h]
  by (simp add: ParseIf_def)

theorem if_header_roundtrip_witness:
  "ParseIf latin1_library (\<lambda>_ _. False) DefaultLimits ''</a>(Not <t>)'' ''h'' =
     Inr [\<lparr>Resource = Some [''a''], Conditions = [token_condition True ''t'']\<rparr>]"
proof -
  let ?c = "token_condition True ''t''"
  let ?h = "[\<lparr>Resource = Some [''a''], Conditions = [?c]\<rparr>]"
  have p: "print_if ?h = ''</a>(Not <t>)''"
    by (simp add: print_if_def print_list_def print_condition_def IsToken_def token_condition_def
        EncodeHref_def unreserved_def)
  have "bounded_condition DefaultLimits ?c" "printable_condition DefaultLimits ?c"
    by (simp_all add: printable_condition_def bounded_condition_def token_condition_def DefaultLimits_def zero_etag_def)
  then have "list_all (printable_list latin1_library DefaultLimits) ?h"
    by (simp add: printable_list_def bounded_list_def DefaultLimits_def ok_segment_def
        nul_def IsNormalized_def latin1_library_def ValidString_def)
  from if_header_roundtrip [OF this] show ?thesis
    by (simp add: p) (simp add: DefaultLimits_def)
qed

text \<open>
  A weak tag never satisfies a write precondition: against a resource whose current tag is
  weak, a group that holds contains no positive tag condition, and a positive tag condition
  holds against any resource only if both tags are strong, equal and the resource exists.
\<close>
theorem weak_tag_never_matches:
  assumes "list_holds d state l" and "c \<in> set (Conditions l)" and "\<not> IsToken c" and "\<not> Not c"
  shows "\<not> Weak (RS_ETag (state (list_target d l))) \<and> \<not> Weak (ETag c) \<and>
         Exists (state (list_target d l)) \<and> Value (ETag c) = Value (RS_ETag (state (list_target d l)))"
  using assms by (auto simp: list_holds_def conditionHolds_def StrongEquals_def Let_def)

theorem weak_tag_never_matches_witness:
  "list_holds [''f''] (\<lambda>_. \<lparr>RS_ETag = zero_etag, Exists = True, Tokens = []\<rparr>)
     \<lparr>Resource = None, Conditions = [\<lparr>Not = False, Token = [], ETag = zero_etag\<rparr>]\<rparr> \<and> \<not> Weak zero_etag"
proof -
  let ?st = "\<lambda>_::string list. \<lparr>RS_ETag = zero_etag, Exists = True, Tokens = []\<rparr>"
  let ?c = "\<lparr>Not = False, Token = [], ETag = zero_etag\<rparr>"
  have 1: "list_holds [''f''] ?st \<lparr>Resource = None, Conditions = [?c]\<rparr>"
    by (simp add: list_holds_def conditionHolds_def IsToken_def StrongEquals_def zero_etag_def)
  show ?thesis using 1 weak_tag_never_matches [OF 1, of ?c] by (simp add: IsToken_def)
qed

end
