(* ===== verification/Sc_DavLock.thy ===== *)
theory Sc_DavLock
  imports Sc_LockTable Sc_DavIf
begin

text \<open>
  The lock service above the table, \<open>internal/dav/lock/davlock.go\<close>: minting tokens, clamping
  leases, who may refresh or release, and the guard every mutating method runs. With it the
  protocol adapter \<open>internal/dav/locks.go\<close> and the lease header of
  \<open>internal/dav/lockinfo.go\<close>. The clock and the random bytes are arguments.
\<close>

section \<open>The service\<close>

datatype lock_error = ErrLocked | LockNotFound | StoreError state_error | MintFailed

definition Second :: int where "Second = 1000000000"
definition DefaultTimeout :: int where "DefaultTimeout = 300 * Second"
definition MaxTimeout :: int where "MaxTimeout = 3600 * Second"

definition tokenURN :: string where "tokenURN = ''urn:uuid:''"

record active =
  A_Token :: string
  A_Path :: string
  A_Owner :: string
  A_Depth :: int
  A_Principal :: int
  A_ExpiresNs :: int
  A_TimeoutS :: int
  A_Shared :: bool

record lock_request =
  Q_Ident :: ident
  Q_Path :: string
  Q_Principal :: int
  Q_Owner :: string
  Q_Depth :: int
  Q_Timeout :: int
  Q_Shared :: bool

definition clampTimeout :: "int \<Rightarrow> int" where
  "clampTimeout d = (if d \<le> 0 then DefaultTimeout else if d > MaxTimeout then MaxTimeout else d)"

definition activeOf :: "dav_lock \<Rightarrow> active" where
  "activeOf h =
     \<lparr>A_Token = L_Token h, A_Path = L_Path h, A_Owner = L_Owner h, A_Depth = L_Depth h,
      A_Principal = L_Principal h, A_ExpiresNs = L_ExpiresNs h, A_TimeoutS = L_TimeoutS h,
      A_Shared = (L_Scope h = LockShared)\<rparr>"

text \<open>\<open>hex.EncodeToString\<close>, and the five groups of a token.\<close>

definition hex_digit :: "nat \<Rightarrow> char" where
  "hex_digit n = ''0123456789abcdef'' ! n"

definition hex_encode :: "string \<Rightarrow> string" where
  "hex_encode bs = concat (map (\<lambda>c. [hex_digit (byte_of c div 16), hex_digit (byte_of c mod 16)]) bs)"

definition newToken :: "string option \<Rightarrow> (lock_error, string) result" where
  "newToken random =
     (case random of
        None \<Rightarrow> Inl MintFailed
      | Some b \<Rightarrow>
          Inr (hex_encode (take 4 b) @ ''-'' @ hex_encode (take 2 (drop 4 b)) @ ''-'' @
               hex_encode (take 2 (drop 6 b)) @ ''-'' @ hex_encode (take 2 (drop 8 b)) @ ''-'' @
               hex_encode (take 6 (drop 10 b))))"

definition lock_row_for :: "string \<Rightarrow> lock_request \<Rightarrow> int \<Rightarrow> dav_lock" where
  "lock_row_for token req now =
     (let timeout = clampTimeout (Q_Timeout req) in
      \<lparr>L_Token = token, L_Ident = Q_Ident req, L_Path = Q_Path req, L_Principal = Q_Principal req,
       L_Owner = Q_Owner req, L_Depth = Q_Depth req,
       L_Scope = (if Q_Shared req then LockShared else LockExclusive),
       L_ExpiresNs = wrap_i64 (now + timeout), L_TimeoutS = timeout div Second\<rparr>)"

definition Take ::
  "string option \<Rightarrow> lock_request \<Rightarrow> int \<Rightarrow> state_db \<Rightarrow> (lock_error, active) result \<times> state_db" where
  "Take random req now db =
     (case newToken random of
        Inl e \<Rightarrow> (Inl e, db)
      | Inr token \<Rightarrow>
          (let row = lock_row_for token req now in
           (case AdmitDavLock row now db of
              (Inl e, db') \<Rightarrow>
                if e = ErrLockConflict then (Inl ErrLocked, db') else (Inl (StoreError e), db')
            | (Inr _, db') \<Rightarrow> (Inr (activeOf row), db'))))"

definition find_lock :: "string \<Rightarrow> int \<Rightarrow> state_db \<Rightarrow> (lock_error, dav_lock) result" where
  "find_lock token now db =
     (case DavLocks now db of
        Inl e \<Rightarrow> Inl (StoreError e)
      | Inr held \<Rightarrow>
          (case List.find (\<lambda>h. L_Token h = TrimPrefix token tokenURN) held of
             Some h \<Rightarrow> Inr h
           | None \<Rightarrow> Inl LockNotFound))"

definition Refresh ::
  "string \<Rightarrow> int \<Rightarrow> int \<Rightarrow> int \<Rightarrow> state_db \<Rightarrow> (lock_error, active) result \<times> state_db" where
  "Refresh token who d now db =
     (case find_lock token now db of
        Inl e \<Rightarrow> (Inl e, db)
      | Inr held \<Rightarrow>
          if L_Principal held \<noteq> who then (Inl ErrLocked, db)
          else (let timeout = clampTimeout d;
                    expires = wrap_i64 (now + timeout);
                    secs = timeout div Second in
            (case RefreshDavLock (L_Token held) expires secs now db of
               (Inl e, db') \<Rightarrow>
                 if e = ErrNoSuchLock then (Inl LockNotFound, db') else (Inl (StoreError e), db')
             | (Inr _, db') \<Rightarrow>
                 (Inr (activeOf (held\<lparr>L_ExpiresNs := expires, L_TimeoutS := secs\<rparr>)), db'))))"

definition Release ::
  "string \<Rightarrow> int \<Rightarrow> int \<Rightarrow> state_db \<Rightarrow> (lock_error, unit) result \<times> state_db" where
  "Release token who now db =
     (case find_lock token now db of
        Inl e \<Rightarrow> (Inl e, db)
      | Inr held \<Rightarrow>
          if L_Principal held \<noteq> who then (Inl ErrLocked, db)
          else (case DropDavLock (L_Token held) db of
                  (Inl e, db') \<Rightarrow> (Inl (StoreError e), db')
                | (Inr u, db') \<Rightarrow> (Inr u, db')))"

definition isDescendant :: "string \<Rightarrow> string \<Rightarrow> bool" where
  "isDescendant child parent =
     (if parent = [] \<or> parent = ''/'' then child \<noteq> parent
      else HasPrefix child (TrimSuffix parent ''/'' @ ''/''))"

definition lock_covers :: "dav_lock \<Rightarrow> int \<Rightarrow> string \<Rightarrow> bool" where
  "lock_covers l share path =
     (if I_Share (L_Ident l) \<noteq> share then False
      else if L_Path l = path then True
      else if L_Depth l \<noteq> LockDepthInfinity then False
      else isDescendant path (L_Path l))"

definition submittedHas :: "string list \<Rightarrow> string \<Rightarrow> bool" where
  "submittedHas submitted token = list_ex (\<lambda>s. s = token \<or> s = tokenURN @ token) submitted"

definition TokenURN :: "string \<Rightarrow> string" where
  "TokenURN token = tokenURN @ token"

definition locks_At :: "int \<Rightarrow> string \<Rightarrow> int \<Rightarrow> state_db \<Rightarrow> (state_error, active list) result" where
  "locks_At share path now db =
     bind_r (DavLocks now db) (\<lambda>held.
       Inr (map activeOf (filter (\<lambda>h. lock_covers h share path) held)))"

fun guard_loop :: "int \<Rightarrow> string \<Rightarrow> int \<Rightarrow> string list \<Rightarrow> dav_lock list \<Rightarrow> lock_error option" where
  "guard_loop share path who submitted [] = None"
| "guard_loop share path who submitted (h # hs) =
     (if \<not> lock_covers h share path then guard_loop share path who submitted hs
      else if \<not> submittedHas submitted (L_Token h) then Some ErrLocked
      else if L_Principal h \<noteq> who then Some ErrLocked
      else guard_loop share path who submitted hs)"

definition Guard ::
  "int \<Rightarrow> string \<Rightarrow> int \<Rightarrow> string list \<Rightarrow> int \<Rightarrow> state_db \<Rightarrow> lock_error option" where
  "Guard share path who submitted now db =
     (case DavLocks now db of
        Inl e \<Rightarrow> Some (StoreError e)
      | Inr held \<Rightarrow> guard_loop share path who submitted held)"

section \<open>The protocol adapter\<close>

record dav_Lock =
  K_Token :: string
  K_Path :: string
  K_Owner :: string
  K_TimeoutS :: int
  K_Infinite :: bool
  K_Exclusive :: bool

definition lockOf :: "active \<Rightarrow> dav_Lock" where
  "lockOf l =
     \<lparr>K_Token = TokenURN (A_Token l), K_Path = A_Path l, K_Owner = A_Owner l,
      K_TimeoutS = A_TimeoutS l, K_Infinite = (A_Depth l = LockDepthInfinity),
      K_Exclusive = (\<not> A_Shared l)\<rparr>"

text \<open>The tokens an \<open>If\<close> header is evaluated against; an unreadable table has none.\<close>

definition StateLocks_Tokens :: "int \<Rightarrow> string \<Rightarrow> int \<Rightarrow> state_db \<Rightarrow> string list" where
  "StateLocks_Tokens share path now db =
     (case locks_At share path now db of
        Inl _ \<Rightarrow> []
      | Inr got \<Rightarrow> map (\<lambda>l. TokenURN (A_Token l)) got)"

definition StateLocks_At :: "int \<Rightarrow> string \<Rightarrow> int \<Rightarrow> state_db \<Rightarrow> dav_Lock list" where
  "StateLocks_At share path now db =
     (case locks_At share path now db of Inl _ \<Rightarrow> [] | Inr got \<Rightarrow> map lockOf got)"

section \<open>The Timeout header\<close>

definition InfiniteTimeout :: int where "InfiniteTimeout = max_i64"

text \<open>
  \<open>cutPrefixFold\<close> compares as many bytes as the prefix has; a non-ASCII rune takes several of
  them, so only an ASCII text of the same letters can be equal.
\<close>

definition cutPrefixFold :: "string \<Rightarrow> string \<Rightarrow> string option" where
  "cutPrefixFold s p =
     (if length s < length p \<or> \<not> EqualFoldASCII (take (length p) s) p then None
      else Some (drop (length p) s))"

definition timeout_part :: "string \<Rightarrow> int option" where
  "timeout_part part0 =
     (let part = TrimSpace part0 in
      if EqualFoldASCII part ''Infinite'' then Some InfiniteTimeout
      else (case cutPrefixFold part ''Second-'' of
              None \<Rightarrow> None
            | Some rest \<Rightarrow>
                (case ParseInt64 rest of
                   None \<Rightarrow> None
                 | Some n \<Rightarrow>
                     if n \<le> 0 then None
                     else if n > InfiniteTimeout div Second then Some InfiniteTimeout
                     else Some (wrap_i64 (n * Second)))))"

fun first_timeout :: "string list \<Rightarrow> int" where
  "first_timeout [] = 0"
| "first_timeout (p # ps) = (case timeout_part p of Some d \<Rightarrow> d | None \<Rightarrow> first_timeout ps)"

definition ParseTimeout :: "string \<Rightarrow> int" where
  "ParseTimeout header = first_timeout (Split (CHR '','') header)"

section \<open>Paths as text and as components\<close>

lemma Split_append: "Split c (s @ c # t) = Split c s @ Split c t"
  by (induction s) (auto split: list.splits)

lemma Join_append: "xs \<noteq> [] \<Longrightarrow> zs \<noteq> [] \<Longrightarrow> Join c (xs @ zs) = Join c xs @ c # Join c zs"
  by (induction c xs rule: Join.induct) (auto simp: Join_Cons)

lemma wf_path_Split:
  assumes "wf_path xs" and "xs \<noteq> []"
  shows "Split slash (Join slash xs) = xs"
  using assms by (intro Split_Join) (auto simp: wf_path_def list_all_iff)

lemma wf_path_Join_Nil: "wf_path xs \<Longrightarrow> Join slash xs = [] \<longleftrightarrow> xs = []"
  using Join_eq_Nil [of slash xs] by (auto simp: wf_path_def list_all_iff)

lemma wf_path_inject: "wf_path xs \<Longrightarrow> wf_path ys \<Longrightarrow> Join slash xs = Join slash ys \<longleftrightarrow> xs = ys"
  using Join_inject [of xs slash ys] by (auto simp: wf_path_def list_all_iff)

lemma wf_path_no_edge:
  assumes "wf_path xs"
  shows "\<not> HasPrefix (Join slash xs) ''/''" and "TrimSuffix (Join slash xs) ''/'' = Join slash xs"
    and "Join slash xs \<noteq> ''/''"
proof -
  have notin: "[] \<notin> set xs" using assms by (auto simp: wf_path_def list_all_iff)
  have split: "Split slash (Join slash xs) = xs" if "Join slash xs = a @ slash # b" for a b
    using that wf_path_Split [OF assms] wf_path_Join_Nil [OF assms] by (metis append_is_Nil_conv list.distinct(1))
  show np: "\<not> HasPrefix (Join slash xs) ''/''"
  proof
    assume "HasPrefix (Join slash xs) ''/''"
    then obtain b where b: "Join slash xs = [] @ slash # b" by (auto simp: HasPrefix_iff_prefix prefix_def)
    with split [OF b] Split_append [of slash "[]" b] notin show False by (metis Split.simps(1) append_Cons list.set_intros(1))
  qed
  show "TrimSuffix (Join slash xs) ''/'' = Join slash xs"
  proof -
    have "\<not> HasSuffix (Join slash xs) ''/''"
    proof
      assume "HasSuffix (Join slash xs) ''/''"
      then obtain a where a: "Join slash xs = a @ slash # []" by (auto simp: HasSuffix_iff)
      with split [OF a] Split_append [of slash a "[]"] have "xs = Split slash a @ [[]]" by simp
      with notin show False by (metis in_set_conv_decomp)
    qed
    then show ?thesis by (simp add: TrimSuffix_def)
  qed
  show "Join slash xs \<noteq> ''/''" using np by auto
qed

lemma Join_prefix_iff:
  assumes "wf_path xs" and "wf_path ys" and "xs \<noteq> []"
  shows "HasPrefix (Join slash ys) (Join slash xs @ ''/'') \<longleftrightarrow> strict_prefix xs ys"
proof
  assume "HasPrefix (Join slash ys) (Join slash xs @ ''/'')"
  then obtain t where t: "Join slash ys = Join slash xs @ slash # t"
    by (auto simp: HasPrefix_iff_prefix prefix_def)
  then have "ys \<noteq> []" by auto
  then have "ys = Split slash (Join slash xs @ slash # t)" using wf_path_Split [OF assms(2)] t by simp
  then have "ys = xs @ Split slash t" using wf_path_Split [OF assms(1,3)] by (simp add: Split_append)
  then show "strict_prefix xs ys" by (auto simp: strict_prefix_def)
next
  assume "strict_prefix xs ys"
  then obtain zs where "ys = xs @ zs" "zs \<noteq> []" by (auto simp: strict_prefix_def prefix_def)
  then show "HasPrefix (Join slash ys) (Join slash xs @ ''/'')"
    using Join_append [OF assms(3)] by (simp add: HasPrefix_iff_prefix)
qed

section \<open>What a lock covers\<close>

lemma lock_covers_iff:
  assumes "wf_path ps" and "wf_path qs" and "L_Path l = Join slash ps"
  shows "lock_covers l share (Join slash qs) \<longleftrightarrow>
    I_Share (L_Ident l) = share \<and> (ps = qs \<or> L_Depth l = LockDepthInfinity \<and> strict_prefix ps qs)"
proof (cases "ps = []")
  case True
  then show ?thesis
    using assms wf_path_Join_Nil [OF assms(2)]
    by (auto simp: lock_covers_def isDescendant_def strict_prefix_def)
next
  case False
  then show ?thesis
    using assms wf_path_no_edge [OF assms(1)] Join_prefix_iff [OF assms(1,2) False]
      wf_path_inject [OF assms(1,2)] wf_path_Join_Nil [OF assms(1)]
    by (auto simp: lock_covers_def isDescendant_def)
qed

lemma pathCovers_iff:
  assumes "wf_path ps" and "wf_path qs" and "ps \<noteq> []"
  shows "pathCovers (Join slash ps) (Join slash qs) \<longleftrightarrow> prefix ps qs"
  using wf_path_no_edge [OF assms(1)] Join_prefix_iff [OF assms] wf_path_inject [OF assms(1,2)]
  by (auto simp: pathCovers_def strict_prefix_def)

text \<open>Away from the root of a share, the two notions of reach agree.\<close>

lemma common_resource_overlap:
  assumes "wf_path ps" "ps \<noteq> []" "L_Path l = Join slash ps"
    and "wf_path ps'" "ps' \<noteq> []" "L_Path l' = Join slash ps'"
    and "wf_path qs" "lock_covers l share (Join slash qs)" "lock_covers l' share (Join slash qs)"
  shows "locksOverlap l l'"
proof -
  have c: "ps = qs \<or> L_Depth l = LockDepthInfinity \<and> strict_prefix ps qs"
    and c': "ps' = qs \<or> L_Depth l' = LockDepthInfinity \<and> strict_prefix ps' qs"
    using assms(8,9) lock_covers_iff [OF assms(1,7,3)] lock_covers_iff [OF assms(4,7,6)] by auto
  then have pq: "prefix ps qs" "prefix ps' qs" by (auto simp: strict_prefix_def)
  then consider "prefix ps ps'" | "prefix ps' ps" using prefix_same_cases by blast
  then show ?thesis
  proof cases
    case 1
    then have "ps = ps' \<or> L_Depth l = LockDepthInfinity"
      using c pq(2) prefix_order.antisym [of ps ps'] by blast
    with 1 show ?thesis using pathCovers_iff [OF assms(1,4,2)] assms(3,6) by (auto simp: locksOverlap_def)
  next
    case 2
    then have "ps = ps' \<or> L_Depth l' = LockDepthInfinity"
      using c' pq(1) prefix_order.antisym [of ps' ps] by blast
    with 2 show ?thesis using pathCovers_iff [OF assms(4,1,5)] assms(3,6) by (auto simp: locksOverlap_def)
  qed
qed

section \<open>What the guard decides\<close>

lemma guard_loop_None:
  "guard_loop share path who submitted hs = None \<longleftrightarrow>
     (\<forall>h\<in>set hs. lock_covers h share path \<longrightarrow> submittedHas submitted (L_Token h) \<and> L_Principal h = who)"
  by (induction hs) auto

lemma guard_loop_Some: "guard_loop share path who submitted hs = Some e \<Longrightarrow> e = ErrLocked"
  by (induction hs) (auto split: if_splits)

lemma Take_Inr:
  assumes "Take random req now db = (Inr a, db')"
  obtains token where "newToken random = Inr token" "a = activeOf (lock_row_for token req now)"
    "AdmitDavLock (lock_row_for token req now) now db = (Inr (), db')"
  using assms by (auto simp: Take_def Let_def split: sum.splits prod.splits if_splits)

lemma DavLocks_after_admit:
  assumes "table_ok db" and "share_ok (I_Share (L_Ident l))" and "AdmitDavLock l now db = (Inr (), db')"
    and "now \<le> t" and "t < L_ExpiresNs l" and "DavLocks t db' = Inr ls"
  shows "l \<in> set ls"
proof -
  have "row_of l \<in> set (lock_rows db')" using AdmitDavLock_Inr(1) [OF assms(3,1)] by simp
  moreover have "FromSQL (I_Share (L_Ident l)) (ToSQL (L_Ident l)) = Some (L_Ident l)"
  proof -
    have "Narrow (Unsigned 32) (Signed 64) (I_Share (L_Ident l)) = Some (I_Share (L_Ident l))"
      using assms(2) by (subst Narrow_spec) (auto simp: fits_def share_ok_def)
    then show ?thesis by (cases "L_Ident l") (auto simp: FromSQL_def ToSQL_def split: option.split)
  qed
  then have "scanDavLock (row_of l) = Inr l" by (simp add: scanDavLock_def row_of_def)
  moreover have "R_ExpiresNs (row_of l) > t" using assms(5) by (simp add: row_of_def)
  ultimately show ?thesis using DavLocks_set [OF assms(6)] by blast
qed

lemma exclusive_covers_unique:
  assumes "lock_history now db" and "DavLocks now db = Inr ls" and "wf_path qs"
    and "\<And>l. l \<in> set ls \<Longrightarrow> \<exists>ps. ps \<noteq> [] \<and> wf_path ps \<and> L_Path l = Join slash ps"
    and "l \<in> set ls" "l' \<in> set ls" "lock_covers l share (Join slash qs)" "lock_covers l' share (Join slash qs)"
    and "L_Scope l \<noteq> LockShared \<or> L_Scope l' \<noteq> LockShared"
  shows "L_Token l = L_Token l'"
proof (rule ccontr)
  assume ne: "L_Token l \<noteq> L_Token l'"
  obtain ps ps' where "ps \<noteq> []" "wf_path ps" "L_Path l = Join slash ps"
    "ps' \<noteq> []" "wf_path ps'" "L_Path l' = Join slash ps'" using assms(4-6) by meson
  then have "locksOverlap l l'" using common_resource_overlap assms(3,7,8) by blast
  then have "LocksConflict l l'" using assms(9) by (auto simp: LocksConflict_def)
  moreover have "I_Share (L_Ident l) = I_Share (L_Ident l')"
    using assms(7,8) by (auto simp: lock_covers_def split: if_splits)
  ultimately show False using history_no_conflict [OF assms(1)] assms(2,5,6) ne by auto
qed

lemma history_distinct_tokens:
  assumes "lock_history now db" and "DavLocks now db = Inr ls" and "l \<in> set ls" "l' \<in> set ls"
    and "L_Token l = L_Token l'"
  shows "l = l'"
proof -
  obtain r r' where r: "r \<in> set (lock_rows db)" "scanDavLock r = Inr l"
    "r' \<in> set (lock_rows db)" "scanDavLock r' = Inr l'"
    using assms(3,4) DavLocks_set [OF assms(2)] by blast
  then have "R_Token r = R_Token r'" using scan_fields assms(5) by metis
  with r claim_token_inj [OF history_table_ok [OF assms(1)]] have "r = r'" by blast
  with r show ?thesis by simp
qed

lemma guard_holder:
  assumes hist: "lock_history now db'" and ok: "DavLocks t db' = Inr ls" and "now \<le> t"
    and l: "l \<in> set ls" "L_Scope l \<noteq> LockShared" "lock_covers l share (Join slash qs)" and "wf_path qs"
    and paths: "\<And>l. l \<in> set ls \<Longrightarrow> \<exists>ps. ps \<noteq> [] \<and> wf_path ps \<and> L_Path l = Join slash ps"
  shows "Guard share (Join slash qs) who submitted t db' = None \<longleftrightarrow>
         submittedHas submitted (L_Token l) \<and> who = L_Principal l"
proof -
  have ht: "lock_history t db'" using lock_history.wait [OF hist assms(3)] .
  have only: "h = l" if "h \<in> set ls" "lock_covers h share (Join slash qs)" for h
    using exclusive_covers_unique [OF ht ok assms(7) paths that(1) l(1) that(2) l(3)] l(2)
      history_distinct_tokens [OF ht ok that(1) l(1)] by blast
  have "Guard share (Join slash qs) who submitted t db' = None \<longleftrightarrow>
      (\<forall>h\<in>set ls. lock_covers h share (Join slash qs) \<longrightarrow> submittedHas submitted (L_Token h) \<and> L_Principal h = who)"
    using ok by (simp add: Guard_def guard_loop_None)
  then show ?thesis using l(1,3) only by metis
qed

section \<open>Properties\<close>

text \<open>
  The guard is exactly the rule: a write is let through when the table can be read and
  every live lock that reaches the resource was submitted with the request and belongs to the
  account making it; otherwise the refusal is the lock refusal or the table's own error.
\<close>
theorem guard_decides:
  "(Guard share path who submitted now db = None \<longleftrightarrow>
     (\<exists>held. DavLocks now db = Inr held \<and>
        (\<forall>h\<in>set held. lock_covers h share path \<longrightarrow>
            (L_Token h \<in> set submitted \<or> TokenURN (L_Token h) \<in> set submitted) \<and> L_Principal h = who))) \<and>
   (\<forall>e. Guard share path who submitted now db = Some e \<longrightarrow>
        e = ErrLocked \<or> (\<exists>se. DavLocks now db = Inl se \<and> e = StoreError se))"
proof -
  have sh: "submittedHas submitted t \<longleftrightarrow> t \<in> set submitted \<or> TokenURN t \<in> set submitted" for t
    by (auto simp: submittedHas_def TokenURN_def list_ex_iff)
  show ?thesis
    by (cases "DavLocks now db") (auto simp: Guard_def guard_loop_None sh dest: guard_loop_Some)
qed

theorem guard_decides_witness:
  "Guard 7 ''a'' 2 [''t''] 5 (demo_db\<lparr>lock_rows := [row_of (demo_lock ''t'' ''a'' 1 0)]\<rparr>) \<noteq> None"
proof -
  let ?db = "demo_db\<lparr>lock_rows := [row_of (demo_lock ''t'' ''a'' 1 0)]\<rparr>"
  have "DavLocks 5 ?db = Inr [demo_lock ''t'' ''a'' 1 0]"
  proof -
    have "Narrow (Unsigned 32) (Signed 64) 7 = Some 7" by (subst Narrow_spec) (simp_all add: fits_def)
    then show ?thesis
      by (simp add: DavLocks_def sqlSelectDavLocks_def scanDavLock_def FromSQL_def ToSQL_def row_of_def
          demo_lock_def demo_ident_def)
  qed
  then show ?thesis using guard_decides [of 7 "''a''" 2 "[''t'']" 5 ?db]
    by (auto simp: lock_covers_def demo_lock_def demo_ident_def)
qed



definition demo_request :: "string \<Rightarrow> int \<Rightarrow> int \<Rightarrow> lock_request" where
  "demo_request path who depth =
     \<lparr>Q_Ident = demo_ident, Q_Path = path, Q_Principal = who, Q_Owner = [], Q_Depth = depth,
      Q_Timeout = 0, Q_Shared = False\<rparr>"

definition demo_random :: "char \<Rightarrow> string option" where
  "demo_random c = Some (replicate 16 c)"

definition demo_token :: string where "demo_token = ''61616161-6161-6161-6161-616161616161''"
definition demo_token2 :: string where "demo_token2 = ''62626262-6262-6262-6262-626262626262''"

definition demo_held :: "string \<Rightarrow> string \<Rightarrow> int \<Rightarrow> int \<Rightarrow> dav_lock" where
  "demo_held token path who depth =
     \<lparr>L_Token = token, L_Ident = demo_ident, L_Path = path, L_Principal = who, L_Owner = [],
      L_Depth = depth, L_Scope = LockExclusive, L_ExpiresNs = 300000000005, L_TimeoutS = 300\<rparr>"

lemma demo_mint:
  "newToken (demo_random (CHR ''a'')) = Inr demo_token" "newToken (demo_random (CHR ''b'')) = Inr demo_token2"
  by code_simp+

lemma demo_row: "lock_row_for token (demo_request path who depth) 5 = demo_held token path who depth"
  by (simp add: lock_row_for_def demo_request_def demo_held_def clampTimeout_def DefaultTimeout_def Second_def
      wrap_i64_def)

lemma demo_narrow: "Narrow (Unsigned 32) (Signed 64) 7 = Some 7"
  by (subst Narrow_spec) (simp_all add: fits_def)

lemma demo_scan: "scanDavLock (row_of (demo_held token path who depth)) = Inr (demo_held token path who depth)"
  by (simp add: scanDavLock_def FromSQL_def ToSQL_def row_of_def demo_held_def demo_ident_def demo_narrow)

definition demo_db1 :: "string \<Rightarrow> int \<Rightarrow> state_db" where
  "demo_db1 path depth = demo_db\<lparr>lock_rows := [row_of (demo_held demo_token path 1 depth)]\<rparr>"

lemma demo_take:
  "Take (demo_random (CHR ''a'')) (demo_request path 1 depth) 5 demo_db =
     (Inr (activeOf (demo_held demo_token path 1 depth)), demo_db1 path depth)"
  by (simp add: Take_def demo_mint demo_row demo_db1_def lock_eval_simps, simp add: demo_held_def)

lemma demo_locks: "t < 300000000005 \<Longrightarrow> DavLocks t (demo_db1 path depth) = Inr [demo_held demo_token path 1 depth]"
proof -
  assume "t < 300000000005"
  then have "sqlSelectDavLocks t (lock_rows (demo_db1 path depth)) = [row_of (demo_held demo_token path 1 depth)]"
    by (simp add: sqlSelectDavLocks_def demo_db1_def, simp add: row_of_def demo_held_def)
  then show ?thesis by (simp add: DavLocks_def demo_scan)
qed


text \<open>
  C36. At the root of a share the promise fails. The root is stored as the empty path, which
  the admission's overlap test does not recognise as an ancestor while the guard does: one
  account takes an exclusive depth-infinity lock on the root, another is then granted an
  exclusive lock on a file inside it, both locks reach that file, and neither holder can
  write it any more, each blocked by the other's lock.
\<close>
theorem root_lock_not_exclusive:
  "\<exists>db a b. Take (demo_random (CHR ''a'')) (demo_request [] 1 LockDepthInfinity) 5 demo_db = (Inr a, demo_db1 [] LockDepthInfinity) \<and>
     Take (demo_random (CHR ''b'')) (demo_request ''f'' 2 LockDepthZero) 5 (demo_db1 [] LockDepthInfinity) = (Inr b, db) \<and>
     \<not> A_Shared a \<and> \<not> A_Shared b \<and>
     Guard 7 ''f'' 1 [A_Token a] 5 db = Some ErrLocked \<and> Guard 7 ''f'' 2 [A_Token b] 5 db = Some ErrLocked"
proof -
  let ?a = "demo_held demo_token [] 1 LockDepthInfinity" and ?b = "demo_held demo_token2 ''f'' 2 LockDepthZero"
  let ?db = "demo_db\<lparr>lock_rows := [row_of ?a, row_of ?b]\<rparr>"
  have "\<not> LocksConflict ?a ?b"
    by (simp add: LocksConflict_def locksOverlap_def pathCovers_def demo_held_def LockExclusive_def
        LockShared_def LockDepthInfinity_def LockDepthZero_def TrimSuffix_def HasSuffix_def)
  then have "admit_tx ?b 5 (demo_db1 [] LockDepthInfinity) = Inr ((), ?db)"
    by (simp add: admit_tx_def demo_db1_def sqlSweepDavLocks_def liveLocksInShare_def sqlLiveDavLocksInShare_def
        demo_scan sqlCountDavLocks_def DavLocksPerUser_def sqlInsertDavLock_def,
        simp add: row_of_def demo_held_def demo_db_def demo_ident_def demo_token_def demo_token2_def)
  then have "Take (demo_random (CHR ''b'')) (demo_request ''f'' 2 LockDepthZero) 5 (demo_db1 [] LockDepthInfinity) =
      (Inr (activeOf ?b), ?db)"
    by (simp add: Take_def demo_mint demo_row AdmitDavLock_def EnsureWritable_def db_Write_def demo_db1_def demo_db_def Let_def)
  moreover have "sqlSelectDavLocks 5 (lock_rows ?db) = [row_of ?a, row_of ?b]"
    by (simp add: sqlSelectDavLocks_def row_of_def demo_held_def demo_token_def demo_token2_def)
  then have "DavLocks 5 ?db = Inr [?a, ?b]" by (simp add: DavLocks_def demo_scan)
  then have "Guard 7 ''f'' 1 [demo_token] 5 ?db = Some ErrLocked" "Guard 7 ''f'' 2 [demo_token2] 5 ?db = Some ErrLocked"
    by (simp_all add: Guard_def lock_covers_def isDescendant_def demo_held_def demo_ident_def submittedHas_def
        demo_token_def demo_token2_def tokenURN_def LockDepthInfinity_def LockDepthZero_def)
  ultimately show ?thesis
    using demo_take [of "[]" LockDepthInfinity]
    by (intro exI [of _ ?db] exI [of _ "activeOf ?a"] exI [of _ "activeOf ?b"])
      (simp add: activeOf_def demo_held_def LockExclusive_def LockShared_def)
qed

lemma find_lock_Inr:
  assumes "find_lock token now db = Inr h"
  shows "\<exists>ls. DavLocks now db = Inr ls \<and> h \<in> set ls \<and> L_Token h = TrimPrefix token tokenURN"
  using assms by (auto simp: find_lock_def find_Some_iff split: sum.splits option.splits)

lemma find_lock_known:
  assumes "lock_history now db" and "DavLocks now db = Inr ls" and "h \<in> set ls"
    and "TrimPrefix token tokenURN = L_Token h"
  shows "find_lock token now db = Inr h"
proof -
  have "List.find (\<lambda>x. L_Token x = L_Token h) ls = Some h"
  proof (cases "List.find (\<lambda>x. L_Token x = L_Token h) ls")
    case None
    with assms(3) show ?thesis by (auto simp: find_None_iff)
  next
    case (Some x)
    then have "x \<in> set ls" "L_Token x = L_Token h" by (auto simp: find_Some_iff)
    then have "x = h" using history_distinct_tokens [OF assms(1,2)] assms(3) by blast
    with Some show ?thesis by simp
  qed
  then show ?thesis using assms(2,4) by (simp add: find_lock_def)
qed

lemma TrimPrefix_URN: "TrimPrefix (TokenURN t) tokenURN = t"
  by (simp add: TokenURN_def)

lemma DropDavLock_eq:
  "DropDavLock token db = (Inr (), db\<lparr>lock_rows := sqlDeleteDavLock token (lock_rows db)\<rparr>)"
  by (simp add: DropDavLock_def db_Write_def)

lemma DavLocks_after_drop:
  assumes "DavLocks now db = Inr ls" and "DavLocks now (snd (DropDavLock token db)) = Inr ls'"
  shows "set ls' = {l \<in> set ls. L_Token l \<noteq> token}"
proof -
  have "l \<in> set ls' \<longleftrightarrow> l \<in> set ls \<and> L_Token l \<noteq> token" for l
    using DavLocks_set [OF assms(1), of l] DavLocks_set [OF assms(2), of l] scan_fields
    by (fastforce simp: DropDavLock_eq sqlDeleteDavLock_def)
  then show ?thesis by blast
qed

lemma timeout_part_range: "timeout_part p = Some d \<Longrightarrow> 0 < d \<and> d \<le> max_i64"
proof -
  have w: "wrap_i64 (n * Second) = n * Second" if "0 < n" "\<not> n > InfiniteTimeout div Second" for n
    using that by (intro wrap_i64_id)
      (simp add: InfiniteTimeout_def max_i64_def Second_def in_i64_def min_i64_def)
  assume "timeout_part p = Some d"
  then show ?thesis using w
    by (auto simp: timeout_part_def Let_def InfiniteTimeout_def max_i64_def Second_def split: if_splits option.splits)
qed

lemma first_timeout_range: "0 \<le> first_timeout ps \<and> first_timeout ps \<le> max_i64"
  by (induction ps) (auto simp: max_i64_def split: option.split dest: timeout_part_range)

lemma clampTimeout_range: "0 < clampTimeout d \<and> clampTimeout d \<le> MaxTimeout"
  by (simp add: clampTimeout_def DefaultTimeout_def MaxTimeout_def Second_def)

text \<open>
  Only the holder can end a lock early: with a live lock's token, in either spelling, a
  release by another account is refused and changes nothing, while the holder's release
  succeeds and removes exactly that lock, leaving every other live lock in place.
\<close>
theorem release_authority:
  assumes "lock_history now db" and "DavLocks now db = Inr ls" and "h \<in> set ls"
    and "token = L_Token h \<and> \<not> HasPrefix (L_Token h) tokenURN \<or> token = TokenURN (L_Token h)"
  shows "(who \<noteq> L_Principal h \<longrightarrow> Release token who now db = (Inl ErrLocked, db)) \<and>
         (\<exists>db' ls'. Release token (L_Principal h) now db = (Inr (), db') \<and>
            DavLocks now db' = Inr ls' \<and> set ls' = {l \<in> set ls. L_Token l \<noteq> L_Token h})"
proof -
  have "TrimPrefix token tokenURN = L_Token h" using assms(4) TrimPrefix_URN [of "L_Token h"]
    by (metis TrimPrefix_def)
  then have f: "find_lock token now db = Inr h" using find_lock_known assms(1-3) by blast
  let ?db = "snd (DropDavLock (L_Token h) db)"
  have "lock_history now ?db"
    using lock_history.drop [OF assms(1) order_refl, of "L_Token h"] by (simp add: prod_eq_iff)
  then obtain ls' where "DavLocks now ?db = Inr ls'" using DavLocks_total [OF history_table_ok] by blast
  moreover from this have "set ls' = {l \<in> set ls. L_Token l \<noteq> L_Token h}"
    by (rule DavLocks_after_drop [OF assms(2)])
  moreover have "Release token (L_Principal h) now db = (Inr (), ?db)"
    using f by (simp add: Release_def DropDavLock_eq)
  ultimately show ?thesis using f by (auto simp: Release_def)
qed

theorem release_authority_witness:
  "Release demo_token 2 6 (demo_db1 ''a'' 0) = (Inl ErrLocked, demo_db1 ''a'' 0) \<and>
   (\<exists>db'. Release demo_token 1 6 (demo_db1 ''a'' 0) = (Inr (), db') \<and> DavLocks 6 db' = Inr [])"
proof -
  let ?l = "demo_held demo_token ''a'' 1 0"
  have ls: "DavLocks 6 (demo_db1 ''a'' 0) = Inr [?l]" by (rule demo_locks) simp
  have adm: "AdmitDavLock ?l 5 demo_db = (Inr (), demo_db1 ''a'' 0)"
    using demo_take [of "''a''" 0] by (auto simp: Take_def demo_mint demo_row Let_def split: sum.splits prod.splits if_splits)
  have "lock_history 5 demo_db" by (rule lock_history.start) (simp add: demo_db_def)
  from lock_history.admit [OF this order_refl _ adm] have "lock_history 5 (demo_db1 ''a'' 0)"
    by (simp add: demo_held_def demo_ident_def share_ok_def)
  then have h: "lock_history 6 (demo_db1 ''a'' 0)" by (rule lock_history.wait) simp
  have t: "demo_token = L_Token ?l \<and> \<not> HasPrefix (L_Token ?l) tokenURN \<or> demo_token = TokenURN (L_Token ?l)"
    by (simp add: demo_held_def demo_token_def tokenURN_def)
  have "(2::int) \<noteq> L_Principal ?l" "L_Principal ?l = 1" by (simp_all add: demo_held_def)
  moreover have "ls' = []" if "set ls' = {l \<in> set [?l]. L_Token l \<noteq> L_Token ?l}" for ls'
  proof -
    have "{l \<in> set [?l]. L_Token l \<noteq> L_Token ?l} = {}" by auto
    with that have "set ls' = {}" by (simp only:)
    then show ?thesis by simp
  qed
  ultimately show ?thesis using release_authority [OF h ls _ t, of 2]
    by (metis list.set_intros(1))
qed

text \<open>
  C37. Leases are bounded and never overflow: whatever the client sends, the parsed preference
  is between zero and the largest duration, the granted lease is positive and at most an hour,
  and a lock taken or refreshed expires exactly that much after now.
\<close>
theorem lease_bounded:
  assumes "0 \<le> now" and "now \<le> max_i64 - MaxTimeout"
  shows "0 \<le> ParseTimeout header \<and> ParseTimeout header \<le> max_i64 \<and>
         (\<forall>random req db a db'. Take random req now db = (Inr a, db') \<longrightarrow>
            A_ExpiresNs a = now + clampTimeout (Q_Timeout req) \<and>
            now < A_ExpiresNs a \<and> A_ExpiresNs a \<le> now + MaxTimeout) \<and>
         (\<forall>token who d db a db'. Refresh token who d now db = (Inr a, db') \<longrightarrow>
            A_ExpiresNs a = now + clampTimeout d \<and> now < A_ExpiresNs a \<and> A_ExpiresNs a \<le> now + MaxTimeout)"
proof -
  have w: "wrap_i64 (now + clampTimeout d) = now + clampTimeout d" for d
    using assms clampTimeout_range [of d] by (intro wrap_i64_id) (auto simp: in_i64_def min_i64_def)
  have "A_ExpiresNs a = now + clampTimeout (Q_Timeout req)" if "Take random req now db = (Inr a, db')"
    for random req db a db'
    using Take_Inr [OF that] w by (metis (no_types, lifting) activeOf_def lock_row_for_def
        active.select_convs(6) dav_lock.select_convs(8))
  moreover have "A_ExpiresNs a = now + clampTimeout d" if "Refresh token who d now db = (Inr a, db')"
    for token who d db a db'
    using that w by (auto simp: Refresh_def Let_def activeOf_def split: sum.splits prod.splits if_splits)
  ultimately show ?thesis
    using clampTimeout_range first_timeout_range by (auto simp: ParseTimeout_def)
qed

theorem lease_bounded_witness:
  "0 \<le> ParseTimeout ''Second-99999999999999'' \<and>
   A_ExpiresNs (activeOf (demo_held demo_token ''a'' 1 0)) \<le> 5 + MaxTimeout"
proof -
  have "(0::int) \<le> 5" "5 \<le> max_i64 - MaxTimeout" by (simp_all add: max_i64_def MaxTimeout_def Second_def)
  from lease_bounded [OF this] demo_take show ?thesis by metis
qed

end
