(* ===== verification/Sc_DavXml.thy ===== *)
theory Sc_DavXml
  imports Sc_DavIf
begin

text \<open>
  Request bodies of the WebDAV surface: the defended token stream of
  \<open>internal/dav/xmlscan.go\<close> and the four readers built on it, \<open>ParseLockInfo\<close>
  (\<open>lockinfo.go\<close>), \<open>ParsePropPatch\<close> with its all-or-nothing plan (\<open>proppatch.go\<close>),
  \<open>ParsePropFind\<close> and the depth header (\<open>propfind.go\<close>). Splitting bytes into XML tokens is the
  decoder of the standard library; a body is given by the tokens it yields, how it ends, and
  how far the input was read by then.
\<close>

section \<open>Tokens\<close>

record xml_name =
  Space :: string
  Local :: string

record xml_attr =
  Attr_Name :: xml_name
  Attr_Value :: string

datatype xml_token =
    StartElement xml_name "xml_attr list"
  | EndElement xml_name
  | CharData string
  | Comment string
  | ProcInst string
  | Directive string

datatype xml_end = XmlEOF | XmlSyntax | XmlReadFailed

record xml_body =
  body_tokens :: "xml_token list"
  body_end :: xml_end
  body_offset :: int

datatype scan_error =
    ErrBodyTooLarge
  | ErrDirective
  | ErrProcInst
  | ErrUndeclaredPrefix string
  | ErrTooDeep
  | ErrTooManyElements
  | ErrNameTooLong
  | ErrTooMuchText
  | SyntaxError
  | ReadFailed
  | ErrTooManyProperties
  | ErrBadLockInfo

definition davNS :: string where "davNS = ''DAV:''"
definition xmlNamespace :: string where "xmlNamespace = ''http://www.w3.org/XML/1998/namespace''"

section \<open>The scanner\<close>

record scanner =
  s_depth :: int
  s_count :: int
  s_text :: int
  s_seenPI :: bool
  s_scopes :: "(string \<times> string) list list"

definition NewScanner :: scanner where
  "NewScanner = \<lparr>s_depth = 0, s_count = 0, s_text = 0, s_seenPI = False, s_scopes = []\<rparr>"

text \<open>Namespace declarations of one element; a scope maps prefixes to the URIs they name.\<close>

fun scope_of :: "xml_attr list \<Rightarrow> (string \<times> string) list" where
  "scope_of [] = []"
| "scope_of (a # as) =
     (if Space (Attr_Name a) = ''xmlns'' then (Local (Attr_Name a), Attr_Value a) # scope_of as
      else if Space (Attr_Name a) = [] \<and> Local (Attr_Name a) = ''xmlns'' then ([], Attr_Value a) # scope_of as
      else scope_of as)"

text \<open>
  A later declaration of one prefix on the same element replaces the earlier one, as in the
  source's map.
\<close>

fun bind_scope :: "(string \<times> string) list \<Rightarrow> (string \<times> string) list" where
  "bind_scope [] = []"
| "bind_scope ((k, v) # ds) = (if k \<in> fst ` set ds then bind_scope ds else (k, v) # bind_scope ds)"

definition name_resolved :: "scanner \<Rightarrow> xml_name \<Rightarrow> scan_error option" where
  "name_resolved s name =
     (if Space name = [] then None
      else if Space name = xmlNamespace then None
      else if list_ex (\<lambda>scope. list_ex (\<lambda>(_, uri). uri = Space name) scope) (s_scopes s) then None
      else Some (ErrUndeclaredPrefix (Space name)))"

fun check_attrs :: "Limits \<Rightarrow> scanner \<Rightarrow> xml_attr list \<Rightarrow> scan_error option" where
  "check_attrs lim s [] = None"
| "check_attrs lim s (a # as) =
     (if int (length (Local (Attr_Name a))) > Lim_NameBytes lim then Some ErrNameTooLong
      else if Space (Attr_Name a) = [] \<or> Space (Attr_Name a) = ''xmlns'' then check_attrs lim s as
      else (case name_resolved s (Attr_Name a) of Some e \<Rightarrow> Some e | None \<Rightarrow> check_attrs lim s as))"

definition enter :: "Limits \<Rightarrow> xml_name \<Rightarrow> xml_attr list \<Rightarrow> scanner \<Rightarrow> (scan_error, scanner) result" where
  "enter lim name attrs s0 =
     (let s1 = s0\<lparr>s_count := s_count s0 + 1\<rparr> in
      if s_count s1 > Lim_Elements lim then Inl ErrTooManyElements
      else (let s2 = s1\<lparr>s_depth := s_depth s1 + 1\<rparr> in
        if s_depth s2 > Lim_Depth lim then Inl ErrTooDeep
        else (let s = s2\<lparr>s_scopes := s_scopes s2 @ [bind_scope (scope_of attrs)]\<rparr> in
          if int (length (Local name)) > Lim_NameBytes lim then Inl ErrNameTooLong
          else (case name_resolved s name of
                  Some e \<Rightarrow> Inl e
                | None \<Rightarrow> (case check_attrs lim s attrs of Some e \<Rightarrow> Inl e | None \<Rightarrow> Inr s)))))"

definition leave :: "scanner \<Rightarrow> scanner" where
  "leave s = s\<lparr>s_depth := s_depth s - 1, s_scopes := butlast (s_scopes s)\<rparr>"

text \<open>\<open>Token\<close> for a token the decoder produced.\<close>

definition scan_token :: "Limits \<Rightarrow> scanner \<Rightarrow> xml_token \<Rightarrow> (scan_error, scanner) result" where
  "scan_token lim s tok =
     (case tok of
        Directive _ \<Rightarrow> Inl ErrDirective
      | ProcInst target \<Rightarrow>
          if s_seenPI s \<or> s_count s > 0 \<or> \<not> EqualFoldASCII target ''xml'' then Inl ErrProcInst
          else Inr (s\<lparr>s_seenPI := True\<rparr>)
      | StartElement name attrs \<Rightarrow> enter lim name attrs s
      | EndElement _ \<Rightarrow> Inr (leave s)
      | CharData t \<Rightarrow>
          (let s' = s\<lparr>s_text := s_text s + int (length t)\<rparr> in
           if s_text s' > Lim_TextBytes lim then Inl ErrTooMuchText else Inr s')
      | Comment _ \<Rightarrow> Inr s)"

text \<open>\<open>Token\<close> when the decoder has no further token: the size of the body is looked at first.\<close>

definition scan_end :: "Limits \<Rightarrow> xml_body \<Rightarrow> scan_error option" where
  "scan_end lim b =
     (if body_offset b > Lim_Bytes lim then Some ErrBodyTooLarge
      else (case body_end b of XmlEOF \<Rightarrow> None | XmlSyntax \<Rightarrow> Some SyntaxError | XmlReadFailed \<Rightarrow> Some ReadFailed))"

definition CheckBodySize :: "Limits \<Rightarrow> xml_body \<Rightarrow> scan_error option" where
  "CheckBodySize lim b = (if body_offset b > Lim_Bytes lim then Some ErrBodyTooLarge else None)"

text \<open>
  The loop every reader runs: scan a token, then let the reader act on it. A refusal of either
  ends the request.
\<close>

fun read_tokens ::
  "(xml_token \<Rightarrow> 'st \<Rightarrow> (scan_error, 'st) result) \<Rightarrow> Limits \<Rightarrow> scanner \<Rightarrow> 'st \<Rightarrow> xml_token list \<Rightarrow>
     (scan_error, scanner \<times> 'st) result" where
  "read_tokens act lim s st [] = Inr (s, st)"
| "read_tokens act lim s st (t # ts) =
     bind_r (scan_token lim s t) (\<lambda>s'.
       bind_r (act t st) (\<lambda>st'. read_tokens act lim s' st' ts))"

definition read_body ::
  "(xml_token \<Rightarrow> 'st \<Rightarrow> (scan_error, 'st) result) \<Rightarrow> Limits \<Rightarrow> 'st \<Rightarrow> xml_body \<Rightarrow>
     (scan_error, 'st) result" where
  "read_body act lim st b =
     bind_r (read_tokens act lim NewScanner st (body_tokens b)) (\<lambda>(s, st').
       case scan_end lim b of Some e \<Rightarrow> Inl e | None \<Rightarrow> Inr st')"

section \<open>LOCK bodies\<close>

record lock_info =
  LI_Owner :: string
  LI_Shared :: bool
  LI_Write :: bool

record lock_reader =
  lr_out :: lock_info
  lr_sawRoot :: bool
  lr_capturing :: bool
  lr_depth :: nat
  lr_owner :: string

definition lock_start :: lock_reader where
  "lock_start = \<lparr>lr_out = \<lparr>LI_Owner = [], LI_Shared = False, LI_Write = False\<rparr>,
     lr_sawRoot = False, lr_capturing = False, lr_depth = 0, lr_owner = []\<rparr>"

definition is_dav :: "xml_name \<Rightarrow> string \<Rightarrow> bool" where
  "is_dav name l \<longleftrightarrow> Space name = davNS \<and> Local name = l"

definition lock_act :: "Limits \<Rightarrow> xml_token \<Rightarrow> lock_reader \<Rightarrow> (scan_error, lock_reader) result" where
  "lock_act lim tok st =
     (case tok of
        StartElement name _ \<Rightarrow>
          if lr_capturing st then Inr (st\<lparr>lr_depth := lr_depth st + 1\<rparr>)
          else if \<not> lr_sawRoot st then
            (if \<not> is_dav name ''lockinfo'' then Inl ErrBadLockInfo else Inr (st\<lparr>lr_sawRoot := True\<rparr>))
          else if is_dav name ''write'' then Inr (st\<lparr>lr_out := (lr_out st)\<lparr>LI_Write := True\<rparr>\<rparr>)
          else if is_dav name ''shared'' then Inr (st\<lparr>lr_out := (lr_out st)\<lparr>LI_Shared := True\<rparr>\<rparr>)
          else if is_dav name ''owner'' then Inr (st\<lparr>lr_capturing := True, lr_owner := []\<rparr>)
          else Inr st
      | EndElement _ \<Rightarrow>
          if lr_capturing st \<and> lr_depth st > 0 then Inr (st\<lparr>lr_depth := lr_depth st - 1\<rparr>)
          else if lr_capturing st then
            Inr (st\<lparr>lr_capturing := False, lr_out := (lr_out st)\<lparr>LI_Owner := TrimSpace (lr_owner st)\<rparr>\<rparr>)
          else Inr st
      | CharData t \<Rightarrow>
          if lr_capturing st then
            (if int (length (lr_owner st) + length t) > Lim_TextBytes lim then Inl ErrTooMuchText
             else Inr (st\<lparr>lr_owner := lr_owner st @ t\<rparr>))
          else Inr st
      | _ \<Rightarrow> Inr st)"

definition ParseLockInfo :: "Limits \<Rightarrow> xml_body \<Rightarrow> (scan_error, lock_info) result" where
  "ParseLockInfo lim b =
     bind_r (read_body (lock_act lim) lim lock_start b) (\<lambda>st.
       if \<not> lr_sawRoot st then Inl ErrBadLockInfo else Inr (lr_out st))"

section \<open>PROPPATCH bodies\<close>

datatype prop_op = OpSet | OpRemove

record instruction =
  In_Op :: prop_op
  In_Name :: xml_name
  In_Value :: string

record patch_reader =
  pr_out :: "instruction list"
  pr_op :: "prop_op option"
  pr_inProp :: bool
  pr_current :: "(prop_op \<times> xml_name) option"
  pr_depth :: nat
  pr_text :: string

definition patch_start :: patch_reader where
  "patch_start = \<lparr>pr_out = [], pr_op = None, pr_inProp = False, pr_current = None, pr_depth = 0, pr_text = []\<rparr>"

definition patch_open :: "Limits \<Rightarrow> xml_name \<Rightarrow> patch_reader \<Rightarrow> (scan_error, patch_reader) result" where
  "patch_open lim name st =
     (if pr_current st \<noteq> None then Inr (st\<lparr>pr_depth := pr_depth st + 1\<rparr>)
      else if pr_inProp st then
        (if int (length (pr_out st)) \<ge> Lim_Properties lim then Inl ErrTooManyProperties
         else Inr (st\<lparr>pr_current := Some (the (pr_op st), name), pr_text := []\<rparr>))
      else if pr_op st \<noteq> None \<and> is_dav name ''prop'' then Inr (st\<lparr>pr_inProp := True\<rparr>)
      else if pr_op st = None \<and> is_dav name ''set'' then Inr (st\<lparr>pr_op := Some OpSet\<rparr>)
      else if pr_op st = None \<and> is_dav name ''remove'' then Inr (st\<lparr>pr_op := Some OpRemove\<rparr>)
      else Inr st)"

definition patch_close :: "patch_reader \<Rightarrow> patch_reader" where
  "patch_close st =
     (case pr_current st of
        Some (op, name) \<Rightarrow>
          if pr_depth st > 0 then st\<lparr>pr_depth := pr_depth st - 1\<rparr>
          else st\<lparr>pr_out := pr_out st @ [\<lparr>In_Op = op, In_Name = name, In_Value = pr_text st\<rparr>],
                  pr_current := None\<rparr>
      | None \<Rightarrow>
          if pr_inProp st then st\<lparr>pr_inProp := False\<rparr>
          else if pr_op st \<noteq> None then st\<lparr>pr_op := None\<rparr>
          else st)"

definition patch_act :: "Limits \<Rightarrow> xml_token \<Rightarrow> patch_reader \<Rightarrow> (scan_error, patch_reader) result" where
  "patch_act lim tok st =
     (case tok of
        StartElement name _ \<Rightarrow> patch_open lim name st
      | EndElement _ \<Rightarrow> Inr (patch_close st)
      | CharData t \<Rightarrow>
          if pr_current st \<noteq> None then Inr (st\<lparr>pr_text := pr_text st @ t\<rparr>) else Inr st
      | _ \<Rightarrow> Inr st)"

definition ParsePropPatch :: "Limits \<Rightarrow> xml_body \<Rightarrow> (scan_error, instruction list) result" where
  "ParsePropPatch lim b =
     bind_r (read_body (patch_act lim) lim patch_start b) (\<lambda>st.
       case CheckBodySize lim b of Some e \<Rightarrow> Inl e | None \<Rightarrow> Inr (pr_out st))"

record outcome =
  Out_Name :: xml_name
  Out_Status :: int

record plan =
  Outcomes :: "outcome list"
  Commit :: bool

definition PlanPropPatch :: "instruction list \<Rightarrow> (xml_name \<Rightarrow> bool) \<Rightarrow> plan" where
  "PlanPropPatch p live =
     (let refused = list_ex (\<lambda>i. live (In_Name i)) p in
      \<lparr>Outcomes = map (\<lambda>i. \<lparr>Out_Name = In_Name i,
                    Out_Status = (if \<not> refused then 200 else if live (In_Name i) then 403 else 424)\<rparr>) p,
       Commit = (\<not> refused \<and> length p > 0)\<rparr>)"

definition isLiveProperty :: "xml_name \<Rightarrow> bool" where
  "isLiveProperty name \<longleftrightarrow> Space name = davNS"

text \<open>
  Names that can be written back as a tag. A byte above 127 belongs to a rune of at least
  \<open>0x80\<close> (or decodes to the replacement rune), and every such rune is a name character.
\<close>

definition xmlNameStart :: "nat \<Rightarrow> bool" where
  "xmlNameStart r \<longleftrightarrow>
     (97 \<le> r \<and> r \<le> 122) \<or> (65 \<le> r \<and> r \<le> 90) \<or> r = 95 \<or> r \<ge> 128"

definition xmlNameChar :: "nat \<Rightarrow> bool" where
  "xmlNameChar r \<longleftrightarrow> xmlNameStart r \<or> (48 \<le> r \<and> r \<le> 57) \<or> r = 45 \<or> r = 46"

definition ValidPropertyName :: "xml_name \<Rightarrow> bool" where
  "ValidPropertyName name =
     (case Local name of
        [] \<Rightarrow> False
      | c # _ \<Rightarrow>
          if \<not> xmlNameStart (byte_of c) \<and> byte_of c < (128::nat) then False
          else if list_ex (\<lambda>c. \<not> xmlNameChar (byte_of c)) (Local name) then False
          else CHR '':'' \<notin> set (Local name))"

section \<open>PROPFIND bodies\<close>

datatype prop_mode = ModeAllProp | ModePropName | ModeNamed

record prop_find =
  PF_Mode :: prop_mode
  PF_Names :: "xml_name list"

definition name_add :: "int \<Rightarrow> xml_name \<Rightarrow> xml_name list \<Rightarrow> (scan_error, xml_name list) result" where
  "name_add limit name names =
     (if name \<in> set names then Inr names
      else if int (length names) \<ge> limit then Inl ErrTooManyProperties
      else Inr (names @ [name]))"

datatype find_target = TProps | TInclude

record find_reader =
  fr_props :: "xml_name list"
  fr_include :: "xml_name list"
  fr_target :: "find_target option"
  fr_sawName :: bool
  fr_sawProp :: bool
  fr_sawIncl :: bool
  fr_empty :: bool

definition find_start :: find_reader where
  "find_start = \<lparr>fr_props = [], fr_include = [], fr_target = None, fr_sawName = False,
     fr_sawProp = False, fr_sawIncl = False, fr_empty = True\<rparr>"

definition find_open :: "Limits \<Rightarrow> xml_name \<Rightarrow> find_reader \<Rightarrow> (scan_error, find_reader) result" where
  "find_open lim name st0 =
     (let st = st0\<lparr>fr_empty := False\<rparr> in
      (case fr_target st of
         Some TProps \<Rightarrow> bind_r (name_add (Lim_Properties lim) name (fr_props st)) (\<lambda>ns. Inr (st\<lparr>fr_props := ns\<rparr>))
       | Some TInclude \<Rightarrow> bind_r (name_add (Lim_Properties lim) name (fr_include st)) (\<lambda>ns. Inr (st\<lparr>fr_include := ns\<rparr>))
       | None \<Rightarrow>
           if Space name \<noteq> davNS then Inr st
           else if Local name = ''propname'' then Inr (st\<lparr>fr_sawName := True\<rparr>)
           else if Local name = ''include'' then Inr (st\<lparr>fr_sawIncl := True, fr_target := Some TInclude\<rparr>)
           else if Local name = ''prop'' then Inr (st\<lparr>fr_sawProp := True, fr_target := Some TProps\<rparr>)
           else Inr st))"

definition find_act :: "Limits \<Rightarrow> xml_token \<Rightarrow> find_reader \<Rightarrow> (scan_error, find_reader) result" where
  "find_act lim tok st =
     (case tok of
        StartElement name _ \<Rightarrow> find_open lim name st
      | EndElement name \<Rightarrow>
          if is_dav name ''prop'' \<or> is_dav name ''include'' then Inr (st\<lparr>fr_target := None\<rparr>) else Inr st
      | CharData t \<Rightarrow> if TrimSpace t \<noteq> [] then Inr (st\<lparr>fr_empty := False\<rparr>) else Inr st
      | _ \<Rightarrow> Inr st)"

definition ParsePropFind :: "Limits \<Rightarrow> xml_body \<Rightarrow> (scan_error, prop_find) result" where
  "ParsePropFind lim b =
     bind_r (read_body (find_act lim) lim find_start b) (\<lambda>st.
       case CheckBodySize lim b of
         Some e \<Rightarrow> Inl e
       | None \<Rightarrow>
           Inr (if fr_empty st then \<lparr>PF_Mode = ModeAllProp, PF_Names = []\<rparr>
                else if fr_sawName st then \<lparr>PF_Mode = ModePropName, PF_Names = []\<rparr>
                else if fr_sawProp st then \<lparr>PF_Mode = ModeNamed, PF_Names = fr_props st\<rparr>
                else if fr_sawIncl st then \<lparr>PF_Mode = ModeAllProp, PF_Names = fr_include st\<rparr>
                else \<lparr>PF_Mode = ModeAllProp, PF_Names = fr_include st\<rparr>))"

datatype depth = DepthZero | DepthOne | DepthInfinity

definition ParseDepth :: "string \<Rightarrow> depth \<Rightarrow> depth list \<Rightarrow> depth option" where
  "ParseDepth value0 fallback allowed =
     (let v = TrimSpace value0;
          got = (if v = [] then Some fallback
                 else if v = ''0'' then Some DepthZero
                 else if v = ''1'' then Some DepthOne
                 else if EqualFoldASCII v ''infinity'' then Some DepthInfinity
                 else None)
      in (case got of None \<Rightarrow> None | Some d \<Rightarrow> if d \<in> set allowed then Some d else None))"

end
