(* ===== verification/Sc_PropTable.thy ===== *)
theory Sc_PropTable
  imports Sc_StateDb Sc_DavXml
begin

text \<open>
  Dead properties: the property half of \<open>internal/db/state/dav.go\<close> with its statements
  (\<open>dav_sql.go\<close>), the adapter \<open>internal/dav/store.go\<close>, and what a PROPPATCH request does to the
  store once it is parsed (\<open>internal/dav/proppatch_method.go\<close>).
\<close>

section \<open>Definitions\<close>

record dav_prop_op =
  Op_NS :: string
  Op_Name :: string
  Op_Value :: string
  Op_Remove :: bool

definition DavPropsPerResource :: int where "DavPropsPerResource = 256"

definition on_resource :: "int \<Rightarrow> ident_row \<Rightarrow> prop_row \<Rightarrow> bool" where
  "on_resource share row p \<longleftrightarrow> P_Share p = share \<and> P_Ident p = row"

definition sqlSelectDavProps :: "int \<Rightarrow> ident_row \<Rightarrow> prop_row list \<Rightarrow> prop_row list" where
  "sqlSelectDavProps share row ps =
     sort_key P_NS (sort_key P_Name (filter (on_resource share row) ps))"

definition sqlCountDavProps :: "int \<Rightarrow> ident_row \<Rightarrow> prop_row list \<Rightarrow> int" where
  "sqlCountDavProps share row ps = int (length (filter (on_resource share row) ps))"

definition names_prop :: "int \<Rightarrow> ident_row \<Rightarrow> string \<Rightarrow> string \<Rightarrow> prop_row \<Rightarrow> bool" where
  "names_prop share row ns name p \<longleftrightarrow> on_resource share row p \<and> P_NS p = ns \<and> P_Name p = name"

definition sqlDavPropExists :: "int \<Rightarrow> ident_row \<Rightarrow> string \<Rightarrow> string \<Rightarrow> prop_row list \<Rightarrow> int" where
  "sqlDavPropExists share row ns name ps = int (length (filter (names_prop share row ns name) ps))"

definition sqlUpsertDavProp ::
  "int \<Rightarrow> ident_row \<Rightarrow> string \<Rightarrow> string \<Rightarrow> string \<Rightarrow> prop_row list \<Rightarrow> prop_row list" where
  "sqlUpsertDavProp share row ns name v ps =
     (if list_ex (names_prop share row ns name) ps
      then map (\<lambda>p. if names_prop share row ns name p then p\<lparr>P_Value := v\<rparr> else p) ps
      else ps @ [\<lparr>P_Share = share, P_Ident = row, P_NS = ns, P_Name = name, P_Value = v\<rparr>])"

definition sqlDeleteDavProp ::
  "int \<Rightarrow> ident_row \<Rightarrow> string \<Rightarrow> string \<Rightarrow> prop_row list \<Rightarrow> prop_row list" where
  "sqlDeleteDavProp share row ns name ps = filter (\<lambda>p. \<not> names_prop share row ns name p) ps"

definition sqlDeleteDavPropsAll :: "int \<Rightarrow> ident_row \<Rightarrow> prop_row list \<Rightarrow> prop_row list" where
  "sqlDeleteDavPropsAll share row ps = filter (\<lambda>p. \<not> on_resource share row p) ps"

definition DavProps :: "ident \<Rightarrow> state_db \<Rightarrow> (string \<times> string \<times> string) list" where
  "DavProps i db =
     map (\<lambda>p. (P_NS p, P_Name p, P_Value p)) (sqlSelectDavProps (I_Share i) (ToSQL i) (prop_rows db))"

definition set_prop ::
  "int \<Rightarrow> ident_row \<Rightarrow> dav_prop_op \<Rightarrow> prop_row list \<Rightarrow> (state_error, prop_row list) result" where
  "set_prop share row op ps =
     (if Op_Remove op then Inr (sqlDeleteDavProp share row (Op_NS op) (Op_Name op) ps)
      else (let n = sqlCountDavProps share row ps;
                there = sqlDavPropExists share row (Op_NS op) (Op_Name op) ps in
        if there = 0 \<and> n \<ge> DavPropsPerResource
        then Inl (Exceed ''dav properties per resource'' DavPropsPerResource (n + 1))
        else Inr (sqlUpsertDavProp share row (Op_NS op) (Op_Name op) (Op_Value op) ps)))"

fun set_props ::
  "int \<Rightarrow> ident_row \<Rightarrow> dav_prop_op list \<Rightarrow> prop_row list \<Rightarrow> (state_error, prop_row list) result" where
  "set_props share row [] ps = Inr ps"
| "set_props share row (op # ops) ps = bind_r (set_prop share row op ps) (set_props share row ops)"

definition SetDavProps ::
  "ident \<Rightarrow> dav_prop_op list \<Rightarrow> state_db \<Rightarrow> (state_error, unit) result \<times> state_db" where
  "SetDavProps i ops db =
     (case EnsureWritable db of
        Some e \<Rightarrow> (Inl e, db)
      | None \<Rightarrow>
          db_Write (\<lambda>db. bind_r (set_props (I_Share i) (ToSQL i) ops (prop_rows db))
            (\<lambda>ps. Inr ((), db\<lparr>prop_rows := ps\<rparr>))) db)"

definition DropDavProps :: "ident \<Rightarrow> state_db \<Rightarrow> (state_error, unit) result \<times> state_db" where
  "DropDavProps i =
     db_Write (\<lambda>db. Inr ((), db\<lparr>prop_rows := sqlDeleteDavPropsAll (I_Share i) (ToSQL i) (prop_rows db)\<rparr>))"

definition writesOf :: "instruction list \<Rightarrow> dav_prop_op list" where
  "writesOf p =
     map (\<lambda>i. \<lparr>Op_NS = Space (In_Name i), Op_Name = Local (In_Name i), Op_Value = In_Value i,
               Op_Remove = (In_Op i = OpRemove)\<rparr>) p"

text \<open>
  What PROPPATCH does to the store after the body is parsed, the resource found and the guard
  passed: the name check, the plan, and the transaction when the plan commits. The reply is the
  plan, or the refusal.
\<close>

datatype patch_error = ErrBadPropertyName | PatchStore state_error

definition proppatch_store ::
  "ident \<Rightarrow> instruction list \<Rightarrow> state_db \<Rightarrow> (patch_error, plan) result \<times> state_db" where
  "proppatch_store i patch db =
     (if list_ex (\<lambda>ins. \<not> ValidPropertyName (In_Name ins)) patch then (Inl ErrBadPropertyName, db)
      else (let plan = PlanPropPatch patch isLiveProperty in
        if Commit plan then
          (case SetDavProps i (writesOf patch) db of
             (Inl e, db') \<Rightarrow> (Inl (PatchStore e), db')
           | (Inr _, db') \<Rightarrow> (Inr plan, db'))
        else (Inr plan, db)))"

section \<open>The abstract store\<close>

text \<open>
  All dead properties as one finite map from resource and qualified name to value, the effect
  of an instruction on it, and the invariant of the table: one row per key and at most 256
  rows per resource.
\<close>

type_synonym prop_key = "int \<times> ident_row \<times> string \<times> string"

definition prop_key :: "prop_row \<Rightarrow> prop_key" where
  "prop_key p = (P_Share p, P_Ident p, P_NS p, P_Name p)"

definition prop_map :: "prop_row list \<Rightarrow> prop_key \<Rightarrow> string option" where
  "prop_map ps = map_of (map (\<lambda>p. (prop_key p, P_Value p)) ps)"

definition apply_op :: "int \<Rightarrow> ident_row \<Rightarrow> dav_prop_op \<Rightarrow> (prop_key \<Rightarrow> string option) \<Rightarrow> prop_key \<Rightarrow> string option" where
  "apply_op share row op m =
     m((share, row, Op_NS op, Op_Name op) := (if Op_Remove op then None else Some (Op_Value op)))"

definition props_ok :: "prop_row list \<Rightarrow> bool" where
  "props_ok ps \<longleftrightarrow> distinct (map prop_key ps) \<and>
     (\<forall>share row. sqlCountDavProps share row ps \<le> DavPropsPerResource)"

section \<open>Refinement\<close>

lemma names_prop_key: "names_prop share row ns name p \<longleftrightarrow> prop_key p = (share, row, ns, name)"
  by (auto simp: names_prop_def on_resource_def prop_key_def)

lemma update_key: "prop_key (p\<lparr>P_Value := v\<rparr>) = prop_key p"
  by (simp add: prop_key_def)

lemma prop_map_Cons: "prop_map (p # ps) = (prop_map ps)(prop_key p \<mapsto> P_Value p)"
  by (simp add: prop_map_def)

lemma prop_map_Nil: "prop_map [] = Map.empty"
  by (simp add: prop_map_def)

lemma prop_map_append: "prop_map (ps @ [p]) = Map.empty(prop_key p \<mapsto> P_Value p) ++ prop_map ps"
  by (simp add: prop_map_def)

lemma prop_map_None: "prop_map ps k = None \<longleftrightarrow> k \<notin> prop_key ` set ps"
  by (auto simp: prop_map_def map_of_eq_None_iff image_image)

lemma prop_map_update:
  "prop_map (map (\<lambda>p. if prop_key p = k then p\<lparr>P_Value := v\<rparr> else p) ps) a =
     (if a = k \<and> k \<in> prop_key ` set ps then Some v else prop_map ps a)"
  by (induction ps) (auto simp: prop_map_Nil prop_map_Cons update_key)

lemma upsert_map:
  "prop_map (sqlUpsertDavProp share row ns name v ps) = (prop_map ps)((share, row, ns, name) \<mapsto> v)"
proof (cases "(share, row, ns, name) \<in> prop_key ` set ps")
  case True
  then have ex: "list_ex (names_prop share row ns name) ps" by (auto simp: list_ex_iff names_prop_key)
  show ?thesis
    by (rule ext) (simp add: sqlUpsertDavProp_def ex names_prop_key prop_map_update True)
next
  case False
  then have "\<not> list_ex (names_prop share row ns name) ps" by (auto simp: list_ex_iff names_prop_key image_iff)
  moreover have "prop_map ps (share, row, ns, name) = None" using False by (simp add: prop_map_None)
  ultimately show ?thesis
    by (auto simp: sqlUpsertDavProp_def prop_map_append prop_key_def map_add_def fun_eq_iff split: option.split)
qed

lemma delete_map: "prop_map (sqlDeleteDavProp share row ns name ps) = (prop_map ps)((share, row, ns, name) := None)"
  unfolding sqlDeleteDavProp_def names_prop_key
  by (induction ps) (auto simp: prop_map_Nil prop_map_Cons fun_eq_iff)

lemma set_prop_map: "set_prop share row op ps = Inr ps' \<Longrightarrow> prop_map ps' = apply_op share row op (prop_map ps)"
  by (auto simp: set_prop_def apply_op_def upsert_map delete_map Let_def split: if_splits)

lemma set_props_map:
  "set_props share row ops ps = Inr ps' \<Longrightarrow> prop_map ps' = fold (apply_op share row) ops (prop_map ps)"
  by (induction ops arbitrary: ps) (auto simp: bind_r_eq_Inr set_prop_map)

section \<open>The bound\<close>

lemma upsert_keys:
  "map prop_key (sqlUpsertDavProp share row ns name v ps) =
     (if (share, row, ns, name) \<in> prop_key ` set ps then map prop_key ps
      else map prop_key ps @ [(share, row, ns, name)])"
  by (auto simp: sqlUpsertDavProp_def prop_key_def names_prop_def on_resource_def list_ex_iff image_iff)

lemma on_resource_key: "on_resource share row p \<longleftrightarrow> (case prop_key p of (s, r, _) \<Rightarrow> s = share \<and> r = row)"
  by (simp add: on_resource_def prop_key_def)

lemma count_keys:
  "sqlCountDavProps share row ps =
     int (length (filter (\<lambda>(s, r, _). s = share \<and> r = row) (map prop_key ps)))"
  by (induction ps) (auto simp: sqlCountDavProps_def on_resource_key)

lemma set_prop_ok:
  assumes "props_ok ps" and "set_prop share row op ps = Inr ps'"
  shows "props_ok ps'"
proof (cases "Op_Remove op")
  case True
  then have "ps' = filter (\<lambda>p. \<not> names_prop share row (Op_NS op) (Op_Name op) p) ps"
    using assms(2) by (simp add: set_prop_def sqlDeleteDavProp_def)
  moreover have "length (filter P (filter Q ps)) \<le> length (filter P ps)" for P Q
    by (induction ps) auto
  then have "sqlCountDavProps s r (filter Q ps) \<le> sqlCountDavProps s r ps" for s r Q
    unfolding sqlCountDavProps_def by (simp only: of_nat_le_iff)
  ultimately show ?thesis
    using assms(1) unfolding props_ok_def by (metis distinct_map_filter order_trans)
next
  case False
  let ?k = "(share, row, Op_NS op, Op_Name op)"
  have ps': "ps' = sqlUpsertDavProp share row (Op_NS op) (Op_Name op) (Op_Value op) ps"
    and room: "?k \<in> prop_key ` set ps \<or> sqlCountDavProps share row ps < DavPropsPerResource"
    using assms(2) False
    by (auto simp: set_prop_def Let_def sqlDavPropExists_def names_prop_key filter_empty_conv image_iff
        split: if_splits) metis
  show ?thesis
  proof (cases "?k \<in> prop_key ` set ps")
    case True
    with assms(1) show ?thesis by (simp add: props_ok_def ps' count_keys upsert_keys)
  next
    case new: False
    then have "distinct (map prop_key ps')" using assms(1) by (simp add: props_ok_def ps' upsert_keys)
    moreover have "sqlCountDavProps s r ps' \<le> DavPropsPerResource" for s r
    proof -
      have "sqlCountDavProps s r ps \<le> DavPropsPerResource" using assms(1) unfolding props_ok_def by blast
      then show ?thesis using new room by (auto simp: ps' count_keys upsert_keys)
    qed
    ultimately show ?thesis by (simp add: props_ok_def)
  qed
qed

lemma set_props_ok: "props_ok ps \<Longrightarrow> set_props share row ops ps = Inr ps' \<Longrightarrow> props_ok ps'"
  by (induction ops arbitrary: ps) (auto simp: bind_r_eq_Inr dest: set_prop_ok)

lemma SetDavProps_cases:
  "SetDavProps i ops db = (r, db') \<Longrightarrow>
     (\<exists>e. r = Inl e \<and> db' = db) \<or>
     (\<exists>ps. r = Inr () \<and> set_props (I_Share i) (ToSQL i) ops (prop_rows db) = Inr ps \<and> db' = db\<lparr>prop_rows := ps\<rparr>)"
  by (cases r) (auto simp: SetDavProps_def EnsureWritable_def db_Write_Inl db_Write_Inr bind_r_eq_Inr
      split: option.splits if_splits)

section \<open>Properties\<close>

text \<open>
  C32. PROPPATCH is a transaction: after any request the store is either exactly what applying
  every instruction in document order gives, with 200 reported for each, or exactly what it
  was. One instruction on a live property refuses all of them, that one with 403 and the rest
  with 424. No resource ever carries more than 256 properties, and no other table is touched.
\<close>
theorem proppatch_atomic:
  assumes "props_ok (prop_rows db)" and "proppatch_store i patch db = (r, db')"
  shows "props_ok (prop_rows db') \<and> lock_rows db' = lock_rows db \<and> user_rows db' = user_rows db \<and>
    (case r of
       Inl _ \<Rightarrow> db' = db
     | Inr plan \<Rightarrow>
         map Out_Name (Outcomes plan) = map In_Name patch \<and>
         (if \<exists>ins\<in>set patch. isLiveProperty (In_Name ins)
          then db' = db \<and> (\<forall>out\<in>set (Outcomes plan). Out_Status out = (if isLiveProperty (Out_Name out) then 403 else 424))
          else prop_map (prop_rows db') = fold (apply_op (I_Share i) (ToSQL i)) (writesOf patch) (prop_map (prop_rows db)) \<and>
               (\<forall>out\<in>set (Outcomes plan). Out_Status out = 200)))"
proof -
  have eff: "props_ok (prop_rows d) \<and> lock_rows d = lock_rows db \<and> user_rows d = user_rows db \<and>
      (case x of Inl _ \<Rightarrow> d = db
       | Inr _ \<Rightarrow> prop_map (prop_rows d) = fold (apply_op (I_Share i) (ToSQL i)) ops (prop_map (prop_rows db)))"
    if "SetDavProps i ops db = (x, d)" for ops x d
    using SetDavProps_cases [OF that] assms(1) by (auto intro: set_props_ok dest: set_props_map)
  let ?plan = "PlanPropPatch patch isLiveProperty"
  have plan: "map Out_Name (Outcomes ?plan) = map In_Name patch"
    "\<exists>ins\<in>set patch. isLiveProperty (In_Name ins) \<Longrightarrow> \<forall>out\<in>set (Outcomes ?plan).
       Out_Status out = (if isLiveProperty (Out_Name out) then 403 else 424)"
    "\<not> (\<exists>ins\<in>set patch. isLiveProperty (In_Name ins)) \<Longrightarrow> \<forall>out\<in>set (Outcomes ?plan). Out_Status out = 200"
    "Commit ?plan \<longleftrightarrow> \<not> (\<exists>ins\<in>set patch. isLiveProperty (In_Name ins)) \<and> patch \<noteq> []"
    by (auto simp: PlanPropPatch_def Let_def list_ex_iff)
  consider (bad) "list_ex (\<lambda>ins. \<not> ValidPropertyName (In_Name ins)) patch"
    | (idle) "\<not> list_ex (\<lambda>ins. \<not> ValidPropertyName (In_Name ins)) patch" "\<not> Commit ?plan"
    | (go) "\<not> list_ex (\<lambda>ins. \<not> ValidPropertyName (In_Name ins)) patch" "Commit ?plan" by blast
  then show ?thesis
  proof cases
    case bad
    then have "r = Inl ErrBadPropertyName" "db' = db" using assms(2) by (simp_all add: proppatch_store_def)
    with assms(1) show ?thesis by simp
  next
    case idle
    then have "r = Inr ?plan" "db' = db" using assms(2) by (simp_all add: proppatch_store_def Let_def)
    moreover have "writesOf patch = []" if "\<not> (\<exists>ins\<in>set patch. isLiveProperty (In_Name ins))"
      using idle(2) plan(4) that by (simp add: writesOf_def)
    ultimately show ?thesis using assms(1) plan(1-3) by simp
  next
    case go
    obtain x d where x: "SetDavProps i (writesOf patch) db = (x, d)" by fastforce
    have "(r, db') = (case x of Inl e \<Rightarrow> Inl (PatchStore e) | Inr _ \<Rightarrow> Inr ?plan, d)"
      using assms(2) go x by (cases x) (simp_all add: proppatch_store_def Let_def)
    then show ?thesis using eff [OF x] plan(1,3) go(2) plan(4) by (cases x) auto
  qed
qed

theorem proppatch_atomic_witness:
  "\<exists>r db'. proppatch_store \<lparr>I_Share = 7, I_Dev = 1, I_Ino = 2, I_Btime = None\<rparr>
       [\<lparr>In_Op = OpSet, In_Name = \<lparr>Space = ''x'', Local = ''a''\<rparr>, In_Value = ''1''\<rparr>,
        \<lparr>In_Op = OpSet, In_Name = \<lparr>Space = davNS, Local = ''getetag''\<rparr>, In_Value = ''2''\<rparr>]
       empty_db = (Inr r, db') \<and>
     map Out_Status (Outcomes r) = [424, 403] \<and> prop_rows db' = []"
proof -
  let ?i = "\<lparr>I_Share = 7, I_Dev = 1, I_Ino = 2, I_Btime = None\<rparr> :: ident"
  let ?p = "[\<lparr>In_Op = OpSet, In_Name = \<lparr>Space = ''x'', Local = ''a''\<rparr>, In_Value = ''1''\<rparr>,
        \<lparr>In_Op = OpSet, In_Name = \<lparr>Space = davNS, Local = ''getetag''\<rparr>, In_Value = ''2''\<rparr>]"
  let ?db = "empty_db"
  have ok: "props_ok (prop_rows ?db)"
    by (simp add: props_ok_def sqlCountDavProps_def DavPropsPerResource_def)
  obtain r db' where st: "proppatch_store ?i ?p ?db = (r, db')" by fastforce
  have names: "list_ex (\<lambda>ins. \<not> ValidPropertyName (In_Name ins)) ?p = False"
    by (simp add: ValidPropertyName_def xmlNameStart_def xmlNameChar_def)
  have r: "r = Inr (PlanPropPatch ?p isLiveProperty)"
    using st names by (simp add: proppatch_store_def PlanPropPatch_def isLiveProperty_def davNS_def)
  from proppatch_atomic [OF ok st] r st show ?thesis
    by (auto simp: PlanPropPatch_def isLiveProperty_def davNS_def)
qed

end
