(* ===== verification/Sc_DavHandler.thy ===== *)
theory Sc_DavHandler
  imports Sc_Trash Sc_Read Sc_DavLock Sc_PropTable
begin

unbundle bit_operations_syntax

text \<open>
  The WebDAV methods, \<open>internal/dav\<close>: what a method needs (\<open>method.go\<close>), the status table
  (\<open>status.go\<close>), the guard every write runs (\<open>handler.go\<close>), and the handlers of GET, HEAD, PUT,
  MKCOL and DELETE (\<open>content.go\<close>), LOCK and UNLOCK (\<open>lock_method.go\<close>), PROPPATCH
  (\<open>proppatch_method.go\<close>) and OPTIONS (\<open>dispatch.go\<close>). A handler takes the request, the
  resolution the mount made and the state, and gives the response and the state after.
\<close>

section \<open>Requests and responses\<close>

record dav_request =
  q_Method :: string
  q_Path :: string
  q_Host :: string
  q_If :: string
  q_IfMatch :: string
  q_IfNoneMatch :: string
  q_Range :: string
  q_Timeout :: string
  q_Depth :: string
  q_LockToken :: string
  q_Destination :: string
  q_Overwrite :: string
  q_ContentLength :: int
  q_Body :: body

text \<open>
  What a response carries beside its status: the precondition element, the headers that depend
  on the state, and the body as what it renders.
\<close>

record dav_response =
  rs_Status :: int
  rs_Element :: string
  rs_DAV :: string
  rs_Allow :: string
  rs_ETag :: string
  rs_LockToken :: string
  rs_ContentLength :: int
  rs_ContentRange :: string
  rs_Content :: string
  rs_Lock :: "dav_Lock option"
  rs_Plan :: "(string \<times> plan) option"

definition respond :: "int \<Rightarrow> dav_response" where
  "respond status = \<lparr>rs_Status = status, rs_Element = [], rs_DAV = [], rs_Allow = [], rs_ETag = [], rs_LockToken = [],
     rs_ContentLength = 0, rs_ContentRange = [], rs_Content = [], rs_Lock = None, rs_Plan = None\<rparr>"

section \<open>The status table\<close>

datatype dav_error =
    DScan scan_error
  | DIf if_error
  | DPath dav_path_error
  | DPatch patch_error
  | DFiles files_error
  | DLock lock_error
  | ErrBadDepth
  | ErrNoLockToken
  | ErrNoLockTable
  | ErrPreconditionFailed
  | ErrDavLocked
  | ErrUnsupportedMedia
  | ErrNoPropertyStore
  | BodyReadFailed
  | BodyTruncated
  | BadLockKey
  | NilLocks

fun StatusOf :: "dav_error \<Rightarrow> int \<times> string" where
  "StatusOf (DScan e) = (if e \<in> {ErrBadLockInfo, ReadFailed} then 500 else 400, [])"
| "StatusOf (DIf _) = (400, [])"
| "StatusOf (DPath _) = (400, [])"
| "StatusOf (DPatch e) = (case e of ErrBadPropertyName \<Rightarrow> 400 | PatchStore _ \<Rightarrow> 500, [])"
| "StatusOf ErrBadDepth = (400, [])"
| "StatusOf ErrNoLockToken = (400, [])"
| "StatusOf ErrDavLocked = (423, ''lock-token-submitted'')"
| "StatusOf ErrPreconditionFailed = (412, [])"
| "StatusOf ErrUnsupportedMedia = (415, [])"
| "StatusOf ErrNoPropertyStore = (409, [])"
| "StatusOf ErrNoLockTable = (405, [])"
| "StatusOf (DFiles e) =
     (case e of
        ErrPrecondition _ \<Rightarrow> 412
      | ErrNotFound \<Rightarrow> 404
      | ErrDenied \<Rightarrow> 403
      | ErrExists \<Rightarrow> 405
      | ErrNotEmpty \<Rightarrow> 409
      | ErrConflict \<Rightarrow> 409
      | ErrCrossShare \<Rightarrow> 409
      | ErrNoSpace \<Rightarrow> 507
      | ErrWrite ErrQuotaExceeded \<Rightarrow> 507
      | ErrShareBroken _ _ \<Rightarrow> 503
      | _ \<Rightarrow> 500, [])"
| "StatusOf (DLock _) = (500, [])"
| "StatusOf BodyReadFailed = (500, [])"
| "StatusOf BodyTruncated = (400, [])"
| "StatusOf BadLockKey = (500, [])"
| "StatusOf NilLocks = (0, [])"

definition fail :: "dav_error \<Rightarrow> dav_response" where
  "fail err = (case StatusOf err of (status, el) \<Rightarrow> (respond status)\<lparr>rs_Element := el\<rparr>)"

section \<open>Methods\<close>

record requirement =
  rq_Source :: perms
  rq_Dest :: perms

definition HasDest :: "requirement \<Rightarrow> bool" where
  "HasDest r \<longleftrightarrow> rq_Dest r \<noteq> 0"

definition methodPerms :: "(string \<times> requirement) list" where
  "methodPerms =
     [(''GET'', \<lparr>rq_Source = Read, rq_Dest = 0\<rparr>),
      (''HEAD'', \<lparr>rq_Source = Read, rq_Dest = 0\<rparr>),
      (''PROPFIND'', \<lparr>rq_Source = Read, rq_Dest = 0\<rparr>),
      (''PUT'', \<lparr>rq_Source = Write, rq_Dest = 0\<rparr>),
      (''MKCOL'', \<lparr>rq_Source = Write, rq_Dest = 0\<rparr>),
      (''PROPPATCH'', \<lparr>rq_Source = Write, rq_Dest = 0\<rparr>),
      (''LOCK'', \<lparr>rq_Source = Write, rq_Dest = 0\<rparr>),
      (''UNLOCK'', \<lparr>rq_Source = Write, rq_Dest = 0\<rparr>),
      (''DELETE'', \<lparr>rq_Source = Delete, rq_Dest = 0\<rparr>),
      (''COPY'', \<lparr>rq_Source = Read, rq_Dest = Write OR Create\<rparr>),
      (''MOVE'', \<lparr>rq_Source = Write OR Delete, rq_Dest = Write OR Create\<rparr>)]"

definition MethodRequirement :: "string \<Rightarrow> requirement option" where
  "MethodRequirement method = map_of methodPerms method"

definition dav_writes :: "string \<Rightarrow> bool" where
  "dav_writes method \<longleftrightarrow>
     (case MethodRequirement method of
        None \<Rightarrow> False
      | Some req \<Rightarrow> rq_Source req AND NOT Read \<noteq> 0 \<or> HasDest req)"

definition Methods :: "string list" where
  "Methods = sort (map fst methodPerms @ [''OPTIONS''])"

record allow_set =
  as_IsDir :: bool
  as_Exists :: bool
  as_Locking :: bool

fun join_list :: "string list \<Rightarrow> string" where
  "join_list [] = []"
| "join_list [m] = m"
| "join_list (m # ms) = m @ '', '' @ join_list ms"

definition allowed_methods :: "allow_set \<Rightarrow> string list" where
  "allowed_methods s =
     filter (\<lambda>m. (as_Locking s \<or> m \<notin> {''LOCK'', ''UNLOCK''}) \<and>
                 (\<not> as_Exists s \<or> m \<noteq> (if as_IsDir s then ''PUT'' else ''MKCOL''))) Methods"

definition AllowHeader :: "allow_set \<Rightarrow> string" where
  "AllowHeader s = join_list (allowed_methods s)"

section \<open>The handler\<close>

text \<open>
  How the lock table is wired into the guard: not at all, as a pointer that is nil inside an
  interface that is not, or as the table. The rest is what a deployment supplies: the domain, whether LOCK
  may mint, the property store, the bounds, the clock, the random source, the case folding of
  host names and the standard library's XML decoder.
\<close>

datatype lock_wiring = LocksAbsent | LocksNilPointer | LocksTable

record 'fs dav_env =
  he_files :: "'fs files_env"
  he_locks :: lock_wiring
  he_tokens :: bool
  he_taker :: bool
  he_store :: bool
  he_keyOf :: bool
  he_limits :: Limits
  he_now :: int
  he_random :: "string option"
  he_trash_random :: "8 word list option"
  he_fold :: "string \<Rightarrow> string \<Rightarrow> bool"
  he_decode :: "string \<Rightarrow> xml_body"

definition zero_limits :: Limits where
  "zero_limits = \<lparr>Lim_Bytes = 0, Lim_Elements = 0, Lim_Depth = 0, Lim_NameBytes = 0, Lim_TextBytes = 0,
     Lim_Properties = 0, Lim_Conditions = 0, Lim_ReportLeaves = 0\<rparr>"

definition handler_New :: "'fs dav_env \<Rightarrow> 'fs dav_env" where
  "handler_New opt = (if he_limits opt = zero_limits then opt\<lparr>he_limits := DefaultLimits\<rparr> else opt)"

text \<open>The mount's own assembly, from whether it was given a lock table, a property store and a state database.\<close>

definition handlerOf :: "bool \<Rightarrow> bool \<Rightarrow> bool \<Rightarrow> 'fs dav_env \<Rightarrow> 'fs dav_env" where
  "handlerOf locks props state opt =
     (let wired = locks \<or> state in
      handler_New (opt\<lparr>he_locks := (if wired then LocksTable else LocksNilPointer), he_tokens := wired, he_taker := wired,
        he_store := (props \<or> state), he_keyOf := True, he_limits := zero_limits\<rparr>))"

abbreviation res_share :: "resolved \<Rightarrow> int" where "res_share res \<equiv> r_share res"
abbreviation res_path :: "resolved \<Rightarrow> string" where "res_path res \<equiv> SafePath_String (r_path res)"
abbreviation dav_db :: "'fs world \<Rightarrow> state_db" where "dav_db w \<equiv> k_db (w_core w)"

definition stateOf :: "'fs dav_env \<Rightarrow> resolved \<Rightarrow> 'fs world \<Rightarrow> string list \<Rightarrow> resource_state" where
  "stateOf h res w path =
     (if path \<noteq> sf_comps (r_path res) then zero_state
      else (case stat_at (he_files h) res (r_path res) w of
        Inl _ \<Rightarrow> zero_state
      | Inr st \<Rightarrow>
          (let entry = EntryAt (he_files h) res st in
           \<lparr>RS_ETag = \<lparr>Value = e_ETag entry, Weak = e_ETagWeak entry\<rparr>, Exists = True,
            Tokens = (if he_tokens h then StateLocks_Tokens (res_share res) (res_path res) (he_now h) (dav_db w) else [])\<rparr>)))"

definition dav_precondition ::
  "'enc text_library \<Rightarrow> 'fs dav_env \<Rightarrow> dav_request \<Rightarrow> resolved \<Rightarrow> 'fs world \<Rightarrow> (dav_error, string list) result" where
  "dav_precondition T h q res w =
     (if q_If q = [] then Inr []
      else (case ParseIf T (he_fold h) (he_limits h) (q_If q) (q_Host q) of
        Inl e \<Rightarrow> Inl (DIf e)
      | Inr parsed \<Rightarrow>
          (case EvaluateIf parsed (sf_comps (r_path res)) (stateOf h res w) of (satisfied, submitted) \<Rightarrow>
             if \<not> satisfied then Inl ErrPreconditionFailed else Inr submitted)))"

definition guard ::
  "'enc text_library \<Rightarrow> 'fs dav_env \<Rightarrow> dav_request \<Rightarrow> resolved \<Rightarrow> 'fs world \<Rightarrow> dav_error option" where
  "guard T h q res w =
     (case dav_precondition T h q res w of
        Inl e \<Rightarrow> Some e
      | Inr submitted \<Rightarrow>
          (case he_locks h of
             LocksAbsent \<Rightarrow> None
           | LocksNilPointer \<Rightarrow> Some NilLocks
           | LocksTable \<Rightarrow>
               (case Guard (res_share res) (res_path res) (r_user res) submitted (he_now h) (dav_db w) of
                  Some _ \<Rightarrow> Some ErrDavLocked
                | None \<Rightarrow> None)))"

definition allowFor :: "'fs dav_env \<Rightarrow> resolved \<Rightarrow> 'fs world \<Rightarrow> string" where
  "allowFor h res w =
     (case stat_at (he_files h) res (r_path res) w of
        Inl _ \<Rightarrow> AllowHeader \<lparr>as_IsDir = False, as_Exists = False, as_Locking = he_taker h\<rparr>
      | Inr st \<Rightarrow> AllowHeader \<lparr>as_IsDir = Kind_IsDir (st_Kind st), as_Exists = True, as_Locking = he_taker h\<rparr>)"

definition failAllowing :: "'fs dav_env \<Rightarrow> resolved \<Rightarrow> 'fs world \<Rightarrow> dav_error \<Rightarrow> dav_response" where
  "failAllowing h res w err =
     (if fst (StatusOf err) = 405 then (fail err)\<lparr>rs_Allow := allowFor h res w\<rparr> else fail err)"

definition methodNotAllowedFor :: "'fs dav_env \<Rightarrow> resolved \<Rightarrow> 'fs world \<Rightarrow> dav_response" where
  "methodNotAllowedFor h res w = (respond 405)\<lparr>rs_Allow := allowFor h res w\<rparr>"

definition compliance :: "'fs dav_env \<Rightarrow> string" where
  "compliance h = (if he_taker h then ''1, 2'' else ''1'')"

definition Options :: "'fs dav_env \<Rightarrow> resolved \<Rightarrow> 'fs world \<Rightarrow> dav_response" where
  "Options h res w = (respond 200)\<lparr>rs_DAV := compliance h, rs_Allow := allowFor h res w\<rparr>"

definition MountOptions :: "'fs dav_env \<Rightarrow> dav_response" where
  "MountOptions h = (respond 200)\<lparr>rs_DAV := compliance h,
     rs_Allow := AllowHeader \<lparr>as_IsDir = True, as_Exists = True, as_Locking = he_taker h\<rparr>\<rparr>"

section \<open>Content\<close>

definition Get :: "'fs dav_env \<Rightarrow> dav_request \<Rightarrow> resolved \<Rightarrow> bool \<Rightarrow> 'fs world \<Rightarrow> dav_response" where
  "Get h q res with_body w =
     (case stat_at (he_files h) res (r_path res) w of
        Inl _ \<Rightarrow> fail (DFiles ErrNotFound)
      | Inr st \<Rightarrow>
          if Kind_IsDir (st_Kind st) then methodNotAllowedFor h res w
          else (let entry = EntryAt (he_files h) res st; tag = ETagHeader (e_ETag entry) (e_ETagWeak entry) in
            if notModified (q_IfNoneMatch q) (e_ETag entry) then (respond 304)\<lparr>rs_ETag := tag\<rparr>
            else (case parseByteRange (q_Range q) (e_Size entry) of
              Inl _ \<Rightarrow> (respond 416)\<lparr>rs_ContentRange := ''bytes */'' @ int_digits (e_Size entry)\<rparr>
            | Inr rng \<Rightarrow>
                (case OpenStream (he_files h) res rng w of
                   Inl e \<Rightarrow> fail (DFiles e)
                 | Inr (_, stream) \<Rightarrow>
                     (case rng of
                        None \<Rightarrow> respond 200
                      | Some (a, b) \<Rightarrow> (respond 206)\<lparr>rs_ContentRange :=
                          ''bytes '' @ int_digits a @ ''-'' @ int_digits b @ ''/'' @ int_digits (e_Size entry)\<rparr>)
                     \<lparr>rs_ETag := tag, rs_ContentLength := Remaining stream,
                      rs_Content := (if with_body then fst (stream_copy stream) else [])\<rparr>))))"

definition Put ::
  "'enc text_library \<Rightarrow> 'fs dav_env \<Rightarrow> dav_request \<Rightarrow> resolved \<Rightarrow> 'fs world \<Rightarrow> dav_response \<times> 'fs world" where
  "Put T h q res w =
     (case guard T h q res w of
        Some e \<Rightarrow> (fail e, w)
      | None \<Rightarrow>
          (let found = stat_at (he_files h) res (r_path res) w;
               existed = (case found of Inl _ \<Rightarrow> False | Inr _ \<Rightarrow> True) in
           if (case found of Inl _ \<Rightarrow> False | Inr st \<Rightarrow> Kind_IsDir (st_Kind st)) then (failAllowing h res w (DFiles ErrExists), w)
           else (case parseValidator (q_IfMatch q) of (ifMatch, usable) \<Rightarrow>
             if q_IfMatch q \<noteq> [] \<and> \<not> usable then (fail ErrPreconditionFailed, w)
             else (case (if q_ContentLength q > 0
                         then CheckQuota (fe_quota (he_files h)) (r_user res) (q_ContentLength q) (dav_db w)
                         else (None, dav_db w)) of
               (Some e, db) \<Rightarrow> (fail (DFiles (ErrWrite e)), ledger (\<lambda>_. db) w)
             | (None, db) \<Rightarrow>
                 (case WriteStream T (he_files h) res (q_Body q) ifMatch (ledger (\<lambda>_. db) w) of
                    (Inl e, w') \<Rightarrow> (fail (DFiles e), w')
                  | (Inr entry, w') \<Rightarrow>
                      ((respond (if existed then 204 else 201))\<lparr>rs_ETag := ETagHeader (e_ETag entry) (e_ETagWeak entry)\<rparr>, w'))))))"

definition parentExists :: "'fs dav_env \<Rightarrow> resolved \<Rightarrow> 'fs world \<Rightarrow> bool" where
  "parentExists h res w =
     (let p = r_path res in
      if SafePath_IsRoot p \<or> SafePath_IsRoot (SafePath_Parent p) then True
      else (case stat_at (he_files h) res (SafePath_Parent p) w of Inl _ \<Rightarrow> False | Inr st \<Rightarrow> Kind_IsDir (st_Kind st)))"

definition Mkcol ::
  "'enc text_library \<Rightarrow> 'fs dav_env \<Rightarrow> dav_request \<Rightarrow> resolved \<Rightarrow> 'fs world \<Rightarrow> dav_response \<times> 'fs world" where
  "Mkcol T h q res w =
     (if q_ContentLength q > 0 then (fail ErrUnsupportedMedia, w)
      else (case guard T h q res w of
        Some e \<Rightarrow> (fail e, w)
      | None \<Rightarrow>
          (case Mkdir T (he_files h) res w of
             (Inl e, w') \<Rightarrow>
               if e = ErrNotFound \<and> \<not> parentExists h res w' then (fail (DFiles ErrConflict), w')
               else (fail (DFiles e), w')
           | (Inr _, w') \<Rightarrow> (respond 201, w'))))"

definition dav_Delete ::
  "'enc text_library \<Rightarrow> 'fs dav_env \<Rightarrow> dav_request \<Rightarrow> resolved \<Rightarrow> 'fs world \<Rightarrow> dav_response \<times> 'fs world" where
  "dav_Delete T h q res w =
     (case guard T h q res w of
        Some e \<Rightarrow> (fail e, w)
      | None \<Rightarrow>
          (case stat_at (he_files h) res (r_path res) w of
             Inl _ \<Rightarrow> (fail (DFiles ErrNotFound), w)
           | Inr st \<Rightarrow>
               (let entry = EntryAt (he_files h) res st in
                case Delete_op (he_files h) (he_trash_random h) res False w of
                  (Some e, w') \<Rightarrow> (fail (DFiles e), w')
                | (None, w') \<Rightarrow>
                    (respond 204,
                     if he_store h \<and> he_keyOf h then ledger (\<lambda>db. snd (DropDavProps (e_Ident entry) db)) w' else w'))))"

section \<open>Locks\<close>

definition protocolLockError :: "lock_error \<Rightarrow> dav_error" where
  "protocolLockError e =
     (case e of
        ErrLocked \<Rightarrow> ErrDavLocked
      | LockNotFound \<Rightarrow> DFiles ErrNotFound
      | _ \<Rightarrow> DLock e)"

definition writeLock :: "active \<Rightarrow> int \<Rightarrow> dav_response" where
  "writeLock l status =
     (respond status)\<lparr>rs_LockToken := ''<'' @ K_Token (lockOf l) @ ''>'', rs_Lock := Some (lockOf l)\<rparr>"

definition refresh_lock ::
  "'enc text_library \<Rightarrow> 'fs dav_env \<Rightarrow> dav_request \<Rightarrow> resolved \<Rightarrow> int \<Rightarrow> 'fs world \<Rightarrow> dav_response \<times> 'fs world" where
  "refresh_lock T h q res timeout w =
     (case dav_precondition T h q res w of
        Inl e \<Rightarrow> (fail e, w)
      | Inr [] \<Rightarrow> (fail ErrNoLockToken, w)
      | Inr (token # _) \<Rightarrow>
          (case Refresh token (r_user res) timeout (he_now h) (dav_db w) of
             (Inl e, db) \<Rightarrow> (fail (protocolLockError e), ledger (\<lambda>_. db) w)
           | (Inr l, db) \<Rightarrow> (writeLock l 200, ledger (\<lambda>_. db) w)))"

definition empty_body :: body where "empty_body = \<lparr>b_chunks = [], b_ok = True\<rparr>"

definition createLockNull ::
  "'enc text_library \<Rightarrow> 'fs dav_env \<Rightarrow> dav_request \<Rightarrow> resolved \<Rightarrow> 'fs world \<Rightarrow> (dav_error, entry) result \<times> 'fs world" where
  "createLockNull T h q res w =
     (case Require res (Write OR Create) of
        Some e \<Rightarrow> (Inl (DFiles e), w)
      | None \<Rightarrow>
          (case guard T h q res w of
             Some e \<Rightarrow> (Inl e, w)
           | None \<Rightarrow>
               (case WriteStream T (he_files h) res empty_body None w of
                  (Inl e, w') \<Rightarrow> (Inl (DFiles e), w')
                | (Inr entry, w') \<Rightarrow> (Inr entry, w'))))"

definition take_lock ::
  "'fs dav_env \<Rightarrow> resolved \<Rightarrow> entry \<Rightarrow> lock_info \<Rightarrow> depth \<Rightarrow> int \<Rightarrow> int \<Rightarrow> 'fs world \<Rightarrow> dav_response \<times> 'fs world" where
  "take_lock h res entry info depth timeout status w =
     (if \<not> he_keyOf h then (fail BadLockKey, w)
      else (case Take (he_random h)
              \<lparr>Q_Ident = e_Ident entry, Q_Path = res_path res, Q_Principal = r_user res, Q_Owner = LI_Owner info,
               Q_Depth = (if depth = DepthInfinity then LockDepthInfinity else LockDepthZero), Q_Timeout = timeout,
               Q_Shared = LI_Shared info\<rparr> (he_now h) (dav_db w) of
        (Inl e, db) \<Rightarrow> (fail (protocolLockError e), ledger (\<lambda>_. db) w)
      | (Inr l, db) \<Rightarrow> (writeLock l status, ledger (\<lambda>_. db) w)))"

text \<open>
  The decoder behind the reader that stops a body at the byte bound. A body the client did not
  finish ends in the unexpected end of input, which the status table takes for bad syntax.
\<close>

definition limited_xml :: "'fs dav_env \<Rightarrow> body \<Rightarrow> xml_body" where
  "limited_xml h b =
     (let raw = body_text b; bound = nat (Lim_Bytes (he_limits h)) in
      if length raw > bound then (he_decode h (take bound raw))\<lparr>body_end := XmlReadFailed\<rparr>
      else if \<not> b_ok b then (he_decode h raw)\<lparr>body_end := XmlSyntax\<rparr>
      else he_decode h raw)"

definition Lock ::
  "'enc text_library \<Rightarrow> 'fs dav_env \<Rightarrow> dav_request \<Rightarrow> resolved \<Rightarrow> 'fs world \<Rightarrow> dav_response \<times> 'fs world" where
  "Lock T h q res w =
     (if \<not> he_taker h then (failAllowing h res w ErrNoLockTable, w)
      else (case Require res Write of
        Some e \<Rightarrow> (fail (DFiles e), w)
      | None \<Rightarrow>
          (let timeout = ParseTimeout (q_Timeout q); raw = body_text (q_Body q) in
           if int (length raw) > Lim_Bytes (he_limits h) then (fail BodyReadFailed, w)
           else if \<not> b_ok (q_Body q) then (fail BodyTruncated, w)
           else if TrimSpace raw = [] then refresh_lock T h q res timeout w
           else (case ParseLockInfo (he_limits h) (he_decode h raw) of
             Inl e \<Rightarrow> (fail (DScan e), w)
           | Inr info \<Rightarrow>
               (case ParseDepth (q_Depth q) DepthInfinity [DepthZero, DepthInfinity] of
                  None \<Rightarrow> (fail ErrBadDepth, w)
                | Some depth \<Rightarrow>
                    (case stat_at (he_files h) res (r_path res) w of
                       Inr st \<Rightarrow> take_lock h res (EntryAt (he_files h) res st) info depth timeout 200 w
                     | Inl _ \<Rightarrow>
                         (case createLockNull T h q res w of
                            (Inl e, w') \<Rightarrow> (fail e, w')
                          | (Inr entry, w') \<Rightarrow> take_lock h res entry info depth timeout 201 w')))))))"

definition Unlock :: "'fs dav_env \<Rightarrow> dav_request \<Rightarrow> resolved \<Rightarrow> 'fs world \<Rightarrow> dav_response \<times> 'fs world" where
  "Unlock h q res w =
     (if \<not> he_taker h then (failAllowing h res w ErrNoLockTable, w)
      else (let token = TrimSuffix (TrimPrefix (TrimSpace (q_LockToken q)) ''<'') ''>'' in
        if token = [] then (fail ErrNoLockToken, w)
        else (case Release token (r_user res) (he_now h) (dav_db w) of
          (Inl e, db) \<Rightarrow> (fail (protocolLockError e), ledger (\<lambda>_. db) w)
        | (Inr _, db) \<Rightarrow> (respond 204, ledger (\<lambda>_. db) w))))"

section \<open>Properties\<close>

definition Proppatch ::
  "'enc text_library \<Rightarrow> 'fs dav_env \<Rightarrow> dav_request \<Rightarrow> resolved \<Rightarrow> 'fs world \<Rightarrow> dav_response \<times> 'fs world" where
  "Proppatch T h q res w =
     (case Require res Write of
        Some e \<Rightarrow> (fail (DFiles e), w)
      | None \<Rightarrow>
          (case ParsePropPatch (he_limits h) (limited_xml h (q_Body q)) of
             Inl e \<Rightarrow> (fail (DScan e), w)
           | Inr patch \<Rightarrow>
               (case stat_at (he_files h) res (r_path res) w of
                  Inl _ \<Rightarrow> (fail (DFiles ErrNotFound), w)
                | Inr st \<Rightarrow>
                    (case guard T h q res w of
                       Some e \<Rightarrow> (fail e, w)
                     | None \<Rightarrow>
                         if list_ex (\<lambda>i. \<not> ValidPropertyName (In_Name i)) patch then (fail (DPatch ErrBadPropertyName), w)
                         else (let plan = PlanPropPatch patch isLiveProperty;
                                   stored = (if Commit plan
                                     then if \<not> he_store h \<or> \<not> he_keyOf h then (Some ErrNoPropertyStore, w)
                                          else (case SetDavProps (e_Ident (EntryAt (he_files h) res st)) (writesOf patch) (dav_db w) of
                                            (Inl e, db) \<Rightarrow> (Some (DPatch (PatchStore e)), ledger (\<lambda>_. db) w)
                                          | (Inr _, db) \<Rightarrow> (None, ledger (\<lambda>_. db) w))
                                     else (None, w)) in
                           case stored of
                             (Some e, w') \<Rightarrow> (fail e, w')
                           | (None, w') \<Rightarrow>
                               (case SplitPath T (q_Path q) of
                                  Inl e \<Rightarrow> (fail (DPath e), w')
                                | Inr segs \<Rightarrow>
                                    ((respond 207)\<lparr>rs_Plan := Some (EncodeHref segs (Kind_IsDir (st_Kind st)), plan)\<rparr>, w')))))))"

section \<open>The guard\<close>

text \<open>A live lock of another account covers the target.\<close>

definition locked_by_other :: "'fs dav_env \<Rightarrow> resolved \<Rightarrow> 'fs world \<Rightarrow> bool" where
  "locked_by_other h res w \<longleftrightarrow>
     (\<exists>held. DavLocks (he_now h) (dav_db w) = Inr held \<and>
        list_ex (\<lambda>l. lock_covers l (res_share res) (res_path res) \<and> L_Principal l \<noteq> r_user res) held)"

lemma guard_refuses:
  assumes "he_locks h = LocksTable" and "locked_by_other h res w"
  shows "\<exists>e. guard T h q res w = Some e \<and> fst (StatusOf e) \<in> {400, 412, 423}"
proof (cases "dav_precondition T h q res w")
  case (Inl e)
  then have "fst (StatusOf e) \<in> {400, 412}"
    by (auto simp: dav_precondition_def split: if_splits sum.splits prod.splits)
  with Inl show ?thesis by (auto simp: guard_def)
next
  case (Inr submitted)
  obtain held l where l: "DavLocks (he_now h) (dav_db w) = Inr held" "l \<in> set held"
    "lock_covers l (res_share res) (res_path res)" "L_Principal l \<noteq> r_user res"
    using assms(2) by (auto simp: locked_by_other_def list_ex_iff)
  have "\<not> guard_loop (res_share res) (res_path res) (r_user res) submitted held = None"
    unfolding guard_loop_None using l(2-4) by blast
  then have "Guard (res_share res) (res_path res) (r_user res) submitted (he_now h) (dav_db w) \<noteq> None"
    using l(1) by (simp add: Guard_def)
  with Inr assms(1) show ?thesis by (auto simp: guard_def)
qed

lemma fail_status [simp]: "rs_Status (fail e) = fst (StatusOf e)"
  by (simp add: fail_def respond_def split: prod.splits)

lemma respond_fields [simp]: "rs_Status (respond n) = n"
  by (simp add: respond_def)

text \<open>
  C16. A lock keeps everyone else out. While a live lock of another account covers a resource, no
  PUT, MKCOL, DELETE or PROPPATCH of this account on it changes anything, whatever the request
  submits: the stored tree, the properties, the locks, the ledger and the journal stay as they
  are and the client is refused.
\<close>
theorem locked_resource_unwritable:
  assumes "he_locks h = LocksTable" and "locked_by_other h res w"
    and "(resp, w') \<in> {Put T h q res w, Mkcol T h q res w, dav_Delete T h q res w, Proppatch T h q res w}"
  shows "w' = w \<and> rs_Status resp \<ge> 400"
proof -
  obtain e where e: "guard T h q res w = Some e" "fst (StatusOf e) \<ge> 400"
    using guard_refuses [OF assms(1,2)] by fastforce
  have scan: "fst (StatusOf (DScan x)) \<ge> 400" for x by simp
  have req: "Require res Write = Some x \<Longrightarrow> x = ErrDenied" for x by (simp add: Require_def split: if_splits)
  from assms(3) show ?thesis
    using e scan req
    by (auto simp: Put_def Mkcol_def dav_Delete_def Proppatch_def split: option.splits sum.splits if_splits)
qed

section \<open>Writing and reading back\<close>

lemma WriteStream_Inr:
  assumes "posix_publish (fe_driver env) view" and "WriteStream T env r src ifMatch w = (Inr entry, w')"
  shows "view (w_fs w') = put (SR_ID (r_root r)) (sf_comps (r_path r)) (Some (Leaf (body_text src))) (view (w_fs w))"
    "entry = buildEntry env r (SafePath_Name (r_path r)) (r_path r) w'"
proof -
  obtain prior werr delta db where prep: "prepareWrite T env r ifMatch w = Inr prior"
    and run: "writeDurableQuotaStream (fe_quota env) (r_user r) (drv_Stage (fe_driver env) (r_root r) (r_path r) (w_fs w))
      (map_option st_Size prior) (body_targets src) (b_ok src) (Some (int (length (body_text src)))) (k_db (w_core w)) = (werr, delta, db)"
    and fin: "finishWrite env r werr (publish_if env r (body_text src) werr (ledger (\<lambda>_. db) w)) = (Inr entry, w')"
    using assms(2) by (auto simp: WriteStream_def split: sum.splits prod.splits)
  have none: "werr = None" using fin by (cases werr) (auto simp: finishWrite_def)
  have "drv_Stage (fe_driver env) (r_root r) (r_path r) (w_fs w) = Staged True" using stream_staged run none by metis
  then have "view (drv_Publish (fe_driver env) (r_root r) (r_path r) (body_text src) (w_fs w)) =
      put (SR_ID (r_root r)) (sf_comps (r_path r)) (Some (Leaf (body_text src))) (view (w_fs w))"
    using assms(1) unfolding posix_publish_def by blast
  then show "view (w_fs w') = put (SR_ID (r_root r)) (sf_comps (r_path r)) (Some (Leaf (body_text src))) (view (w_fs w))"
    "entry = buildEntry env r (SafePath_Name (r_path r)) (r_path r) w'"
    using fin none by (auto simp: finishWrite_def publish_if_def Let_def)
qed

lemma TrimSpace_Nil [simp]: "TrimSpace [] = []"
  by (rule TrimSpace_plain) simp

lemma Get_whole:
  assumes "posix (fe_driver (he_files h)) view" and "faultless (fe_driver (he_files h)) view"
    and "view (w_fs w) (SR_ID (r_root res)) (sf_comps (r_path res)) = Some (Leaf c)" and "int (length c) \<le> max_i64"
    and "Has (r_perms res) Download" and "q_Range q = []" and "q_IfNoneMatch q = []"
  shows "rs_Status (Get h q res True w) = 200 \<and> rs_Content (Get h q res True w) = c \<and>
    rs_ContentLength (Get h q res True w) = int (length c) \<and>
    (let entry = buildEntry (he_files h) res (SafePath_Name (r_path res)) (r_path res) w in
     rs_ETag (Get h q res True w) = ETagHeader (e_ETag entry) (e_ETagWeak entry))"
proof -
  let ?env = "he_files h"
  obtain st where st: "stat_at ?env res (r_path res) w = Inr st"
    using assms(2,3) unfolding faultless_def by (metis option.distinct(1))
  then have "node_stat (Leaf c) st"
    using assms(1,3) unfolding posix_def posix_stat_def by (metis option.inject)
  then have nodir: "\<not> Kind_IsDir (st_Kind st)" by (simp add: node_stat_def)
  obtain st' bytes where open_it: "drv_OpenRead (fe_driver ?env) (r_root res) (r_path res) (w_fs w) = Inr (st', bytes)"
    using assms(2,3) unfolding faultless_def by (metis option.distinct(1) surj_pair)
  have st': "node_stat (Leaf c) st'" "bytes = c"
    using assms(1,3) open_it unfolding posix_def posix_open_def by (metis node.distinct(1) node.inject option.inject)+
  obtain fid where fid: "openFid ?env res w = Inr (c, fid)" "fi_Size fid = int (length c)"
    using open_it st' by (cases "FileETag (fe_sum256 ?env) st'") (auto simp: openFid_def node_stat_def)
  let ?s = "\<lparr>sm_content = c, sm_pos = 0, sm_end = int (length c)\<rparr>"
  have str: "OpenStream ?env res None w = Inr (fid, ?s)"
    using fid assms(5) by (simp add: OpenStream_def Require_def Let_def)
  have "stream_copy ?s = (c, StreamEOF)" using stream_copy_exact [of ?s] assms(4) by simp
  then show ?thesis
    using st nodir str assms(6,7)
    by (simp add: Get_def Let_def notModified_def parseByteRange_def buildEntry_def EntryAt_def Remaining_def)
qed

lemma files_status [simp]: "fst (StatusOf (DFiles e)) \<noteq> 201" "fst (StatusOf (DFiles e)) \<noteq> 204"
  by (cases e; simp split: core_error.splits)+

lemma guard_status: "guard T h q res w = Some e \<Longrightarrow> fst (StatusOf e) \<notin> {201, 204}"
  by (auto simp: guard_def dav_precondition_def split: sum.splits if_splits prod.splits lock_wiring.splits option.splits)


section \<open>A deployment\<close>

text \<open>The demo deployment behind the mount, with one exclusive lock of account 7 on the file a/f.\<close>

definition demo_dav :: "mem_fs dav_env" where
  "demo_dav = \<lparr>he_files = demo_files_env, he_locks = LocksTable, he_tokens = True, he_taker = True, he_store = True,
     he_keyOf = True, he_limits = DefaultLimits, he_now = 0, he_random = None, he_trash_random = Some (replicate 8 0),
     he_fold = (\<lambda>_ _. False), he_decode = (\<lambda>_. \<lparr>body_tokens = [], body_end = XmlEOF, body_offset = 0\<rparr>)\<rparr>"

definition demo_request :: dav_request where
  "demo_request = \<lparr>q_Method = ''PUT'', q_Path = ''/dav/docs/f'', q_Host = ''h'', q_If = [], q_IfMatch = [], q_IfNoneMatch = [],
     q_Range = [], q_Timeout = [], q_Depth = [], q_LockToken = [], q_Destination = [], q_Overwrite = [],
     q_ContentLength = 0, q_Body = demo_body\<rparr>"

definition demo_lock_row :: lock_row where
  "demo_lock_row = \<lparr>R_Token = ''t'', R_Share = 3, R_Ident = ToSQL \<lparr>I_Share = 3, I_Dev = 1, I_Ino = 1, I_Btime = None\<rparr>,
     R_Path = ''a/f'', R_Principal = 7, R_Owner = [], R_Depth = LockDepthZero, R_Scope = LockExclusive, R_ExpiresNs = 100,
     R_TimeoutS = 1\<rparr>"

definition locked_world :: "mem_fs world" where
  "locked_world = demo_world\<lparr>w_core := (w_core demo_world)\<lparr>k_db := (k_db (w_core demo_world))\<lparr>lock_rows := [demo_lock_row]\<rparr>\<rparr>\<rparr>"

lemma demo_live_locks:
  "(case DavLocks 0 (dav_db locked_world) of
      Inl _ \<Rightarrow> False
    | Inr held \<Rightarrow> list_ex (\<lambda>l. lock_covers l 3 ''a/f'' \<and> L_Principal l \<noteq> 2) held)"
  by code_simp

lemma demo_locked: "locked_by_other demo_dav demo_target locked_world"
  using demo_live_locks by (auto simp: locked_by_other_def demo_dav_def SafePath_String_def split: sum.splits)

theorem locked_resource_unwritable_witness:
  "\<exists>resp. Put latin1_library demo_dav demo_request demo_target locked_world = (resp, locked_world) \<and> rs_Status resp \<ge> 400"
proof -
  obtain resp w' where run: "Put latin1_library demo_dav demo_request demo_target locked_world = (resp, w')" by (rule prod.exhaust)
  have "he_locks demo_dav = LocksTable" by (simp add: demo_dav_def)
  from locked_resource_unwritable [OF this demo_locked, of resp w' latin1_library demo_request] run show ?thesis by auto
qed


section \<open>What the guard does not see\<close>

text \<open>Account 5 removes the folder a of a share that keeps a trash, while account 7 holds an exclusive lock on a/keep/f.\<close>

definition member_world :: "mem_fs world" where
  "member_world = kept_world\<lparr>w_core := kept_core\<lparr>k_db := empty_db\<lparr>lock_rows := [demo_lock_row\<lparr>R_Path := ''a/keep/f''\<rparr>]\<rparr>\<rparr>\<rparr>"

definition member_dav :: "mem_fs dav_env" where
  "member_dav = demo_dav\<lparr>he_files := kept_env\<rparr>"

lemma member_run:
  "(case dav_Delete latin1_library member_dav demo_request kept_target member_world of
      (resp, w) \<Rightarrow> (rs_Status resp, map_of (w_fs w) (3, [''a'', ''keep'', ''f'']))) = (204, None)"
  by code_simp

lemma member_guarded:
  "Guard 3 ''a/keep/f'' 5 [] 0 (dav_db member_world) = Some ErrLocked"
  by code_simp

text \<open>
  C22. The guard looks only at the locks that cover the target itself. A DELETE of a collection is not
  refused by an exclusive lock that another account holds on a member: the member that no PUT or
  DELETE of this account may touch goes away with its parent.
\<close>
theorem delete_ignores_member_locks:
  "\<exists>h q res w resp w'. he_locks h = LocksTable \<and> dav_Delete latin1_library h q res w = (resp, w') \<and>
     Guard 3 ''a/keep/f'' (r_user res) [] (he_now h) (dav_db w) = Some ErrLocked \<and> rs_Status resp = 204 \<and>
     mem_view (w_fs w) 3 [''a'', ''keep'', ''f''] = Some (Leaf ''x'') \<and> mem_view (w_fs w') 3 [''a'', ''keep'', ''f''] = None"
proof -
  obtain resp w' where run: "dav_Delete latin1_library member_dav demo_request kept_target member_world = (resp, w')" by (rule prod.exhaust)
  have "rs_Status resp = 204" "mem_view (w_fs w') 3 [''a'', ''keep'', ''f''] = None"
    using member_run unfolding run by (simp_all add: mem_view_def)
  moreover have "he_locks member_dav = LocksTable" "he_now member_dav = 0" "r_user kept_target = 5"
    "mem_view (w_fs member_world) 3 [''a'', ''keep'', ''f''] = Some (Leaf ''x'')"
    by (simp_all add: member_dav_def demo_dav_def kept_target_def mem_view_def member_world_def kept_world_def)
  ultimately show ?thesis using run member_guarded by metis
qed

text \<open>
  A mount assembled without a state database and without a lock table hands the guard a nil
  pointer inside an interface that is not nil: every write of such a deployment ends in a panic
  (status 0 here) instead of being admitted.
\<close>
lemma no_lock_table_panics:
  "q_If q = [] \<Longrightarrow> Put T (handlerOf False props False opt) q res w = (fail NilLocks, w) \<and>
     rs_Status (fail NilLocks) = 0"
  by (simp add: Put_def guard_def dav_precondition_def handlerOf_def handler_New_def Let_def)

text \<open>
  A full lock table answers as a server fault: the bound of locks an account may hold is reported
  with the database's own sentinel, which the status table does not know.
\<close>
lemma lock_bound_answers_500:
  assumes "Take (he_random h)
      \<lparr>Q_Ident = e_Ident entry, Q_Path = res_path res, Q_Principal = r_user res, Q_Owner = LI_Owner info,
       Q_Depth = (if depth = DepthInfinity then LockDepthInfinity else LockDepthZero), Q_Timeout = timeout,
       Q_Shared = LI_Shared info\<rparr> (he_now h) (dav_db w) = (Inl (StoreError (Exceed what bound got)), db)"
    and "he_keyOf h"
  shows "rs_Status (fst (take_lock h res entry info depth timeout status w)) = 500"
  using assms by (simp add: take_lock_def protocolLockError_def)

text \<open>
  A tagged list of an If header names its resource by the path of a URL, the mount prefix and the
  share's label included, and is compared with the path inside the share: a list tagged with the
  very URL of the request describes no resource, unless the grant's own subpath reads \<open>dav\<close>
  and the label.
\<close>
lemma own_url_tag_never_matches:
  assumes "sf_comps (r_path res) = sub @ rest" and "sub \<noteq> [''dav'', label]"
  shows "stateOf h res w (''dav'' # label # rest) = zero_state"
proof -
  have "''dav'' # label # rest \<noteq> sub @ rest" using assms(2) append_same_eq [of "[''dav'', label]" rest sub] by simp
  then show ?thesis using assms(1) by (simp add: stateOf_def)
qed

end
