(* ===== verification/Sc_UploadDb.thy ===== *)
theory Sc_UploadDb
  imports Sc_StateDb
begin

unbundle bit_operations_syntax

text \<open>
  The upload session store, \<open>internal/db/state/upload.go\<close> and the statements of
  \<open>upload_sql.go\<close>: session rows with their received intervals, transfer-id aliases, the
  directories uploads have written into, and the chunk settings. A child row of a session that is
  not there is refused, as the foreign keys of the schema do.
\<close>

type_synonym upload_session = "32 word list upload_row"

definition UploadIntervalRuns :: nat where "UploadIntervalRuns = 4096"
definition UploadSpooledNames :: nat where "UploadSpooledNames = 4096"

section \<open>The spooled-name column\<close>

definition be_PutUint32 :: "32 word \<Rightarrow> 8 word list" where
  "be_PutUint32 n = [ucast (drop_bit 24 n), ucast (drop_bit 16 n), ucast (drop_bit 8 n), ucast n]"

definition encodeSpooledNames :: "32 word list \<Rightarrow> (state_error, 8 word list) result" where
  "encodeSpooledNames names =
     (if length names > UploadSpooledNames
      then Inl (Exceed ''upload spooled names'' (int UploadSpooledNames) (int (length names)))
      else Inr (concat (map be_PutUint32 names)))"

fun be_words :: "8 word list \<Rightarrow> 32 word list" where
  "be_words (a # b # c # d # bs) =
     (push_bit 24 (ucast a) OR push_bit 16 (ucast b) OR push_bit 8 (ucast c) OR ucast d) # be_words bs"
| "be_words _ = []"

definition decodeSpooledNames :: "8 word list \<Rightarrow> (state_error, 32 word list) result" where
  "decodeSpooledNames b =
     (if length b mod 4 \<noteq> 0 then Inl (CorruptRow ''spooled_names'')
      else if length b div 4 > UploadSpooledNames
      then Inl (Exceed ''upload spooled names'' (int UploadSpooledNames) (int (length b div 4)))
      else Inr (be_words b))"

text \<open>Every column but the names is stored as it is; an empty text is NULL and read back as empty.\<close>

definition with_names :: "'b \<Rightarrow> 'a upload_row \<Rightarrow> 'b upload_row" where
  "with_names names s =
     \<lparr>US_ID = US_ID s, US_User = US_User s, US_Share = US_Share s, US_Dest = US_Dest s,
      US_PartName = US_PartName s, US_SpoolDir = US_SpoolDir s, US_CacheDir = US_CacheDir s,
      US_CacheMerged = US_CacheMerged s, US_Mode = US_Mode s, US_TotalLen = US_TotalLen s,
      US_ChunkSize = US_ChunkSize s, US_ChunkMin = US_ChunkMin s, US_RandomAccess = US_RandomAccess s,
      US_NextName = US_NextName s, US_WriteHead = US_WriteHead s, US_SpooledNames = names,
      US_IfMatch = US_IfMatch s, US_Filename = US_Filename s, US_MtimeNs = US_MtimeNs s, US_Mime = US_Mime s,
      US_RelativePath = US_RelativePath s, US_Verify = US_Verify s, US_VerifyDigest = US_VerifyDigest s,
      US_CreatedNs = US_CreatedNs s, US_ExpiresNs = US_ExpiresNs s, US_State = US_State s\<rparr>"

definition scanUploadSession :: "8 word list upload_row \<Rightarrow> (state_error, upload_session) result" where
  "scanUploadSession r = bind_r (decodeSpooledNames (US_SpooledNames r)) (\<lambda>names. Inr (with_names names r))"

section \<open>Statements\<close>

definition sqlInsertUploadSession :: "8 word list upload_row \<Rightarrow> state_db \<Rightarrow> (state_error, state_db) result" where
  "sqlInsertUploadSession r db =
     (if US_ID r \<in> US_ID ` set (session_rows db) then Inl ConstraintFailed
      else if US_User r \<notin> U_Id ` set (user_rows db) then Inl ConstraintFailed
      else Inr (db\<lparr>session_rows := session_rows db @ [r]\<rparr>))"

definition sqlReadUploadSession :: "string \<Rightarrow> state_db \<Rightarrow> 8 word list upload_row option" where
  "sqlReadUploadSession sid db = find (\<lambda>r. US_ID r = sid) (session_rows db)"

definition sqlUpdateUploadSession :: "8 word list upload_row \<Rightarrow> state_db \<Rightarrow> state_db" where
  "sqlUpdateUploadSession s db =
     db\<lparr>session_rows := map (\<lambda>r. if US_ID r = US_ID s
          then r\<lparr>US_TotalLen := US_TotalLen s, US_NextName := US_NextName s, US_WriteHead := US_WriteHead s,
                 US_SpooledNames := US_SpooledNames s, US_MtimeNs := US_MtimeNs s, US_ExpiresNs := US_ExpiresNs s,
                 US_State := US_State s, US_CacheMerged := US_CacheMerged s\<rparr>
          else r) (session_rows db)\<rparr>"

definition sqlAdvanceUploadCacheMerged :: "int \<Rightarrow> string \<Rightarrow> state_db \<Rightarrow> state_db" where
  "sqlAdvanceUploadCacheMerged merged sid db =
     db\<lparr>session_rows := map (\<lambda>r. if US_ID r = sid \<and> US_CacheMerged r < merged
          then r\<lparr>US_CacheMerged := merged\<rparr> else r) (session_rows db)\<rparr>"

definition sqlDeleteUploadIntervals :: "string \<Rightarrow> state_db \<Rightarrow> state_db" where
  "sqlDeleteUploadIntervals sid db = db\<lparr>interval_rows := filter (\<lambda>r. IV_Session r \<noteq> sid) (interval_rows db)\<rparr>"

definition sqlInsertUploadInterval :: "string \<Rightarrow> int \<Rightarrow> int \<Rightarrow> state_db \<Rightarrow> (state_error, state_db) result" where
  "sqlInsertUploadInterval sid lo hi db =
     (if \<exists>r\<in>set (interval_rows db). IV_Session r = sid \<and> IV_Lo r = lo
      then Inr (db\<lparr>interval_rows := map (\<lambda>r. if IV_Session r = sid \<and> IV_Lo r = lo then r\<lparr>IV_Hi := hi\<rparr> else r) (interval_rows db)\<rparr>)
      else if sid \<notin> US_ID ` set (session_rows db) then Inl ConstraintFailed
      else Inr (db\<lparr>interval_rows := interval_rows db @ [\<lparr>IV_Session = sid, IV_Lo = lo, IV_Hi = hi\<rparr>]\<rparr>))"

definition sqlReadUploadIntervals :: "string \<Rightarrow> state_db \<Rightarrow> interval_row list" where
  "sqlReadUploadIntervals sid db = sort_key IV_Lo (filter (\<lambda>r. IV_Session r = sid) (interval_rows db))"

definition sqlTouchUploadSessionExpiry :: "int \<Rightarrow> string \<Rightarrow> state_db \<Rightarrow> state_db" where
  "sqlTouchUploadSessionExpiry expires sid db =
     db\<lparr>session_rows := map (\<lambda>r. if US_ID r = sid then r\<lparr>US_ExpiresNs := expires\<rparr> else r) (session_rows db)\<rparr>"

definition sqlDeleteUploadSession :: "string \<Rightarrow> state_db \<Rightarrow> state_db" where
  "sqlDeleteUploadSession sid db =
     db\<lparr>session_rows := filter (\<lambda>r. US_ID r \<noteq> sid) (session_rows db),
        interval_rows := filter (\<lambda>r. IV_Session r \<noteq> sid) (interval_rows db),
        alias_rows := filter (\<lambda>r. AL_Session r \<noteq> sid) (alias_rows db)\<rparr>"

definition sqlDeleteUploadAliasesForSession :: "string \<Rightarrow> state_db \<Rightarrow> state_db" where
  "sqlDeleteUploadAliasesForSession sid db = db\<lparr>alias_rows := filter (\<lambda>r. AL_Session r \<noteq> sid) (alias_rows db)\<rparr>"

section \<open>Sessions\<close>

definition CreateUploadSession :: "upload_session \<Rightarrow> state_db \<Rightarrow> (state_error, unit) result \<times> state_db" where
  "CreateUploadSession s db =
     (case EnsureWritable db of
        Some e \<Rightarrow> (Inl e, db)
      | None \<Rightarrow>
          (case encodeSpooledNames (US_SpooledNames s) of
             Inl e \<Rightarrow> (Inl e, db)
           | Inr names \<Rightarrow>
               db_Write (\<lambda>db. bind_r (sqlInsertUploadSession (with_names names s) db) (\<lambda>db'. Inr ((), db'))) db))"

definition ReadUploadSession :: "string \<Rightarrow> state_db \<Rightarrow> (state_error, upload_session) result" where
  "ReadUploadSession sid db =
     (case sqlReadUploadSession sid db of
        None \<Rightarrow> Inl ErrNoSuchUploadSession
      | Some r \<Rightarrow> scanUploadSession r)"

fun scan_sessions :: "8 word list upload_row list \<Rightarrow> (state_error, upload_session list) result" where
  "scan_sessions [] = Inr []"
| "scan_sessions (r # rs) =
     bind_r (scanUploadSession r) (\<lambda>s. bind_r (scan_sessions rs) (\<lambda>ss. Inr (s # ss)))"

definition ListUploadSessions :: "state_db \<Rightarrow> (state_error, upload_session list) result" where
  "ListUploadSessions db = scan_sessions (session_rows db)"

definition ListExpiredUploadSessions :: "int \<Rightarrow> state_db \<Rightarrow> (state_error, upload_session list) result" where
  "ListExpiredUploadSessions now db = scan_sessions (filter (\<lambda>r. US_ExpiresNs r \<le> now) (session_rows db))"

definition UpdateUploadSession :: "upload_session \<Rightarrow> state_db \<Rightarrow> (state_error, unit) result \<times> state_db" where
  "UpdateUploadSession s db =
     (case encodeSpooledNames (US_SpooledNames s) of
        Inl e \<Rightarrow> (Inl e, db)
      | Inr names \<Rightarrow> db_Write (\<lambda>db. Inr ((), sqlUpdateUploadSession (with_names names s) db)) db)"

definition AdvanceUploadCacheMerged :: "string \<Rightarrow> int \<Rightarrow> state_db \<Rightarrow> (state_error, unit) result \<times> state_db" where
  "AdvanceUploadCacheMerged sid merged db =
     db_Write (\<lambda>db. Inr ((), sqlAdvanceUploadCacheMerged merged sid db)) db"

definition DeleteUploadSession :: "string \<Rightarrow> state_db \<Rightarrow> (state_error, unit) result \<times> state_db" where
  "DeleteUploadSession sid db =
     db_Write (\<lambda>db. Inr ((), sqlDeleteUploadSession sid
        (sqlDeleteUploadIntervals sid (sqlDeleteUploadAliasesForSession sid db)))) db"

section \<open>Intervals\<close>

fun insert_runs :: "string \<Rightarrow> (int \<times> int) list \<Rightarrow> state_db \<Rightarrow> (state_error, state_db) result" where
  "insert_runs sid [] db = Inr db"
| "insert_runs sid ((a, b) # runs) db =
     (case (Narrow (Signed 64) (Unsigned 64) a, Narrow (Signed 64) (Unsigned 64) b) of
        (Some lo, Some hi) \<Rightarrow> bind_r (sqlInsertUploadInterval sid lo hi db) (insert_runs sid runs)
      | (None, _) \<Rightarrow> Inl (ErrNarrow a)
      | (_, None) \<Rightarrow> Inl (ErrNarrow b))"

definition RecordUploadInterval ::
  "string \<Rightarrow> (int \<times> int) list \<Rightarrow> int \<Rightarrow> state_db \<Rightarrow> (state_error, unit) result \<times> state_db" where
  "RecordUploadInterval sid runs expires db =
     (case EnsureWritable db of
        Some e \<Rightarrow> (Inl e, db)
      | None \<Rightarrow>
          if length runs > UploadIntervalRuns
          then (Inl (Exceed ''upload interval runs'' (int UploadIntervalRuns) (int (length runs))), db)
          else db_Write (\<lambda>db. bind_r (insert_runs sid runs (sqlDeleteUploadIntervals sid db))
                 (\<lambda>db'. Inr ((), sqlTouchUploadSessionExpiry expires sid db'))) db)"

fun scan_intervals :: "interval_row list \<Rightarrow> (state_error, (int \<times> int) list) result" where
  "scan_intervals [] = Inr []"
| "scan_intervals (r # rs) =
     (case (Narrow (Unsigned 64) (Signed 64) (IV_Lo r), Narrow (Unsigned 64) (Signed 64) (IV_Hi r)) of
        (Some lo, Some hi) \<Rightarrow> bind_r (scan_intervals rs) (\<lambda>runs. Inr ((lo, hi) # runs))
      | _ \<Rightarrow> Inl (CorruptRow ''upload_interval''))"

definition ReadUploadIntervals :: "string \<Rightarrow> state_db \<Rightarrow> (state_error, (int \<times> int) list) result" where
  "ReadUploadIntervals sid db = scan_intervals (sqlReadUploadIntervals sid db)"

section \<open>Per-account totals\<close>

definition receiving_rows :: "int \<Rightarrow> state_db \<Rightarrow> 8 word list upload_row list" where
  "receiving_rows user db = filter (\<lambda>r. US_User r = user \<and> US_State r = StateReceiving) (session_rows db)"

definition CountUploadSessionsForUser :: "int \<Rightarrow> state_db \<Rightarrow> (state_error, int) result" where
  "CountUploadSessionsForUser user db = Inr (int (length (receiving_rows user db)))"

definition reserved_bytes :: "int \<Rightarrow> state_db \<Rightarrow> int" where
  "reserved_bytes user db =
     sum_list (map (\<lambda>r. case US_TotalLen r of None \<Rightarrow> 0 | Some n \<Rightarrow> n) (receiving_rows user db))"

text \<open>The sum of the statement is an error of the engine past 64 bits.\<close>

definition SumUploadReservedForUser :: "int \<Rightarrow> state_db \<Rightarrow> (state_error, int) result" where
  "SumUploadReservedForUser user db =
     (if in_i64 (reserved_bytes user db) then Inr (reserved_bytes user db) else Inl IntegerOverflow)"

section \<open>Aliases\<close>

definition BindUploadAlias ::
  "string \<Rightarrow> int \<Rightarrow> string \<Rightarrow> int \<Rightarrow> string \<Rightarrow> int \<Rightarrow> state_db \<Rightarrow> (state_error, bool) result \<times> state_db" where
  "BindUploadAlias tid user sid share dest now db =
     (case EnsureWritable db of
        Some e \<Rightarrow> (Inl e, db)
      | None \<Rightarrow>
          db_Write (\<lambda>db.
            if \<exists>r\<in>set (alias_rows db). AL_User r = user \<and> AL_Tid r = tid then Inr (False, db)
            else if sid \<notin> US_ID ` set (session_rows db) \<or> user \<notin> U_Id ` set (user_rows db) then Inl ConstraintFailed
            else Inr (True, db\<lparr>alias_rows := alias_rows db @
               [\<lparr>AL_Tid = tid, AL_User = user, AL_Session = sid, AL_Share = share, AL_Dest = dest, AL_CreatedNs = now\<rparr>]\<rparr>)) db)"

definition LookupUploadAlias :: "string \<Rightarrow> int \<Rightarrow> state_db \<Rightarrow> (state_error, string \<times> int \<times> string) result" where
  "LookupUploadAlias tid user db =
     (case find (\<lambda>r. AL_User r = user \<and> AL_Tid r = tid) (alias_rows db) of
        None \<Rightarrow> Inl ErrNoSuchUploadSession
      | Some r \<Rightarrow> Inr (AL_Session r, AL_Share r, AL_Dest r))"

definition UnbindUploadAlias :: "string \<Rightarrow> int \<Rightarrow> state_db \<Rightarrow> (state_error, unit) result \<times> state_db" where
  "UnbindUploadAlias tid user db =
     db_Write (\<lambda>db. Inr ((), db\<lparr>alias_rows := filter (\<lambda>r. \<not> (AL_User r = user \<and> AL_Tid r = tid)) (alias_rows db)\<rparr>)) db"

section \<open>Touched directories and settings\<close>

definition TouchUploadDir :: "int \<Rightarrow> string \<Rightarrow> state_db \<Rightarrow> (state_error, unit) result \<times> state_db" where
  "TouchUploadDir share dir db =
     (case EnsureWritable db of
        Some e \<Rightarrow> (Inl e, db)
      | None \<Rightarrow>
          db_Write (\<lambda>db. Inr ((), if (share, dir) \<in> set (touched_dirs db) then db
            else db\<lparr>touched_dirs := touched_dirs db @ [(share, dir)]\<rparr>)) db)"

definition ListUploadTouchedDirs :: "state_db \<Rightarrow> (int \<times> string) list" where
  "ListUploadTouchedDirs db = touched_dirs db"

definition ReadChunkSettings :: "state_db \<Rightarrow> (int \<times> int) option" where
  "ReadChunkSettings db = chunk_settings db"

definition WriteChunkSettings :: "int \<Rightarrow> int \<Rightarrow> state_db \<Rightarrow> (state_error, unit) result \<times> state_db" where
  "WriteChunkSettings minBytes defaultBytes db =
     (case EnsureWritable db of
        Some e \<Rightarrow> (Inl e, db)
      | None \<Rightarrow> db_Write (\<lambda>db. Inr ((), db\<lparr>chunk_settings := Some (minBytes, defaultBytes)\<rparr>)) db)"

definition ReadUploadCacheEnabled :: "state_db \<Rightarrow> bool" where
  "ReadUploadCacheEnabled db = (case cache_setting db of None \<Rightarrow> False | Some on \<Rightarrow> on \<noteq> 0)"

definition WriteUploadCacheEnabled :: "bool \<Rightarrow> state_db \<Rightarrow> (state_error, unit) result \<times> state_db" where
  "WriteUploadCacheEnabled on db =
     (case EnsureWritable db of
        Some e \<Rightarrow> (Inl e, db)
      | None \<Rightarrow> db_Write (\<lambda>db. Inr ((), db\<lparr>cache_setting := Some (if on then 1 else 0)\<rparr>)) db)"

section \<open>Round trips\<close>

lemma be_words_step: "be_words (be_PutUint32 n @ bs) = n # be_words bs"
proof -
  have "push_bit 24 (ucast (ucast (drop_bit 24 n) :: 8 word)) OR push_bit 16 (ucast (ucast (drop_bit 16 n) :: 8 word)) OR
      push_bit 8 (ucast (ucast (drop_bit 8 n) :: 8 word)) OR ucast (ucast n :: 8 word) = n"
    (is "?w = n")
  proof (rule bit_eqI)
    fix i assume "possible_bit TYPE(32 word) i"
    then consider "i < 8" | "8 \<le> i" "i < 16" | "16 \<le> i" "i < 24" | "24 \<le> i" "i < 32" by fastforce
    then show "bit ?w i = bit n i" by cases (auto simp: bit_simps bit_ucast_iff)
  qed
  then show ?thesis by (simp add: be_PutUint32_def)
qed

lemma be_words_concat: "be_words (concat (map be_PutUint32 ns)) = ns"
  by (induction ns) (simp_all add: be_words_step)

lemma length_be_PutUint32 [simp]: "length (be_PutUint32 n) = 4"
  by (simp add: be_PutUint32_def)

lemma length_encoded [simp]: "length (concat (map be_PutUint32 ns)) = 4 * length ns"
  by (induction ns) simp_all

lemma decode_encode: "encodeSpooledNames ns = Inr b \<Longrightarrow> decodeSpooledNames b = Inr ns"
  by (auto simp: encodeSpooledNames_def decodeSpooledNames_def be_words_concat split: if_splits)

lemma with_names_fields [simp]:
  "US_ID (with_names ns s) = US_ID s" "US_User (with_names ns s) = US_User s" "US_Share (with_names ns s) = US_Share s"
  "US_Dest (with_names ns s) = US_Dest s" "US_PartName (with_names ns s) = US_PartName s"
  "US_SpoolDir (with_names ns s) = US_SpoolDir s" "US_Mode (with_names ns s) = US_Mode s"
  "US_TotalLen (with_names ns s) = US_TotalLen s" "US_NextName (with_names ns s) = US_NextName s"
  "US_WriteHead (with_names ns s) = US_WriteHead s" "US_SpooledNames (with_names ns s) = ns"
  "US_MtimeNs (with_names ns s) = US_MtimeNs s" "US_ExpiresNs (with_names ns s) = US_ExpiresNs s"
  "US_State (with_names ns s) = US_State s" "US_CacheMerged (with_names ns s) = US_CacheMerged s"
  "US_RandomAccess (with_names ns s) = US_RandomAccess s" "US_ChunkMin (with_names ns s) = US_ChunkMin s"
  "US_ChunkSize (with_names ns s) = US_ChunkSize s" "US_CacheDir (with_names ns s) = US_CacheDir s"
  "US_IfMatch (with_names ns s) = US_IfMatch s" "US_Verify (with_names ns s) = US_Verify s"
  "US_VerifyDigest (with_names ns s) = US_VerifyDigest s"
  by (simp_all add: with_names_def)

lemma with_names_twice [simp]: "with_names a (with_names b s) = with_names a s"
  by (simp add: with_names_def)

lemma with_names_self [simp]: "with_names (US_SpooledNames s) s = s"
  by (simp add: with_names_def)

lemma scan_encoded:
  "encodeSpooledNames (US_SpooledNames s) = Inr names \<Longrightarrow> scanUploadSession (with_names names s) = Inr s"
  by (simp add: scanUploadSession_def decode_encode)

section \<open>What a statement changes\<close>

text \<open>The columns \<open>UpdateUploadSession\<close> never rewrites.\<close>

definition fixed_columns :: "'a upload_row \<Rightarrow> 'b upload_row \<Rightarrow> bool" where
  "fixed_columns r s \<longleftrightarrow> with_names () (r\<lparr>US_TotalLen := None, US_NextName := 0, US_WriteHead := 0, US_MtimeNs := None,
       US_ExpiresNs := 0, US_State := StateDone, US_CacheMerged := 0\<rparr>) =
     with_names () (s\<lparr>US_TotalLen := None, US_NextName := 0, US_WriteHead := 0, US_MtimeNs := None,
       US_ExpiresNs := 0, US_State := StateDone, US_CacheMerged := 0\<rparr>)"

lemma find_map_row:
  assumes "\<And>r. US_ID (f r) = US_ID r"
  shows "find (\<lambda>r. US_ID r = sid) (map f rs) = map_option f (find (\<lambda>r. US_ID r = sid) rs)"
  by (induction rs) (simp_all add: assms)

lemma find_filter_row:
  "find (\<lambda>r. US_ID r = sid) (filter (\<lambda>r. US_ID r \<noteq> sid') rs) =
     (if sid = sid' then None else find (\<lambda>r. US_ID r = sid) rs)"
  by (induction rs) auto

lemma find_row_ID: "sqlReadUploadSession sid db = Some r \<Longrightarrow> US_ID r = sid"
  by (auto simp: sqlReadUploadSession_def find_Some_iff)

lemma scan_ID: "scanUploadSession r = Inr s \<Longrightarrow> US_ID s = US_ID r"
  by (auto simp: scanUploadSession_def bind_r_eq_Inr)

lemma Read_ID: "ReadUploadSession sid db = Inr s \<Longrightarrow> US_ID s = sid"
  by (auto simp: ReadUploadSession_def dest: find_row_ID scan_ID split: option.splits)

lemma Read_Update:
  assumes old: "ReadUploadSession (US_ID s) db = Inr s0" and cols: "fixed_columns s s0"
    and run: "UpdateUploadSession s db = (Inr (), db')"
  shows "ReadUploadSession (US_ID s) db' = Inr s"
proof -
  obtain names where enc: "encodeSpooledNames (US_SpooledNames s) = Inr names"
    and db': "db' = sqlUpdateUploadSession (with_names names s) db"
    using run by (auto simp: UpdateUploadSession_def db_Write_Inr split: sum.splits)
  obtain r where r: "sqlReadUploadSession (US_ID s) db = Some r" and scan: "scanUploadSession r = Inr s0"
    using old by (auto simp: ReadUploadSession_def split: option.splits)
  have "fixed_columns r s0" using scan by (auto simp: scanUploadSession_def bind_r_eq_Inr fixed_columns_def with_names_def)
  then have "fixed_columns r s" using cols by (simp add: fixed_columns_def)
  then have "r\<lparr>US_TotalLen := US_TotalLen s, US_NextName := US_NextName s, US_WriteHead := US_WriteHead s,
      US_SpooledNames := names, US_MtimeNs := US_MtimeNs s, US_ExpiresNs := US_ExpiresNs s,
      US_State := US_State s, US_CacheMerged := US_CacheMerged s\<rparr> = with_names names s"
    by (simp add: fixed_columns_def with_names_def)
  moreover have "US_ID r = US_ID s" using r by (rule find_row_ID)
  moreover have "sqlReadUploadSession (US_ID s) db' =
      map_option (\<lambda>r. if US_ID r = US_ID s then r\<lparr>US_TotalLen := US_TotalLen s, US_NextName := US_NextName s,
        US_WriteHead := US_WriteHead s, US_SpooledNames := names, US_MtimeNs := US_MtimeNs s, US_ExpiresNs := US_ExpiresNs s,
        US_State := US_State s, US_CacheMerged := US_CacheMerged s\<rparr> else r) (sqlReadUploadSession (US_ID s) db)"
    unfolding db' sqlReadUploadSession_def sqlUpdateUploadSession_def by (simp add: find_map_row cong: if_cong)
  ultimately have "sqlReadUploadSession (US_ID s) db' = Some (with_names names s)" using r by simp
  then show ?thesis using enc by (simp add: ReadUploadSession_def scan_encoded)
qed

lemma Update_other:
  assumes "UpdateUploadSession s db = (res, db')"
  shows "sid \<noteq> US_ID s \<Longrightarrow> ReadUploadSession sid db' = ReadUploadSession sid db"
    and "interval_rows db' = interval_rows db" and "user_rows db' = user_rows db" and "alias_rows db' = alias_rows db"
proof -
  have db': "db' = db \<or> (\<exists>names. db' = sqlUpdateUploadSession (with_names names s) db)"
    using assms by (auto simp: UpdateUploadSession_def db_Write_def split: sum.splits)
  show "interval_rows db' = interval_rows db" "user_rows db' = user_rows db" "alias_rows db' = alias_rows db"
    using db' by (auto simp: sqlUpdateUploadSession_def)
  assume "sid \<noteq> US_ID s"
  then have "sqlReadUploadSession sid (sqlUpdateUploadSession (with_names names s) db) = sqlReadUploadSession sid db" for names
    unfolding sqlReadUploadSession_def sqlUpdateUploadSession_def
    by (simp add: find_map_row) (auto simp: option.map_id0 find_Some_iff intro!: map_option_idI)
  then show "ReadUploadSession sid db' = ReadUploadSession sid db" using db' by (auto simp: ReadUploadSession_def)
qed

text \<open>Intervals are recorded as a list of runs that ascend strictly, in the range of a \<open>uint64\<close>.\<close>

definition runs_ok :: "(int \<times> int) list \<Rightarrow> bool" where
  "runs_ok runs \<longleftrightarrow> sorted_wrt (\<lambda>a b. fst a < fst b) runs \<and> (\<forall>r\<in>set runs. in_u64 (fst r) \<and> in_u64 (snd r))"

abbreviation run_row :: "string \<Rightarrow> int \<times> int \<Rightarrow> interval_row" where
  "run_row sid r \<equiv> \<lparr>IV_Session = sid, IV_Lo = fst r, IV_Hi = snd r\<rparr>"

lemma Narrow_i64: "in_u64 v \<Longrightarrow> Narrow (Signed 64) (Unsigned 64) v = (if v \<le> max_i64 then Some v else None)"
  by (subst Narrow_spec) (auto simp: fits_def in_u64_def max_i64_def)

lemma Narrow_u64: "0 \<le> v \<Longrightarrow> v \<le> max_i64 \<Longrightarrow> Narrow (Unsigned 64) (Signed 64) v = Some v"
  by (subst Narrow_spec) (auto simp: fits_def max_i64_def)

lemma insert_runs_rows:
  assumes "insert_runs sid runs db = Inr db'" and "runs_ok runs"
    and "\<And>r. r \<in> set (interval_rows db) \<Longrightarrow> IV_Session r = sid \<Longrightarrow> \<forall>x\<in>set runs. IV_Lo r < fst x"
  shows "db' = db\<lparr>interval_rows := interval_rows db @ map (run_row sid) runs\<rparr> \<and> (\<forall>r\<in>set runs. fst r \<le> max_i64 \<and> snd r \<le> max_i64)"
  using assms
proof (induction runs arbitrary: db)
  case (Cons x runs)
  obtain a b where x: "x = (a, b)" by (cases x)
  have u: "in_u64 a" "in_u64 b" and asc: "\<forall>y\<in>set runs. a < fst y" and ok: "runs_ok runs"
    using Cons.prems(2) by (auto simp: x runs_ok_def)
  let ?db = "db\<lparr>interval_rows := interval_rows db @ [run_row sid (a, b)]\<rparr>"
  have fresh: "\<not> (\<exists>r\<in>set (interval_rows db). IV_Session r = sid \<and> IV_Lo r = a)"
    using Cons.prems(3) by (force simp: x)
  have le: "a \<le> max_i64" "b \<le> max_i64" and ins: "insert_runs sid runs ?db = Inr db'"
    using Cons.prems(1) u fresh
    by (auto simp: x Narrow_i64 bind_r_eq_Inr sqlInsertUploadInterval_def split: if_splits)
  have "db' = ?db\<lparr>interval_rows := interval_rows ?db @ map (run_row sid) runs\<rparr> \<and> (\<forall>r\<in>set runs. fst r \<le> max_i64 \<and> snd r \<le> max_i64)"
    using ins ok
  proof (rule Cons.IH)
    fix r assume "r \<in> set (interval_rows ?db)" and ses: "IV_Session r = sid"
    then consider "r \<in> set (interval_rows db)" | "r = run_row sid (a, b)" by auto
    then show "\<forall>x\<in>set runs. IV_Lo r < fst x"
    proof cases
      case 1
      then show ?thesis using Cons.prems(3) ses by auto
    next
      case 2
      then show ?thesis using asc by simp
    qed
  qed
  then show ?case using le by (simp add: x)
qed simp

lemma scan_run_rows:
  "\<forall>r\<in>set runs. in_u64 (fst r) \<and> in_u64 (snd r) \<and> fst r \<le> max_i64 \<and> snd r \<le> max_i64 \<Longrightarrow>
     scan_intervals (map (run_row sid) runs) = Inr runs"
  by (induction runs) (auto simp: Narrow_u64 in_u64_def)

lemma Record_cases:
  assumes run: "RecordUploadInterval sid runs expires db = (Inr (), db')" and ok: "runs_ok runs"
  shows "interval_rows db' = filter (\<lambda>r. IV_Session r \<noteq> sid) (interval_rows db) @ map (run_row sid) runs"
    and "session_rows db' = map (\<lambda>r. if US_ID r = sid then r\<lparr>US_ExpiresNs := expires\<rparr> else r) (session_rows db)"
    and "ReadUploadIntervals sid db' = Inr runs"
    and "user_rows db' = user_rows db"
proof -
  obtain db1 where ins: "insert_runs sid runs (sqlDeleteUploadIntervals sid db) = Inr db1"
    and db': "db' = sqlTouchUploadSessionExpiry expires sid db1"
    using run by (auto simp: RecordUploadInterval_def db_Write_Inr bind_r_eq_Inr split: option.splits if_splits)
  from insert_runs_rows [OF ins ok]
  have db1: "db1 = (sqlDeleteUploadIntervals sid db)\<lparr>interval_rows :=
      interval_rows (sqlDeleteUploadIntervals sid db) @ map (run_row sid) runs\<rparr>"
    and le: "\<forall>r\<in>set runs. fst r \<le> max_i64 \<and> snd r \<le> max_i64"
    by (auto simp: sqlDeleteUploadIntervals_def)
  show rows: "interval_rows db' = filter (\<lambda>r. IV_Session r \<noteq> sid) (interval_rows db) @ map (run_row sid) runs"
    and "session_rows db' = map (\<lambda>r. if US_ID r = sid then r\<lparr>US_ExpiresNs := expires\<rparr> else r) (session_rows db)"
    and "user_rows db' = user_rows db"
    by (simp_all add: db' db1 sqlTouchUploadSessionExpiry_def sqlDeleteUploadIntervals_def)
  have "sorted (map IV_Lo (map (run_row sid) runs))"
    using ok by (auto simp: runs_ok_def sorted_wrt_map comp_def elim!: sorted_wrt_mono_rel [rotated])
  then have "sort_key IV_Lo (map (run_row sid) runs) = map (run_row sid) runs"
    by (rule sort_key_id_if_sorted)
  then have "sqlReadUploadIntervals sid db' = map (run_row sid) runs"
    by (simp add: sqlReadUploadIntervals_def rows filter_empty_conv)
  then show "ReadUploadIntervals sid db' = Inr runs"
    using ok le by (simp add: ReadUploadIntervals_def scan_run_rows runs_ok_def)
qed

lemma Record_other:
  assumes run: "RecordUploadInterval sid runs expires db = (Inr (), db')" and ok: "runs_ok runs" and "sid' \<noteq> sid"
  shows "ReadUploadSession sid' db' = ReadUploadSession sid' db" "ReadUploadIntervals sid' db' = ReadUploadIntervals sid' db"
proof -
  have "find (\<lambda>r. US_ID r = sid') (session_rows db') = find (\<lambda>r. US_ID r = sid') (session_rows db)"
    using assms(3) unfolding Record_cases(2) [OF run ok]
    by (simp add: find_map_row) (auto simp: find_Some_iff intro!: map_option_idI)
  then show "ReadUploadSession sid' db' = ReadUploadSession sid' db"
    by (simp add: ReadUploadSession_def sqlReadUploadSession_def)
  have "filter (\<lambda>r. IV_Session r = sid') (interval_rows db') = filter (\<lambda>r. IV_Session r = sid') (interval_rows db)"
    using assms(3) by (auto simp: Record_cases(1) [OF run ok] filter_empty_conv intro: filter_cong)
  then show "ReadUploadIntervals sid' db' = ReadUploadIntervals sid' db"
    by (simp add: ReadUploadIntervals_def sqlReadUploadIntervals_def)
qed

lemma Record_session:
  assumes run: "RecordUploadInterval sid runs expires db = (Inr (), db')" and ok: "runs_ok runs"
    and "ReadUploadSession sid db = Inr s"
  shows "ReadUploadSession sid db' = Inr (s\<lparr>US_ExpiresNs := expires\<rparr>)"
proof -
  obtain r where r: "find (\<lambda>r. US_ID r = sid) (session_rows db) = Some r" and scan: "scanUploadSession r = Inr s"
    using assms(3) by (auto simp: ReadUploadSession_def sqlReadUploadSession_def split: option.splits)
  have "US_ID r = sid" using r by (auto simp: find_Some_iff)
  then have "find (\<lambda>r. US_ID r = sid) (session_rows db') = Some (r\<lparr>US_ExpiresNs := expires\<rparr>)"
    unfolding Record_cases(2) [OF run ok] by (simp add: find_map_row r)
  moreover have "scanUploadSession (r\<lparr>US_ExpiresNs := expires\<rparr>) = Inr (s\<lparr>US_ExpiresNs := expires\<rparr>)"
    using scan by (auto simp: scanUploadSession_def bind_r_eq_Inr with_names_def)
  ultimately show ?thesis by (simp add: ReadUploadSession_def sqlReadUploadSession_def)
qed

end
