(* ===== verification/Sc_Upload.thy ===== *)
theory Sc_Upload
  imports Sc_UploadDb Sc_Write
begin

unbundle bit_operations_syntax

text \<open>
  The resumable-upload engine, \<open>internal/uploads\<close>: sessions (\<open>session.go\<close>, \<open>store.go\<close>,
  \<open>engine.go\<close>), the offset-addressed write path (\<open>spool.go\<close>) and publication
  (\<open>finalize.go\<close>). The deployment modelled has no cache spool (\<open>Options.CacheDir\<close> empty), so
  the branches behind \<open>e.cache\<close> are absent.

  Interval sets, session ids, the lifecycle table and digests belong to other modules and are
  arguments; so are the calls on part files that \<open>driver\<close> does not have. A time is read once per
  operation and is its argument \<open>now\<close>; a random name is an argument as well, with no value for
  a failing source. Warnings are not modelled.
\<close>

section \<open>Errors\<close>

datatype upload_error =
    UBadRequest
  | UNotFound
  | UDestMissing
  | UOffsetConflict int int
  | UTooLarge
  | UChunkTooSmall int int
  | UChecksum
  | UVerify
  | USessionExpired
  | USessionState
  | UIncomplete "(int \<times> int) list"
  | UFragmented
  | UExhausted string
  | UExceeded string int int
  | UAliasTaken string
  | UFiles files_error
  | UState state_error
  | UVfs vfs_error
  | UNarrow int
  | UTransfer
  | UShortCopy
  | UNoBytes
  | UReadFailed
  | UQuota core_error
  | UCanceled
  | UShareGone

definition up_mapVFSErr :: "vfs_error \<Rightarrow> upload_error" where
  "up_mapVFSErr err =
     (case err of
        VNotFound \<Rightarrow> UNotFound
      | VNoSpace \<Rightarrow> UExhausted ''free space on the destination filesystem''
      | e \<Rightarrow> UVfs e)"

section \<open>The modules the engine is built on\<close>

text \<open>A set of received ranges, half open, bounded in its number of disjoint runs.\<close>

record 'set intervals =
  iv_New :: 'set
  iv_Full :: "int \<Rightarrow> 'set"
  iv_Load :: "(int \<times> int) list \<Rightarrow> 'set option"
  iv_Insert :: "int \<Rightarrow> int \<Rightarrow> 'set \<Rightarrow> 'set option"
  iv_Runs :: "'set \<Rightarrow> (int \<times> int) list"
  iv_Count :: "'set \<Rightarrow> int"
  iv_ContiguousPrefix :: "'set \<Rightarrow> int"
  iv_Received :: "'set \<Rightarrow> int"
  iv_IsComplete :: "int \<Rightarrow> 'set \<Rightarrow> bool"
  iv_Missing :: "int \<Rightarrow> 'set \<Rightarrow> (int \<times> int) list"

text \<open>A session id is its bytes; \<open>tl_String\<close> is its spelling. Digests are of a whole text.\<close>

record transfer_lib =
  tl_FromBytes :: "string \<Rightarrow> string option"
  tl_String :: "string \<Rightarrow> string"
  tl_Transition :: "session_state \<Rightarrow> session_state \<Rightarrow> session_state option"
  tl_ValidateDigest :: "algo \<Rightarrow> nat \<Rightarrow> bool"
  tl_Digest :: "algo \<Rightarrow> string \<Rightarrow> string"

datatype read_end = ReadOk | ReadEOF | ReadErr vfs_error

record 'fs part_ops =
  po_CreatePart :: "share_root \<Rightarrow> safe_path \<Rightarrow> 'fs \<Rightarrow> vfs_error option \<times> 'fs"
  po_OpenWrite :: "share_root \<Rightarrow> safe_path \<Rightarrow> 'fs \<Rightarrow> vfs_error option"
  po_Truncate :: "share_root \<Rightarrow> safe_path \<Rightarrow> int \<Rightarrow> 'fs \<Rightarrow> vfs_error option \<times> 'fs"
  po_WriteAt :: "share_root \<Rightarrow> safe_path \<Rightarrow> string \<Rightarrow> int \<Rightarrow> 'fs \<Rightarrow> (nat \<times> vfs_error option) \<times> 'fs"
  po_ReadAt :: "share_root \<Rightarrow> safe_path \<Rightarrow> int \<Rightarrow> int \<Rightarrow> 'fs \<Rightarrow> string \<times> read_end"
  po_CopyRange :: "share_root \<Rightarrow> safe_path \<Rightarrow> int \<Rightarrow> safe_path \<Rightarrow> int \<Rightarrow> int \<Rightarrow> 'fs \<Rightarrow> (vfs_error, int) result \<times> 'fs"
  po_SyncData :: "share_root \<Rightarrow> safe_path \<Rightarrow> 'fs \<Rightarrow> vfs_error option"
  po_Close :: "share_root \<Rightarrow> safe_path \<Rightarrow> 'fs \<Rightarrow> vfs_error option"
  po_SetTimes :: "share_root \<Rightarrow> safe_path \<Rightarrow> int \<Rightarrow> 'fs \<Rightarrow> 'fs"
  po_Space :: "share_root \<Rightarrow> safe_path \<Rightarrow> 'fs \<Rightarrow> (int \<times> int) option"
  po_ReadDirAll :: "share_root \<Rightarrow> safe_path \<Rightarrow> 'fs \<Rightarrow> (vfs_error, string list) result"

record ('fs, 'set) upload_env =
  ue_files :: "'fs files_env"
  ue_parts :: "'fs part_ops"
  ue_sets :: "'set intervals"
  ue_lib :: transfer_lib

abbreviation ue_driver :: "('fs, 'set) upload_env \<Rightarrow> 'fs driver" where
  "ue_driver E \<equiv> fe_driver (ue_files E)"

section \<open>The engine's state\<close>

text \<open>
  A gate is the writer barrier of one session: the writers admitted and not yet released, whether
  admission is closed, the generation a lease is compared with, whether the terminal token is
  free, and how many callers hold a reference. A gate nobody refers to is dropped, and the next
  caller gets a fresh one.
\<close>

record gate =
  g_active :: nat
  g_closing :: bool
  g_terminal :: bool
  g_terminalActive :: bool
  g_generation :: nat
  g_references :: nat

definition newWriterBarrier :: gate where
  "newWriterBarrier = \<lparr>g_active = 0, g_closing = False, g_terminal = True, g_terminalActive = False,
     g_generation = 0, g_references = 0\<rparr>"

record settings =
  minBytes :: int
  defaultBytes :: int
  overridden :: bool

record 'fs engine =
  en_world :: "'fs world"
  en_gates :: "string \<Rightarrow> gate"
  en_handles :: "string set"
  en_settings :: settings
  en_closed :: bool

abbreviation en_fs :: "'fs engine \<Rightarrow> 'fs" where "en_fs e \<equiv> w_fs (en_world e)"

abbreviation en_db :: "'fs engine \<Rightarrow> state_db" where "en_db e \<equiv> k_db (w_core (en_world e))"

definition set_fs :: "'fs \<Rightarrow> 'fs engine \<Rightarrow> 'fs engine" where
  "set_fs fs e = e\<lparr>en_world := (en_world e)\<lparr>w_fs := fs\<rparr>\<rparr>"

definition set_db :: "state_db \<Rightarrow> 'fs engine \<Rightarrow> 'fs engine" where
  "set_db db e = e\<lparr>en_world := ledger (\<lambda>_. db) (en_world e)\<rparr>"

definition set_gate :: "string \<Rightarrow> gate \<Rightarrow> 'fs engine \<Rightarrow> 'fs engine" where
  "set_gate sid g e = e\<lparr>en_gates := (en_gates e)(sid := g)\<rparr>"

definition up_db ::
  "(state_db \<Rightarrow> (state_error, 'a) result \<times> state_db) \<Rightarrow> 'fs engine \<Rightarrow> (upload_error, 'a) result \<times> 'fs engine" where
  "up_db f e =
     (case f (en_db e) of
        (Inl x, db) \<Rightarrow> (Inl (UState x), set_db db e)
      | (Inr a, db) \<Rightarrow> (Inr a, set_db db e))"

section \<open>Limits\<close>

definition UploadReservedBytesPerUser :: int where "UploadReservedBytesPerUser = 107374182400"
definition UploadFreeSpaceMargin :: int where "UploadFreeSpaceMargin = 2147483648"
definition UploadFreeSpaceMarginDivisor :: int where "UploadFreeSpaceMarginDivisor = 20"
definition UploadSessionsPerUser :: int where "UploadSessionsPerUser = 256"
definition UploadChunkFloor :: int where "UploadChunkFloor = 5242880"
definition UploadSessionTTL :: int where "UploadSessionTTL = 86400000000000"

definition expiry :: "int \<Rightarrow> int" where
  "expiry now = wrap_i64 (now + UploadSessionTTL)"

section \<open>Rows\<close>

record 'set up_row =
  rw_sess :: upload_session
  rw_set :: 'set

definition row_dest :: "'enc text_library \<Rightarrow> 'set up_row \<Rightarrow> (upload_error, safe_path) result" where
  "row_dest T r = (case ParseSafePath T (US_Dest (rw_sess r)) of Inl e \<Rightarrow> Inl (UVfs (VPath e)) | Inr p \<Rightarrow> Inr p)"

definition row_totalLen :: "'set up_row \<Rightarrow> int option" where
  "row_totalLen r =
     (case US_TotalLen (rw_sess r) of
        None \<Rightarrow> None
      | Some n \<Rightarrow> Narrow (Unsigned 64) (Signed 64) n)"

definition row_verify :: "'set up_row \<Rightarrow> (algo \<times> string) option" where
  "row_verify r =
     (case US_Verify (rw_sess r) of
        None \<Rightarrow> None
      | Some a \<Rightarrow> if US_VerifyDigest (rw_sess r) = [] then None else Some (a, US_VerifyDigest (rw_sess r)))"

definition rowOf :: "('fs, 'set) upload_env \<Rightarrow> upload_session \<Rightarrow> state_db \<Rightarrow> (upload_error, 'set up_row) result" where
  "rowOf E s db =
     (case ReadUploadIntervals (US_ID s) db of
        Inl x \<Rightarrow> Inl (UState x)
      | Inr rs \<Rightarrow>
          (case iv_Load (ue_sets E) rs of
             None \<Rightarrow> Inl UTransfer
           | Some ivs \<Rightarrow> Inr \<lparr>rw_sess = s, rw_set = ivs\<rparr>))"

definition load :: "('fs, 'set) upload_env \<Rightarrow> string \<Rightarrow> 'fs engine \<Rightarrow> (upload_error, 'set up_row) result" where
  "load E sid e =
     (case ReadUploadSession sid (en_db e) of
        Inl x \<Rightarrow> Inl (if x = ErrNoSuchUploadSession then UNotFound else UState x)
      | Inr s \<Rightarrow> rowOf E s (en_db e))"

definition save :: "'set up_row \<Rightarrow> 'fs engine \<Rightarrow> (upload_error, unit) result \<times> 'fs engine" where
  "save r = up_db (UpdateUploadSession (rw_sess r))"

definition commitRange ::
  "('fs, 'set) upload_env \<Rightarrow> int \<Rightarrow> 'set up_row \<Rightarrow> 'fs engine \<Rightarrow> (upload_error, 'set up_row) result \<times> 'fs engine" where
  "commitRange E now r e =
     (case up_db (RecordUploadInterval (US_ID (rw_sess r)) (iv_Runs (ue_sets E) (rw_set r)) (expiry now)) e of
        (Inl x, e') \<Rightarrow> (Inl x, e')
      | (Inr _, e') \<Rightarrow> (Inr (r\<lparr>rw_sess := (rw_sess r)\<lparr>US_ExpiresNs := expiry now\<rparr>\<rparr>), e'))"

definition effectiveState :: "int \<Rightarrow> 'set up_row \<Rightarrow> session_state" where
  "effectiveState now r =
     (if US_State (rw_sess r) = StateReceiving \<and> now > US_ExpiresNs (rw_sess r) then StateExpired
      else US_State (rw_sess r))"

definition requireOwner :: "'set up_row \<Rightarrow> int \<Rightarrow> upload_error option" where
  "requireOwner r user = (if US_User (rw_sess r) \<noteq> user then Some UNotFound else None)"

definition requireReceiving :: "int \<Rightarrow> 'set up_row \<Rightarrow> upload_error option" where
  "requireReceiving now r =
     (case effectiveState now r of
        StateReceiving \<Rightarrow> None
      | StateExpired \<Rightarrow> Some USessionExpired
      | StateAborted \<Rightarrow> Some USessionExpired
      | _ \<Rightarrow> Some USessionState)"

definition shareIDOf :: "int \<Rightarrow> int option" where
  "shareIDOf v = Narrow (Unsigned 32) (Signed 64) v"

definition partName :: "transfer_lib \<Rightarrow> string \<Rightarrow> string" where
  "partName L sid = ''.scpart-'' @ tl_String L sid"

definition spoolDirName :: "transfer_lib \<Rightarrow> string \<Rightarrow> string" where
  "spoolDirName L sid = ''.scpart-'' @ tl_String L sid @ ''.d''"

definition partPath :: "safe_path \<Rightarrow> string \<Rightarrow> (upload_error, safe_path) result" where
  "partPath dest name = (case JoinControl (SafePath_Parent dest) name of Inl e \<Rightarrow> Inl (UVfs (VPath e)) | Inr p \<Rightarrow> Inr p)"

definition partPathOf :: "'enc text_library \<Rightarrow> 'set up_row \<Rightarrow> (upload_error, safe_path) result" where
  "partPathOf T r = bind_r (row_dest T r) (\<lambda>dest. partPath dest (US_PartName (rw_sess r)))"

section \<open>Writer admission\<close>

definition writerFor :: "string \<Rightarrow> 'fs engine \<Rightarrow> 'fs engine" where
  "writerFor sid e = (let g = en_gates e sid in set_gate sid (g\<lparr>g_references := Suc (g_references g)\<rparr>) e)"

definition releaseWriter :: "string \<Rightarrow> 'fs engine \<Rightarrow> 'fs engine" where
  "releaseWriter sid e =
     (let g = en_gates e sid; n = g_references g - 1 in
      set_gate sid (if n = 0 then newWriterBarrier else g\<lparr>g_references := n\<rparr>) e)"

text \<open>A lease is the generation it was admitted under.\<close>

definition admitWriter :: "string \<Rightarrow> 'fs engine \<Rightarrow> nat option \<times> 'fs engine" where
  "admitWriter sid e =
     (if en_closed e then (None, e)
      else (let e1 = writerFor sid e; g = en_gates e1 sid in
        if g_closing g then (None, releaseWriter sid e1)
        else (Some (g_generation g), set_gate sid (g\<lparr>g_active := Suc (g_active g)\<rparr>) e1)))"

definition lease_valid :: "string \<Rightarrow> nat \<Rightarrow> 'fs engine \<Rightarrow> bool" where
  "lease_valid sid gen e \<longleftrightarrow> \<not> g_closing (en_gates e sid) \<and> g_generation (en_gates e sid) = gen"

definition lease_release :: "string \<Rightarrow> 'fs engine \<Rightarrow> 'fs engine" where
  "lease_release sid e =
     (let g = en_gates e sid in releaseWriter sid (set_gate sid (g\<lparr>g_active := g_active g - 1\<rparr>) e))"

text \<open>
  Closing the gate takes the terminal token and closes admission; then it waits for the admitted
  writers. A caller whose context ends while it waits undoes what it did.
\<close>

definition gate_enter :: "string \<Rightarrow> bool \<Rightarrow> 'fs engine \<Rightarrow> (nat \<times> bool) \<times> 'fs engine" where
  "gate_enter sid terminal e =
     (let e1 = writerFor sid e; g = en_gates e1 sid; owner = (\<not> g_closing g);
          gen = (if owner then Suc (g_generation g) else g_generation g)
      in ((gen, owner), set_gate sid (g\<lparr>g_terminal := False, g_terminalActive := terminal,
            g_closing := True, g_generation := gen\<rparr>) e1))"

definition reopenWriters :: "string \<Rightarrow> nat \<Rightarrow> 'fs engine \<Rightarrow> 'fs engine" where
  "reopenWriters sid gen e =
     (let g = en_gates e sid in
      if g_closing g \<and> g_generation g = gen
      then set_gate sid (g\<lparr>g_closing := False, g_generation := Suc (g_generation g)\<rparr>) e else e)"

definition finishWriters :: "string \<Rightarrow> 'fs engine \<Rightarrow> 'fs engine" where
  "finishWriters sid e =
     (let g = en_gates e sid in releaseWriter sid (set_gate sid (g\<lparr>g_terminalActive := False, g_terminal := True\<rparr>) e))"

definition closeWriterGate :: "string \<Rightarrow> bool \<Rightarrow> 'fs engine \<Rightarrow> (nat \<times> bool) option \<times> 'fs engine" where
  "closeWriterGate sid terminal e =
     (if \<not> g_terminal (en_gates e sid) then (None, e)
      else (case gate_enter sid terminal e of ((gen, owner), e1) \<Rightarrow>
        if g_active (en_gates e1 sid) = 0 then (Some (gen, owner), e1)
        else (None, finishWriters sid (if owner then reopenWriters sid gen e1 else e1))))"

section \<open>Descriptors\<close>

definition handleFor ::
  "('fs, 'set) upload_env \<Rightarrow> share_root \<Rightarrow> string \<Rightarrow> safe_path \<Rightarrow> 'fs engine \<Rightarrow> upload_error option \<times> 'fs engine" where
  "handleFor E root sid part e =
     (if sid \<in> en_handles e then (None, e)
      else (case po_OpenWrite (ue_parts E) root part (en_fs e) of
        Some x \<Rightarrow> (Some (up_mapVFSErr x), e)
      | None \<Rightarrow> (None, e\<lparr>en_handles := insert sid (en_handles e)\<rparr>)))"

definition closeHandle :: "string \<Rightarrow> 'fs engine \<Rightarrow> 'fs engine" where
  "closeHandle sid e = e\<lparr>en_handles := en_handles e - {sid}\<rparr>"

definition unlink_at :: "('fs, 'set) upload_env \<Rightarrow> share_root \<Rightarrow> safe_path \<Rightarrow> 'fs engine \<Rightarrow> vfs_error option \<times> 'fs engine" where
  "unlink_at E root p e = (case drv_Unlink (ue_driver E) root p (en_fs e) of (x, fs) \<Rightarrow> (x, set_fs fs e))"

section \<open>Opening a session\<close>

record session_spec =
  sp_TotalLen :: "int option"
  sp_ChunkSize :: "int option"
  sp_RandomAccess :: bool
  sp_Mode :: spool_mode
  sp_IfMatch :: string
  sp_Filename :: string
  sp_MtimeNs :: "int option"
  sp_Mime :: string
  sp_RelativePath :: string
  sp_Verify :: "(algo \<times> string) option"

definition checkAccountLimits :: "int \<Rightarrow> int option \<Rightarrow> 'fs engine \<Rightarrow> upload_error option" where
  "checkAccountLimits user total_len e =
     (case CountUploadSessionsForUser user (en_db e) of
        Inl x \<Rightarrow> Some (UState x)
      | Inr inflight \<Rightarrow>
          if inflight \<ge> UploadSessionsPerUser then Some (UExhausted ''sessions in flight for this account'')
          else (case SumUploadReservedForUser user (en_db e) of
            Inl x \<Rightarrow> Some (UState x)
          | Inr reserved \<Rightarrow>
              (case Narrow (Unsigned 64) (Signed 64) reserved of
                 None \<Rightarrow> Some (UNarrow reserved)
               | Some n \<Rightarrow>
                   (let want = (case total_len of None \<Rightarrow> n | Some t \<Rightarrow> wrap_u64 (n + t)) in
                    if want > UploadReservedBytesPerUser then Some (UExhausted ''reserved upload bytes for this account'')
                    else None))))"

definition freeSpaceMargin :: "int \<Rightarrow> int" where
  "freeSpaceMargin capacity =
     (if capacity = 0 then UploadFreeSpaceMargin
      else if capacity div UploadFreeSpaceMarginDivisor < UploadFreeSpaceMargin then capacity div UploadFreeSpaceMarginDivisor
      else UploadFreeSpaceMargin)"

definition checkFreeSpace ::
  "('fs, 'set) upload_env \<Rightarrow> share_root \<Rightarrow> safe_path \<Rightarrow> int option \<Rightarrow> 'fs engine \<Rightarrow> upload_error option" where
  "checkFreeSpace E root dir total_len e =
     (case po_Space (ue_parts E) root dir (en_fs e) of
        None \<Rightarrow> None
      | Some (capacity, available) \<Rightarrow>
          (let margin = freeSpaceMargin capacity;
               need = (case total_len of None \<Rightarrow> margin | Some t \<Rightarrow> wrap_u64 (margin + t))
           in if available < need then Some (UExhausted ''free space on the destination filesystem'') else None))"

definition discardPart :: "('fs, 'set) upload_env \<Rightarrow> share_root \<Rightarrow> safe_path \<Rightarrow> 'fs engine \<Rightarrow> 'fs engine" where
  "discardPart E root part e = snd (unlink_at E root part e)"

definition createPart ::
  "('fs, 'set) upload_env \<Rightarrow> share_root \<Rightarrow> safe_path \<Rightarrow> int option \<Rightarrow> 'fs engine \<Rightarrow> upload_error option \<times> 'fs engine" where
  "createPart E root part total_len e =
     (case po_CreatePart (ue_parts E) root part (en_fs e) of
        (Some x, fs) \<Rightarrow> (Some (if x = VNotFound then UDestMissing else up_mapVFSErr x), set_fs fs e)
      | (None, fs) \<Rightarrow>
          (let e1 = set_fs fs e in
           case total_len of
             None \<Rightarrow> (None, e1)
           | Some t \<Rightarrow>
               (case Narrow (Signed 64) (Unsigned 64) t of
                  None \<Rightarrow> (Some UBadRequest, discardPart E root part e1)
                | Some n \<Rightarrow>
                    (case po_Truncate (ue_parts E) root part n (en_fs e1) of
                       (Some x, fs2) \<Rightarrow> (Some (up_mapVFSErr x), discardPart E root part (set_fs fs2 e1))
                     | (None, fs2) \<Rightarrow> (None, set_fs fs2 e1)))))"

definition newRow ::
  "('fs, 'set) upload_env \<Rightarrow> int \<Rightarrow> string \<Rightarrow> resolved \<Rightarrow> session_spec \<Rightarrow> 'fs engine \<Rightarrow> (upload_error, upload_session) result" where
  "newRow E now sid r spec e =
     (case (Narrow (Signed 64) (Unsigned 64) (minBytes (en_settings e)),
            Narrow (Signed 64) (Unsigned 64) (defaultBytes (en_settings e))) of
        (Some floor_n, Some default_n) \<Rightarrow>
          (case (case sp_ChunkSize spec of
                   Some c \<Rightarrow> Narrow (Signed 64) (Unsigned 64) c
                 | None \<Rightarrow> Some (if sp_Mode spec = SpoolNameOrdered then 0 else default_n)) of
             None \<Rightarrow> Inl UBadRequest
           | Some chunk \<Rightarrow>
               (let row = (\<lambda>len. \<lparr>US_ID = sid, US_User = r_user r, US_Share = r_share r, US_Dest = SafePath_String (r_path r),
                      US_PartName = partName (ue_lib E) sid,
                      US_SpoolDir = (if sp_Mode spec = SpoolNameOrdered then spoolDirName (ue_lib E) sid else []),
                      US_CacheDir = [], US_CacheMerged = 0, US_Mode = sp_Mode spec, US_TotalLen = len,
                      US_ChunkSize = chunk, US_ChunkMin = floor_n, US_RandomAccess = sp_RandomAccess spec,
                      US_NextName = 1, US_WriteHead = 0, US_SpooledNames = [], US_IfMatch = sp_IfMatch spec,
                      US_Filename = sp_Filename spec, US_MtimeNs = sp_MtimeNs spec, US_Mime = sp_Mime spec,
                      US_RelativePath = sp_RelativePath spec,
                      US_Verify = map_option fst (sp_Verify spec),
                      US_VerifyDigest = (case sp_Verify spec of None \<Rightarrow> [] | Some v \<Rightarrow> snd v),
                      US_CreatedNs = now, US_ExpiresNs = expiry now, US_State = StateReceiving\<rparr>)
                in case sp_TotalLen spec of
                     None \<Rightarrow> Inr (row None)
                   | Some t \<Rightarrow>
                       (case Narrow (Signed 64) (Unsigned 64) t of
                          None \<Rightarrow> Inl UBadRequest
                        | Some n \<Rightarrow> Inr (row (Some n)))))
      | _ \<Rightarrow> Inl UBadRequest)"

text \<open>The caller-facing shape of a session.\<close>

record session =
  s_ID :: string
  s_User :: int
  s_Share :: int
  s_Dest :: safe_path
  s_State :: session_state
  s_Offset :: int
  s_TotalLen :: "int option"
  s_Received :: int
  s_ChunkSize :: int
  s_RunCount :: int
  s_RandomAccess :: bool
  s_Mode :: spool_mode
  s_ExpiresNs :: int

definition session_of :: "'enc text_library \<Rightarrow> ('fs, 'set) upload_env \<Rightarrow> int \<Rightarrow> 'set up_row \<Rightarrow> (upload_error, session) result" where
  "session_of T E now r =
     (let s = rw_sess r; I = ue_sets E in
      case tl_FromBytes (ue_lib E) (US_ID s) of
        None \<Rightarrow> Inl UTransfer
      | Some sid \<Rightarrow>
          bind_r (row_dest T r) (\<lambda>dest.
            case shareIDOf (US_Share s) of
              None \<Rightarrow> Inl UTransfer
            | Some share \<Rightarrow>
                (case Narrow (Unsigned 64) (Signed 64) (US_ChunkSize s) of
                   None \<Rightarrow> Inl (UNarrow (US_ChunkSize s))
                 | Some chunk \<Rightarrow>
                     (let view = (\<lambda>received. \<lparr>s_ID = sid, s_User = US_User s, s_Share = share, s_Dest = dest,
                            s_State = effectiveState now r, s_Offset = iv_ContiguousPrefix I (rw_set r),
                            s_TotalLen = row_totalLen r, s_Received = received, s_ChunkSize = chunk,
                            s_RunCount = iv_Count I (rw_set r), s_RandomAccess = US_RandomAccess s, s_Mode = US_Mode s,
                            s_ExpiresNs = US_ExpiresNs s\<rparr>)
                      in if US_Mode s = SpoolNameOrdered \<and> iv_Count I (rw_set r) = 0
                         then (case Narrow (Unsigned 64) (Signed 64) (US_WriteHead s) of
                           None \<Rightarrow> Inl (UNarrow (US_WriteHead s))
                         | Some head \<Rightarrow> Inr (view head))
                         else Inr (view (iv_Received I (rw_set r)))))))"

definition Create_session ::
  "'enc text_library \<Rightarrow> ('fs, 'set) upload_env \<Rightarrow> int \<Rightarrow> string option \<Rightarrow> resolved \<Rightarrow> session_spec \<Rightarrow> 'fs engine \<Rightarrow>
     (upload_error, session) result \<times> 'fs engine" where
  "Create_session T E now minted r spec e =
     (case Require r (Write OR Create) of
        Some x \<Rightarrow> (Inl (UFiles x), e)
      | None \<Rightarrow>
          if SafePath_IsRoot (r_path r) then (Inl UBadRequest, e)
          else (case checkAccountLimits (r_user r) (sp_TotalLen spec) e of
            Some x \<Rightarrow> (Inl x, e)
          | None \<Rightarrow>
          (case checkFreeSpace E (r_root r) (SafePath_Parent (r_path r)) (sp_TotalLen spec) e of
            Some x \<Rightarrow> (Inl x, e)
          | None \<Rightarrow>
            if (case sp_Verify spec of None \<Rightarrow> False
                | Some (a, digest) \<Rightarrow> \<not> tl_ValidateDigest (ue_lib E) a (length digest)) then (Inl UBadRequest, e)
            else (case minted of
              None \<Rightarrow> (Inl UTransfer, e)
            | Some sid \<Rightarrow>
                (case partPath (r_path r) (partName (ue_lib E) sid) of
                   Inl x \<Rightarrow> (Inl x, e)
                 | Inr part \<Rightarrow>
                     (case createPart E (r_root r) part (sp_TotalLen spec) e of
                        (Some x, e1) \<Rightarrow> (Inl x, e1)
                      | (None, e1) \<Rightarrow>
                          (let e2 = snd (up_db (TouchUploadDir (r_share r) (SafePath_String (SafePath_Parent (r_path r)))) e1) in
                           case newRow E now sid r spec e2 of
                             Inl x \<Rightarrow> (Inl x, discardPart E (r_root r) part e2)
                           | Inr s \<Rightarrow>
                               (case up_db (CreateUploadSession s) e2 of
                                  (Inl x, e3) \<Rightarrow> (Inl x, discardPart E (r_root r) part e3)
                                | (Inr _, e3) \<Rightarrow>
                                    (let e4 = e3\<lparr>en_handles := insert sid (en_handles e3)\<rparr> in
                                     (session_of T E now \<lparr>rw_sess = s, rw_set = iv_New (ue_sets E)\<rparr>, e4))))))))))"

definition Get_session ::
  "'enc text_library \<Rightarrow> ('fs, 'set) upload_env \<Rightarrow> int \<Rightarrow> string \<Rightarrow> int \<Rightarrow> 'fs engine \<Rightarrow> (upload_error, session) result" where
  "Get_session T E now sid user e =
     bind_r (load E sid e) (\<lambda>r. case requireOwner r user of Some x \<Rightarrow> Inl x | None \<Rightarrow> session_of T E now r)"

definition Offset ::
  "'enc text_library \<Rightarrow> ('fs, 'set) upload_env \<Rightarrow> int \<Rightarrow> string \<Rightarrow> int \<Rightarrow> 'fs engine \<Rightarrow> (upload_error, int) result" where
  "Offset T E now sid user e = bind_r (Get_session T E now sid user e) (\<lambda>s. Inr (s_Offset s))"

definition SetLength ::
  "('fs, 'set) upload_env \<Rightarrow> int \<Rightarrow> string \<Rightarrow> int \<Rightarrow> int \<Rightarrow> 'fs engine \<Rightarrow> (upload_error, unit) result \<times> 'fs engine" where
  "SetLength E now sid user len e =
     (case load E sid e of
        Inl x \<Rightarrow> (Inl x, e)
      | Inr r \<Rightarrow>
          (case requireOwner r user of
             Some x \<Rightarrow> (Inl x, e)
           | None \<Rightarrow>
          (case requireReceiving now r of
             Some x \<Rightarrow> (Inl x, e)
           | None \<Rightarrow>
          (case row_totalLen r of
             Some have \<Rightarrow> if have \<noteq> len then (Inl UBadRequest, e) else (Inr (), e)
           | None \<Rightarrow>
               if iv_Runs (ue_sets E) (rw_set r) \<noteq> [] \<and> snd (last (iv_Runs (ue_sets E) (rw_set r))) > len
               then (Inl UBadRequest, e)
               else (case Narrow (Signed 64) (Unsigned 64) len of
                 None \<Rightarrow> (Inl UBadRequest, e)
               | Some n \<Rightarrow>
                   save (r\<lparr>rw_sess := (rw_sess r)\<lparr>US_TotalLen := Some n, US_ExpiresNs := expiry now\<rparr>\<rparr>) e)))))"

section \<open>Bodies\<close>

text \<open>
  A request body: what its reads return, and whether the end of the body comes with the last
  bytes, in a read of its own, or as a failure. A session without a declared length reads
  through \<open>quotaBoundReader\<close>, whose state is the bytes already received, those read and those
  admitted.
\<close>

datatype body_end = EofApart | EofWithLast | BodyFails

datatype read_status = RMore | REof | RFailed | RQuota core_error

record reader =
  rd_chunks :: "string list"
  rd_end :: body_end
  rd_quota :: "(int \<times> int \<times> int) option"

definition src_Read :: "int option \<Rightarrow> reader \<Rightarrow> (string \<times> read_status) \<times> reader" where
  "src_Read room rd =
     (case rd_chunks rd of
        [] \<Rightarrow> (([], if rd_end rd = BodyFails then RFailed else REof), rd)
      | c # cs \<Rightarrow>
          if room \<noteq> None \<and> int (length c) > the room
          then ((take (nat (the room)) c, RMore), rd\<lparr>rd_chunks := drop (nat (the room)) c # cs\<rparr>)
          else ((c, if cs = [] \<and> rd_end rd = EofWithLast then REof else RMore), rd\<lparr>rd_chunks := cs\<rparr>))"

definition quotaStep :: nat where "quotaStep = 8388608"

function quota_admit ::
  "state_db quota_sink option \<Rightarrow> int \<Rightarrow> int \<Rightarrow> int \<Rightarrow> nat \<Rightarrow> state_db \<Rightarrow> (core_error, int) result \<times> state_db" where
  "quota_admit q user base got step db =
     (if step = 0 then (Inl ErrQuotaExceeded, db)
      else (case CheckQuota q user (wrap_u64 (base + got + int step)) db of
        (None, db') \<Rightarrow> (Inr (wrap_u64 (got + int step)), db')
      | (Some x, db') \<Rightarrow>
          if x = ErrQuotaExceeded then quota_admit q user base got (step div 2) db' else (Inl x, db')))"
  by pat_completeness auto
termination by (relation "measure (\<lambda>(_, _, _, _, step, _). step)") auto

declare quota_admit.simps [simp del]

definition reader_Read :: "('fs, 'set) upload_env \<Rightarrow> int \<Rightarrow> reader \<Rightarrow> 'fs engine \<Rightarrow> (string \<times> read_status) \<times> reader \<times> 'fs engine" where
  "reader_Read E user rd e =
     (case rd_quota rd of
        None \<Rightarrow> (case src_Read None rd of (x, rd') \<Rightarrow> (x, rd', e))
      | Some (base, got, allowed) \<Rightarrow>
          (let admitted = (if got \<ge> allowed then quota_admit (fe_quota (ue_files E)) user base got quotaStep (en_db e)
                           else (Inr allowed, en_db e))
           in case admitted of
                (Inl x, db) \<Rightarrow> (([], RQuota x), rd, set_db db e)
              | (Inr allowed', db) \<Rightarrow>
                  (case src_Read (Some (allowed' - got)) rd of ((data, st), rd') \<Rightarrow>
                     ((data, st), rd'\<lparr>rd_quota := Some (base, got + int (length data), allowed')\<rparr>, set_db db e))))"

definition reader_size :: "reader \<Rightarrow> nat" where
  "reader_size rd = length (concat (rd_chunks rd))"

lemma src_Read_size: "src_Read room rd = ((data, st), rd') \<Longrightarrow> reader_size rd = length data + reader_size rd'"
  by (auto simp: src_Read_def reader_size_def split: list.splits if_splits)

lemma reader_Read_size: "reader_Read E user rd e = ((data, st), rd', e') \<Longrightarrow> reader_size rd = length data + reader_size rd'"
  by (auto simp: reader_Read_def Let_def reader_size_def split: option.splits prod.splits sum.splits
      dest!: src_Read_size)

section \<open>Checks on arriving bytes\<close>

definition validateOffset :: "('fs, 'set) upload_env \<Rightarrow> 'set up_row \<Rightarrow> int \<Rightarrow> upload_error option" where
  "validateOffset E r off =
     (if US_RandomAccess (rw_sess r) then None
      else (let expected = iv_ContiguousPrefix (ue_sets E) (rw_set r) in
        if off \<noteq> expected then Some (UOffsetConflict expected off) else None))"

definition checkWithinDeclared :: "'set up_row \<Rightarrow> int \<Rightarrow> int \<Rightarrow> upload_error option" where
  "checkWithinDeclared r off written =
     (case row_totalLen r of
        None \<Rightarrow> None
      | Some len \<Rightarrow>
          (let end_at = wrap_u64 (off + written) in
           if end_at < off then Some UBadRequest
           else if end_at > len then Some UTooLarge
           else None))"

definition checkChunkFloor :: "'set up_row \<Rightarrow> int \<Rightarrow> int \<Rightarrow> upload_error option" where
  "checkChunkFloor r off n =
     (if n = 0 \<or> US_Mode (rw_sess r) = SpoolNameOrdered then None
      else (case Narrow (Unsigned 64) (Signed 64) (US_ChunkMin (rw_sess r)) of
        None \<Rightarrow> None
      | Some floor_n \<Rightarrow>
          if floor_n = 0 then None
          else if (case row_totalLen r of None \<Rightarrow> False | Some len \<Rightarrow> wrap_u64 (off + n) = len \<or> len < floor_n) \<or> n \<ge> floor_n
          then None else Some (UChunkTooSmall floor_n n)))"

definition constantTimeEqual :: "string \<Rightarrow> string \<Rightarrow> bool" where
  "constantTimeEqual a b \<longleftrightarrow> a \<noteq> [] \<and> b \<noteq> [] \<and> a = b"

definition verifyChunkChecksum :: "(algo \<times> string) option \<Rightarrow> string option \<Rightarrow> upload_error option" where
  "verifyChunkChecksum chk digest =
     (if chk = None \<or> digest = None \<or> constantTimeEqual (the digest) (snd (the chk)) then None else Some UChecksum)"

section \<open>Staging\<close>

function writeAllAt ::
  "'fs part_ops \<Rightarrow> share_root \<Rightarrow> safe_path \<Rightarrow> string \<Rightarrow> int \<Rightarrow> 'fs \<Rightarrow> upload_error option \<times> 'fs" where
  "writeAllAt P root p b off fs =
     (if b = [] then (None, fs)
      else (case Narrow (Signed 64) (Unsigned 64) off of
        None \<Rightarrow> (Some (UNarrow off), fs)
      | Some at \<Rightarrow>
          (case po_WriteAt P root p b at fs of ((n, werr), fs') \<Rightarrow>
             if n = 0 \<and> werr = None then (Some UNoBytes, fs')
             else (case werr of
               Some x \<Rightarrow> (Some (up_mapVFSErr x), fs')
             | None \<Rightarrow> writeAllAt P root p (drop n b) (wrap_u64 (off + int n)) fs'))))"
  by pat_completeness auto
termination by (relation "measure (\<lambda>(_, _, _, b, _, _). length b)") auto

declare writeAllAt.simps [simp del]

text \<open>The copy loop of \<open>writeBodyAt\<close>: every read is bounded, written and digested in turn.\<close>

function write_body ::
  "('fs, 'set) upload_env \<Rightarrow> int \<Rightarrow> share_root \<Rightarrow> safe_path \<Rightarrow> int \<Rightarrow> 'set up_row \<Rightarrow> reader \<Rightarrow> int \<Rightarrow> string \<Rightarrow> 'fs engine \<Rightarrow>
     (upload_error, int \<times> string) result \<times> 'fs engine" where
  "write_body E user root p logical r rd written digested e =
     (case reader_Read E user rd e of ((data, st), rd', e1) \<Rightarrow>
        if data = [] then
          (case st of
             RFailed \<Rightarrow> (Inl UReadFailed, e1)
           | RQuota x \<Rightarrow> (Inl (UQuota x), e1)
           | _ \<Rightarrow> (Inr (written, digested), e1))
        else
          (let written' = wrap_u64 (written + int (length data)) in
           case checkWithinDeclared r logical written' of
             Some x \<Rightarrow> (Inl x, e1)
           | None \<Rightarrow>
               (case writeAllAt (ue_parts E) root p data written (en_fs e1) of
                  (Some x, fs) \<Rightarrow> (Inl x, set_fs fs e1)
                | (None, fs) \<Rightarrow>
                    (case st of
                       RMore \<Rightarrow> write_body E user root p logical r rd' written' (digested @ data) (set_fs fs e1)
                     | REof \<Rightarrow> (Inr (written', digested @ data), set_fs fs e1)
                     | RFailed \<Rightarrow> (Inl UReadFailed, set_fs fs e1)
                     | RQuota x \<Rightarrow> (Inl (UQuota x), set_fs fs e1)))))"
  by pat_completeness auto
termination
  by (relation "measure (\<lambda>(_, _, _, _, _, _, rd, _, _, _). reader_size rd)") (auto dest!: reader_Read_size [OF sym])

declare write_body.simps [simp del]

definition writeBodyAt ::
  "('fs, 'set) upload_env \<Rightarrow> int \<Rightarrow> share_root \<Rightarrow> safe_path \<Rightarrow> int \<Rightarrow> 'set up_row \<Rightarrow> (algo \<times> string) option \<Rightarrow> reader \<Rightarrow> 'fs engine \<Rightarrow>
     (upload_error, int \<times> string option) result \<times> 'fs engine" where
  "writeBodyAt E user root p logical r chk rd e =
     (if (case chk of None \<Rightarrow> False | Some (a, digest) \<Rightarrow> \<not> tl_ValidateDigest (ue_lib E) a (length digest))
      then (Inl UBadRequest, e)
      else (case write_body E user root p logical r rd 0 [] e of
        (Inl x, e1) \<Rightarrow> (Inl x, e1)
      | (Inr (n, digested), e1) \<Rightarrow>
          (case checkChunkFloor r logical n of
             Some x \<Rightarrow> (Inl x, e1)
           | None \<Rightarrow> (Inr (n, map_option (\<lambda>c. tl_Digest (ue_lib E) (fst c) digested) chk), e1))))"

definition stagingName :: "transfer_lib \<Rightarrow> string \<Rightarrow> string" where
  "stagingName L rid = ''.scpart-w'' @ tl_String L rid"

definition stageBody ::
  "('fs, 'set) upload_env \<Rightarrow> string option \<Rightarrow> int \<Rightarrow> share_root \<Rightarrow> safe_path \<Rightarrow> int \<Rightarrow> 'set up_row \<Rightarrow> (algo \<times> string) option \<Rightarrow>
     reader \<Rightarrow> 'fs engine \<Rightarrow> (upload_error, safe_path \<times> int) result \<times> 'fs engine" where
  "stageBody E rid user root dir logical r chk rd e =
     (case rid of
        None \<Rightarrow> (Inl UTransfer, e)
      | Some i \<Rightarrow>
          (case JoinControl dir (stagingName (ue_lib E) i) of
             Inl x \<Rightarrow> (Inl (UVfs (VPath x)), e)
           | Inr stage \<Rightarrow>
               (case po_CreatePart (ue_parts E) root stage (en_fs e) of
                  (Some x, fs) \<Rightarrow> (Inl (up_mapVFSErr x), set_fs fs e)
                | (None, fs) \<Rightarrow>
                    (let give_up = (\<lambda>x e'. (Inl x, snd (unlink_at E root stage e'))) in
                     case writeBodyAt E user root stage logical r chk rd (set_fs fs e) of
                       (Inl x, e1) \<Rightarrow> give_up x e1
                     | (Inr (n, digest), e1) \<Rightarrow>
                         (case verifyChunkChecksum chk digest of
                            Some x \<Rightarrow> give_up x e1
                          | None \<Rightarrow>
                              (case po_SyncData (ue_parts E) root stage (en_fs e1) of
                                 Some x \<Rightarrow> give_up (up_mapVFSErr x) e1
                               | None \<Rightarrow>
                                   (case po_Close (ue_parts E) root stage (en_fs e1) of
                                      Some x \<Rightarrow> give_up (up_mapVFSErr x) e1
                                    | None \<Rightarrow> (Inr (stage, n), e1))))))))"

definition commitStagedAt ::
  "('fs, 'set) upload_env \<Rightarrow> share_root \<Rightarrow> string \<Rightarrow> safe_path \<Rightarrow> safe_path \<Rightarrow> int \<Rightarrow> int \<Rightarrow> 'fs engine \<Rightarrow>
     upload_error option \<times> 'fs engine" where
  "commitStagedAt E root sid part stage off n e =
     (case drv_OpenRead (ue_driver E) root stage (en_fs e) of
        Inl x \<Rightarrow> (Some (up_mapVFSErr x), e)
      | Inr _ \<Rightarrow>
          (case handleFor E root sid part e of
             (Some x, e1) \<Rightarrow> (Some x, e1)
           | (None, e1) \<Rightarrow>
               (case po_CopyRange (ue_parts E) root stage 0 part off n (en_fs e1) of
                  (Inl x, fs) \<Rightarrow> (Some (up_mapVFSErr x), set_fs fs e1)
                | (Inr copied, fs) \<Rightarrow>
                    if copied \<noteq> n then (Some UShortCopy, set_fs fs e1)
                    else (case po_SyncData (ue_parts E) root part fs of
                      Some x \<Rightarrow> (Some (up_mapVFSErr x), set_fs fs e1)
                    | None \<Rightarrow> (None, snd (unlink_at E root stage (set_fs fs e1)))))))"

section \<open>Patching\<close>

text \<open>
  A patch is three steps: the checks under the row lock with the admission of the writer, the
  staging of the body without any lock, and the commit under the row lock. Bytes of several
  writers interleave between them.
\<close>

definition patch_begin ::
  "'enc text_library \<Rightarrow> ('fs, 'set) upload_env \<Rightarrow> int \<Rightarrow> string \<Rightarrow> int \<Rightarrow> int \<Rightarrow> 'fs engine \<Rightarrow>
     (upload_error, 'set up_row \<times> safe_path \<times> nat) result \<times> 'fs engine" where
  "patch_begin T E now sid user off e =
     (case load E sid e of
        Inl x \<Rightarrow> (Inl x, e)
      | Inr r \<Rightarrow>
          (case requireOwner r user of
             Some x \<Rightarrow> (Inl x, e)
           | None \<Rightarrow>
          (case requireReceiving now r of
             Some x \<Rightarrow> (Inl x, e)
           | None \<Rightarrow>
             if US_Mode (rw_sess r) \<noteq> SpoolOffsetAddressed then (Inl UBadRequest, e)
             else (case validateOffset E r off of
               Some x \<Rightarrow> (Inl x, e)
             | None \<Rightarrow>
                 (case admitWriter sid e of
                    (None, e1) \<Rightarrow> (Inl USessionState, e1)
                  | (Some lease, e1) \<Rightarrow>
                      (case partPathOf T r of
                         Inl x \<Rightarrow> (Inl x, lease_release sid e1)
                       | Inr part \<Rightarrow> (Inr (r, part, lease), e1)))))))"

definition patch_reader :: "('fs, 'set) upload_env \<Rightarrow> 'set up_row \<Rightarrow> string list \<Rightarrow> body_end \<Rightarrow> reader" where
  "patch_reader E r chunks ending =
     \<lparr>rd_chunks = chunks, rd_end = ending,
      rd_quota = (if row_totalLen r = None then Some (iv_Received (ue_sets E) (rw_set r), 0, 0) else None)\<rparr>"

definition patch_commit ::
  "('fs, 'set) upload_env \<Rightarrow> int \<Rightarrow> share_root \<Rightarrow> string \<Rightarrow> safe_path \<Rightarrow> nat \<Rightarrow> int \<Rightarrow> safe_path \<Rightarrow> int \<Rightarrow> 'fs engine \<Rightarrow>
     (upload_error, int) result \<times> 'fs engine" where
  "patch_commit E now root sid part lease off stage n e =
     (if \<not> lease_valid sid lease e then (Inl USessionState, e)
      else (case load E sid e of
        Inl x \<Rightarrow> (Inl x, e)
      | Inr fresh \<Rightarrow>
          (case requireReceiving now fresh of
             Some x \<Rightarrow> (Inl x, e)
           | None \<Rightarrow>
          (case (if n > 0
                 then (case iv_Load (ue_sets E) (iv_Runs (ue_sets E) (rw_set fresh)) of
                     None \<Rightarrow> Inl UTransfer
                   | Some ivs \<Rightarrow>
                       (case iv_Insert (ue_sets E) off (wrap_u64 (off + n)) ivs of
                          None \<Rightarrow> Inl UFragmented
                        | Some ivs' \<Rightarrow> Inr ivs'))
                 else Inr (rw_set fresh)) of
             Inl x \<Rightarrow> (Inl x, e)
           | Inr ivs \<Rightarrow>
               (case (if n > 0 then commitStagedAt E root sid part stage off n e else (None, e)) of
                  (Some x, e1) \<Rightarrow> (Inl x, e1)
                | (None, e1) \<Rightarrow>
                    (case commitRange E now (fresh\<lparr>rw_set := ivs\<rparr>) e1 of
                       (Inl x, e2) \<Rightarrow> (Inl x, e2)
                     | (Inr r, e2) \<Rightarrow> (Inr (iv_ContiguousPrefix (ue_sets E) (rw_set r)), e2)))))))"

definition PatchAt ::
  "'enc text_library \<Rightarrow> ('fs, 'set) upload_env \<Rightarrow> int \<Rightarrow> string option \<Rightarrow> share_root \<Rightarrow> string \<Rightarrow> int \<Rightarrow> int \<Rightarrow> string list \<Rightarrow>
     body_end \<Rightarrow> (algo \<times> string) option \<Rightarrow> 'fs engine \<Rightarrow> (upload_error, int) result \<times> 'fs engine" where
  "PatchAt T E now rid root sid user off chunks ending chk e =
     (case patch_begin T E now sid user off e of
        (Inl x, e1) \<Rightarrow> (Inl x, e1)
      | (Inr (r, part, lease), e1) \<Rightarrow>
          (case stageBody E rid user root (SafePath_Parent part) off r chk (patch_reader E r chunks ending) e1 of
             (Inl x, e2) \<Rightarrow> (Inl x, lease_release sid e2)
           | (Inr (stage, n), e2) \<Rightarrow>
               (case patch_commit E now root sid part lease off stage n e2 of (res, e3) \<Rightarrow>
                  (res, lease_release sid (snd (unlink_at E root stage e3))))))"

section \<open>Publication\<close>

definition verifyBufBytes :: int where "verifyBufBytes = 262144"

function verify_loop ::
  "'fs part_ops \<Rightarrow> share_root \<Rightarrow> safe_path \<Rightarrow> int \<Rightarrow> int \<Rightarrow> string \<Rightarrow> 'fs \<Rightarrow> (upload_error, int \<times> string) result" where
  "verify_loop P root p len at digested fs =
     (if at < len then
        (case Narrow (Signed 64) (Unsigned 64) at of
           None \<Rightarrow> Inl (UNarrow at)
         | Some off \<Rightarrow>
             (case po_ReadAt P root p (min verifyBufBytes (len - at)) off fs of (data, st) \<Rightarrow>
                (case st of
                   ReadErr x \<Rightarrow> Inl (UVfs x)
                 | ReadEOF \<Rightarrow> Inr (at + int (length data), digested @ data)
                 | ReadOk \<Rightarrow>
                     if data = [] then Inr (at, digested)
                     else verify_loop P root p len (at + int (length data)) (digested @ data) fs)))
      else Inr (at, digested))"
  by pat_completeness auto
termination by (relation "measure (\<lambda>(_, _, _, len, at, _, _). nat (len - at))") auto

declare verify_loop.simps [simp del]

definition VerifyWholeFile ::
  "('fs, 'set) upload_env \<Rightarrow> share_root \<Rightarrow> safe_path \<Rightarrow> algo \<times> string \<Rightarrow> int \<Rightarrow> 'fs \<Rightarrow> upload_error option" where
  "VerifyWholeFile E root p v len fs =
     (if \<not> tl_ValidateDigest (ue_lib E) (fst v) (length (snd v)) then Some UVerify
      else (case verify_loop (ue_parts E) root p len 0 [] fs of
        Inl x \<Rightarrow> Some x
      | Inr (at, digested) \<Rightarrow>
          if at \<noteq> len then Some UVerify
          else if \<not> constantTimeEqual (tl_Digest (ue_lib E) (fst v) digested) (snd v) then Some UVerify
          else None))"

definition checkIfMatch :: "('fs, 'set) upload_env \<Rightarrow> resolved \<Rightarrow> string \<Rightarrow> 'fs engine \<Rightarrow> upload_error option" where
  "checkIfMatch E r ifMatch e =
     (if ifMatch = [] then None
      else (case drv_Stat (ue_driver E) (r_root r) (r_path r) (en_fs e) of
        Inl x \<Rightarrow> Some (if x = VNotFound then UFiles (ErrPrecondition []) else up_mapVFSErr x)
      | Inr st \<Rightarrow> Some (UFiles (ErrPrecondition (fst (FileETag (fe_sum256 (ue_files E)) st))))))"

definition syncAndClose ::
  "('fs, 'set) upload_env \<Rightarrow> share_root \<Rightarrow> 'set up_row \<Rightarrow> safe_path \<Rightarrow> 'fs engine \<Rightarrow> upload_error option \<times> 'fs engine" where
  "syncAndClose E root rw part e =
     (case tl_FromBytes (ue_lib E) (US_ID (rw_sess rw)) of
        None \<Rightarrow> (Some UTransfer, e)
      | Some sid \<Rightarrow>
          (case handleFor E root sid part e of
             (Some x, e1) \<Rightarrow> (Some x, e1)
           | (None, e1) \<Rightarrow>
               (case po_SyncData (ue_parts E) root part (en_fs e1) of
                  Some x \<Rightarrow> (Some (up_mapVFSErr x), e1)
                | None \<Rightarrow> (None, closeHandle sid e1))))"

definition publish ::
  "'enc text_library \<Rightarrow> ('fs, 'set) upload_env \<Rightarrow> resolved \<Rightarrow> 'set up_row \<Rightarrow> safe_path \<Rightarrow> 'fs engine \<Rightarrow>
     (upload_error, entry) result \<times> 'fs engine" where
  "publish T E r rw part e =
     (case checkIfMatch E r (US_IfMatch (rw_sess rw)) e of
        Some x \<Rightarrow> (Inl x, e)
      | None \<Rightarrow>
          (case syncAndClose E (r_root r) rw part e of
             (Some x, e1) \<Rightarrow> (Inl x, e1)
           | (None, e1) \<Rightarrow>
               (let e2 = (case US_MtimeNs (rw_sess rw) of
                      None \<Rightarrow> e1
                    | Some t \<Rightarrow> set_fs (po_SetTimes (ue_parts E) (r_root r) part t (en_fs e1)) e1)
                in case PublishPart T (ue_files E) r part (US_IfMatch (rw_sess rw)) (en_world e2) of
                     (Inl x, w) \<Rightarrow> (Inl (UFiles x), e2\<lparr>en_world := w\<rparr>)
                   | (Inr entry, w) \<Rightarrow> (Inr entry, e2\<lparr>en_world := w\<rparr>))))"

text \<open>What a failed publication leaves: the session receives again.\<close>

definition restore_receiving ::
  "('fs, 'set) upload_env \<Rightarrow> int \<Rightarrow> 'set up_row \<Rightarrow> (upload_error, 'a) result \<times> 'fs engine \<Rightarrow> (upload_error, 'a) result \<times> 'fs engine" where
  "restore_receiving E now rw out =
     (case out of (res, e) \<Rightarrow>
        if US_State (rw_sess rw) \<noteq> StateFinalizing then (res, e)
        else (case tl_Transition (ue_lib E) StateFinalizing StateReceiving of
          None \<Rightarrow> (case res of Inl x \<Rightarrow> Inl x | Inr _ \<Rightarrow> Inl USessionState, e)
        | Some st \<Rightarrow>
            (case save (rw\<lparr>rw_sess := (rw_sess rw)\<lparr>US_State := st, US_ExpiresNs := expiry now\<rparr>\<rparr>) e of
               (Inl y, e1) \<Rightarrow> (case res of Inl x \<Rightarrow> Inl x | Inr _ \<Rightarrow> Inl y, e1)
             | (Inr _, e1) \<Rightarrow> (res, e1))))"

definition retire ::
  "('fs, 'set) upload_env \<Rightarrow> string \<Rightarrow> 'set up_row \<Rightarrow> 'fs engine \<Rightarrow> 'set up_row \<times> 'fs engine" where
  "retire E sid rw e =
     (let rw1 = (case tl_Transition (ue_lib E) (US_State (rw_sess rw)) StateDone of
                   None \<Rightarrow> rw
                 | Some st \<Rightarrow> rw\<lparr>rw_sess := (rw_sess rw)\<lparr>US_State := st\<rparr>\<rparr>);
          e1 = snd (save rw1 e)
      in (rw1, snd (up_db (DeleteUploadSession sid) (closeHandle sid e1))))"

text \<open>The part of \<open>finalize\<close> behind the mark: verify, publish, retire the row; any failure undoes the mark.\<close>

definition publish_session ::
  "'enc text_library \<Rightarrow> ('fs, 'set) upload_env \<Rightarrow> int \<Rightarrow> resolved \<Rightarrow> string \<Rightarrow> 'set up_row \<Rightarrow> int \<Rightarrow> 'fs engine \<Rightarrow>
     (upload_error, entry) result \<times> 'fs engine" where
  "publish_session T E now r sid rw len e =
     (case partPathOf T rw of
        Inl x \<Rightarrow> restore_receiving E now rw (Inl x, e)
      | Inr part \<Rightarrow>
          (case (case row_verify rw of
                   None \<Rightarrow> (None, e)
                 | Some v \<Rightarrow>
                     (case handleFor E (r_root r) sid part e of
                        (Some x, e1) \<Rightarrow> (Some x, e1)
                      | (None, e1) \<Rightarrow> (VerifyWholeFile E (r_root r) part v len (en_fs e1), e1))) of
             (Some x, e1) \<Rightarrow> restore_receiving E now rw (Inl x, e1)
           | (None, e1) \<Rightarrow>
               (case publish T E r rw part e1 of
                  (Inl x, e2) \<Rightarrow> restore_receiving E now rw (Inl x, e2)
                | (Inr entry, e2) \<Rightarrow>
                    (case retire E sid rw e2 of (rw', e3) \<Rightarrow> restore_receiving E now rw' (Inr entry, e3)))))"

definition finalize ::
  "'enc text_library \<Rightarrow> ('fs, 'set) upload_env \<Rightarrow> int \<Rightarrow> resolved \<Rightarrow> string \<Rightarrow> 'fs engine \<Rightarrow>
     (upload_error, entry) result \<times> 'fs engine" where
  "finalize T E now r sid e =
     (case load E sid e of
        Inl x \<Rightarrow> (Inl x, e)
      | Inr rw \<Rightarrow>
          (case requireOwner rw (r_user r) of
             Some x \<Rightarrow> (Inl x, e)
           | None \<Rightarrow>
          (case Require r (Write OR Create) of
             Some x \<Rightarrow> (Inl (UFiles x), e)
           | None \<Rightarrow>
          (case row_dest T rw of
             Inl x \<Rightarrow> (Inl x, e)
           | Inr dest \<Rightarrow>
             if dest \<noteq> r_path r then (Inl UBadRequest, e)
             else if effectiveState now rw \<noteq> StateReceiving \<and> effectiveState now rw \<noteq> StateFinalizing then (Inl USessionState, e)
             else (case row_totalLen rw of
               None \<Rightarrow> (Inl UBadRequest, e)
             | Some len \<Rightarrow>
                 if \<not> iv_IsComplete (ue_sets E) len (rw_set rw) then (Inl (UIncomplete (iv_Missing (ue_sets E) len (rw_set rw))), e)
                 else (case tl_Transition (ue_lib E) (US_State (rw_sess rw)) StateFinalizing of
                   None \<Rightarrow> (Inl USessionState, e)
                 | Some st \<Rightarrow>
                     (let rw1 = rw\<lparr>rw_sess := (rw_sess rw)\<lparr>US_State := st\<rparr>\<rparr> in
                      case save rw1 e of
                        (Inl x, e1) \<Rightarrow> (Inl x, e1)
                      | (Inr _, e1) \<Rightarrow> publish_session T E now r sid rw1 len e1)))))))"

definition Finalize ::
  "'enc text_library \<Rightarrow> ('fs, 'set) upload_env \<Rightarrow> int \<Rightarrow> resolved \<Rightarrow> string \<Rightarrow> 'fs engine \<Rightarrow>
     (upload_error, entry) result \<times> 'fs engine" where
  "Finalize T E now r sid e =
     (case closeWriterGate sid True e of
        (None, e1) \<Rightarrow> (Inl UCanceled, e1)
      | (Some (gen, owner), e1) \<Rightarrow>
          (case finalize T E now r sid e1 of (res, e2) \<Rightarrow>
             (res, finishWriters sid (if isl res \<and> owner then reopenWriters sid gen e2 else e2))))"

section \<open>Aborting\<close>

definition removeSpoolDir :: "('fs, 'set) upload_env \<Rightarrow> share_root \<Rightarrow> safe_path \<Rightarrow> 'fs engine \<Rightarrow> 'fs engine" where
  "removeSpoolDir E root dir e =
     (case po_ReadDirAll (ue_parts E) root dir (en_fs e) of
        Inl _ \<Rightarrow> e
      | Inr names \<Rightarrow>
          (let e1 = fold (\<lambda>name e'. case JoinControl dir name of Inl _ \<Rightarrow> e' | Inr child \<Rightarrow> snd (unlink_at E root child e')) names e
           in set_fs (snd (drv_Rmdir (ue_driver E) root dir (en_fs e1))) e1))"

definition removeAbortedSession ::
  "'enc text_library \<Rightarrow> ('fs, 'set) upload_env \<Rightarrow> upload_session \<Rightarrow> 'fs engine \<Rightarrow> (upload_error, unit) result \<times> 'fs engine" where
  "removeAbortedSession T E s e =
     (case shareIDOf (US_Share s) of
        None \<Rightarrow> (Inl UShareGone, e)
      | Some share \<Rightarrow>
          (case ShareRoot (w_core (en_world e)) share of
             None \<Rightarrow> (Inl UShareGone, e)
           | Some root \<Rightarrow>
               (case ParseSafePath T (US_Dest s) of
                  Inl x \<Rightarrow> (Inl (UVfs (VPath x)), e)
                | Inr dest \<Rightarrow>
                    (case partPath dest (US_PartName s) of
                       Inl x \<Rightarrow> (Inl x, e)
                     | Inr part \<Rightarrow>
                         (case unlink_at E root part e of (x, e1) \<Rightarrow>
                            if x \<noteq> None \<and> x \<noteq> Some VNotFound then (Inl (up_mapVFSErr (the x)), e1)
                            else (let e2 = (if US_SpoolDir s = [] then e1
                                     else (case JoinControl (SafePath_Parent dest) (US_SpoolDir s) of
                                       Inl _ \<Rightarrow> e1
                                     | Inr dir \<Rightarrow> removeSpoolDir E root dir e1))
                                  in up_db (DeleteUploadSession (US_ID s)) e2))))))"

definition Abort ::
  "'enc text_library \<Rightarrow> ('fs, 'set) upload_env \<Rightarrow> int \<Rightarrow> string \<Rightarrow> int \<Rightarrow> 'fs engine \<Rightarrow> (upload_error, unit) result \<times> 'fs engine" where
  "Abort T E now sid user e =
     (case closeWriterGate sid True e of
        (None, e1) \<Rightarrow> (Inl UCanceled, e1)
      | (Some (gen, owner), e1) \<Rightarrow>
          (let done = (\<lambda>terminal res e'. (res, finishWriters sid (if \<not> terminal \<and> owner then reopenWriters sid gen e' else e'))) in
           case load E sid e1 of
             Inl x \<Rightarrow> done (x = UNotFound) (Inl x) e1
           | Inr r \<Rightarrow>
               (case requireOwner r user of
                  Some x \<Rightarrow> done False (Inl x) e1
                | None \<Rightarrow>
                    if US_State (rw_sess r) = StateDone then done True (Inl UNotFound) e1
                    else (case tl_Transition (ue_lib E) (US_State (rw_sess r)) StateAborted of
                      None \<Rightarrow> done False (Inl USessionState) e1
                    | Some st \<Rightarrow>
                        (let s = (rw_sess r)\<lparr>US_State := st, US_ExpiresNs := now\<rparr> in
                         case save (r\<lparr>rw_sess := s\<rparr>) e1 of
                           (Inl x, e2) \<Rightarrow> done False (Inl x) e2
                         | (Inr _, e2) \<Rightarrow>
                             (case removeAbortedSession T E s (closeHandle sid e2) of (res, e3) \<Rightarrow> done True res e3))))))"

end
