(* ===== verification/Sc_UploadParts.thy ===== *)
theory Sc_UploadParts
  imports Sc_Upload
begin

unbundle bit_operations_syntax

text \<open>
  What the operations of the upload engine do to one session: the laws of the modules the engine
  is built on (calls on part files in terms of the names of the tree, the meaning of an interval
  set), the state \<open>receives\<close> of a session whose part file agrees with a given file on every
  recorded range, and the lemmas that staging, committing, a refused and a successful publication
  relate that state to the tree before and after.
\<close>

section \<open>Part files\<close>

definition overlay :: "nat \<Rightarrow> string \<Rightarrow> string \<Rightarrow> string" where
  "overlay at d s = (if d = [] then s else take at s @ replicate (at - length s) nul @ d @ drop (at + length d) s)"

definition resize :: "nat \<Rightarrow> string \<Rightarrow> string" where
  "resize n s = take n s @ replicate (n - length s) nul"

definition part_writes :: "'fs part_ops \<Rightarrow> ('fs \<Rightarrow> tree) \<Rightarrow> bool" where
  "part_writes P view \<longleftrightarrow>
     (\<forall>r p fs e fs'. po_CreatePart P r p fs = (e, fs') \<longrightarrow>
        (case e of
           None \<Rightarrow> view fs (SR_ID r) (sf_comps p) = None \<and> view fs' = put (SR_ID r) (sf_comps p) (Some (Leaf [])) (view fs)
         | Some _ \<Rightarrow> view fs' = view fs)) \<and>
     (\<forall>r p n fs e fs'. po_Truncate P r p n fs = (e, fs') \<longrightarrow>
        (case e of
           None \<Rightarrow> (\<exists>s. view fs (SR_ID r) (sf_comps p) = Some (Leaf s) \<and>
                        view fs' = put (SR_ID r) (sf_comps p) (Some (Leaf (resize (nat n) s))) (view fs))
         | Some _ \<Rightarrow> view fs' = view fs)) \<and>
     (\<forall>r p b at fs n e fs' s. po_WriteAt P r p b at fs = ((n, e), fs') \<longrightarrow> 0 \<le> at \<longrightarrow>
        view fs (SR_ID r) (sf_comps p) = Some (Leaf s) \<longrightarrow>
        n \<le> length b \<and> view fs' = put (SR_ID r) (sf_comps p) (Some (Leaf (overlay (nat at) (take n b) s))) (view fs)) \<and>
     (\<forall>r p t fs. view (po_SetTimes P r p t fs) = view fs)"

text \<open>A copy moves a prefix of what was asked for, all of it when it reports as much.\<close>

definition part_copies :: "'fs part_ops \<Rightarrow> ('fs \<Rightarrow> tree) \<Rightarrow> bool" where
  "part_copies P view \<longleftrightarrow>
     (\<forall>r src from dst at n fs res fs' a b. po_CopyRange P r src from dst at n fs = (res, fs') \<longrightarrow>
        0 \<le> from \<longrightarrow> 0 \<le> at \<longrightarrow> 0 \<le> n \<longrightarrow> src \<noteq> dst \<longrightarrow>
        view fs (SR_ID r) (sf_comps src) = Some (Leaf a) \<longrightarrow> view fs (SR_ID r) (sf_comps dst) = Some (Leaf b) \<longrightarrow>
        (\<exists>k. k \<le> length a - nat from \<and> int k \<le> n \<and> (\<forall>c. res = Inr c \<longrightarrow> c = int k) \<and>
          view fs' = put (SR_ID r) (sf_comps dst) (Some (Leaf (overlay (nat at) (take k (drop (nat from) a)) b))) (view fs)))"

definition part_laws :: "'fs part_ops \<Rightarrow> ('fs \<Rightarrow> tree) \<Rightarrow> bool" where
  "part_laws P view \<longleftrightarrow> part_writes P view \<and> part_copies P view"

lemma put_same [simp]: "put share p n t share p = n"
  by (simp add: put_def)

lemma put_other [simp]: "(share', p') \<noteq> (share, p) \<Longrightarrow> put share p n t share' p' = t share' p'"
  by (auto simp: put_def)

lemma put_twice [simp]: "put share p n (put share p m t) = put share p n t"
  by (auto simp: put_def)

lemma overlay_end: "overlay (length s) d s = s @ d"
  by (simp add: overlay_def)

lemma CreatePart_law:
  assumes "part_laws P view" and "po_CreatePart P r p fs = (e, fs')"
  shows "e = None \<Longrightarrow> view fs (SR_ID r) (sf_comps p) = None \<and> view fs' = put (SR_ID r) (sf_comps p) (Some (Leaf [])) (view fs)"
    and "e \<noteq> None \<Longrightarrow> view fs' = view fs"
  using assms unfolding part_laws_def part_writes_def by (fastforce split: option.splits)+

lemma Truncate_law:
  assumes "part_laws P view" and "po_Truncate P r p n fs = (None, fs')"
  shows "\<exists>s. view fs (SR_ID r) (sf_comps p) = Some (Leaf s) \<and>
           view fs' = put (SR_ID r) (sf_comps p) (Some (Leaf (resize (nat n) s))) (view fs)"
  using assms unfolding part_laws_def part_writes_def by fastforce

lemma WriteAt_law:
  assumes "part_laws P view" and "po_WriteAt P r p b at fs = ((n, e), fs')" and "0 \<le> at"
    and "view fs (SR_ID r) (sf_comps p) = Some (Leaf s)"
  shows "n \<le> length b" "view fs' = put (SR_ID r) (sf_comps p) (Some (Leaf (overlay (nat at) (take n b) s))) (view fs)"
  using assms unfolding part_laws_def part_writes_def by blast+

lemma SetTimes_law: "part_laws P view \<Longrightarrow> view (po_SetTimes P r p t fs) = view fs"
  by (simp add: part_laws_def part_writes_def)

lemma CopyRange_law:
  assumes "part_laws P view" and "po_CopyRange P r src from dst at n fs = (res, fs')" and "0 \<le> from" "0 \<le> at" "0 \<le> n" "src \<noteq> dst"
    and "view fs (SR_ID r) (sf_comps src) = Some (Leaf a)" "view fs (SR_ID r) (sf_comps dst) = Some (Leaf b)"
  obtains k where "k \<le> length a - nat from" "int k \<le> n" "\<And>c. res = Inr c \<Longrightarrow> c = int k"
    "view fs' = put (SR_ID r) (sf_comps dst) (Some (Leaf (overlay (nat at) (take k (drop (nat from) a)) b))) (view fs)"
  using assms unfolding part_laws_def part_copies_def by blast

section \<open>Staged bodies\<close>

lemma writeAllAt_appends:
  assumes "writeAllAt P root p b off fs = (None, fs')" and "part_laws P view"
    and "view fs (SR_ID root) (sf_comps p) = Some (Leaf s)" and "off = int (length s)"
    and "length s + length b < 2 ^ 63"
  shows "view fs' = put (SR_ID root) (sf_comps p) (Some (Leaf (s @ b))) (view fs)"
  using assms
proof (induction P root p b off fs arbitrary: s rule: writeAllAt.induct)
  case (1 P root p b off fs)
  note run = 1(2) and laws = 1(3) and at = 1(4) and off = 1(5) and small = 1(6)
  show ?case
  proof (cases "b = []")
    case True
    then show ?thesis using run at by (simp add: writeAllAt.simps put_def fun_eq_iff)
  next
    case False
    have nar: "Narrow (Signed 64) (Unsigned 64) off = Some off"
      using off small by (simp add: Narrow_i64 in_u64_def max_i64_def)
    obtain n werr fs1 where w: "po_WriteAt P root p b off fs = ((n, werr), fs1)" by (metis surj_pair)
    have ok: "werr = None" "n \<noteq> 0" and rest: "writeAllAt P root p (drop n b) (wrap_u64 (off + int n)) fs1 = (None, fs')"
      using run False by (simp_all add: writeAllAt.simps [of P root p b] nar w split: if_splits option.splits)
    have n: "n \<le> length b" and "view fs1 = put (SR_ID root) (sf_comps p) (Some (Leaf (overlay (length s) (take n b) s))) (view fs)"
      using WriteAt_law [where view = view, OF laws w _ at] off by auto
    then have v: "view fs1 = put (SR_ID root) (sf_comps p) (Some (Leaf (s @ take n b))) (view fs)"
      by (simp add: overlay_end)
    have off': "wrap_u64 (off + int n) = int (length (s @ take n b))"
      using n off small by (simp add: wrap_u64_id in_u64_def)
    have "view fs' = put (SR_ID root) (sf_comps p) (Some (Leaf ((s @ take n b) @ drop n b))) (view fs1)"
      using False nar w [symmetric] ok rest laws n off' small by (intro 1(1)) (auto simp: v)
    then show ?thesis by (simp add: v)
  qed
qed

lemma writeAllAt_leaf:
  assumes "writeAllAt P root p b off fs = (res, fs')" and "part_laws P view"
    and "view fs (SR_ID root) (sf_comps p) = Some (Leaf s)" and "in_u64 off"
  shows "\<exists>c. view fs' = put (SR_ID root) (sf_comps p) (Some (Leaf c)) (view fs)"
  using assms
proof (induction P root p b off fs arbitrary: s rule: writeAllAt.induct)
  case (1 P root p b off fs)
  note run = 1(2) and laws = 1(3) and at = 1(4) and off = 1(5)
  have self: "view fs = put (SR_ID root) (sf_comps p) (Some (Leaf s)) (view fs)"
    using at by (auto simp: put_def fun_eq_iff)
  show ?case
  proof (cases "b = [] \<or> max_i64 < off")
    case True
    then have "fs' = fs" using run off by (auto simp: writeAllAt.simps [of P root p b] Narrow_i64 split: if_splits)
    then show ?thesis using self by auto
  next
    case False
    have nar: "Narrow (Signed 64) (Unsigned 64) off = Some off" using off False by (simp add: Narrow_i64)
    obtain n werr fs1 where w: "po_WriteAt P root p b off fs = ((n, werr), fs1)" by (metis surj_pair)
    obtain c where v: "view fs1 = put (SR_ID root) (sf_comps p) (Some (Leaf c)) (view fs)"
      using WriteAt_law(2) [where view = view, OF laws w _ at] off by (auto simp: in_u64_def)
    show ?thesis
    proof (cases "werr = None \<and> n \<noteq> 0")
      case True
      then have "writeAllAt P root p (drop n b) (wrap_u64 (off + int n)) fs1 = (res, fs')"
        using run False by (simp add: writeAllAt.simps [of P root p b] nar w)
      then have "\<exists>c. view fs' = put (SR_ID root) (sf_comps p) (Some (Leaf c)) (view fs1)"
        using False nar w [symmetric] True laws by (intro 1(1)) (auto simp: v wrap_u64_in)
      then show ?thesis by (auto simp: v)
    next
      case F: False
      then have "fs' = fs1" using run False by (auto simp: writeAllAt.simps [of P root p b] nar w split: option.splits)
      then show ?thesis using v by auto
    qed
  qed
qed

text \<open>The ledger keeps its own rows apart from those of the uploads.\<close>

definition same_uploads :: "state_db \<Rightarrow> state_db \<Rightarrow> bool" where
  "same_uploads db db' \<longleftrightarrow> session_rows db' = session_rows db \<and> interval_rows db' = interval_rows db"

definition quota_apart :: "state_db quota_sink option \<Rightarrow> bool" where
  "quota_apart quota \<longleftrightarrow> (case quota of None \<Rightarrow> True | Some q \<Rightarrow>
     (\<forall>user n db. same_uploads db (snd (sink_Reserve q user n db)) \<and> same_uploads db (snd (sink_Release q user n db)) \<and>
        same_uploads db (snd (sink_Commit q user n db))))"

lemma same_uploads_refl [simp]: "same_uploads db db"
  by (simp add: same_uploads_def)

lemma same_uploads_trans: "same_uploads a b \<Longrightarrow> same_uploads b c \<Longrightarrow> same_uploads a c"
  by (simp add: same_uploads_def)

lemma same_uploads_read:
  "same_uploads db db' \<Longrightarrow> ReadUploadSession sid db' = ReadUploadSession sid db"
  "same_uploads db db' \<Longrightarrow> ReadUploadIntervals sid db' = ReadUploadIntervals sid db"
  by (simp_all add: same_uploads_def ReadUploadSession_def sqlReadUploadSession_def ReadUploadIntervals_def sqlReadUploadIntervals_def)

lemma sink_apart:
  assumes "quota_apart (Some q)"
  shows "same_uploads db (snd (sink_Reserve q user n db))" "same_uploads db (snd (sink_Release q user n db))"
    "same_uploads db (snd (sink_Commit q user n db))"
  using assms by (simp_all add: quota_apart_def)

lemma Reserve_apart: "quota_apart (Some q) \<Longrightarrow> sink_Reserve q user n db = (x, db') \<Longrightarrow> same_uploads db db'"
  using sink_apart(1) [of q db user n] by simp

lemma CheckQuota_apart: "quota_apart quota \<Longrightarrow> CheckQuota quota user n db = (x, db') \<Longrightarrow> same_uploads db db'"
  by (auto simp: CheckQuota_def split: option.splits prod.splits sum.splits if_splits
      dest: Reserve_apart intro: same_uploads_trans [OF Reserve_apart sink_apart(2)])

lemma quota_admit_apart:
  "quota_apart quota \<Longrightarrow> quota_admit quota user base got step db = (x, db') \<Longrightarrow> same_uploads db db'"
proof (induction quota user base got step db rule: quota_admit.induct)
  case (1 q user base got step db)
  obtain y db1 where c: "CheckQuota q user (wrap_u64 (base + got + int step)) db = (y, db1)" by (metis surj_pair)
  have db1: "same_uploads db db1" using CheckQuota_apart [OF 1(2) c] .
  show ?case
  proof (cases "step \<noteq> 0 \<and> y = Some ErrQuotaExceeded")
    case True
    then have "same_uploads db1 db'" using 1(1) [OF _ c [symmetric]] 1(2,3) by (auto simp: quota_admit.simps [of q user base got step] c)
    then show ?thesis using db1 by (rule same_uploads_trans [rotated])
  next
    case False
    then show ?thesis using 1(3) db1 by (auto simp: quota_admit.simps [of q user base got step] c split: if_splits option.splits)
  qed
qed

lemma engine_fields [simp]:
  "en_fs (set_fs fs e) = fs" "en_db (set_fs fs e) = en_db e" "en_fs (set_db db e) = en_fs e" "en_db (set_db db e) = db"
  "en_fs (set_gate sid g e) = en_fs e" "en_db (set_gate sid g e) = en_db e"
  by (simp_all add: set_fs_def set_db_def set_gate_def ledger_def)

lemma src_Read_data: "src_Read room rd = ((data, st), rd') \<Longrightarrow> concat (rd_chunks rd) = data @ concat (rd_chunks rd')"
  by (auto simp: src_Read_def split: list.splits if_splits)

lemma reader_Read_effect:
  assumes "reader_Read E user rd e = ((data, st), rd', e')" and "quota_apart (fe_quota (ue_files E))"
  shows "en_fs e' = en_fs e" "same_uploads (en_db e) (en_db e')" "concat (rd_chunks rd) = data @ concat (rd_chunks rd')"
  using assms
  by (auto simp: reader_Read_def Let_def split: option.splits prod.splits sum.splits if_splits
      dest: quota_admit_apart dest!: src_Read_data)

text \<open>What a staging step may do: change its own file, and the ledger.\<close>

definition stages :: "('fs \<Rightarrow> tree) \<Rightarrow> int \<Rightarrow> string list \<Rightarrow> 'fs engine \<Rightarrow> 'fs engine \<Rightarrow> bool" where
  "stages view share p e e' \<longleftrightarrow> same_uploads (en_db e) (en_db e') \<and>
     (\<exists>n. view (en_fs e') = put share p n (view (en_fs e)))"

lemma stages_trans: "stages view share p a b \<Longrightarrow> stages view share p b c \<Longrightarrow> stages view share p a c"
  by (auto simp: stages_def intro: same_uploads_trans)

lemma stages_refl: "stages view share p e e"
  unfolding stages_def by (auto simp: put_def intro: exI [of _ "view (en_fs e) share p"])

definition staged_text :: "('fs \<Rightarrow> tree) \<Rightarrow> int \<Rightarrow> string list \<Rightarrow> string \<Rightarrow> string \<Rightarrow> string \<Rightarrow> int \<times> string \<Rightarrow> 'fs engine \<Rightarrow> bool" where
  "staged_text view share p s body digested out e \<longleftrightarrow>
     (\<exists>d. prefix d body \<and> view (en_fs e) share p = Some (Leaf (s @ d)) \<and> out = (int (length (s @ d)), digested @ d))"

lemma write_body_effect:
  assumes "write_body E user root p logical r rd written digested e = (res, e')"
    and "part_laws (ue_parts E) view" and "quota_apart (fe_quota (ue_files E))"
    and "view (en_fs e) (SR_ID root) (sf_comps p) = Some (Leaf s)" and "written = int (length s)"
    and "length s + length (concat (rd_chunks rd)) < 2 ^ 63"
  shows "stages view (SR_ID root) (sf_comps p) e e' \<and>
    (\<forall>out. res = Inr out \<longrightarrow> staged_text view (SR_ID root) (sf_comps p) s (concat (rd_chunks rd)) digested out e')"
  using assms
proof (induction E user root p logical r rd written digested e arbitrary: s rule: write_body.induct)
  case (1 E user root p logical r rd written digested e)
  note run = 1(2) and laws = 1(3) and quota = 1(4) and at = 1(5) and written = 1(6) and small = 1(7)
  let ?stages = "stages view (SR_ID root) (sf_comps p)"
  obtain data st rd' e1 where rd: "reader_Read E user rd e = ((data, st), rd', e1)" by (metis surj_pair)
  note eff = reader_Read_effect [OF rd quota]
  have s1: "?stages e e1"
    using eff stages_refl [of view "SR_ID root" "sf_comps p" e] by (auto simp: stages_def)
  have at1: "view (en_fs e1) (SR_ID root) (sf_comps p) = Some (Leaf s)" using at eff(1) by simp
  show ?case
  proof (cases "data = [] \<or> checkWithinDeclared r logical (wrap_u64 (written + int (length data))) \<noteq> None")
    case True
    then have "e' = e1 \<and> (\<forall>out. res = Inr out \<longrightarrow> data = [] \<and> out = (written, digested))"
      using run by (auto simp: write_body.simps [of E user root p logical r rd] rd Let_def split: read_status.splits if_splits)
    then show ?thesis using s1 at1 written by (auto simp: staged_text_def intro: exI [of _ "[]"])
  next
    case False
    obtain werr fs where w: "writeAllAt (ue_parts E) root p data written (en_fs e1) = (werr, fs)" by (metis surj_pair)
    have u: "in_u64 written" using written small by (simp add: in_u64_def)
    obtain c where "view fs = put (SR_ID root) (sf_comps p) (Some (Leaf c)) (view (en_fs e1))"
      using writeAllAt_leaf [OF w laws at1 u] by blast
    then have s2: "?stages e (set_fs fs e1)" using s1 by (auto simp: stages_def)
    show ?thesis
    proof (cases werr)
      case (Some x)
      then have "(res, e') = (Inl x, set_fs fs e1)"
        using run False by (auto simp: write_body.simps [of E user root p logical r rd] rd w Let_def)
      then show ?thesis using s2 by simp
    next
      case None
      have len: "length s + length data + length (concat (rd_chunks rd')) < 2 ^ 63" using small eff(3) by simp
      have v: "view fs = put (SR_ID root) (sf_comps p) (Some (Leaf (s @ data))) (view (en_fs e1))"
        using writeAllAt_appends [OF w [unfolded None] laws at1 written] len by simp
      have wr: "wrap_u64 (written + int (length data)) = int (length (s @ data))"
        using written len by (simp add: wrap_u64_id in_u64_def)
      show ?thesis
      proof (cases "st = RMore")
        case True
        have rest: "write_body E user root p logical r rd' (wrap_u64 (written + int (length data))) (digested @ data) (set_fs fs e1) = (res, e')"
          using run False None True by (auto simp: write_body.simps [of E user root p logical r rd] rd w Let_def)
        have "?stages (set_fs fs e1) e' \<and> (\<forall>out. res = Inr out \<longrightarrow>
            staged_text view (SR_ID root) (sf_comps p) (s @ data) (concat (rd_chunks rd')) (digested @ data) out e')"
          by (rule 1(1) [OF rd [symmetric] refl refl _ refl _ w [symmetric]])
            (use False None True rest laws quota v wr len in auto)
        then show ?thesis using stages_trans [OF s2] eff(3) by (fastforce simp: staged_text_def)
      next
        case F: False
        then have "e' = set_fs fs e1 \<and> (\<forall>out. res = Inr out \<longrightarrow> out = (int (length (s @ data)), digested @ data))"
          using run False None wr
          by (auto simp: write_body.simps [of E user root p logical r rd] rd w Let_def split: read_status.splits)
        then show ?thesis using s2 v eff(3) by (auto simp: staged_text_def intro: exI [of _ data])
      qed
    qed
  qed
qed

text \<open>Names that are there stay as they are.\<close>

definition keeps :: "tree \<Rightarrow> tree \<Rightarrow> bool" where
  "keeps t t' \<longleftrightarrow> (\<forall>share q. t share q \<noteq> None \<longrightarrow> t' share q = t share q)"

lemma unlink_at_effect:
  assumes "unlink_at E root p e = (x, e')" and "posix (ue_driver E) view"
  shows "stages view (SR_ID root) (sf_comps p) e e'" "en_db e' = en_db e"
proof -
  obtain fs where u: "drv_Unlink (ue_driver E) root p (en_fs e) = (x, fs)" and e': "e' = set_fs fs e"
    using assms(1) by (auto simp: unlink_at_def split: prod.splits)
  have "posix_remove (ue_driver E) view" using assms(2) by (simp add: posix_def)
  from drv_Unlink_law [OF this u] have "view fs = view (en_fs e) \<or> view fs = put (SR_ID root) (sf_comps p) None (view (en_fs e))"
    by blast
  then show "stages view (SR_ID root) (sf_comps p) e e'"
    using stages_refl [of view "SR_ID root" "sf_comps p" e] by (auto simp: e' stages_def)
  show "en_db e' = en_db e" by (simp add: e')
qed

lemma stages_keeps:
  "stages view share p e e' \<Longrightarrow> view (en_fs e) share p = None \<Longrightarrow> keeps (view (en_fs e)) (view (en_fs e'))"
  by (auto simp: stages_def keeps_def put_def)

lemma stages_at: "stages view share p e e' \<Longrightarrow> (share', q) \<noteq> (share, p) \<Longrightarrow> view (en_fs e') share' q = view (en_fs e) share' q"
  by (auto simp: stages_def put_def)

lemma writeBodyAt_effect:
  assumes "writeBodyAt E user root p logical r chk rd e = (res, e')"
    and "part_laws (ue_parts E) view" and "quota_apart (fe_quota (ue_files E))"
    and "view (en_fs e) (SR_ID root) (sf_comps p) = Some (Leaf [])" and "length (concat (rd_chunks rd)) < 2 ^ 63"
  shows "stages view (SR_ID root) (sf_comps p) e e' \<and>
    (\<forall>n dg. res = Inr (n, dg) \<longrightarrow> (\<exists>d. prefix d (concat (rd_chunks rd)) \<and>
        view (en_fs e') (SR_ID root) (sf_comps p) = Some (Leaf d) \<and> n = int (length d) \<and>
        dg = map_option (\<lambda>c. tl_Digest (ue_lib E) (fst c) d) chk))"
proof -
  obtain wres e1 where w: "write_body E user root p logical r rd 0 [] e = (wres, e1)" by (metis surj_pair)
  note eff = write_body_effect [OF w assms(2,3,4)]
  have "stages view (SR_ID root) (sf_comps p) e e1" using eff assms(5) by simp
  then show ?thesis using assms(1) eff assms(5) stages_refl [of view "SR_ID root" "sf_comps p" e]
    by (auto simp: writeBodyAt_def w staged_text_def split: sum.splits option.splits if_splits prod.splits)
qed

lemma stageBody_effect:
  assumes run: "stageBody E rid user root dir logical r chk rd e = (res, e')"
    and laws: "part_laws (ue_parts E) view" "posix (ue_driver E) view" and quota: "quota_apart (fe_quota (ue_files E))"
    and small: "length (concat (rd_chunks rd)) < 2 ^ 63"
  shows "same_uploads (en_db e) (en_db e') \<and> keeps (view (en_fs e)) (view (en_fs e')) \<and>
    (\<forall>stage n. res = Inr (stage, n) \<longrightarrow> view (en_fs e) (SR_ID root) (sf_comps stage) = None \<and>
      (\<exists>d. prefix d (concat (rd_chunks rd)) \<and> n = int (length d) \<and>
         view (en_fs e') (SR_ID root) (sf_comps stage) = Some (Leaf d) \<and>
         (\<forall>a digest. chk = Some (a, digest) \<longrightarrow> digest = tl_Digest (ue_lib E) a d)))"
proof (cases "\<exists>i stage. rid = Some i \<and> JoinControl dir (stagingName (ue_lib E) i) = Inr stage")
  case False
  then have "e' = e \<and> isl res" using run by (auto simp: stageBody_def split: option.splits sum.splits)
  then show ?thesis by (auto simp: keeps_def)
next
  case True
  then obtain i stage where i: "rid = Some i" "JoinControl dir (stagingName (ue_lib E) i) = Inr stage" by blast
  obtain x fs where c: "po_CreatePart (ue_parts E) root stage (en_fs e) = (x, fs)" by (metis surj_pair)
  show ?thesis
  proof (cases x)
    case (Some y)
    then have "(res, e') = (Inl (up_mapVFSErr y), set_fs fs e)" using run by (simp add: stageBody_def i c)
    then show ?thesis using CreatePart_law(2) [OF laws(1) c] Some by (simp add: keeps_def)
  next
    case None
    have fresh: "view (en_fs e) (SR_ID root) (sf_comps stage) = None"
      and v: "view fs = put (SR_ID root) (sf_comps stage) (Some (Leaf [])) (view (en_fs e))"
      using CreatePart_law(1) [OF laws(1) c None] by auto
    let ?stages = "stages view (SR_ID root) (sf_comps stage)"
    have s0: "?stages e (set_fs fs e)" by (auto simp: stages_def v)
    obtain wres e1 where w: "writeBodyAt E user root stage logical r chk rd (set_fs fs e) = (wres, e1)" by (metis surj_pair)
    have at: "view (en_fs (set_fs fs e)) (SR_ID root) (sf_comps stage) = Some (Leaf [])" by (simp add: v)
    note eff = writeBodyAt_effect [OF w laws(1) quota at small]
    have s1: "?stages e e1" using stages_trans [OF s0] eff by blast
    have undo: "?stages e (snd (unlink_at E root stage e1))"
      by (rule stages_trans [OF s1 unlink_at_effect(1) [OF _ laws(2)]]) (rule prod.collapse [symmetric])
    show ?thesis
    proof (cases "\<exists>n. res = Inr (stage, n)")
      case True
      then obtain n where res: "res = Inr (stage, n)" by blast
      then obtain dg where wres: "wres = Inr (n, dg)" and e': "e' = e1" and chk: "verifyChunkChecksum chk dg = None"
        using run by (auto simp: stageBody_def i c None w Let_def split: sum.splits option.splits prod.splits)
      show ?thesis using s1 stages_keeps [OF s1 fresh] eff wres res e' fresh chk
        by (auto simp: stages_def verifyChunkChecksum_def constantTimeEqual_def split: if_splits)
    next
      case False
      then have "e' = snd (unlink_at E root stage e1) \<and> (\<forall>y. res \<noteq> Inr y)"
        using run by (auto simp: stageBody_def i c None w Let_def split: sum.splits option.splits prod.splits)
      then show ?thesis using undo stages_keeps [OF undo fresh] by (auto simp: stages_def)
    qed
  qed
qed

section \<open>Slices\<close>

text \<open>A chunk is a slice of the file it was cut from; a set of positions agrees with that file.\<close>

definition slice :: "string \<Rightarrow> int \<Rightarrow> string \<Rightarrow> bool" where
  "slice F off d \<longleftrightarrow> 0 \<le> off \<and> nat off + length d \<le> length F \<and> take (length d) (drop (nat off) F) = d"

definition agrees :: "string \<Rightarrow> string \<Rightarrow> int set \<Rightarrow> bool" where
  "agrees F c D \<longleftrightarrow> (\<forall>i\<in>D. 0 \<le> i \<and> nat i < length c \<and> nat i < length F \<and> c ! nat i = F ! nat i)"

lemma slice_prefix: "slice F off b \<Longrightarrow> prefix d b \<Longrightarrow> slice F off d"
  by (auto simp: slice_def prefix_def) (metis append_eq_conv_conj le_add1 length_append min_def take_take)

lemma slice_nth: "slice F off d \<Longrightarrow> j < length d \<Longrightarrow> d ! j = F ! (nat off + j)"
  by (metis add_leD1 nth_drop nth_take slice_def)

lemma length_overlay: "length (overlay at d c) = (if d = [] then length c else max (length c) (at + length d))"
  by (auto simp: overlay_def)

lemma nth_overlay:
  assumes "i < length (overlay at d c)"
  shows "overlay at d c ! i =
    (if at \<le> i \<and> i < at + length d then d ! (i - at) else if i < length c then c ! i else nul)"
  using assms by (auto simp: overlay_def nth_append min_def not_less split: if_splits)

lemma overlay_agrees:
  assumes "agrees F c D" and "slice F off d" and "length c \<le> length F"
  shows "agrees F (overlay (nat off) d c) (D \<union> {off..<off + int (length d)})"
    and "length (overlay (nat off) d c) \<le> length F"
proof -
  have off: "0 \<le> off" "nat off + length d \<le> length F" using assms(2) by (auto simp: slice_def)
  show "length (overlay (nat off) d c) \<le> length F" using off assms(3) by (simp add: length_overlay)
  show "agrees F (overlay (nat off) d c) (D \<union> {off..<off + int (length d)})"
    unfolding agrees_def
  proof
    fix i assume i: "i \<in> D \<union> {off..<off + int (length d)}"
    have bounds: "0 \<le> i" "nat i < length F" "nat i < length (overlay (nat off) d c)"
      using i off assms(1) by (auto simp: agrees_def length_overlay)
    have "overlay (nat off) d c ! nat i = F ! nat i"
    proof (cases "nat off \<le> nat i \<and> nat i < nat off + length d")
      case True
      then have "nat i - nat off < length d" by arith
      then show ?thesis using True slice_nth [OF assms(2), of "nat i - nat off"] by (simp add: nth_overlay [OF bounds(3)])
    next
      case False
      then have "i \<in> D" using i off bounds(1) by auto
      then show ?thesis using False assms(1) by (auto simp: nth_overlay [OF bounds(3)] agrees_def)
    qed
    then show "0 \<le> i \<and> nat i < length (overlay (nat off) d c) \<and> nat i < length F \<and> overlay (nat off) d c ! nat i = F ! nat i"
      using bounds by simp
  qed
qed

lemma agrees_subset: "agrees F c D \<Longrightarrow> D' \<subseteq> D \<Longrightarrow> agrees F c D'"
  by (auto simp: agrees_def)

lemma agrees_complete:
  assumes "agrees F c D" and "{0..<int (length F)} \<subseteq> D" and "length c \<le> length F"
  shows "c = F"
proof (rule nth_equalityI)
  have at: "nat (int i) < length c \<and> c ! nat (int i) = F ! nat (int i)" if "i < length F" for i
    using assms(1,2) that unfolding agrees_def by (metis atLeastLessThan_iff int_ops(1) of_nat_less_iff of_nat_0_le_iff subsetD)
  then have "length F \<le> length c" by (metis not_less nat_int order_refl)
  then show "length c = length F" using assms(3) by simp
  then show "c ! i = F ! i" if "i < length c" for i using at [of i] that by simp
qed

section \<open>Interval sets\<close>

definition run_set :: "(int \<times> int) list \<Rightarrow> int set" where
  "run_set rs = (\<Union>r\<in>set rs. {fst r..<snd r})"

definition intervals_ok :: "'set intervals \<Rightarrow> ('set \<Rightarrow> bool) \<Rightarrow> ('set \<Rightarrow> int set) \<Rightarrow> bool" where
  "intervals_ok I ok den \<longleftrightarrow>
     (\<forall>rs s. iv_Load I rs = Some s \<longrightarrow> ok s \<and> den s = run_set rs) \<and>
     (\<forall>s lo hi s'. ok s \<longrightarrow> in_u64 lo \<longrightarrow> in_u64 hi \<longrightarrow> iv_Insert I lo hi s = Some s' \<longrightarrow> ok s' \<and> den s' = den s \<union> {lo..<hi}) \<and>
     (\<forall>s. ok s \<longrightarrow> runs_ok (iv_Runs I s) \<and> run_set (iv_Runs I s) = den s) \<and>
     (\<forall>s n. ok s \<longrightarrow> 0 \<le> n \<longrightarrow> iv_IsComplete I n s = ({0..<n} \<subseteq> den s)) \<and>
     (\<forall>n. in_u64 n \<longrightarrow> ok (iv_Full I n) \<and> den (iv_Full I n) = {0..<n})"

lemma intervals_laws:
  assumes "intervals_ok I ok den"
  shows "iv_Load I rs = Some s \<Longrightarrow> ok s \<and> den s = run_set rs"
    and "ok s \<Longrightarrow> in_u64 lo \<Longrightarrow> in_u64 hi \<Longrightarrow> iv_Insert I lo hi s = Some s' \<Longrightarrow> ok s' \<and> den s' = den s \<union> {lo..<hi}"
    and "ok s \<Longrightarrow> runs_ok (iv_Runs I s) \<and> run_set (iv_Runs I s) = den s"
    and "ok s \<Longrightarrow> 0 \<le> n \<Longrightarrow> iv_IsComplete I n s = ({0..<n} \<subseteq> den s)"
    and "in_u64 n \<Longrightarrow> ok (iv_Full I n) \<and> den (iv_Full I n) = {0..<n}"
  using assms unfolding intervals_ok_def by metis+

section \<open>One session\<close>

text \<open>
  The state of a session that receives the file \<open>F\<close>: its row and ranges are there, its declared
  length is that of \<open>F\<close>, the part file is no longer than \<open>F\<close>, and every position the recorded
  ranges claim holds the byte of \<open>F\<close>.
\<close>

definition row_part :: "'enc text_library \<Rightarrow> upload_session \<Rightarrow> (upload_error, safe_path) result" where
  "row_part T s = partPathOf T \<lparr>rw_sess = s, rw_set = ()\<rparr>"

definition receives ::
  "'enc text_library \<Rightarrow> ('fs \<Rightarrow> tree) \<Rightarrow> string \<Rightarrow> string \<Rightarrow> int \<Rightarrow> safe_path \<Rightarrow> 'fs engine \<Rightarrow> bool" where
  "receives T view F sid share part e \<longleftrightarrow>
     (\<exists>s rs c. ReadUploadSession sid (en_db e) = Inr s \<and> row_part T s = Inr part \<and>
        US_TotalLen s \<in> {None, Some (int (length F))} \<and> ReadUploadIntervals sid (en_db e) = Inr rs \<and>
        view (en_fs e) share (sf_comps part) = Some (Leaf c) \<and> length c \<le> length F \<and> agrees F c (run_set rs))"

lemma partPathOf_row: "partPathOf T r = row_part T (rw_sess r)"
  by (simp add: row_part_def partPathOf_def row_dest_def)

lemma load_Inr:
  assumes "load E sid e = Inr r"
  obtains rs where "ReadUploadSession sid (en_db e) = Inr (rw_sess r)" "ReadUploadIntervals sid (en_db e) = Inr rs"
    "iv_Load (ue_sets E) rs = Some (rw_set r)" "US_ID (rw_sess r) = sid"
  using assms Read_ID [of sid "en_db e" "rw_sess r"]
  by (auto simp: load_def rowOf_def split: sum.splits option.splits dest: Read_ID)

lemma handleFor_fields: "handleFor E root sid part e = (x, e') \<Longrightarrow> en_fs e' = en_fs e \<and> en_db e' = en_db e"
  by (auto simp: handleFor_def split: if_splits option.splits)

lemma commitStagedAt_effect:
  assumes run: "commitStagedAt E root sid part stage off n e = (x, e1)"
    and laws: "part_laws (ue_parts E) view" "posix (ue_driver E) view"
    and off: "0 \<le> off" and apart: "sf_comps stage \<noteq> sf_comps part" and n: "n = int (length d)"
    and stage: "view (en_fs e) (SR_ID root) (sf_comps stage) = Some (Leaf d)"
    and part: "view (en_fs e) (SR_ID root) (sf_comps part) = Some (Leaf c)"
  obtains k where "k \<le> length d" "x = None \<Longrightarrow> k = length d" "en_db e1 = en_db e"
    "view (en_fs e1) (SR_ID root) (sf_comps part) = Some (Leaf (overlay (nat off) (take k d) c))"
    "\<And>share q. (share, q) \<noteq> (SR_ID root, sf_comps part) \<Longrightarrow> (share, q) \<noteq> (SR_ID root, sf_comps stage) \<Longrightarrow>
       view (en_fs e1) share q = view (en_fs e) share q"
proof (cases "\<exists>y e2. drv_OpenRead (ue_driver E) root stage (en_fs e) = Inr y \<and> handleFor E root sid part e = (None, e2)")
  case False
  then have "en_fs e1 = en_fs e \<and> en_db e1 = en_db e \<and> x \<noteq> None"
    using run by (auto simp: commitStagedAt_def split: sum.splits prod.splits option.splits dest: handleFor_fields)
  then show ?thesis using that [of 0] part by (auto simp: overlay_def)
next
  case True
  then obtain y e2 where open_h: "drv_OpenRead (ue_driver E) root stage (en_fs e) = Inr y" "handleFor E root sid part e = (None, e2)"
    by blast
  have e2: "en_fs e2 = en_fs e" "en_db e2 = en_db e" using handleFor_fields [OF open_h(2)] by auto
  obtain res fs where cp: "po_CopyRange (ue_parts E) root stage 0 part off n (en_fs e) = (res, fs)" by (metis surj_pair)
  have "stage \<noteq> part" using apart by blast
  from CopyRange_law [OF laws(1) cp _ off _ this stage part]
  obtain k where k: "k \<le> length d" "\<And>c. res = Inr c \<Longrightarrow> c = int k"
    and v: "view fs = put (SR_ID root) (sf_comps part) (Some (Leaf (overlay (nat off) (take k d) c))) (view (en_fs e))"
    by (auto simp: n)
  show ?thesis
  proof (cases x)
    case (Some z)
    then have e1: "e1 = set_fs fs e2"
      using run by (auto simp: commitStagedAt_def open_h e2 cp split: sum.splits if_splits option.splits)
    show ?thesis using that [of k] k(1) v Some by (auto simp: e1 e2)
  next
    case None
    then have res: "res = Inr n" and e1: "e1 = snd (unlink_at E root stage (set_fs fs e2))"
      using run by (auto simp: commitStagedAt_def open_h e2 cp split: sum.splits if_splits option.splits)
    have "unlink_at E root stage (set_fs fs e2) = (fst (unlink_at E root stage (set_fs fs e2)), e1)" by (simp add: e1)
    note u = unlink_at_effect [OF this laws(2)]
    have "k = length d" using k(2) [OF res] n by simp
    then show ?thesis using that [of k] stages_at [OF u(1)] u(2) v apart by (auto simp: e2)
  qed
qed

lemma commitRange_effect:
  assumes run: "commitRange E now r e = (res, e')" and iv: "intervals_ok (ue_sets E) ok den" and "ok (rw_set r)"
    and s: "ReadUploadSession (US_ID (rw_sess r)) (en_db e) = Inr s"
    and rs: "ReadUploadIntervals (US_ID (rw_sess r)) (en_db e) = Inr rs"
  obtains ex rs' where "en_fs e' = en_fs e" "ReadUploadSession (US_ID (rw_sess r)) (en_db e') = Inr (s\<lparr>US_ExpiresNs := ex\<rparr>)"
    "ReadUploadIntervals (US_ID (rw_sess r)) (en_db e') = Inr rs'" "run_set rs' = run_set rs \<or> run_set rs' = den (rw_set r)"
proof -
  have I: "runs_ok (iv_Runs (ue_sets E) (rw_set r))" "run_set (iv_Runs (ue_sets E) (rw_set r)) = den (rw_set r)"
    using intervals_laws(3) [OF iv assms(3)] by auto
  obtain x db where q: "RecordUploadInterval (US_ID (rw_sess r)) (iv_Runs (ue_sets E) (rw_set r)) (expiry now) (en_db e) = (x, db)"
    by (metis surj_pair)
  have e': "e' = set_db db e" using run q by (auto simp: commitRange_def up_db_def split: sum.splits prod.splits)
  show ?thesis
  proof (cases x)
    case (Inl y)
    then have "db = en_db e" using q
      by (auto simp: RecordUploadInterval_def db_Write_def split: option.splits if_splits sum.splits)
    then show ?thesis using that [of "US_ExpiresNs s" rs] s rs by (simp add: e')
  next
    case (Inr y)
    note q' = q [unfolded Inr, simplified]
    show ?thesis
      using that [of "expiry now" "iv_Runs (ue_sets E) (rw_set r)"] Record_session [OF q' I(1) s] Record_cases(3) [OF q' I(1)] I(2)
      by (simp add: e')
  qed
qed

lemma receives_frame:
  assumes "receives T view F sid share part e"
    and "ReadUploadSession sid (en_db e') = ReadUploadSession sid (en_db e)"
    and "ReadUploadIntervals sid (en_db e') = ReadUploadIntervals sid (en_db e)"
    and "view (en_fs e') share (sf_comps part) = view (en_fs e) share (sf_comps part)"
  shows "receives T view F sid share part e'"
  using assms unfolding receives_def by simp

lemma row_part_expires [simp]: "row_part T (s\<lparr>US_ExpiresNs := ex\<rparr>) = row_part T s"
  by (simp add: row_part_def partPathOf_def row_dest_def)

lemma row_part_state [simp]: "row_part T (s\<lparr>US_State := st\<rparr>) = row_part T s"
  by (simp add: row_part_def partPathOf_def row_dest_def)

lemma row_part_length [simp]: "row_part T (s\<lparr>US_TotalLen := n\<rparr>) = row_part T s"
  by (simp add: row_part_def partPathOf_def row_dest_def)

lemma patch_commit_steps:
  assumes "patch_commit E now root sid part lease off stage n e = (res, e')" and "e' \<noteq> e"
  obtains fresh ivs x e1 where "load E sid e = Inr fresh"
    "if n > 0 then (\<exists>ivs0. iv_Load (ue_sets E) (iv_Runs (ue_sets E) (rw_set fresh)) = Some ivs0 \<and>
       iv_Insert (ue_sets E) off (wrap_u64 (off + n)) ivs0 = Some ivs) else ivs = rw_set fresh"
    "(if n > 0 then commitStagedAt E root sid part stage off n e else (None, e)) = (x, e1)"
    "x \<noteq> None \<longrightarrow> e' = e1" "x = None \<longrightarrow> (\<exists>y. commitRange E now (fresh\<lparr>rw_set := ivs\<rparr>) e1 = (y, e'))"
proof -
  obtain fresh ivs where *: "load E sid e = Inr fresh"
    "if n > 0 then (\<exists>ivs0. iv_Load (ue_sets E) (iv_Runs (ue_sets E) (rw_set fresh)) = Some ivs0 \<and>
       iv_Insert (ue_sets E) off (wrap_u64 (off + n)) ivs0 = Some ivs) else ivs = rw_set fresh"
    and rest: "(case (if n > 0 then commitStagedAt E root sid part stage off n e else (None, e)) of
        (Some x, e1) \<Rightarrow> (Inl x, e1)
      | (None, e1) \<Rightarrow> (case commitRange E now (fresh\<lparr>rw_set := ivs\<rparr>) e1 of
          (Inl x, e2) \<Rightarrow> (Inl x, e2)
        | (Inr r, e2) \<Rightarrow> (Inr (iv_ContiguousPrefix (ue_sets E) (rw_set r)), e2))) = (res, e')"
    using assms by (auto simp: patch_commit_def split: if_splits sum.splits option.splits)
  obtain x e1 where cs: "(if n > 0 then commitStagedAt E root sid part stage off n e else (None, e)) = (x, e1)" by (metis surj_pair)
  have "e' = e1" if "x \<noteq> None" using rest that by (auto simp: cs split: option.splits)
  moreover have "\<exists>y. commitRange E now (fresh\<lparr>rw_set := ivs\<rparr>) e1 = (y, e')" if "x = None"
    using rest that by (auto simp: cs split: sum.splits prod.splits)
  ultimately show ?thesis using that * cs by blast
qed

lemma inserted_range:
  assumes iv: "intervals_ok (ue_sets E) ok den" and loaded: "iv_Load (ue_sets E) rs = Some s"
    and new: "if n > 0 then (\<exists>ivs0. iv_Load (ue_sets E) (iv_Runs (ue_sets E) s) = Some ivs0 \<and>
       iv_Insert (ue_sets E) off (wrap_u64 (off + n)) ivs0 = Some ivs) else ivs = s"
    and off: "0 \<le> off" "off + n < 2 ^ 63"
  shows "ok ivs \<and> den ivs = run_set rs \<union> {off..<off + n}"
proof -
  note L = intervals_laws [OF iv]
  have f: "ok s" "den s = run_set rs" using L(1) [OF loaded] by auto
  show ?thesis
  proof (cases "n > 0")
    case True
    then obtain ivs0 where i0: "iv_Load (ue_sets E) (iv_Runs (ue_sets E) s) = Some ivs0"
      and ins: "iv_Insert (ue_sets E) off (off + n) ivs0 = Some ivs"
      using new off by (auto simp: wrap_u64_id in_u64_def)
    have "ok ivs0" "den ivs0 = run_set rs" using L(1) [OF i0] L(3) [OF f(1)] f(2) by auto
    then show ?thesis using L(2) [OF _ _ _ ins] off True by (simp add: in_u64_def)
  next
    case False
    then show ?thesis using new f by simp
  qed
qed

lemma copied_part:
  assumes run: "(if n > 0 then commitStagedAt E root sid part stage off n e else (None, e)) = (x, e1)"
    and laws: "part_laws (ue_parts E) view" "posix (ue_driver E) view" and apart: "sf_comps stage \<noteq> sf_comps part"
    and stage: "view (en_fs e) (SR_ID root) (sf_comps stage) = Some (Leaf d)" and n: "n = int (length d)" and sl: "slice F off d"
    and part: "view (en_fs e) (SR_ID root) (sf_comps part) = Some (Leaf c)" "length c \<le> length F" "agrees F c D"
  obtains c' where "en_db e1 = en_db e" "view (en_fs e1) (SR_ID root) (sf_comps part) = Some (Leaf c')" "length c' \<le> length F"
    "agrees F c' D" "x = None \<Longrightarrow> agrees F c' (D \<union> {off..<off + n})"
    "\<And>share q. (share, q) \<noteq> (SR_ID root, sf_comps part) \<Longrightarrow> (share, q) \<noteq> (SR_ID root, sf_comps stage) \<Longrightarrow>
       view (en_fs e1) share q = view (en_fs e) share q"
proof -
  have off: "0 \<le> off" using sl by (simp add: slice_def)
  obtain k where k: "k \<le> length d" "x = None \<Longrightarrow> k = length d" "en_db e1 = en_db e"
    and p1: "view (en_fs e1) (SR_ID root) (sf_comps part) = Some (Leaf (overlay (nat off) (take k d) c))"
    and o1: "\<And>share q. (share, q) \<noteq> (SR_ID root, sf_comps part) \<Longrightarrow> (share, q) \<noteq> (SR_ID root, sf_comps stage) \<Longrightarrow>
       view (en_fs e1) share q = view (en_fs e) share q"
  proof (cases "n > 0")
    case True
    then have "commitStagedAt E root sid part stage off n e = (x, e1)" using run by simp
    from commitStagedAt_effect [OF this laws off apart n stage part(1)] show ?thesis using that by blast
  next
    case False
    then show ?thesis using that [of 0] run part(1) n by (auto simp: overlay_def)
  qed
  have "slice F off (take k d)" using slice_prefix [OF sl] by (simp add: take_is_prefix)
  note over = overlay_agrees [OF part(3) this part(2)]
  have "agrees F (overlay (nat off) (take k d) c) (D \<union> {off..<off + n})" if "x = None"
    using over(1) k(2) [OF that] n by simp
  then show ?thesis using that [OF k(3) p1 over(2)] agrees_subset [OF over(1), of D] o1 by blast
qed

lemma patch_commit_receives:
  assumes run: "patch_commit E now root sid part lease off stage n e = (res, e')"
    and rec: "receives T view F sid (SR_ID root) part e"
    and laws: "part_laws (ue_parts E) view" "posix (ue_driver E) view" "intervals_ok (ue_sets E) ok den"
    and small: "length F < 2 ^ 63" and apart: "sf_comps stage \<noteq> sf_comps part"
    and stage: "view (en_fs e) (SR_ID root) (sf_comps stage) = Some (Leaf d)" and n: "n = int (length d)" and sl: "slice F off d"
  shows "receives T view F sid (SR_ID root) part e' \<and>
    (\<forall>share q. (share, q) \<noteq> (SR_ID root, sf_comps part) \<longrightarrow> (share, q) \<noteq> (SR_ID root, sf_comps stage) \<longrightarrow>
       view (en_fs e') share q = view (en_fs e) share q)"
proof (cases "e' = e")
  case True
  then show ?thesis using rec by simp
next
  case False
  obtain s rs c where s: "ReadUploadSession sid (en_db e) = Inr s" and part: "row_part T s = Inr part"
    and len: "US_TotalLen s \<in> {None, Some (int (length F))}" and rs: "ReadUploadIntervals sid (en_db e) = Inr rs"
    and c: "view (en_fs e) (SR_ID root) (sf_comps part) = Some (Leaf c)" "length c \<le> length F" "agrees F c (run_set rs)"
    using rec unfolding receives_def by blast
  obtain fresh ivs x e1 where load: "load E sid e = Inr fresh" and new: "if n > 0
      then (\<exists>ivs0. iv_Load (ue_sets E) (iv_Runs (ue_sets E) (rw_set fresh)) = Some ivs0 \<and>
        iv_Insert (ue_sets E) off (wrap_u64 (off + n)) ivs0 = Some ivs) else ivs = rw_set fresh"
    and cs: "(if n > 0 then commitStagedAt E root sid part stage off n e else (None, e)) = (x, e1)"
    and out: "x \<noteq> None \<longrightarrow> e' = e1" "x = None \<longrightarrow> (\<exists>y. commitRange E now (fresh\<lparr>rw_set := ivs\<rparr>) e1 = (y, e'))"
    by (rule patch_commit_steps [OF run False])
  have fresh: "rw_sess fresh = s" "iv_Load (ue_sets E) rs = Some (rw_set fresh)" "US_ID s = sid"
    using load_Inr [OF load] s rs by auto
  have off: "0 \<le> off" "off + n < 2 ^ 63" using sl small by (auto simp: slice_def n)
  note den = inserted_range [OF laws(3) fresh(2) new off]
  obtain c' where e1: "en_db e1 = en_db e" "view (en_fs e1) (SR_ID root) (sf_comps part) = Some (Leaf c')" "length c' \<le> length F"
      "agrees F c' (run_set rs)" "x = None \<Longrightarrow> agrees F c' (run_set rs \<union> {off..<off + n})"
    and o1: "\<And>share q. (share, q) \<noteq> (SR_ID root, sf_comps part) \<Longrightarrow> (share, q) \<noteq> (SR_ID root, sf_comps stage) \<Longrightarrow>
       view (en_fs e1) share q = view (en_fs e) share q"
    using copied_part [OF cs laws(1,2) apart stage n sl c] by metis
  show ?thesis
  proof (cases x)
    case (Some y)
    then show ?thesis using out e1 o1 s part len rs by (auto simp: receives_def)
  next
    case None
    then obtain y where cr: "commitRange E now (fresh\<lparr>rw_set := ivs\<rparr>) e1 = (y, e')" using out by blast
    have "US_ID (rw_sess (fresh\<lparr>rw_set := ivs\<rparr>)) = sid" by (simp add: fresh)
    then obtain ex rs' where fs2: "en_fs e' = en_fs e1"
      and s2: "ReadUploadSession sid (en_db e') = Inr (s\<lparr>US_ExpiresNs := ex\<rparr>)"
      and r2: "ReadUploadIntervals sid (en_db e') = Inr rs'" "run_set rs' = run_set rs \<or> run_set rs' = den ivs"
      using commitRange_effect [OF cr laws(3), of s rs] den s rs e1(1) by auto
    have "agrees F c' (run_set rs')" using e1(4,5) None r2(2) den by auto
    then show ?thesis using s2 part len r2(1) e1(2,3) fs2 o1 by (auto simp: receives_def)
  qed
qed

lemma gate_fields [simp]:
  "en_world (set_gate sid g e) = en_world e" "en_world (writerFor sid e) = en_world e" "en_world (releaseWriter sid e) = en_world e"
  "en_world (lease_release sid e) = en_world e" "en_world (reopenWriters sid gen e) = en_world e"
  "en_world (finishWriters sid e) = en_world e" "en_world (closeHandle sid e) = en_world e"
  by (simp_all add: set_gate_def writerFor_def releaseWriter_def lease_release_def reopenWriters_def finishWriters_def
      closeHandle_def Let_def)

lemma admitWriter_world: "admitWriter sid e = (x, e') \<Longrightarrow> en_world e' = en_world e"
  by (auto simp: admitWriter_def Let_def split: if_splits)

lemma closeWriterGate_world: "closeWriterGate sid t e = (x, e') \<Longrightarrow> en_world e' = en_world e"
  by (auto simp: closeWriterGate_def gate_enter_def Let_def split: if_splits prod.splits)

lemma patch_begin_world: "patch_begin T E now sid user off e = (x, e') \<Longrightarrow> en_world e' = en_world e"
  by (auto simp: patch_begin_def split: sum.splits option.splits if_splits prod.splits dest: admitWriter_world)

lemma fixed_updates [simp]:
  "fixed_columns (s\<lparr>US_State := st\<rparr>) s" "fixed_columns (s\<lparr>US_ExpiresNs := ex\<rparr>) s" "fixed_columns (s\<lparr>US_TotalLen := n\<rparr>) s"
  "fixed_columns (s\<lparr>US_State := st, US_ExpiresNs := ex\<rparr>) s" "fixed_columns (s\<lparr>US_TotalLen := n, US_ExpiresNs := ex\<rparr>) s"
  by (simp_all add: fixed_columns_def)

lemma fixed_part: "fixed_columns s s' \<Longrightarrow> row_part T s = row_part T s'"
  by (simp add: fixed_columns_def with_names_def row_part_def partPathOf_def row_dest_def)

lemma save_effect:
  assumes run: "save r e = (x, e')" and cols: "fixed_columns (rw_sess r) s"
    and s: "ReadUploadSession (US_ID (rw_sess r)) (en_db e) = Inr s"
  shows "en_fs e' = en_fs e" "interval_rows (en_db e') = interval_rows (en_db e)"
    "ReadUploadSession (US_ID (rw_sess r)) (en_db e') = Inr (if isl x then s else rw_sess r)"
proof -
  obtain y db where q: "UpdateUploadSession (rw_sess r) (en_db e) = (y, db)" by (metis surj_pair)
  have e': "e' = set_db db e" "isl x = isl y" using run q by (auto simp: save_def up_db_def split: sum.splits)
  show "en_fs e' = en_fs e" by (simp add: e')
  show "interval_rows (en_db e') = interval_rows (en_db e)" using Update_other(2) [OF q] by (simp add: e')
  show "ReadUploadSession (US_ID (rw_sess r)) (en_db e') = Inr (if isl x then s else rw_sess r)"
  proof (cases y)
    case (Inl z)
    then have "db = en_db e" using q by (auto simp: UpdateUploadSession_def db_Write_def split: sum.splits)
    then show ?thesis using s Inl by (simp add: e')
  next
    case (Inr u)
    then have "UpdateUploadSession (rw_sess r) (en_db e) = (Inr (), db)" using q by simp
    from Read_Update [OF s cols this] show ?thesis using Inr by (simp add: e')
  qed
qed

lemma same_intervals_read: "interval_rows db' = interval_rows db \<Longrightarrow> ReadUploadIntervals sid db' = ReadUploadIntervals sid db"
  by (simp add: ReadUploadIntervals_def sqlReadUploadIntervals_def)

text \<open>Saving a row that differs from the stored one in its changeable columns only.\<close>

lemma receives_save:
  assumes rec: "receives T view F sid share part e" and run: "save r e = (x, e')"
    and s: "ReadUploadSession sid (en_db e) = Inr s" and cols: "fixed_columns (rw_sess r) s"
    and len: "US_TotalLen (rw_sess r) = US_TotalLen s \<or> US_TotalLen (rw_sess r) = Some (int (length F))"
  shows "receives T view F sid share part e'"
    and "ReadUploadSession sid (en_db e') = Inr (if isl x then s else rw_sess r)"
    and "en_fs e' = en_fs e"
proof -
  have sid: "US_ID (rw_sess r) = sid" using cols Read_ID [OF s] by (simp add: fixed_columns_def with_names_def)
  note eff = save_effect [OF run cols, unfolded sid, OF s]
  show "ReadUploadSession sid (en_db e') = Inr (if isl x then s else rw_sess r)" "en_fs e' = en_fs e" using eff by auto
  show "receives T view F sid share part e'"
    using rec eff same_intervals_read [OF eff(2)] s len fixed_part [OF cols, of T] unfolding receives_def by auto
qed

section \<open>Publishing\<close>

lemma reserveQuota_apart: "quota_apart q \<Longrightarrow> reserveQuota q user n db = (x, db') \<Longrightarrow> same_uploads db db'"
  by (auto simp: reserveQuota_def split: option.splits prod.splits sum.splits if_splits dest: Reserve_apart)

lemma releaseQuota_apart: "quota_apart q \<Longrightarrow> same_uploads db (snd (releaseQuota q user hold db))"
  by (auto simp: releaseQuota_def sink_apart split: option.splits)

lemma PublishPart_law:
  assumes "posix d view" and "drv_PublishPart d root pt p b fs = (y, fs')"
  shows "y \<noteq> None \<Longrightarrow> view fs' = view fs"
    and "y = None \<Longrightarrow> view fs (SR_ID root) (sf_comps pt) = Some (Leaf c) \<Longrightarrow>
      view fs' = put (SR_ID root) (sf_comps pt) None (put (SR_ID root) (sf_comps p) (Some (Leaf c)) (view fs))"
proof -
  have "case y of
      None \<Rightarrow> \<exists>s. view fs (SR_ID root) (sf_comps pt) = Some (Leaf s) \<and>
        view fs' = put (SR_ID root) (sf_comps pt) None (put (SR_ID root) (sf_comps p) (Some (Leaf s)) (view fs))
    | Some _ \<Rightarrow> view fs' = view fs"
    using assms unfolding posix_def posix_publish_def by blast
  then show "y \<noteq> None \<Longrightarrow> view fs' = view fs"
    "y = None \<Longrightarrow> view fs (SR_ID root) (sf_comps pt) = Some (Leaf c) \<Longrightarrow>
      view fs' = put (SR_ID root) (sf_comps pt) None (put (SR_ID root) (sf_comps p) (Some (Leaf c)) (view fs))"
    by auto
qed

lemma PublishPart_steps:
  assumes "PublishPart T env r part ifMatch w = (res, w')" and "w' \<noteq> w \<or> \<not> isl res"
  obtains delta replacing where "publish_step env r part delta replacing w = (res, w')" "IsReservedName (SafePath_Name part)"
  using assms by (auto simp: PublishPart_def Let_def split: option.splits if_splits sum.splits)

lemma PublishPart_failed:
  assumes run: "PublishPart T env r part ifMatch w = (Inl x, w')"
    and laws: "posix (fe_driver env) view" "quota_apart (fe_quota env)"
  shows "view (w_fs w') = view (w_fs w)" "same_uploads (k_db (w_core w)) (k_db (w_core w'))"
proof -
  have "view (w_fs w') = view (w_fs w) \<and> same_uploads (k_db (w_core w)) (k_db (w_core w'))" if "w' \<noteq> w"
  proof -
    note changed = that
    obtain delta b where st: "publish_step env r part delta b w = (Inl x, w')"
      using PublishPart_steps [OF run disjI1 [OF changed]] by metis
    obtain y db where q: "(if delta > 0 then reserveQuota (fe_quota env) (r_user r) delta (k_db (w_core w))
        else (Inr no_hold, k_db (w_core w))) = (y, db)" by (metis surj_pair)
    have db: "same_uploads (k_db (w_core w)) db" using q laws(2) by (auto split: if_splits dest: reserveQuota_apart)
    obtain z fs where pp: "drv_PublishPart (fe_driver env) (r_root r) part (r_path r) b (w_fs w) = (z, fs)" by (metis surj_pair)
    show ?thesis
    proof (cases y)
      case (Inl e)
      then show ?thesis using st db by (auto simp: publish_step_def q ledger_def)
    next
      case (Inr hold)
      then obtain e where z: "z = Some e"
        and w': "w' = ledger (\<lambda>_. snd (releaseQuota (fe_quota env) (r_user r) hold db)) (w\<lparr>w_fs := fs\<rparr>)"
        using st by (auto simp: publish_step_def q pp Let_def split: option.splits)
      have "view fs = view (w_fs w)" using PublishPart_law(1) [where view = view, OF laws(1) pp] z by simp
      moreover have "same_uploads (k_db (w_core w)) (k_db (w_core w'))"
        using same_uploads_trans [OF db releaseQuota_apart [OF laws(2)]] by (simp add: w' ledger_def)
      ultimately show ?thesis by (simp add: w' ledger_def)
    qed
  qed
  then show "view (w_fs w') = view (w_fs w)" "same_uploads (k_db (w_core w)) (k_db (w_core w'))" by force+
qed

lemma PublishPart_done:
  assumes run: "PublishPart T env r part ifMatch w = (Inr entry, w')" and laws: "posix (fe_driver env) view"
    and at: "view (w_fs w) (SR_ID (r_root r)) (sf_comps part) = Some (Leaf s)"
  shows "IsReservedName (SafePath_Name part)"
    "view (w_fs w') = put (SR_ID (r_root r)) (sf_comps part) None
       (put (SR_ID (r_root r)) (sf_comps (r_path r)) (Some (Leaf s)) (view (w_fs w)))"
proof -
  obtain delta b where st: "publish_step env r part delta b w = (Inr entry, w')" and res: "IsReservedName (SafePath_Name part)"
    by (rule PublishPart_steps [OF run]) auto
  obtain z fs where pp: "drv_PublishPart (fe_driver env) (r_root r) part (r_path r) b (w_fs w) = (z, fs)" by (metis surj_pair)
  have z: "z = None" and w': "w_fs w' = fs"
    using st by (auto simp: publish_step_def pp Let_def ledger_def markDirty_fields split: prod.splits sum.splits option.splits if_splits)
  show "view (w_fs w') = put (SR_ID (r_root r)) (sf_comps part) None
       (put (SR_ID (r_root r)) (sf_comps (r_path r)) (Some (Leaf s)) (view (w_fs w)))"
    using PublishPart_law(2) [where view = view, OF laws pp z at] w' by simp
  show "IsReservedName (SafePath_Name part)" by (rule res)
qed

lemma syncAndClose_world: "syncAndClose E root rw part e = (x, e') \<Longrightarrow> en_fs e' = en_fs e \<and> en_db e' = en_db e"
  by (auto simp: syncAndClose_def split: option.splits prod.splits dest: handleFor_fields)

lemma publish_steps:
  assumes "publish T E r rw part e = (res, e')" and "part_laws (ue_parts E) view"
  obtains "e' = e" "isl res"
  | "en_fs e' = en_fs e" "en_db e' = en_db e" "isl res"
  | w x w' where "view (w_fs w) = view (en_fs e)" "k_db (w_core w) = en_db e"
      "PublishPart T (ue_files E) r part (US_IfMatch (rw_sess rw)) w = (x, w')" "en_world e' = w'"
      "res = (case x of Inl y \<Rightarrow> Inl (UFiles y) | Inr entry \<Rightarrow> Inr entry)"
proof (cases "checkIfMatch E r (US_IfMatch (rw_sess rw)) e")
  case (Some y)
  then show ?thesis using assms that(1) by (auto simp: publish_def)
next
  case None
  obtain x e1 where sc: "syncAndClose E (r_root r) rw part e = (x, e1)" by (metis surj_pair)
  note s = syncAndClose_world [OF sc]
  define e2 where "e2 = (case US_MtimeNs (rw_sess rw) of None \<Rightarrow> e1
    | Some t \<Rightarrow> set_fs (po_SetTimes (ue_parts E) (r_root r) part t (en_fs e1)) e1)"
  have e2: "view (en_fs e2) = view (en_fs e)" "en_db e2 = en_db e"
    using s SetTimes_law [OF assms(2)] by (auto simp: e2_def split: option.splits)
  obtain y w' where pp: "PublishPart T (ue_files E) r part (US_IfMatch (rw_sess rw)) (en_world e2) = (y, w')" by (metis surj_pair)
  show ?thesis
  proof (cases x)
    case (Some z)
    then show ?thesis using assms None s that(2) by (auto simp: publish_def sc)
  next
    case N: None
    then have "(case y of Inl x \<Rightarrow> (Inl (UFiles x), e2\<lparr>en_world := w'\<rparr>) | Inr entry \<Rightarrow> (Inr entry, e2\<lparr>en_world := w'\<rparr>)) = (res, e')"
      using assms(1) None pp unfolding e2_def by (simp add: publish_def sc Let_def)
    then show ?thesis using that(3) [OF e2 pp] by (auto split: sum.splits)
  qed
qed

lemma publish_failed:
  assumes "publish T E r rw part e = (Inl x, e')" and "posix (ue_driver E) view" "quota_apart (fe_quota (ue_files E))"
    and "part_laws (ue_parts E) view"
  shows "view (en_fs e') = view (en_fs e) \<and> same_uploads (en_db e) (en_db e')"
  using assms(1,4)
proof (cases rule: publish_steps)
  case (3 w y w')
  then obtain z where "y = Inl z" by (cases y) auto
  note run = 3(3) [unfolded this]
  show ?thesis using PublishPart_failed [where view = view, OF run assms(2,3)] 3(1,2,4) by simp
qed auto

lemma publish_done:
  assumes "publish T E r rw part e = (Inr entry, e')" and "posix (ue_driver E) view" and "part_laws (ue_parts E) view"
    and "view (en_fs e) (SR_ID (r_root r)) (sf_comps part) = Some (Leaf s)"
  shows "IsReservedName (SafePath_Name part) \<and>
    view (en_fs e') = put (SR_ID (r_root r)) (sf_comps part) None
       (put (SR_ID (r_root r)) (sf_comps (r_path r)) (Some (Leaf s)) (view (en_fs e)))"
  using assms(1,3)
proof (cases rule: publish_steps)
  case (3 w y w')
  then obtain z where "y = Inr z" by (cases y) auto
  note run = 3(3) [unfolded this]
  have "view (w_fs w) (SR_ID (r_root r)) (sf_comps part) = Some (Leaf s)" using 3(1) assms(4) by simp
  from PublishPart_done [where view = view, OF run assms(2) this] show ?thesis using 3(1,4) by simp
qed auto

section \<open>The session under publication\<close>

definition transitions_ok :: "transfer_lib \<Rightarrow> bool" where
  "transitions_ok L \<longleftrightarrow> (\<forall>a b c. tl_Transition L a b = Some c \<longrightarrow> c = b) \<and> tl_Transition L StateFinalizing StateDone = Some StateDone"

lemma restore_receives:
  assumes run: "restore_receiving E now rw (out, e) = (res, e')" and rec: "receives T view F sid share part e"
    and s: "ReadUploadSession sid (en_db e) = Inr (rw_sess rw)"
  shows "receives T view F sid share part e'" and "en_fs e' = en_fs e" and "isl out \<Longrightarrow> isl res"
proof -
  have "receives T view F sid share part e' \<and> en_fs e' = en_fs e \<and> (isl out \<longrightarrow> isl res)"
  proof (cases "e' = e")
    case True
    then show ?thesis using run rec by (auto simp: restore_receiving_def split: if_splits option.splits sum.splits prod.splits)
  next
    case False
    then obtain st x where sv: "save (rw\<lparr>rw_sess := (rw_sess rw)\<lparr>US_State := st, US_ExpiresNs := expiry now\<rparr>\<rparr>) e = (x, e')"
      and "isl out \<longrightarrow> isl res"
      using run by (auto simp: restore_receiving_def split: if_splits option.splits sum.splits prod.splits)
    then show ?thesis using receives_save [OF rec sv s] by simp
  qed
  then show "receives T view F sid share part e'" "en_fs e' = en_fs e" "isl out \<Longrightarrow> isl res" by auto
qed

lemma finalize_steps:
  assumes "finalize T E now r sid e = (res, e')" and "e' \<noteq> e \<or> \<not> isl res"
  shows "\<exists>rw len st x e1. load E sid e = Inr rw \<and> row_dest T rw = Inr (r_path r) \<and> row_totalLen rw = Some len \<and>
    iv_IsComplete (ue_sets E) len (rw_set rw) \<and> tl_Transition (ue_lib E) (US_State (rw_sess rw)) StateFinalizing = Some st \<and>
    save (rw\<lparr>rw_sess := (rw_sess rw)\<lparr>US_State := st\<rparr>\<rparr>) e = (x, e1) \<and>
    (if isl x then e' = e1 \<and> isl res
     else publish_session T E now r sid (rw\<lparr>rw_sess := (rw_sess rw)\<lparr>US_State := st\<rparr>\<rparr>) len e1 = (res, e'))"
proof -
  obtain rw len st where *: "load E sid e = Inr rw" "row_dest T rw = Inr (r_path r)" "row_totalLen rw = Some len"
    "iv_IsComplete (ue_sets E) len (rw_set rw)" "tl_Transition (ue_lib E) (US_State (rw_sess rw)) StateFinalizing = Some st"
    and rest: "(case save (rw\<lparr>rw_sess := (rw_sess rw)\<lparr>US_State := st\<rparr>\<rparr>) e of
        (Inl x, e1) \<Rightarrow> (Inl x, e1)
      | (Inr _, e1) \<Rightarrow> publish_session T E now r sid (rw\<lparr>rw_sess := (rw_sess rw)\<lparr>US_State := st\<rparr>\<rparr>) len e1) = (res, e')"
    using assms by (auto simp: finalize_def Let_def split: sum.splits option.splits if_splits)
  obtain x e1 where sv: "save (rw\<lparr>rw_sess := (rw_sess rw)\<lparr>US_State := st\<rparr>\<rparr>) e = (x, e1)" by (metis surj_pair)
  have "if isl x then e' = e1 \<and> isl res
      else publish_session T E now r sid (rw\<lparr>rw_sess := (rw_sess rw)\<lparr>US_State := st\<rparr>\<rparr>) len e1 = (res, e')"
    using rest by (cases x) (auto simp: sv)
  then show ?thesis using * sv by blast
qed

lemma retire_done:
  assumes "retire E sid rw e = (rw', e')" and "US_State (rw_sess rw) = StateFinalizing" and "transitions_ok (ue_lib E)"
  shows "restore_receiving E now rw' (out, e') = (out, e')" "en_fs e' = en_fs e"
  using assms by (auto simp: retire_def transitions_ok_def Let_def restore_receiving_def up_db_def save_def split: prod.splits sum.splits)

text \<open>A publication behind the mark undoes the mark, or has published the part.\<close>

lemma publish_session_steps:
  assumes run: "publish_session T E now r sid rw len e = (res, e')" and st: "US_State (rw_sess rw) = StateFinalizing"
    and trans: "transitions_ok (ue_lib E)"
  obtains y e1 where "restore_receiving E now rw (Inl y, e1) = (res, e')" "en_fs e1 = en_fs e" "en_db e1 = en_db e"
  | part e1 y e2 where "publish T E r rw part e1 = (Inl y, e2)" "restore_receiving E now rw (Inl y, e2) = (res, e')"
      "en_fs e1 = en_fs e" "en_db e1 = en_db e"
  | part e1 entry e2 where "partPathOf T rw = Inr part" "publish T E r rw part e1 = (Inr entry, e2)" "res = Inr entry"
      "en_fs e1 = en_fs e" "en_db e1 = en_db e" "en_fs e' = en_fs e2"
proof (cases "partPathOf T rw")
  case (Inl y)
  then show ?thesis using run that(1) by (simp add: publish_session_def)
next
  case (Inr part)
  define V where "V = (case row_verify rw of
      None \<Rightarrow> (None, e)
    | Some v \<Rightarrow> (case handleFor E (r_root r) sid part e of
        (Some x, e1) \<Rightarrow> (Some x, e1)
      | (None, e1) \<Rightarrow> (VerifyWholeFile E (r_root r) part v len (en_fs e1), e1)))"
  obtain v e1 where v: "V = (v, e1)" by (cases V)
  have e1: "en_fs e1 = en_fs e" "en_db e1 = en_db e"
    using v by (auto simp: V_def split: option.splits prod.splits dest: handleFor_fields)
  have all: "publish_session T E now r sid rw len e =
      (case V of
         (Some x, e1) \<Rightarrow> restore_receiving E now rw (Inl x, e1)
       | (None, e1) \<Rightarrow>
           (case publish T E r rw part e1 of
              (Inl x, e2) \<Rightarrow> restore_receiving E now rw (Inl x, e2)
            | (Inr entry, e2) \<Rightarrow>
                (case retire E sid rw e2 of (rw', e3) \<Rightarrow> restore_receiving E now rw' (Inr entry, e3))))"
    by (simp add: publish_session_def Inr V_def)
  show ?thesis
  proof (cases v)
    case (Some y)
    then have "restore_receiving E now rw (Inl y, e1) = (res, e')" using run by (simp add: all v)
    then show ?thesis using that(1) e1 by blast
  next
    case None
    obtain p e2 where p: "publish T E r rw part e1 = (p, e2)" by (metis surj_pair)
    show ?thesis
    proof (cases p)
      case (Inl y)
      then have "restore_receiving E now rw (Inl y, e2) = (res, e')" using run by (simp add: all v None p)
      then show ?thesis using that(2) p Inl e1 by blast
    next
      case I: (Inr entry)
      obtain rw' e3 where rt: "retire E sid rw e2 = (rw', e3)" by (metis surj_pair)
      have "(res, e') = (Inr entry, e3)"
        using run by (simp add: all v None p I rt retire_done(1) [OF rt st trans])
      then show ?thesis using that(3) [OF Inr] p I e1 retire_done(2) [OF rt st trans] by simp
    qed
  qed
qed

lemma publish_session_failed:
  assumes run: "publish_session T E now r sid rw len e = (Inl x, e')" and rec: "receives T view F sid share part e"
    and s: "ReadUploadSession sid (en_db e) = Inr (rw_sess rw)" and st: "US_State (rw_sess rw) = StateFinalizing"
    and laws: "posix (ue_driver E) view" "quota_apart (fe_quota (ue_files E))" "part_laws (ue_parts E) view" "transitions_ok (ue_lib E)"
  shows "receives T view F sid share part e' \<and> view (en_fs e') = view (en_fs e)"
proof -
  have undone: ?thesis if e1: "restore_receiving E now rw (Inl y, e1) = (Inl x, e')"
    and v: "view (en_fs e1) = view (en_fs e)" and db: "same_uploads (en_db e) (en_db e1)" for y e1
  proof -
    have "receives T view F sid share part e1"
      by (rule receives_frame [OF rec]) (simp_all add: v same_uploads_read [OF db])
    moreover have "ReadUploadSession sid (en_db e1) = Inr (rw_sess rw)" using s same_uploads_read(1) [OF db] by simp
    ultimately show ?thesis using restore_receives(1,2) [where T = T and view = view, OF e1] v by metis
  qed
  from run st laws(4) show ?thesis
  proof (cases rule: publish_session_steps)
    case (1 y e1)
    show ?thesis by (rule undone [OF 1(1)]) (simp_all add: 1)
  next
    case (2 part e1 y e2)
    show ?thesis by (rule undone [OF 2(2)]) (use publish_failed [OF 2(1) laws(1-3)] 2(3,4) in simp_all)
  qed simp
qed

lemma finalize_failed:
  assumes run: "finalize T E now r sid e = (Inl x, e')" and rec: "receives T view F sid share part e"
    and laws: "posix (ue_driver E) view" "quota_apart (fe_quota (ue_files E))" "part_laws (ue_parts E) view" "transitions_ok (ue_lib E)"
  shows "receives T view F sid share part e' \<and> view (en_fs e') = view (en_fs e)"
proof (cases "e' = e")
  case True
  then show ?thesis using rec by simp
next
  case False
  then obtain rw len st y e1 where load: "load E sid e = Inr rw"
    and tr: "tl_Transition (ue_lib E) (US_State (rw_sess rw)) StateFinalizing = Some st"
    and sv: "save (rw\<lparr>rw_sess := (rw_sess rw)\<lparr>US_State := st\<rparr>\<rparr>) e = (y, e1)"
    and out: "if isl y then e' = e1 \<and> isl (Inl x :: (upload_error, entry) result)
      else publish_session T E now r sid (rw\<lparr>rw_sess := (rw_sess rw)\<lparr>US_State := st\<rparr>\<rparr>) len e1 = (Inl x, e')"
    using finalize_steps [OF run] by blast
  have s: "ReadUploadSession sid (en_db e) = Inr (rw_sess rw)" using load_Inr [OF load] by blast
  have st: "st = StateFinalizing" using tr laws(4) by (auto simp: transitions_ok_def)
  note m = receives_save [OF rec sv s]
  show ?thesis
  proof (cases "isl y")
    case True
    then show ?thesis using out m by simp
  next
    case F: False
    then have "publish_session T E now r sid (rw\<lparr>rw_sess := (rw_sess rw)\<lparr>US_State := st\<rparr>\<rparr>) len e1 = (Inl x, e')" using out by simp
    from publish_session_failed [OF this _ _ _ laws] show ?thesis using m F st by simp
  qed
qed

lemma Finalize_inner:
  assumes "Finalize T E now r sid e = (res, e')"
  obtains "res = Inl UCanceled" "en_world e' = en_world e"
  | e1 e2 where "en_world e1 = en_world e" "finalize T E now r sid e1 = (res, e2)" "en_world e' = en_world e2"
  using assms by (auto simp: Finalize_def split: option.splits prod.splits dest: closeWriterGate_world)

lemma receives_world: "en_world e' = en_world e \<Longrightarrow> receives T view F sid share part e' = receives T view F sid share part e"
  by (simp add: receives_def)

lemma Finalize_failed:
  assumes run: "Finalize T E now r sid e = (Inl x, e')" and rec: "receives T view F sid share part e"
    and laws: "posix (ue_driver E) view" "quota_apart (fe_quota (ue_files E))" "part_laws (ue_parts E) view" "transitions_ok (ue_lib E)"
  shows "receives T view F sid share part e' \<and> view (en_fs e') = view (en_fs e)"
  using run
proof (cases rule: Finalize_inner)
  case 1
  then show ?thesis using rec by (auto simp: receives_def)
next
  case (2 e1 e2)
  have "receives T view F sid share part e1" using rec 2(1) by (simp add: receives_def)
  from finalize_failed [OF 2(2) this laws] show ?thesis using 2(1,3) receives_world [OF 2(3)] by metis
qed

lemma restore_isl: "restore_receiving E now rw (Inl y, e) = (res, e') \<Longrightarrow> isl res"
  by (auto simp: restore_receiving_def split: if_splits option.splits sum.splits prod.splits)

lemma row_part_nonempty:
  assumes "row_part T s = Inr part"
  shows "sf_comps part \<noteq> []"
proof -
  obtain dest where "JoinControl (SafePath_Parent dest) (US_PartName s) = Inr part"
    using assms by (auto simp: row_part_def partPathOf_def bind_r_eq_Inr partPath_def split: sum.split_asm) (metis sum.exhaust)
  then have "push (SafePath_Parent dest) (US_PartName s) = Inr part" by (auto simp: JoinControl_def split: option.split_asm)
  from push_Inr(1) [OF this] show ?thesis by simp
qed

lemma dest_not_reserved:
  assumes "ParseSafePath T s = Inr p" and "IsReservedName (SafePath_Name q)" and "sf_comps q \<noteq> []"
  shows "sf_comps p \<noteq> sf_comps q"
proof
  assume eq: "sf_comps p = sf_comps q"
  have "list_all ok_component (sf_comps p)" using ParseSafePath_ok [OF assms(1)] by (simp add: path_ok_def)
  then have "ok_component (last (sf_comps q))" using assms(3) eq by (simp add: list_all_iff)
  then show False using assms(2,3) by (auto simp: ok_component_def SafePath_Name_def)
qed

text \<open>A session whose ranges are complete holds the file.\<close>

lemma complete_part:
  assumes rec: "receives T view F sid share part e" and load: "load E sid e = Inr rw"
    and len: "row_totalLen rw = Some len" and complete: "iv_IsComplete (ue_sets E) len (rw_set rw)"
    and iv: "intervals_ok (ue_sets E) ok den" and small: "length F < 2 ^ 63"
  shows "row_part T (rw_sess rw) = Inr part" "view (en_fs e) share (sf_comps part) = Some (Leaf F)"
    "ReadUploadSession sid (en_db e) = Inr (rw_sess rw)"
proof -
  obtain rs where s: "ReadUploadSession sid (en_db e) = Inr (rw_sess rw)" and rs: "ReadUploadIntervals sid (en_db e) = Inr rs"
    and ivs: "iv_Load (ue_sets E) rs = Some (rw_set rw)"
    by (rule load_Inr [OF load])
  obtain c where part: "row_part T (rw_sess rw) = Inr part"
    and total: "US_TotalLen (rw_sess rw) \<in> {None, Some (int (length F))}"
    and c: "view (en_fs e) share (sf_comps part) = Some (Leaf c)" "length c \<le> length F" "agrees F c (run_set rs)"
    using rec s rs unfolding receives_def by auto
  have l: "len = int (length F)" using len total small
    by (auto simp: row_totalLen_def Narrow_u64 max_i64_def split: option.splits)
  have "ok (rw_set rw)" "den (rw_set rw) = run_set rs" using intervals_laws(1) [OF iv ivs] by auto
  then have "{0..<int (length F)} \<subseteq> run_set rs" using intervals_laws(4) [OF iv] complete l by simp
  then have "c = F" using agrees_complete [OF c(3) _ c(2)] by blast
  then show "row_part T (rw_sess rw) = Inr part" "view (en_fs e) share (sf_comps part) = Some (Leaf F)"
    "ReadUploadSession sid (en_db e) = Inr (rw_sess rw)"
    using part c(1) s by auto
qed

lemma publish_session_done:
  assumes run: "publish_session T E now r sid rw len e = (Inr entry, e')" and st: "US_State (rw_sess rw) = StateFinalizing"
    and laws: "posix (ue_driver E) view" "part_laws (ue_parts E) view" "transitions_ok (ue_lib E)"
    and part: "row_part T (rw_sess rw) = Inr part" and at: "view (en_fs e) (SR_ID (r_root r)) (sf_comps part) = Some (Leaf F)"
  shows "IsReservedName (SafePath_Name part) \<and> view (en_fs e') = put (SR_ID (r_root r)) (sf_comps part) None
    (put (SR_ID (r_root r)) (sf_comps (r_path r)) (Some (Leaf F)) (view (en_fs e)))"
  using run st laws(3)
proof (cases rule: publish_session_steps)
  case (3 part' e1 entry' e2)
  have part': "part' = part" using 3(1) part by (simp add: partPathOf_row)
  have "view (en_fs e1) (SR_ID (r_root r)) (sf_comps part') = Some (Leaf F)" using at 3(4) part' by simp
  from publish_done [OF 3(2) laws(1,2) this] show ?thesis using part' 3(4,6) by simp
qed (auto dest: restore_isl)

lemma finalize_delivers:
  assumes run: "finalize T E now r sid e = (Inr entry, e')" and rec: "receives T view F sid (SR_ID (r_root r)) part e"
    and laws: "posix (ue_driver E) view" "part_laws (ue_parts E) view" "intervals_ok (ue_sets E) ok den" "transitions_ok (ue_lib E)"
    and small: "length F < 2 ^ 63"
  shows "sf_comps (r_path r) \<noteq> sf_comps part \<and> view (en_fs e') = put (SR_ID (r_root r)) (sf_comps part) None
    (put (SR_ID (r_root r)) (sf_comps (r_path r)) (Some (Leaf F)) (view (en_fs e)))"
proof -
  have "e' \<noteq> e \<or> \<not> isl (Inr entry :: (upload_error, entry) result)" by simp
  from finalize_steps [OF run this]
  obtain rw len st x e1 where load: "load E sid e = Inr rw" and dest: "row_dest T rw = Inr (r_path r)"
    and len: "row_totalLen rw = Some len" and complete: "iv_IsComplete (ue_sets E) len (rw_set rw)"
    and tr: "tl_Transition (ue_lib E) (US_State (rw_sess rw)) StateFinalizing = Some st"
    and sv: "save (rw\<lparr>rw_sess := (rw_sess rw)\<lparr>US_State := st\<rparr>\<rparr>) e = (x, e1)"
    and out: "if isl x then e' = e1 \<and> isl (Inr entry :: (upload_error, entry) result)
      else publish_session T E now r sid (rw\<lparr>rw_sess := (rw_sess rw)\<lparr>US_State := st\<rparr>\<rparr>) len e1 = (Inr entry, e')"
    by blast
  have out: "publish_session T E now r sid (rw\<lparr>rw_sess := (rw_sess rw)\<lparr>US_State := st\<rparr>\<rparr>) len e1 = (Inr entry, e')"
    using out by (simp split: if_split_asm)
  note c = complete_part [OF rec load len complete laws(3) small]
  have e1: "en_fs e1 = en_fs e" using receives_save(3) [OF rec sv c(3)] by simp
  have st: "st = StateFinalizing" using tr laws(4) by (auto simp: transitions_ok_def)
  have both: "IsReservedName (SafePath_Name part) \<and> view (en_fs e') = put (SR_ID (r_root r)) (sf_comps part) None
    (put (SR_ID (r_root r)) (sf_comps (r_path r)) (Some (Leaf F)) (view (en_fs e)))"
    using publish_session_done [OF out _ laws(1,2,4), of part F] c e1 st by simp
  moreover have "ParseSafePath T (US_Dest (rw_sess rw)) = Inr (r_path r)"
    using dest by (auto simp: row_dest_def split: sum.split_asm)
  ultimately show ?thesis using dest_not_reserved row_part_nonempty [OF c(1)] by blast
qed

lemma Finalize_delivers:
  assumes run: "Finalize T E now r sid e = (Inr entry, e')" and rec: "receives T view F sid (SR_ID (r_root r)) part e"
    and laws: "posix (ue_driver E) view" "part_laws (ue_parts E) view" "intervals_ok (ue_sets E) ok den" "transitions_ok (ue_lib E)"
    and small: "length F < 2 ^ 63"
  shows "sf_comps (r_path r) \<noteq> sf_comps part \<and> view (en_fs e') = put (SR_ID (r_root r)) (sf_comps part) None
    (put (SR_ID (r_root r)) (sf_comps (r_path r)) (Some (Leaf F)) (view (en_fs e)))"
  using run
proof (cases rule: Finalize_inner)
  case (2 e1 e2)
  have "receives T view F sid (SR_ID (r_root r)) part e1" using rec 2(1) by (simp add: receives_def)
  from finalize_delivers [OF 2(2) this laws small] show ?thesis using 2(1,3) by simp
qed simp

end
