(* ===== verification/Sc_UploadRun.thy ===== *)
theory Sc_UploadRun
  imports Sc_UploadParts
begin

text \<open>
  What an upload delivers: the state machine of one session, in which the steps of any number of
  writers, publication attempts and unrelated work interleave, its invariant, and the theorem
  that a published file is the file its chunks were cut from. The interface \<open>upload_modules\<close>
  collects what the engine relies on; its instance is the in-memory tree with interval sets as
  ascending lists of runs.
\<close>

section \<open>The session as a state machine\<close>

text \<open>A writer between its steps: admitted with the row it read, or holding a staged body.\<close>

datatype 'set writer = Admitted "'set up_row" int nat | Holding safe_path int int nat

fun writer_stage :: "'set writer \<Rightarrow> string list option" where
  "writer_stage (Admitted _ _ _) = None"
| "writer_stage (Holding stage _ _ _) = Some (sf_comps stage)"

text \<open>Work of other sessions and of other parts of the server: this session's rows and files stay.\<close>

definition elsewhere ::
  "('fs \<Rightarrow> tree) \<Rightarrow> string \<Rightarrow> int \<Rightarrow> safe_path \<Rightarrow> 'set writer list \<Rightarrow> 'fs engine \<Rightarrow> 'fs engine \<Rightarrow> bool" where
  "elsewhere view sid share part ws e e' \<longleftrightarrow>
     ReadUploadSession sid (en_db e') = ReadUploadSession sid (en_db e) \<and>
     ReadUploadIntervals sid (en_db e') = ReadUploadIntervals sid (en_db e) \<and>
     view (en_fs e') share (sf_comps part) = view (en_fs e) share (sf_comps part) \<and>
     (\<forall>w\<in>set ws. \<forall>q. writer_stage w = Some q \<longrightarrow> view (en_fs e') share q = view (en_fs e) share q)"

inductive upload_run ::
  "'enc text_library \<Rightarrow> ('fs, 'set) upload_env \<Rightarrow> ('fs \<Rightarrow> tree) \<Rightarrow> string \<Rightarrow> string \<Rightarrow> share_root \<Rightarrow> safe_path \<Rightarrow>
     'fs engine \<Rightarrow> 'set writer list \<Rightarrow> bool"
  for T E view F sid root part where
  opened: "Create_session T E now (Some sid) r spec e = (Inr s, e') \<Longrightarrow> s_Dest s = r_path r \<Longrightarrow> r_root r = root \<Longrightarrow>
    partPath (r_path r) (partName (ue_lib E) sid) = Inr part \<Longrightarrow> sp_TotalLen spec \<in> {None, Some (int (length F))} \<Longrightarrow>
    sid \<notin> IV_Session ` set (interval_rows (en_db e)) \<Longrightarrow>
    upload_run T E view F sid root part e' []"
| begun: "upload_run T E view F sid root part e ws \<Longrightarrow> patch_begin T E now sid user off e = (Inr (r, part', lease), e') \<Longrightarrow>
    upload_run T E view F sid root part e' (Admitted r off lease # ws)"
| unbegun: "upload_run T E view F sid root part e ws \<Longrightarrow> patch_begin T E now sid user off e = (Inl x, e') \<Longrightarrow>
    upload_run T E view F sid root part e' ws"
| staged: "upload_run T E view F sid root part e (us @ Admitted r off lease # vs) \<Longrightarrow> slice F off (concat chunks) \<Longrightarrow>
    stageBody E rid user root (SafePath_Parent part) off r chk (patch_reader E r chunks ending) e = (Inr (stage, n), e') \<Longrightarrow>
    upload_run T E view F sid root part e' (us @ Holding stage off n lease # vs)"
| unstaged: "upload_run T E view F sid root part e (us @ Admitted r off lease # vs) \<Longrightarrow> length (concat chunks) < 2 ^ 63 \<Longrightarrow>
    stageBody E rid user root (SafePath_Parent part) off r chk (patch_reader E r chunks ending) e = (Inl x, e') \<Longrightarrow>
    upload_run T E view F sid root part (lease_release sid e') (us @ vs)"
| committed: "upload_run T E view F sid root part e (us @ Holding stage off n lease # vs) \<Longrightarrow>
    patch_commit E now root sid part lease off stage n e = (res, e') \<Longrightarrow>
    upload_run T E view F sid root part (lease_release sid (snd (unlink_at E root stage e'))) (us @ vs)"
| measured: "upload_run T E view F sid root part e ws \<Longrightarrow> SetLength E now sid user (int (length F)) e = (res, e') \<Longrightarrow>
    upload_run T E view F sid root part e' ws"
| refused: "upload_run T E view F sid root part e ws \<Longrightarrow> Finalize T E now r sid e = (Inl x, e') \<Longrightarrow>
    upload_run T E view F sid root part e' ws"
| others: "upload_run T E view F sid root part e ws \<Longrightarrow> elsewhere view sid (SR_ID root) part ws e e' \<Longrightarrow>
    upload_run T E view F sid root part e' ws"

section \<open>The invariant\<close>

fun writer_ok :: "('fs \<Rightarrow> tree) \<Rightarrow> string \<Rightarrow> int \<Rightarrow> safe_path \<Rightarrow> 'fs engine \<Rightarrow> 'set writer \<Rightarrow> bool" where
  "writer_ok view F share part e (Admitted _ _ _) \<longleftrightarrow> True"
| "writer_ok view F share part e (Holding stage off n _) \<longleftrightarrow> sf_comps stage \<noteq> sf_comps part \<and>
     (\<exists>d. view (en_fs e) share (sf_comps stage) = Some (Leaf d) \<and> n = int (length d) \<and> slice F off d)"

definition held_stages :: "'set writer list \<Rightarrow> string list list" where
  "held_stages ws = List.map_filter writer_stage ws"

definition session_inv ::
  "'enc text_library \<Rightarrow> ('fs \<Rightarrow> tree) \<Rightarrow> string \<Rightarrow> string \<Rightarrow> int \<Rightarrow> safe_path \<Rightarrow> 'fs engine \<Rightarrow> 'set writer list \<Rightarrow> bool" where
  "session_inv T view F sid share part e ws \<longleftrightarrow>
     receives T view F sid share part e \<and> list_all (writer_ok view F share part e) ws \<and> distinct (held_stages ws)"

lemma held_stages_simps [simp]:
  "held_stages [] = []" "held_stages (Admitted r off l # ws) = held_stages ws"
  "held_stages (Holding stage off n l # ws) = sf_comps stage # held_stages ws"
  "held_stages (us @ vs) = held_stages us @ held_stages vs"
  by (simp_all add: held_stages_def map_filter_def)

lemma held_stages_mem: "q \<in> set (held_stages ws) \<longleftrightarrow> (\<exists>w\<in>set ws. writer_stage w = Some q)"
  by (force simp: held_stages_def map_filter_def)

lemma writers_at:
  assumes "list_all (writer_ok view F share part e) ws" and "q \<in> set (held_stages ws)"
  shows "view (en_fs e) share q \<noteq> None" "q \<noteq> sf_comps part"
proof -
  obtain w where w: "w \<in> set ws" "writer_stage w = Some q" using assms(2) by (auto simp: held_stages_mem)
  then have "writer_ok view F share part e w" using assms(1) by (simp add: list_all_iff)
  then show "view (en_fs e) share q \<noteq> None" "q \<noteq> sf_comps part" using w(2) by (cases w; auto)+
qed

lemma writers_frame:
  assumes "list_all (writer_ok view F share part e) ws"
    and "\<And>q. q \<in> set (held_stages ws) \<Longrightarrow> view (en_fs e') share q = view (en_fs e) share q"
  shows "list_all (writer_ok view F share part e') ws"
  unfolding list_all_iff
proof
  fix w assume w: "w \<in> set ws"
  then have ok: "writer_ok view F share part e w" using assms(1) by (simp add: list_all_iff)
  show "writer_ok view F share part e' w"
  proof (cases w)
    case (Holding stage off n l)
    then have "sf_comps stage \<in> set (held_stages ws)" using w by (force simp: held_stages_mem)
    from assms(2) [OF this] show ?thesis using ok by (simp add: Holding)
  qed simp
qed

text \<open>A step that leaves every existing name of the session alone, and its rows.\<close>

lemma session_inv_frame:
  assumes inv: "session_inv T view F sid share part e ws"
    and db: "ReadUploadSession sid (en_db e') = ReadUploadSession sid (en_db e)"
      "ReadUploadIntervals sid (en_db e') = ReadUploadIntervals sid (en_db e)"
    and v: "\<And>q. q = sf_comps part \<or> q \<in> set (held_stages ws) \<Longrightarrow> view (en_fs e') share q = view (en_fs e) share q"
  shows "session_inv T view F sid share part e' ws"
proof -
  have "receives T view F sid share part e'"
    by (rule receives_frame [of _ _ _ _ _ _ e]) (use inv db v in \<open>auto simp: session_inv_def\<close>)
  then show ?thesis using inv writers_frame [of view F share part e ws e'] v by (auto simp: session_inv_def)
qed

lemma writer_ok_world: "en_world e' = en_world e \<Longrightarrow> writer_ok view F share part e' w = writer_ok view F share part e w"
  by (cases w) simp_all

lemma session_inv_world:
  "en_world e' = en_world e \<Longrightarrow> session_inv T view F sid share part e' ws = session_inv T view F sid share part e ws"
  by (simp add: session_inv_def receives_def list_all_iff writer_ok_world [of e' e])

lemma inv_keeps:
  assumes inv: "session_inv T view F sid share part e ws" and db: "same_uploads (en_db e) (en_db e')"
    and keeps: "keeps (view (en_fs e)) (view (en_fs e'))"
  shows "session_inv T view F sid share part e' ws"
proof (rule session_inv_frame [OF inv])
  have part: "view (en_fs e) share (sf_comps part) \<noteq> None" using inv by (auto simp: session_inv_def receives_def)
  show "view (en_fs e') share q = view (en_fs e) share q" if "q = sf_comps part \<or> q \<in> set (held_stages ws)" for q
    using that part keeps writers_at(1) [of view F share part e ws q] inv by (auto simp: keeps_def session_inv_def)
qed (simp_all add: same_uploads_read [OF db])

lemma staged_inv:
  assumes inv: "session_inv T view F sid (SR_ID root) part e (us @ Admitted r off lease # vs)"
    and run: "stageBody E rid user root dir off r' chk rd e = (Inr (stage, n), e')"
    and sl: "slice F off (concat (rd_chunks rd))" and small: "length F < 2 ^ 63"
    and laws: "part_laws (ue_parts E) view" "posix (ue_driver E) view" "quota_apart (fe_quota (ue_files E))"
  shows "session_inv T view F sid (SR_ID root) part e' (us @ Holding stage off n lease # vs)"
proof -
  have len: "length (concat (rd_chunks rd)) < 2 ^ 63" using sl small by (auto simp: slice_def)
  note eff = stageBody_effect [OF run laws len]
  obtain d where d: "prefix d (concat (rd_chunks rd))" "n = int (length d)" "view (en_fs e') (SR_ID root) (sf_comps stage) = Some (Leaf d)"
    and fresh: "view (en_fs e) (SR_ID root) (sf_comps stage) = None"
    using eff by auto
  have inv': "session_inv T view F sid (SR_ID root) part e' (us @ vs)"
    by (rule inv_keeps) (use inv eff in \<open>auto simp: session_inv_def\<close>)
  have "sf_comps stage \<noteq> sf_comps part" using fresh inv by (auto simp: session_inv_def receives_def)
  moreover have "sf_comps stage \<notin> set (held_stages (us @ vs))"
    using fresh writers_at(1) [of view F "SR_ID root" part e "us @ vs" "sf_comps stage"] inv by (auto simp: session_inv_def)
  ultimately show ?thesis using inv' d slice_prefix [OF sl d(1)] by (auto simp: session_inv_def)
qed

lemma unstaged_inv:
  assumes inv: "session_inv T view F sid (SR_ID root) part e (us @ Admitted r off lease # vs)"
    and run: "stageBody E rid user root dir off r' chk rd e = (Inl x, e')" and len: "length (concat (rd_chunks rd)) < 2 ^ 63"
    and laws: "part_laws (ue_parts E) view" "posix (ue_driver E) view" "quota_apart (fe_quota (ue_files E))"
  shows "session_inv T view F sid (SR_ID root) part e' (us @ vs)"
  by (rule inv_keeps) (use inv stageBody_effect [OF run laws len] in \<open>auto simp: session_inv_def\<close>)

lemma committed_inv:
  assumes inv: "session_inv T view F sid (SR_ID root) part e (us @ Holding stage off n lease # vs)"
    and run: "patch_commit E now root sid part lease off stage n e = (res, e')" and small: "length F < 2 ^ 63"
    and laws: "part_laws (ue_parts E) view" "posix (ue_driver E) view" "intervals_ok (ue_sets E) ok den"
  shows "session_inv T view F sid (SR_ID root) part (snd (unlink_at E root stage e')) (us @ vs)"
proof -
  obtain d where apart: "sf_comps stage \<noteq> sf_comps part" and d: "view (en_fs e) (SR_ID root) (sf_comps stage) = Some (Leaf d)"
      "n = int (length d)" "slice F off d"
    and rec: "receives T view F sid (SR_ID root) part e" and ws: "list_all (writer_ok view F (SR_ID root) part e) (us @ vs)"
    and dist: "distinct (held_stages (us @ vs))" "sf_comps stage \<notin> set (held_stages (us @ vs))"
    using inv by (auto simp: session_inv_def)
  note c = patch_commit_receives [OF run rec laws small apart d]
  let ?e = "snd (unlink_at E root stage e')"
  have u: "stages view (SR_ID root) (sf_comps stage) e' ?e" "en_db ?e = en_db e'"
    using unlink_at_effect [OF prod.collapse [symmetric] laws(2), of root stage e'] by auto
  have "receives T view F sid (SR_ID root) part ?e"
    by (rule receives_frame [of _ _ _ _ _ _ e']) (use c u(2) stages_at [OF u(1)] apart in auto)
  moreover have "list_all (writer_ok view F (SR_ID root) part ?e) (us @ vs)"
  proof (rule writers_frame [OF ws])
    fix q assume q: "q \<in> set (held_stages (us @ vs))"
    then have "q \<noteq> sf_comps part" "q \<noteq> sf_comps stage" using writers_at(2) [OF ws] dist(2) by auto
    then show "view (en_fs ?e) (SR_ID root) q = view (en_fs e) (SR_ID root) q" using c stages_at [OF u(1)] by auto
  qed
  ultimately show ?thesis using dist(1) by (simp add: session_inv_def)
qed

lemma measured_inv:
  assumes inv: "session_inv T view F sid share part e ws" and run: "SetLength E now sid user (int (length F)) e = (res, e')"
    and small: "length F < 2 ^ 63"
  shows "session_inv T view F sid share part e' ws"
proof (cases "e' = e")
  case True
  then show ?thesis using inv by simp
next
  case False
  have nar: "Narrow (Signed 64) (Unsigned 64) (int (length F)) = Some (int (length F))"
    using small by (simp add: Narrow_i64 in_u64_def max_i64_def)
  obtain r where load: "load E sid e = Inr r"
    and sv: "save (r\<lparr>rw_sess := (rw_sess r)\<lparr>US_TotalLen := Some (int (length F)), US_ExpiresNs := expiry now\<rparr>\<rparr>) e = (res, e')"
    using run False by (auto simp: SetLength_def nar split: sum.split_asm option.split_asm if_split_asm)
  have s: "ReadUploadSession sid (en_db e) = Inr (rw_sess r)" using load_Inr [OF load] by blast
  have rec: "receives T view F sid share part e" using inv by (simp add: session_inv_def)
  have "receives T view F sid share part e'" and fs: "en_fs e' = en_fs e" using receives_save [OF rec sv s] by auto
  then show ?thesis using inv writers_frame [of view F share part e ws e'] by (simp add: session_inv_def)
qed

lemma refused_inv:
  assumes inv: "session_inv T view F sid share part e ws" and run: "Finalize T E now r sid e = (Inl x, e')"
    and laws: "posix (ue_driver E) view" "quota_apart (fe_quota (ue_files E))" "part_laws (ue_parts E) view" "transitions_ok (ue_lib E)"
  shows "session_inv T view F sid share part e' ws"
  using inv Finalize_failed [OF run _ laws, of F share part] writers_frame [of view F share part e ws e'] by (simp add: session_inv_def)

section \<open>Opening\<close>

lemma find_snoc: "find P (xs @ [x]) = (case find P xs of None \<Rightarrow> if P x then Some x else None | Some y \<Rightarrow> Some y)"
  by (induction xs) auto

lemma Create_Read:
  assumes "CreateUploadSession s db = (Inr (), db')" and "US_ID s \<notin> IV_Session ` set (interval_rows db)"
  shows "ReadUploadSession (US_ID s) db' = Inr s" "ReadUploadIntervals (US_ID s) db' = Inr []"
proof -
  obtain names where enc: "encodeSpooledNames (US_SpooledNames s) = Inr names"
    and new: "US_ID s \<notin> US_ID ` set (session_rows db)" and db': "db' = db\<lparr>session_rows := session_rows db @ [with_names names s]\<rparr>"
    using assms(1) by (auto simp: CreateUploadSession_def db_Write_def sqlInsertUploadSession_def split: option.splits sum.splits if_splits)
  have "US_ID r \<noteq> US_ID s" if "r \<in> set (session_rows db)" for r using new imageI [OF that, of US_ID] by auto
  then have "find (\<lambda>r. US_ID r = US_ID s) (session_rows db) = None" by (simp add: find_None_iff)
  then have "find (\<lambda>r. US_ID r = US_ID s) (session_rows db @ [with_names names s]) = Some (with_names names s)"
    by (simp add: find_snoc)
  then show "ReadUploadSession (US_ID s) db' = Inr s" by (simp add: ReadUploadSession_def sqlReadUploadSession_def db' scan_encoded [OF enc])
  have "IV_Session r \<noteq> US_ID s" if "r \<in> set (interval_rows db)" for r using assms(2) imageI [OF that, of IV_Session] by auto
  then have "filter (\<lambda>r. IV_Session r = US_ID s) (interval_rows db) = []" by (simp add: filter_empty_conv)
  then show "ReadUploadIntervals (US_ID s) db' = Inr []" by (simp add: ReadUploadIntervals_def sqlReadUploadIntervals_def db')
qed

lemma createPart_done:
  assumes "createPart E root part len e = (None, e')" and laws: "part_laws (ue_parts E) view"
    and u: "\<And>t. len = Some t \<Longrightarrow> in_u64 t"
  obtains c where "view (en_fs e') (SR_ID root) (sf_comps part) = Some (Leaf c)" "length c = (case len of None \<Rightarrow> 0 | Some n \<Rightarrow> nat n)"
    "en_db e' = en_db e"
proof -
  obtain fs where c: "po_CreatePart (ue_parts E) root part (en_fs e) = (None, fs)"
    using assms(1) by (auto simp: createPart_def split: prod.splits option.splits)
  have v: "view fs (SR_ID root) (sf_comps part) = Some (Leaf [])" using CreatePart_law(1) [OF laws c] by simp
  show ?thesis
  proof (cases len)
    case None
    then show ?thesis using that [of "[]"] assms(1) v by (auto simp: createPart_def c)
  next
    case (Some t)
    obtain n fs2 where n: "Narrow (Signed 64) (Unsigned 64) t = Some n" and tr: "po_Truncate (ue_parts E) root part n fs = (None, fs2)"
      and e': "e' = set_fs fs2 (set_fs fs e)"
      using assms(1) Some by (auto simp: createPart_def c Let_def split: prod.splits option.splits)
    have "n = t" using n u Some by (auto simp: Narrow_i64 split: if_splits)
    then show ?thesis using that Truncate_law [OF laws tr] v Some by (auto simp: e' resize_def)
  qed
qed

lemma session_of_dest:
  assumes "session_of T E now r = Inr s"
  shows "row_dest T r = Inr (s_Dest s)"
proof (cases "row_dest T r")
  case (Inl x)
  then show ?thesis using assms by (simp add: session_of_def Let_def split: option.split_asm)
next
  case (Inr p)
  then show ?thesis using assms by (auto simp: session_of_def Let_def split: option.split_asm if_split_asm)
qed

lemma opened_inv:
  assumes run: "Create_session T E now (Some sid) r spec e = (Inr s, e')" and dest: "s_Dest s = r_path r"
    and part: "partPath (r_path r) (partName (ue_lib E) sid) = Inr part"
    and len: "sp_TotalLen spec \<in> {None, Some (int (length F))}"
    and unused: "sid \<notin> IV_Session ` set (interval_rows (en_db e))" and laws: "part_laws (ue_parts E) view"
    and small: "length F < 2 ^ 63"
  shows "session_inv T view F sid (SR_ID (r_root r)) part e' []"
proof -
  have u: "in_u64 t" if "sp_TotalLen spec = Some t" for t using that len small by (auto simp: in_u64_def)
  obtain e1 row e3 where cp: "createPart E (r_root r) part (sp_TotalLen spec) e = (None, e1)"
    and row: "newRow E now sid r spec (snd (up_db (TouchUploadDir (r_share r) (SafePath_String (SafePath_Parent (r_path r)))) e1)) = Inr row"
    and cr: "up_db (CreateUploadSession row) (snd (up_db (TouchUploadDir (r_share r) (SafePath_String (SafePath_Parent (r_path r)))) e1)) = (Inr (), e3)"
    and out: "session_of T E now \<lparr>rw_sess = row, rw_set = iv_New (ue_sets E)\<rparr> = Inr s" and e': "en_world e' = en_world e3"
    using run by (auto simp: Create_session_def part Let_def split: option.split_asm if_split_asm sum.split_asm prod.split_asm)
  obtain c where c: "view (en_fs e1) (SR_ID (r_root r)) (sf_comps part) = Some (Leaf c)"
    "length c = (case sp_TotalLen spec of None \<Rightarrow> 0 | Some n \<Rightarrow> nat n)" and db1: "en_db e1 = en_db e"
    by (rule createPart_done [OF cp laws u])
  let ?e2 = "snd (up_db (TouchUploadDir (r_share r) (SafePath_String (SafePath_Parent (r_path r)))) e1)"
  have e2: "en_fs ?e2 = en_fs e1" "interval_rows (en_db ?e2) = interval_rows (en_db e1)"
    by (auto simp: up_db_def TouchUploadDir_def db_Write_def split: prod.splits sum.splits option.splits)
  have fields: "US_ID row = sid" "US_Dest row = SafePath_String (r_path r)" "US_PartName row = partName (ue_lib E) sid"
      "US_TotalLen row = sp_TotalLen spec"
    using row u by (auto simp: newRow_def Let_def Narrow_i64 split: option.split_asm if_split_asm)
  have e3: "en_fs e3 = en_fs e1" and cr': "CreateUploadSession row (en_db ?e2) = (Inr (), en_db e3)"
    using cr e2(1) by (auto simp: up_db_def split: prod.split_asm sum.split_asm)
  have "sid \<notin> IV_Session ` set (interval_rows (en_db ?e2))" using unused e2(2) db1 by simp
  note rd = Create_Read [OF cr', unfolded fields, OF this]
  have "row_dest T \<lparr>rw_sess = row, rw_set = iv_New (ue_sets E)\<rparr> = Inr (r_path r)"
    using session_of_dest [OF out] dest by simp
  then have "row_part T row = Inr part" using part fields by (simp add: row_part_def partPathOf_def row_dest_def)
  then have "receives T view F sid (SR_ID (r_root r)) part e'"
    using rd c len fields by (auto simp: receives_def e' e3 run_set_def agrees_def)
  then show ?thesis by (simp add: session_inv_def)
qed

section \<open>Every reachable state\<close>

lemma patch_begin_part:
  assumes "patch_begin T E now sid user off e = (Inr (r, part, lease), e')"
  shows "\<exists>s. ReadUploadSession sid (en_db e) = Inr s \<and> row_part T s = Inr part"
proof -
  have load: "load E sid e = Inr r" and part: "partPathOf T r = Inr part"
    using assms by (auto simp: patch_begin_def split: sum.split_asm option.split_asm if_split_asm prod.split_asm)
  show ?thesis by (rule load_Inr [OF load]) (use part in \<open>auto simp: partPathOf_row\<close>)
qed

text \<open>What the engine relies on, as one interface.\<close>

locale upload_modules =
  fixes E :: "('fs, 'set) upload_env" and view :: "'fs \<Rightarrow> tree" and ok :: "'set \<Rightarrow> bool" and den :: "'set \<Rightarrow> int set"
  assumes parts: "part_laws (ue_parts E) view"
    and driver: "posix (ue_driver E) view"
    and quota: "quota_apart (fe_quota (ue_files E))"
    and sets: "intervals_ok (ue_sets E) ok den"
    and lifecycle: "transitions_ok (ue_lib E)"
begin

lemma upload_run_inv:
  assumes "upload_run T E view F sid root part e ws" and small: "length F < 2 ^ 63"
  shows "session_inv T view F sid (SR_ID root) part e ws"
  using assms(1)
proof induction
  case (opened now r spec e s e')
  from opened_inv [OF opened(1,2,4,5,6) parts small] show ?case by (simp add: opened(3))
next
  case (begun e ws now user off r part' lease e')
  have "session_inv T view F sid (SR_ID root) part e' ws" using begun(3) session_inv_world [OF patch_begin_world [OF begun(2)]] by blast
  then show ?case by (simp add: session_inv_def)
next
  case (unbegun e ws now user off x e')
  then show ?case using session_inv_world [OF patch_begin_world [OF unbegun(2)]] by blast
next
  case (staged e us r off lease vs chunks rid user chk ending stage n e')
  have "slice F off (concat (rd_chunks (patch_reader E r chunks ending)))" using staged(2) by (simp add: patch_reader_def)
  from staged_inv [OF staged(4,3) this small parts driver quota] show ?case .
next
  case (unstaged e us r off lease vs chunks rid user chk ending x e')
  have "length (concat (rd_chunks (patch_reader E r chunks ending))) < 2 ^ 63" using unstaged(2) by (simp add: patch_reader_def)
  from unstaged_inv [OF unstaged(4,3) this parts driver quota] show ?case by (simp add: session_inv_world [OF gate_fields(4)])
next
  case (committed e us stage off n lease vs now res e')
  from committed_inv [OF committed(3,2) small parts driver sets] show ?case by (simp add: session_inv_world [OF gate_fields(4)])
next
  case (measured e ws now user res e')
  from measured_inv [OF measured(3,2) small] show ?case .
next
  case (refused e ws now r x e')
  from refused_inv [OF refused(3,2) driver quota parts lifecycle] show ?case .
next
  case (others e ws e')
  show ?case by (rule session_inv_frame [OF others(3)]) (use others(2) in \<open>auto simp: elsewhere_def held_stages_mem\<close>)
qed

lemma reachable_delivers:
  assumes "upload_run T E view F sid root part e ws" and "length F < 2 ^ 63"
    and "Finalize T E now r sid e = (Inr entry, e')" and "SR_ID (r_root r) = SR_ID root"
  shows "sf_comps (r_path r) \<noteq> sf_comps part \<and> view (en_fs e') = put (SR_ID root) (sf_comps part) None
    (put (SR_ID root) (sf_comps (r_path r)) (Some (Leaf F)) (view (en_fs e)))"
proof -
  have "receives T view F sid (SR_ID (r_root r)) part e" using upload_run_inv [OF assms(1,2)] assms(4) by (simp add: session_inv_def)
  from Finalize_delivers [OF assms(3) this driver parts sets lifecycle assms(2)] show ?thesis by (simp add: assms(4))
qed

text \<open>A whole patch is its three steps in a row.\<close>

lemma patch_in_run:
  assumes run: "upload_run T E view F sid root part e ws" and small: "length F < 2 ^ 63"
    and patch: "PatchAt T E now rid root sid user off chunks ending chk e = (res, e')" and sl: "slice F off (concat chunks)"
  shows "upload_run T E view F sid root part e' ws"
proof -
  obtain b e1 where pb: "patch_begin T E now sid user off e = (b, e1)" by (metis surj_pair)
  show ?thesis
  proof (cases b)
    case (Inl x)
    then show ?thesis using upload_run.unbegun [OF run] pb patch by (simp add: PatchAt_def)
  next
    case (Inr y)
    then obtain r part' lease where b: "b = Inr (r, part', lease)" by (metis surj_pair)
    have *: "upload_run T E view F sid root part e1 ([] @ Admitted r off lease # ws)"
      using upload_run.begun [OF run] pb b by simp
    have "part' = part" using upload_run_inv [OF run small] patch_begin_part [OF pb [unfolded b]] by (auto simp: session_inv_def receives_def)
    obtain st e2 where sb: "stageBody E rid user root (SafePath_Parent part) off r chk (patch_reader E r chunks ending) e1 = (st, e2)"
      by (metis surj_pair)
    have len: "length (concat chunks) < 2 ^ 63" using sl small by (auto simp: slice_def)
    show ?thesis
    proof (cases st)
      case (Inl x)
      then have "e' = lease_release sid e2" using sb patch by (simp add: PatchAt_def pb b \<open>part' = part\<close>)
      then show ?thesis using upload_run.unstaged [OF * len sb [unfolded Inl]] by simp
    next
      case (Inr z)
      then obtain stage n where st: "st = Inr (stage, n)" by (metis surj_pair)
      note ** = upload_run.staged [OF * sl sb [unfolded st]]
      obtain cr e3 where pc: "patch_commit E now root sid part lease off stage n e2 = (cr, e3)" by (metis surj_pair)
      have "e' = lease_release sid (snd (unlink_at E root stage e3))"
        using patch by (simp add: PatchAt_def pb b \<open>part' = part\<close> sb st pc)
      then show ?thesis using upload_run.committed [OF ** pc] by simp
    qed
  qed
qed

end

section \<open>An instance\<close>

text \<open>Part files in the in-memory tree, and interval sets as ascending lists of separate runs.\<close>

definition mem_parts :: "mem_fs part_ops" where
  "mem_parts =
     \<lparr>po_CreatePart = (\<lambda>r p fs. if map_of fs (mem_key r p) = None then (None, (mem_key r p, Leaf []) # fs) else (Some VExists, fs)),
      po_OpenWrite = (\<lambda>r p fs. case map_of fs (mem_key r p) of Some (Leaf _) \<Rightarrow> None | _ \<Rightarrow> Some VNotFound),
      po_Truncate = (\<lambda>r p n fs. case map_of fs (mem_key r p) of
          Some (Leaf s) \<Rightarrow> (None, (mem_key r p, Leaf (resize (nat n) s)) # fs)
        | _ \<Rightarrow> (Some VNotFound, fs)),
      po_WriteAt = (\<lambda>r p b at fs. case map_of fs (mem_key r p) of
          Some (Leaf s) \<Rightarrow> ((length b, None), (mem_key r p, Leaf (overlay (nat at) b s)) # fs)
        | _ \<Rightarrow> ((0, Some VNotFound), fs)),
      po_ReadAt = (\<lambda>r p n at fs. case map_of fs (mem_key r p) of
          Some (Leaf s) \<Rightarrow> (take (nat n) (drop (nat at) s), ReadOk)
        | _ \<Rightarrow> ([], ReadErr VNotFound)),
      po_CopyRange = (\<lambda>r src from dst at n fs. case (map_of fs (mem_key r src), map_of fs (mem_key r dst)) of
          (Some (Leaf a), Some (Leaf b)) \<Rightarrow>
            (let d = take (nat n) (drop (nat from) a) in (Inr (int (length d)), (mem_key r dst, Leaf (overlay (nat at) d b)) # fs))
        | _ \<Rightarrow> (Inl VNotFound, fs)),
      po_SyncData = (\<lambda>_ _ _. None), po_Close = (\<lambda>_ _ _. None), po_SetTimes = (\<lambda>_ _ _ fs. fs),
      po_Space = (\<lambda>_ _ _. None),
      po_ReadDirAll = (\<lambda>r p fs.
        if map_of fs (mem_key r p) = Some Folder
        then Inr (remdups (map (\<lambda>e. last (snd (fst e)))
               (filter (\<lambda>e. fst (fst e) = SR_ID r \<and> snd (fst e) \<noteq> [] \<and> butlast (snd (fst e)) = sf_comps p) fs)))
        else Inl VNotFound)\<rparr>"

lemma mem_put: "mem_view ((mem_key r p, n) # fs) = put (SR_ID r) (sf_comps p) (Some n) (mem_view fs)"
  by (simp add: mem_key_def mem_view_put)

lemma mem_at: "map_of fs (mem_key r p) = mem_view fs (SR_ID r) (sf_comps p)"
  by (simp add: mem_key_def mem_view_def)

lemma mem_part_writes: "part_writes mem_parts mem_view"
  unfolding part_writes_def mem_parts_def
  by (auto simp: mem_at mem_put split: if_splits option.splits node.splits)

lemma mem_part_copies: "part_copies mem_parts mem_view"
  unfolding part_copies_def
proof (intro allI impI)
  fix r src "from" dst at n fs res fs' a b
  assume run: "po_CopyRange mem_parts r src from dst at n fs = (res, fs')" and "0 \<le> n"
    and at: "mem_view fs (SR_ID r) (sf_comps src) = Some (Leaf a)" "mem_view fs (SR_ID r) (sf_comps dst) = Some (Leaf b)"
  let ?k = "length (take (nat n) (drop (nat from) a))"
  have "take ?k (drop (nat from) a) = take (nat n) (drop (nat from) a)" by (simp add: min_def)
  then show "\<exists>k. k \<le> length a - nat from \<and> int k \<le> n \<and> (\<forall>c. res = Inr c \<longrightarrow> c = int k) \<and>
    mem_view fs' = put (SR_ID r) (sf_comps dst) (Some (Leaf (overlay (nat at) (take k (drop (nat from) a)) b))) (mem_view fs)"
    using run at \<open>0 \<le> n\<close> by (intro exI [of _ ?k]) (auto simp: mem_parts_def mem_at mem_put Let_def)
qed

fun insert_run :: "int \<Rightarrow> int \<Rightarrow> (int \<times> int) list \<Rightarrow> (int \<times> int) list" where
  "insert_run lo hi [] = [(lo, hi)]"
| "insert_run lo hi ((a, b) # rs) =
     (if hi < a then (lo, hi) # (a, b) # rs
      else if b < lo then (a, b) # insert_run lo hi rs
      else insert_run (min lo a) (max hi b) rs)"

fun separate :: "int \<Rightarrow> (int \<times> int) list \<Rightarrow> bool" where
  "separate m [] \<longleftrightarrow> True"
| "separate m ((a, b) # rs) \<longleftrightarrow> m \<le> a \<and> a < b \<and> b < 2 ^ 64 \<and> separate (b + 1) rs"

definition run_sets :: "(int \<times> int) list intervals" where
  "run_sets =
     \<lparr>iv_New = [], iv_Full = (\<lambda>n. if n = 0 then [] else [(0, n)]), iv_Load = (\<lambda>rs. if separate 0 rs then Some rs else None),
      iv_Insert = (\<lambda>lo hi s. Some (if lo < hi then insert_run lo hi s else s)), iv_Runs = (\<lambda>s. s), iv_Count = (\<lambda>s. int (length s)),
      iv_ContiguousPrefix = (\<lambda>s. case s of (lo, hi) # _ \<Rightarrow> if lo = 0 then hi else 0 | [] \<Rightarrow> 0),
      iv_Received = (\<lambda>s. sum_list (map (\<lambda>r. snd r - fst r) s)),
      iv_IsComplete = (\<lambda>n s. n \<le> 0 \<or> (case s of (lo, hi) # _ \<Rightarrow> lo = 0 \<and> n \<le> hi | [] \<Rightarrow> False)),
      iv_Missing = (\<lambda>n s. [])\<rparr>"

lemma run_set_simps [simp]: "run_set [] = {}" "run_set ((a, b) # rs) = {a..<b} \<union> run_set rs"
  by (simp_all add: run_set_def)

lemma separate_mono: "separate m rs \<Longrightarrow> m' \<le> m \<Longrightarrow> separate m' rs"
  by (induction m rs rule: separate.induct) auto

lemma separate_above: "separate m rs \<Longrightarrow> x \<in> run_set rs \<Longrightarrow> m \<le> x"
  by (induction m rs rule: separate.induct) force+

lemma insert_run_separate:
  "separate m rs \<Longrightarrow> m \<le> lo \<Longrightarrow> lo < hi \<Longrightarrow> hi < 2 ^ 64 \<Longrightarrow>
     separate m (insert_run lo hi rs) \<and> run_set (insert_run lo hi rs) = run_set rs \<union> {lo..<hi}"
proof (induction lo hi rs arbitrary: m rule: insert_run.induct)
  case (2 lo hi a b rs)
  note sep = 2(3) [simplified] and lo = 2(4) and less = 2(5) and top = 2(6)
  show ?case
  proof (cases "hi < a \<or> b < lo")
    case True
    then show ?thesis
    proof
      assume "hi < a"
      then show ?thesis using sep lo less top separate_mono by auto
    next
      assume b: "b < lo"
      then have "\<not> hi < a" using sep less by simp
      then show ?thesis using 2(1) [of "b + 1"] b sep less top by auto
    qed
  next
    case False
    have "separate m rs" using sep separate_mono [of "b + 1" rs m] by simp
    then have "separate m (insert_run (min lo a) (max hi b) rs) \<and>
        run_set (insert_run (min lo a) (max hi b) rs) = run_set rs \<union> {min lo a..<max hi b}"
      using 2(2) [of m] False sep lo less top by auto
    moreover have "{min lo a..<max hi b} = {a..<b} \<union> {lo..<hi}" using False sep less by auto
    ultimately show ?thesis using False by auto
  qed
qed simp

lemma separate_runs: "separate m rs \<Longrightarrow> 0 \<le> m \<Longrightarrow> runs_ok rs \<and> (\<forall>r\<in>set rs. m \<le> fst r)"
proof (induction m rs rule: separate.induct)
  case (2 m a b rs)
  then have "runs_ok rs" "\<forall>r\<in>set rs. b + 1 \<le> fst r" by auto
  then show ?case using 2(2,3) by (force simp: runs_ok_def in_u64_def)
qed (simp add: runs_ok_def)

lemma complete_run:
  assumes "separate 0 rs" and "0 < n"
  shows "(case rs of (lo, hi) # _ \<Rightarrow> lo = 0 \<and> n \<le> hi | [] \<Rightarrow> False) \<longleftrightarrow> {0..<n} \<subseteq> run_set rs"
proof (cases rs)
  case (Cons r rest)
  obtain lo hi where r: "r = (lo, hi)" by (cases r)
  have sep: "0 \<le> lo" "lo < hi" "separate (hi + 1) rest" using assms(1) by (auto simp: Cons r)
  have out: "x \<notin> run_set rest" if "x \<le> hi" for x using separate_above [OF sep(3)] that by force
  show ?thesis
  proof
    assume "{0..<n} \<subseteq> run_set rs"
    moreover have "hi \<notin> run_set rs" using out [of hi] by (simp add: Cons r)
    ultimately have "0 \<in> run_set rs" "\<not> (0 \<le> hi \<and> hi < n)" using assms(2) by auto
    then show "case rs of (lo, hi) # _ \<Rightarrow> lo = 0 \<and> n \<le> hi | [] \<Rightarrow> False" using out [of 0] sep by (auto simp: Cons r)
  qed (auto simp: Cons r)
qed (use assms in auto)

lemma run_sets_ok: "intervals_ok run_sets (separate 0) run_set"
proof -
  have ins: "separate 0 s' \<and> run_set s' = run_set s \<union> {lo..<hi}"
    if "separate 0 s" "in_u64 lo" "in_u64 hi" "iv_Insert run_sets lo hi s = Some s'" for s lo hi s'
    using that insert_run_separate [of 0 s lo hi] by (auto simp: run_sets_def in_u64_def split: if_splits)
  have "iv_IsComplete run_sets n s = ({0..<n} \<subseteq> run_set s)" if "separate 0 s" "0 \<le> n" for s n
    using that complete_run [of s n] by (cases "n = 0") (auto simp: run_sets_def)
  moreover have "runs_ok (iv_Runs run_sets s) \<and> run_set (iv_Runs run_sets s) = run_set s" if "separate 0 s" for s
    using that separate_runs [of 0 s] by (simp add: run_sets_def)
  moreover have "separate 0 s \<and> run_set s = run_set rs" if "iv_Load run_sets rs = Some s" for rs s
    using that by (auto simp: run_sets_def split: if_splits)
  moreover have "separate 0 (iv_Full run_sets n) \<and> run_set (iv_Full run_sets n) = {0..<n}" if "in_u64 n" for n
    using that by (auto simp: run_sets_def in_u64_def)
  ultimately show ?thesis using ins unfolding intervals_ok_def by blast
qed

definition demo_transition :: "session_state \<Rightarrow> session_state \<Rightarrow> session_state option" where
  "demo_transition a b =
     (if (a, b) \<in> {(StateReceiving, StateFinalizing), (StateFinalizing, StateFinalizing), (StateFinalizing, StateReceiving),
           (StateFinalizing, StateDone), (StateReceiving, StateAborted), (StateFinalizing, StateAborted)} then Some b else None)"

definition demo_upload :: "(mem_fs, (int \<times> int) list) upload_env" where
  "demo_upload = \<lparr>ue_files = demo_files_env, ue_parts = mem_parts, ue_sets = run_sets,
     ue_lib = \<lparr>tl_FromBytes = Some, tl_String = (\<lambda>s. s), tl_Transition = demo_transition,
       tl_ValidateDigest = (\<lambda>_ _. True), tl_Digest = (\<lambda>_ s. s)\<rparr>\<rparr>"

lemma state_quota_apart: "quota_apart (Some state_quota)"
  by (auto simp: quota_apart_def same_uploads_def state_quota_def Quota_Reserve_def Quota_Release_def Quota_Commit_def sqlReserveQuota_def sqlReleaseQuota_def db_Write_def split: sum.splits option.splits prod.splits)

interpretation mem_up: upload_modules demo_upload mem_view "separate 0" run_set
  using mem_part_writes mem_part_copies mem_posix run_sets_ok state_quota_apart
  by unfold_locales (simp_all add: demo_upload_def part_laws_def demo_files_env_def transitions_ok_def demo_transition_def)

definition demo_engine :: "mem_fs engine" where
  "demo_engine = \<lparr>en_world = demo_world, en_gates = (\<lambda>_. newWriterBarrier), en_handles = {},
     en_settings = \<lparr>minBytes = UploadChunkFloor, defaultBytes = UploadChunkFloor, overridden = False\<rparr>, en_closed = False\<rparr>"

definition demo_spec :: session_spec where
  "demo_spec = \<lparr>sp_TotalLen = Some 6, sp_ChunkSize = None, sp_RandomAccess = True, sp_Mode = SpoolOffsetAddressed, sp_IfMatch = [],
     sp_Filename = [], sp_MtimeNs = None, sp_Mime = [], sp_RelativePath = [], sp_Verify = None\<rparr>"

definition demo_opened :: "(upload_error, session) result \<times> mem_fs engine" where
  "demo_opened = Create_session latin1_library demo_upload 100 (Some ''s'') demo_target demo_spec demo_engine"

text \<open>The session after its last three and after all its six bytes.\<close>

definition demo_session_row :: "int \<Rightarrow> 8 word list upload_row" where
  "demo_session_row now = \<lparr>US_ID = ''s'', US_User = 2, US_Share = 3, US_Dest = ''a'' @ [slash] @ ''f'', US_PartName = ''.scpart-s'',
     US_SpoolDir = [], US_CacheDir = [], US_CacheMerged = 0, US_Mode = SpoolOffsetAddressed, US_TotalLen = Some 6,
     US_ChunkSize = UploadChunkFloor, US_ChunkMin = UploadChunkFloor, US_RandomAccess = True, US_NextName = 1, US_WriteHead = 0,
     US_SpooledNames = [], US_IfMatch = [], US_Filename = [], US_MtimeNs = None, US_Mime = [], US_RelativePath = [],
     US_Verify = None, US_VerifyDigest = [], US_CreatedNs = 100, US_ExpiresNs = expiry now, US_State = StateReceiving\<rparr>"

definition demo_session :: "int \<Rightarrow> interval_row list \<Rightarrow> string \<Rightarrow> mem_fs engine" where
  "demo_session now rows held = set_fs (((3, [''a'', ''.scpart-s'']), Leaf held) # demo_files)
     (set_db (demo_ledger\<lparr>session_rows := [demo_session_row now], interval_rows := rows\<rparr>) demo_engine)"

definition demo_empty :: "mem_fs engine" where "demo_empty = demo_session 100 [] (replicate 6 nul)"

definition demo_half :: "mem_fs engine" where
  "demo_half = demo_session 101 [\<lparr>IV_Session = ''s'', IV_Lo = 3, IV_Hi = 6\<rparr>] (replicate 3 nul @ ''lo!'')"

definition demo_full :: "mem_fs engine" where
  "demo_full = demo_session 102 [\<lparr>IV_Session = ''s'', IV_Lo = 0, IV_Hi = 6\<rparr>] ''hello!''"

definition demo_part :: safe_path where "demo_part = SafePath [''a'', ''.scpart-s'']"

definition session_seen :: "mem_fs engine \<Rightarrow> (state_error, upload_session) result \<times> (state_error, (int \<times> int) list) result \<times> node option" where
  "session_seen e = (ReadUploadSession ''s'' (en_db e), ReadUploadIntervals ''s'' (en_db e), map_of (en_fs e) (3, sf_comps demo_part))"

lemma seen_elsewhere: "session_seen e' = session_seen e \<Longrightarrow> elsewhere mem_view ''s'' (SR_ID demo_root) demo_part [] e e'"
  by (simp add: session_seen_def elsewhere_def mem_view_def demo_root_def)

definition demo_tail :: "(upload_error, int) result \<times> mem_fs engine" where
  "demo_tail = PatchAt latin1_library demo_upload 101 (Some ''v'') demo_root ''s'' 2 3 [''lo'', ''!''] EofApart None demo_empty"

definition demo_head :: "(upload_error, int) result \<times> mem_fs engine" where
  "demo_head = PatchAt latin1_library demo_upload 102 (Some ''w'') demo_root ''s'' 2 0 [''hel''] EofWithLast None demo_half"

lemma demo_tail_run:
  "PatchAt latin1_library demo_upload 101 (Some ''v'') demo_root ''s'' 2 3 [''lo'', ''!''] EofApart None demo_empty =
     (fst demo_tail, snd demo_tail)"
  by (simp add: demo_tail_def)

lemma demo_head_run:
  "PatchAt latin1_library demo_upload 102 (Some ''w'') demo_root ''s'' 2 0 [''hel''] EofWithLast None demo_half =
     (fst demo_head, snd demo_head)"
  by (simp add: demo_head_def)

lemma demo_open_ok: "map_sum (\<lambda>_. ()) s_Dest (fst demo_opened) = Inr (r_path demo_target)"
  by code_simp

lemma demo_open_seen: "session_seen demo_empty = session_seen (snd demo_opened)"
  by code_simp

lemma demo_tail_seen: "session_seen demo_half = session_seen (snd demo_tail)"
  by code_simp

lemma demo_head_seen: "session_seen demo_full = session_seen (snd demo_head)"
  by code_simp

lemma demo_final_ok: "\<not> isl (fst (Finalize latin1_library demo_upload 103 demo_target ''s'' demo_full))"
  by code_simp

text \<open>
  C12. An upload delivers the file its chunks were cut from. Whatever way the chunks of any number
  of writers interleave with each other, with declarations of the length, refused publications
  and unrelated work, a publication that succeeds puts exactly that file at the destination,
  removes the part file and changes no other name.
\<close>

theorem upload_delivers_file:
  assumes "upload_modules E view ok den" and "length F < 2 ^ 63"
    and "upload_run T E view F sid root part e ws"
    and "Finalize T E now r sid e = (Inr entry, e')" and "SR_ID (r_root r) = SR_ID root"
  shows "sf_comps (r_path r) \<noteq> sf_comps part \<and>
    view (en_fs e') = put (SR_ID root) (sf_comps part) None
      (put (SR_ID root) (sf_comps (r_path r)) (Some (Leaf F)) (view (en_fs e)))"
  by (rule upload_modules.reachable_delivers [OF assms(1,3,2,4,5)])

lemma demo_full_run: "upload_run latin1_library demo_upload mem_view ''hello!'' ''s'' demo_root demo_part demo_full []"
proof -
  let ?run = "\<lambda>e. upload_run latin1_library demo_upload mem_view ''hello!'' ''s'' demo_root demo_part e []"
  have part: "partPath (r_path demo_target) (partName (ue_lib demo_upload) ''s'') = Inr demo_part" by code_simp
  obtain s where "fst demo_opened = Inr s" and dest: "s_Dest s = r_path demo_target"
    using demo_open_ok by (cases "fst demo_opened") auto
  then have "Create_session latin1_library demo_upload 100 (Some ''s'') demo_target demo_spec demo_engine = (Inr s, snd demo_opened)"
    by (simp add: demo_opened_def prod_eq_iff)
  from upload_run.opened [OF this dest _ part] have "?run (snd demo_opened)"
    by (simp add: demo_spec_def demo_engine_def demo_ledger_def empty_db_def)
  then have "?run demo_empty" by (rule upload_run.others [OF _ seen_elsewhere [OF demo_open_seen]])
  from mem_up.patch_in_run [OF this _ demo_tail_run] have "?run (snd demo_tail)" by (simp add: slice_def)
  then have "?run demo_half" by (rule upload_run.others [OF _ seen_elsewhere [OF demo_tail_seen]])
  from mem_up.patch_in_run [OF this _ demo_head_run] have "?run (snd demo_head)" by (simp add: slice_def)
  then show "?run demo_full" by (rule upload_run.others [OF _ seen_elsewhere [OF demo_head_seen]])
qed

theorem upload_delivers_file_witness:
  "\<exists>entry e'. Finalize latin1_library demo_upload 103 demo_target ''s'' demo_full = (Inr entry, e') \<and>
     mem_view (en_fs e') 3 [''a'', ''f''] = Some (Leaf ''hello!'') \<and> mem_view (en_fs e') 3 [''a'', ''.scpart-s''] = None"
proof -
  obtain res e' where run: "Finalize latin1_library demo_upload 103 demo_target ''s'' demo_full = (res, e')" by (metis surj_pair)
  obtain entry where res: "res = Inr entry" using demo_final_ok run by (cases res) auto
  note fin = run [unfolded res]
  have "SR_ID (r_root demo_target) = SR_ID demo_root" by simp
  from upload_delivers_file [OF mem_up.upload_modules_axioms _ demo_full_run fin this]
  show ?thesis using fin by (auto simp: demo_part_def demo_root_def)
qed

end
