(* ===== verification/Sc_UploadSweep.thy ===== *)
theory Sc_UploadSweep
  imports Sc_UploadRun
begin

text \<open>
  The periodic sweep of uploads, \<open>internal/uploads/sweep.go\<close>: expired sessions are collected,
  publications a crash interrupted are recovered, and control files that no session claims are
  removed. The theorem is that a sweep never touches a session that has not expired, nor a name
  a client can see.

  The clock is read once at the start (\<open>now\<close>) and again by every session that is collected
  (\<open>later\<close>). The directories are walked in the order of a Go map, which is the argument
  \<open>order\<close>. The id of a row whose bytes are no id is the zero id, the argument \<open>zero\<close>.
\<close>

section \<open>Collecting sessions\<close>

record sweep_report =
  rep_ExpiredSessions :: nat
  rep_OrphanParts :: nat
  rep_OrphanSpools :: nat

definition sessionIDOrZero :: "transfer_lib \<Rightarrow> string \<Rightarrow> string \<Rightarrow> string" where
  "sessionIDOrZero L zero b = (case tl_FromBytes L b of None \<Rightarrow> zero | Some sid \<Rightarrow> sid)"

definition terminalActive :: "string \<Rightarrow> 'fs engine \<Rightarrow> bool" where
  "terminalActive sid e = g_terminalActive (en_gates e sid)"

definition drop_session_files :: "('fs, 'set) upload_env \<Rightarrow> share_root \<Rightarrow> safe_path \<Rightarrow> upload_session \<Rightarrow> 'fs engine \<Rightarrow> 'fs engine" where
  "drop_session_files E root dest s e =
     (let e1 = (case partPath dest (US_PartName s) of Inl _ \<Rightarrow> e | Inr part \<Rightarrow> snd (unlink_at E root part e)) in
      if US_SpoolDir s = [] then e1
      else (case JoinControl (SafePath_Parent dest) (US_SpoolDir s) of
        Inl _ \<Rightarrow> e1
      | Inr dir \<Rightarrow> removeSpoolDir E root dir e1))"

definition collectExpired ::
  "'enc text_library \<Rightarrow> ('fs, 'set) upload_env \<Rightarrow> string \<Rightarrow> int \<Rightarrow> upload_session \<Rightarrow> 'fs engine \<Rightarrow> bool \<times> 'fs engine" where
  "collectExpired T E zero later sess e =
     (let sid = sessionIDOrZero (ue_lib E) zero (US_ID sess) in
      case closeWriterGate sid False e of
        (None, e1) \<Rightarrow> (False, e1)
      | (Some (gen, owner), e1) \<Rightarrow>
          (let finish = (\<lambda>completed e'. (completed, finishWriters sid (if \<not> completed \<and> owner then reopenWriters sid gen e' else e'))) in
           case load E sid e1 of
             Inl _ \<Rightarrow> finish False e1
           | Inr fresh \<Rightarrow>
               (let s = rw_sess fresh in
                if US_State s = StateFinalizing \<or> US_State s = StateReceiving \<and> later \<le> US_ExpiresNs s then finish False e1
                else (case shareIDOf (US_Share s) of
                  None \<Rightarrow> finish False e1
                | Some share \<Rightarrow>
                    (case ShareRoot (w_core (en_world e1)) share of
                       None \<Rightarrow> finish False e1
                     | Some root \<Rightarrow>
                         (case ParseSafePath T (US_Dest s) of
                            Inl _ \<Rightarrow> finish False e1
                          | Inr dest \<Rightarrow>
                              (case up_db (DeleteUploadSession (US_ID s)) (drop_session_files E root dest s e1) of
                                 (Inl _, e2) \<Rightarrow> finish False e2
                               | (Inr _, e2) \<Rightarrow> finish True (closeHandle sid e2))))))))"

text \<open>
  A publication mark whose owner is gone: the part is there, and the session receives again, or
  it is not, and the rename had committed.
\<close>

definition recoverFinalizing ::
  "'enc text_library \<Rightarrow> ('fs, 'set) upload_env \<Rightarrow> int \<Rightarrow> string \<Rightarrow> 'fs engine \<Rightarrow> 'fs engine" where
  "recoverFinalizing T E later sid e =
     (case closeWriterGate sid False e of
        (None, e1) \<Rightarrow> e1
      | (Some (gen, owner), e1) \<Rightarrow>
          (let finish = (\<lambda>published e'. finishWriters sid (if \<not> published \<and> owner then reopenWriters sid gen e' else e')) in
           case load E sid e1 of
             Inl _ \<Rightarrow> finish False e1
           | Inr r \<Rightarrow>
               if US_State (rw_sess r) \<noteq> StateFinalizing then finish False e1
               else (case partPathOf T r of
                 Inl _ \<Rightarrow> finish False e1
               | Inr part \<Rightarrow>
                   (case shareIDOf (US_Share (rw_sess r)) of
                      None \<Rightarrow> finish False e1
                    | Some share \<Rightarrow>
                        (case ShareRoot (w_core (en_world e1)) share of
                           None \<Rightarrow> finish False e1
                         | Some root \<Rightarrow>
                             (case drv_Stat (ue_driver E) root part (en_fs e1) of
                                Inr _ \<Rightarrow>
                                  (case tl_Transition (ue_lib E) (US_State (rw_sess r)) StateReceiving of
                                     None \<Rightarrow> finish False e1
                                   | Some st \<Rightarrow>
                                       finish False (snd (save (r\<lparr>rw_sess := (rw_sess r)\<lparr>US_State := st, US_ExpiresNs := expiry later\<rparr>\<rparr>) e1)))
                              | Inl x \<Rightarrow>
                                  if x \<noteq> VNotFound then finish False e1
                                  else (let e2 = snd (save (r\<lparr>rw_sess := (rw_sess r)\<lparr>US_State := StateDone\<rparr>\<rparr>) e1)
                                        in finish True (snd (up_db (DeleteUploadSession sid) (closeHandle sid e2))))))))))"

text \<open>The loop over the expired sessions.\<close>

primrec sweep_expired ::
  "'enc text_library \<Rightarrow> ('fs, 'set) upload_env \<Rightarrow> string \<Rightarrow> int \<Rightarrow> upload_session list \<Rightarrow> nat \<Rightarrow> 'fs engine \<Rightarrow> nat \<times> 'fs engine" where
  "sweep_expired T E zero later [] n e = (n, e)"
| "sweep_expired T E zero later (s # ss) n e =
     (let sid = sessionIDOrZero (ue_lib E) zero (US_ID s) in
      if US_State s = StateFinalizing
      then sweep_expired T E zero later ss n (if terminalActive sid e then e else recoverFinalizing T E later sid e)
      else (case collectExpired T E zero later s e of (taken, e1) \<Rightarrow>
        sweep_expired T E zero later ss (if taken then Suc n else n) e1))"

section \<open>Collecting files\<close>

definition claimedNames :: "'enc text_library \<Rightarrow> upload_session list \<Rightarrow> int \<Rightarrow> safe_path \<Rightarrow> string list" where
  "claimedNames T live share dir =
     concat (map (\<lambda>s.
       if shareIDOf (US_Share s) \<noteq> Some share then []
       else (case ParseSafePath T (US_Dest s) of
         Inl _ \<Rightarrow> []
       | Inr dest \<Rightarrow>
           if SafePath_Parent dest \<noteq> dir then []
           else US_PartName s # (if US_SpoolDir s = [] then [] else [US_SpoolDir s]))) live)"

definition touchedDirs :: "'enc text_library \<Rightarrow> state_db \<Rightarrow> (int \<times> safe_path) list" where
  "touchedDirs T db =
     concat (map (\<lambda>(v, d).
       case shareIDOf v of
         None \<Rightarrow> []
       | Some share \<Rightarrow> (case ParseSafePath T d of Inl _ \<Rightarrow> [] | Inr dir \<Rightarrow> [(share, dir)])) (ListUploadTouchedDirs db))"

primrec sweep_names ::
  "('fs, 'set) upload_env \<Rightarrow> int \<Rightarrow> share_root \<Rightarrow> safe_path \<Rightarrow> string list \<Rightarrow> nat \<times> nat \<Rightarrow> 'fs engine \<Rightarrow> (nat \<times> nat) \<times> 'fs engine" where
  "sweep_names E now root dir [] cnt e = (cnt, e)"
| "sweep_names E now root dir (name # names) cnt e =
     (case JoinControl dir name of
        Inl _ \<Rightarrow> sweep_names E now root dir names cnt e
      | Inr child \<Rightarrow>
          (case drv_Stat (ue_driver E) root child (en_fs e) of
             Inl _ \<Rightarrow> sweep_names E now root dir names cnt e
           | Inr st \<Rightarrow>
               if wrap_i64 (now - st_MtimeNs st) < UploadSessionTTL then sweep_names E now root dir names cnt e
               else if st_Kind st = KindDir
               then sweep_names E now root dir names (fst cnt, Suc (snd cnt)) (removeSpoolDir E root child e)
               else (case unlink_at E root child e of (x, e1) \<Rightarrow>
                 sweep_names E now root dir names
                   (if x \<noteq> None \<and> x \<noteq> Some VNotFound then cnt else (Suc (fst cnt), snd cnt)) e1)))"

definition sweepDir ::
  "'enc text_library \<Rightarrow> ('fs, 'set) upload_env \<Rightarrow> int \<Rightarrow> upload_session list \<Rightarrow> int \<Rightarrow> safe_path \<Rightarrow> 'fs engine \<Rightarrow>
     (nat \<times> nat) \<times> 'fs engine" where
  "sweepDir T E now live share dir e =
     (case ShareRoot (w_core (en_world e)) share of
        None \<Rightarrow> ((0, 0), e)
      | Some root \<Rightarrow>
          (case po_ReadDirAll (ue_parts E) root dir (en_fs e) of
             Inl _ \<Rightarrow> ((0, 0), e)
           | Inr names \<Rightarrow>
               sweep_names E now root dir
                 (filter (\<lambda>n. HasPrefix n ''.scpart-'' \<and> n \<notin> set (claimedNames T live share dir)) names) (0, 0) e))"

primrec sweep_dirs ::
  "'enc text_library \<Rightarrow> ('fs, 'set) upload_env \<Rightarrow> int \<Rightarrow> upload_session list \<Rightarrow> (int \<times> safe_path) list \<Rightarrow> nat \<times> nat \<Rightarrow> 'fs engine \<Rightarrow>
     (nat \<times> nat) \<times> 'fs engine" where
  "sweep_dirs T E now live [] cnt e = (cnt, e)"
| "sweep_dirs T E now live (d # ds) cnt e =
     (case sweepDir T E now live (fst d) (snd d) e of ((parts, spools), e1) \<Rightarrow>
        sweep_dirs T E now live ds (fst cnt + parts, snd cnt + spools) e1)"

definition Sweep ::
  "'enc text_library \<Rightarrow> ('fs, 'set) upload_env \<Rightarrow> string \<Rightarrow> int \<Rightarrow> int \<Rightarrow> ((int \<times> safe_path) list \<Rightarrow> (int \<times> safe_path) list) \<Rightarrow>
     'fs engine \<Rightarrow> (upload_error, sweep_report) result \<times> 'fs engine" where
  "Sweep T E zero now later order e =
     (case ListUploadSessions (en_db e) of
        Inl x \<Rightarrow> (Inl (UState x), e)
      | Inr live \<Rightarrow>
          (case ListExpiredUploadSessions now (en_db e) of
             Inl x \<Rightarrow> (Inl (UState x), e)
           | Inr expired \<Rightarrow>
               (case sweep_expired T E zero later expired 0 e of (n, e1) \<Rightarrow>
                  (case sweep_dirs T E now live (order (touchedDirs T (en_db e1))) (0, 0) e1 of ((parts, spools), e2) \<Rightarrow>
                     (Inr \<lparr>rep_ExpiredSessions = n, rep_OrphanParts = parts, rep_OrphanSpools = spools\<rparr>, e2)))))"

section \<open>Protected names\<close>

text \<open>A client names nothing behind a reserved component; a session holds its part file and its spool.\<close>

definition visible_name :: "string list \<Rightarrow> bool" where
  "visible_name q \<longleftrightarrow> (\<forall>c\<in>set q. \<not> IsReservedName c)"

definition session_files :: "'enc text_library \<Rightarrow> upload_session \<Rightarrow> int \<Rightarrow> string list \<Rightarrow> bool" where
  "session_files T s share q \<longleftrightarrow>
     shareIDOf (US_Share s) = Some share \<and>
     (\<exists>dest name rest. ParseSafePath T (US_Dest s) = Inr dest \<and> q = sf_comps (SafePath_Parent dest) @ name # rest \<and>
        (name = US_PartName s \<or> name = US_SpoolDir s \<and> US_SpoolDir s \<noteq> []))"

definition protected_name :: "'enc text_library \<Rightarrow> upload_session \<Rightarrow> int \<Rightarrow> string list \<Rightarrow> bool" where
  "protected_name T s share q \<longleftrightarrow> visible_name q \<or> session_files T s share q"

text \<open>Rows as \<open>newRow\<close> writes them: the control names of a session come from its id.\<close>

definition rows_named :: "transfer_lib \<Rightarrow> state_db \<Rightarrow> bool" where
  "rows_named L db \<longleftrightarrow> distinct (map US_ID (session_rows db)) \<and>
     (\<forall>r\<in>set (session_rows db). US_PartName r = partName L (US_ID r) \<and> US_SpoolDir r \<in> {[], spoolDirName L (US_ID r)})"

definition ids_spelled :: "transfer_lib \<Rightarrow> bool" where
  "ids_spelled L \<longleftrightarrow> inj (tl_String L) \<and> (\<forall>a b. tl_String L a \<noteq> tl_String L b @ ''.d'') \<and>
     (\<forall>b sid. tl_FromBytes L b = Some sid \<longrightarrow> sid = b)"

definition roots_named :: "core \<Rightarrow> bool" where
  "roots_named c \<longleftrightarrow> (\<forall>share root. ShareRoot c share = Some root \<longrightarrow> SR_ID root = share)"

text \<open>What a step of the sweep keeps: the row and ranges of the session, its names, and the registry.\<close>

definition keeps_session ::
  "'enc text_library \<Rightarrow> ('fs \<Rightarrow> tree) \<Rightarrow> upload_session \<Rightarrow> 'fs engine \<Rightarrow> 'fs engine \<Rightarrow> bool" where
  "keeps_session T view s e e' \<longleftrightarrow>
     ReadUploadSession (US_ID s) (en_db e') = ReadUploadSession (US_ID s) (en_db e) \<and>
     ReadUploadIntervals (US_ID s) (en_db e') = ReadUploadIntervals (US_ID s) (en_db e) \<and>
     k_shares (w_core (en_world e')) = k_shares (w_core (en_world e)) \<and>
     (\<forall>share q. protected_name T s share q \<longrightarrow> view (en_fs e') share q = view (en_fs e) share q)"

lemma keeps_session_refl [simp]: "keeps_session T view s e e"
  by (simp add: keeps_session_def)

lemma keeps_session_trans: "keeps_session T view s a b \<Longrightarrow> keeps_session T view s b c \<Longrightarrow> keeps_session T view s a c"
  by (simp add: keeps_session_def)

lemma keeps_session_world: "en_world e' = en_world e \<Longrightarrow> keeps_session T view s e e'"
  by (simp add: keeps_session_def)

lemma control_split:
  assumes "p @ x # r = p' @ y # r'" and "visible_name p" "visible_name p'" and "IsReservedName x" "IsReservedName y"
  shows "p = p' \<and> x = y \<and> r = r'"
  using assms
proof (induction p arbitrary: p')
  case Nil
  then show ?case by (cases p') (auto simp: visible_name_def)
next
  case (Cons a p)
  then show ?case by (cases p') (auto simp: visible_name_def)
qed

lemma parent_visible: "ParseSafePath T d = Inr dest \<Longrightarrow> visible_name (sf_comps (SafePath_Parent dest)) \<and> visible_name (sf_comps dest)"
  using ParseSafePath_ok [of T d dest]
  by (cases dest) (auto simp: path_ok_def visible_name_def list_all_iff ok_component_def SafePath_Parent_def dest!: in_set_butlastD)

lemma names_reserved: "IsReservedName (partName L sid)" "IsReservedName (spoolDirName L sid)"
  by (simp_all add: IsReservedName_def reservedPrefixes_def partName_def spoolDirName_def)

section \<open>Removing files\<close>

lemma engine_core [simp]:
  "w_core (en_world (set_fs fs e)) = w_core (en_world e)" "k_shares (w_core (en_world (set_db db e))) = k_shares (w_core (en_world e))"
  by (simp_all add: set_fs_def set_db_def ledger_def)

lemma unlink_keeps:
  assumes "posix (ue_driver E) view" and "\<not> protected_name T s (SR_ID root) (sf_comps p)"
  shows "keeps_session T view s e (snd (unlink_at E root p e))"
proof -
  obtain x e' where u: "unlink_at E root p e = (x, e')" by (metis surj_pair)
  have "k_shares (w_core (en_world e')) = k_shares (w_core (en_world e))" using u by (auto simp: unlink_at_def split: prod.splits)
  moreover have "view (en_fs e') share q = view (en_fs e) share q" if "protected_name T s share q" for share q
    by (rule stages_at [OF unlink_at_effect(1) [OF u assms(1)]]) (use that assms(2) in auto)
  ultimately show ?thesis using unlink_at_effect(2) [OF u assms(1)] by (simp add: keeps_session_def u)
qed

lemma unlink_db: "en_db (snd (unlink_at E root p e)) = en_db e"
  by (simp add: unlink_at_def split: prod.splits)

lemma rmdir_keeps:
  assumes "posix (ue_driver E) view" and "\<not> protected_name T s (SR_ID root) (sf_comps p)"
  shows "keeps_session T view s e (set_fs (snd (drv_Rmdir (ue_driver E) root p (en_fs e))) e)"
proof -
  obtain x fs where r: "drv_Rmdir (ue_driver E) root p (en_fs e) = (x, fs)" by (metis surj_pair)
  have "posix_remove (ue_driver E) view" using assms(1) by (simp add: posix_def)
  from drv_Rmdir_law [OF this r] have "view fs = view (en_fs e) \<or> view fs = put (SR_ID root) (sf_comps p) None (view (en_fs e))" by blast
  then show ?thesis using assms(2) by (auto simp: keeps_session_def r put_def)
qed

lemma JoinControl_child: "JoinControl dir name = Inr child \<Longrightarrow> sf_comps child = sf_comps dir @ [name]"
  by (auto simp: JoinControl_def split: option.split_asm dest: push_Inr)

lemma unlink_children_keep:
  assumes "posix (ue_driver E) view" and "\<And>q. prefix (sf_comps dir) q \<Longrightarrow> \<not> protected_name T s (SR_ID root) q"
  shows "keeps_session T view s e (fold (\<lambda>name e'. case JoinControl dir name of Inl _ \<Rightarrow> e'
      | Inr child \<Rightarrow> snd (unlink_at E root child e')) names e) \<and>
    en_db (fold (\<lambda>name e'. case JoinControl dir name of Inl _ \<Rightarrow> e' | Inr child \<Rightarrow> snd (unlink_at E root child e')) names e) = en_db e"
proof (induction names arbitrary: e)
  case (Cons name names)
  let ?e = "case JoinControl dir name of Inl _ \<Rightarrow> e | Inr child \<Rightarrow> snd (unlink_at E root child e)"
  have "keeps_session T view s e ?e \<and> en_db ?e = en_db e"
    using assms(2) [of "sf_comps dir @ [name]"]
    by (auto simp: unlink_db JoinControl_child split: sum.splits intro!: unlink_keeps [OF assms(1)])
  then show ?case using Cons.IH [of ?e] keeps_session_trans [of T view s e ?e] by auto
qed simp

lemma removeSpoolDir_keeps:
  assumes "posix (ue_driver E) view" and "\<And>q. prefix (sf_comps dir) q \<Longrightarrow> \<not> protected_name T s (SR_ID root) q"
  shows "keeps_session T view s e (removeSpoolDir E root dir e)" "en_db (removeSpoolDir E root dir e) = en_db e"
proof -
  have "keeps_session T view s e (removeSpoolDir E root dir e) \<and> en_db (removeSpoolDir E root dir e) = en_db e"
  proof (cases "po_ReadDirAll (ue_parts E) root dir (en_fs e)")
    case (Inr names)
    let ?e = "fold (\<lambda>name e'. case JoinControl dir name of Inl _ \<Rightarrow> e' | Inr child \<Rightarrow> snd (unlink_at E root child e')) names e"
    note u = unlink_children_keep [OF assms, where e = e and names = names]
    have "\<not> protected_name T s (SR_ID root) (sf_comps dir)" using assms(2) by simp
    note r = rmdir_keeps [OF assms(1) this, of ?e]
    have "removeSpoolDir E root dir e = set_fs (snd (drv_Rmdir (ue_driver E) root dir (en_fs ?e))) ?e"
      by (simp add: removeSpoolDir_def Inr Let_def)
    then show ?thesis using u keeps_session_trans [OF _ r] by simp
  qed (simp add: removeSpoolDir_def)
  then show "keeps_session T view s e (removeSpoolDir E root dir e)" "en_db (removeSpoolDir E root dir e) = en_db e" by auto
qed

text \<open>A name behind a reserved component of another owner is not protected.\<close>

lemma foreign_control:
  assumes "visible_name p" "IsReservedName x" and "IsReservedName (US_PartName s)" "US_SpoolDir s = [] \<or> IsReservedName (US_SpoolDir s)"
    and "\<And>dest. shareIDOf (US_Share s) = Some share \<Longrightarrow> ParseSafePath T (US_Dest s) = Inr dest \<Longrightarrow>
      p = sf_comps (SafePath_Parent dest) \<Longrightarrow> x \<noteq> US_PartName s \<and> (x = US_SpoolDir s \<longrightarrow> US_SpoolDir s = [])"
  shows "\<not> protected_name T s share (p @ x # r)"
proof
  assume "protected_name T s share (p @ x # r)"
  moreover have "\<not> visible_name (p @ x # r)" using assms(2) by (auto simp: visible_name_def)
  ultimately obtain dest name rest where d: "shareIDOf (US_Share s) = Some share" "ParseSafePath T (US_Dest s) = Inr dest"
    and q: "p @ x # r = sf_comps (SafePath_Parent dest) @ name # rest"
    and name: "name = US_PartName s \<or> name = US_SpoolDir s \<and> US_SpoolDir s \<noteq> []"
    by (auto simp: protected_name_def session_files_def)
  have "IsReservedName name" using name assms(3,4) by auto
  from control_split [OF q assms(1) _ assms(2) this] parent_visible [OF d(2)]
  have "p = sf_comps (SafePath_Parent dest)" "x = name" by auto
  then show False using assms(5) [OF d] name by auto
qed

section \<open>Rows\<close>

lemma Read_row:
  assumes "ReadUploadSession sid db = Inr s"
  obtains r ns where "r \<in> set (session_rows db)" "US_ID r = sid" "s = with_names ns r"
proof -
  obtain r where r: "find (\<lambda>r. US_ID r = sid) (session_rows db) = Some r" and scan: "scanUploadSession r = Inr s"
    using assms by (auto simp: ReadUploadSession_def sqlReadUploadSession_def split: option.split_asm)
  have "s = with_names (US_SpooledNames s) r" using scan by (auto simp: scanUploadSession_def bind_r_eq_Inr)
  then show ?thesis using that find_SomeD [OF r] by blast
qed

lemma read_names:
  assumes "ReadUploadSession sid db = Inr s" and "rows_named L db"
  shows "US_PartName s = partName L sid" "US_SpoolDir s = [] \<or> US_SpoolDir s = spoolDirName L sid"
proof -
  obtain r ns where "r \<in> set (session_rows db)" "US_ID r = sid" "s = with_names ns r" by (rule Read_row [OF assms(1)])
  then show "US_PartName s = partName L sid" "US_SpoolDir s = [] \<or> US_SpoolDir s = spoolDirName L sid"
    using assms(2) by (auto simp: rows_named_def)
qed

lemma Delete_keeps:
  assumes "DeleteUploadSession sid db = (x, db')" and "sid' \<noteq> sid"
  shows "ReadUploadSession sid' db' = ReadUploadSession sid' db" "ReadUploadIntervals sid' db' = ReadUploadIntervals sid' db"
proof -
  have rows: "session_rows db' = filter (\<lambda>r. US_ID r \<noteq> sid) (session_rows db)"
    and ivs: "interval_rows db' = filter (\<lambda>r. IV_Session r \<noteq> sid) (interval_rows db)"
    using assms(1) by (auto simp: DeleteUploadSession_def db_Write_def sqlDeleteUploadSession_def sqlDeleteUploadIntervals_def
        sqlDeleteUploadAliasesForSession_def)
  have f: "filter (\<lambda>r. IV_Session r = sid') (filter (\<lambda>r. IV_Session r \<noteq> sid) rs) = filter (\<lambda>r. IV_Session r = sid') rs" for rs
    using assms(2) by (induction rs) auto
  show "ReadUploadIntervals sid' db' = ReadUploadIntervals sid' db"
    by (simp only: ReadUploadIntervals_def sqlReadUploadIntervals_def ivs f)
  show "ReadUploadSession sid' db' = ReadUploadSession sid' db"
    using assms(2) by (simp add: ReadUploadSession_def sqlReadUploadSession_def rows find_filter_row)
qed

lemma Delete_named: "rows_named L db \<Longrightarrow> DeleteUploadSession sid db = (x, db') \<Longrightarrow> rows_named L db'"
  by (auto simp: DeleteUploadSession_def db_Write_def sqlDeleteUploadSession_def sqlDeleteUploadIntervals_def
      sqlDeleteUploadAliasesForSession_def rows_named_def distinct_map_filter)

lemma Update_named:
  assumes "rows_named L db" and "UpdateUploadSession s db = (x, db')"
  shows "rows_named L db'"
proof -
  have "db' = db \<or> (\<exists>s. db' = sqlUpdateUploadSession s db)"
    using assms(2) by (auto simp: UpdateUploadSession_def db_Write_def split: sum.split_asm)
  moreover have "rows_named L (sqlUpdateUploadSession s db)" for s
    using assms(1) by (auto simp: rows_named_def sqlUpdateUploadSession_def comp_def if_distrib [of US_ID] cong: if_cong)
  ultimately show ?thesis using assms(1) by auto
qed

section \<open>Sessions of other ids\<close>

definition sweep_inv :: "transfer_lib \<Rightarrow> upload_session \<Rightarrow> 'fs engine \<Rightarrow> bool" where
  "sweep_inv L s e \<longleftrightarrow> rows_named L (en_db e) \<and> ReadUploadSession (US_ID s) (en_db e) = Inr s \<and> roots_named (w_core (en_world e))"

lemma sweep_inv_keeps:
  "sweep_inv L s e \<Longrightarrow> keeps_session T view s e e' \<Longrightarrow> rows_named L (en_db e') \<Longrightarrow> sweep_inv L s e'"
  by (simp add: sweep_inv_def keeps_session_def roots_named_def ShareRoot_def)

lemma sweep_inv_world: "en_world e' = en_world e \<Longrightarrow> sweep_inv L s e' = sweep_inv L s e"
  by (simp add: sweep_inv_def)

lemma other_names:
  assumes "ids_spelled L" and "a \<noteq> b" and "x = partName L a \<or> x = spoolDirName L a"
  shows "x \<noteq> partName L b" "x \<noteq> spoolDirName L b"
proof -
  have "tl_String L a \<noteq> tl_String L b" using assms(1,2) by (auto simp: ids_spelled_def inj_def)
  moreover have "tl_String L a \<noteq> tl_String L b @ ''.d''" "tl_String L b \<noteq> tl_String L a @ ''.d''"
    using assms(1) unfolding ids_spelled_def by blast+
  ultimately show "x \<noteq> partName L b" "x \<noteq> spoolDirName L b"
    using assms(3) by (auto simp: partName_def spoolDirName_def)
qed

lemma foreign_session_name:
  assumes inv: "sweep_inv L s e" and ids: "ids_spelled L" and other: "sid \<noteq> US_ID s"
    and p: "visible_name p" and x: "x = partName L sid \<or> x = spoolDirName L sid"
  shows "\<not> protected_name T s share (p @ x # r)"
proof -
  have names: "US_PartName s = partName L (US_ID s)" "US_SpoolDir s = [] \<or> US_SpoolDir s = spoolDirName L (US_ID s)"
    using read_names [of "US_ID s" "en_db e" s L] inv by (simp_all add: sweep_inv_def)
  show ?thesis
    by (rule foreign_control [OF p]) (use x names names_reserved other_names [OF ids other x] in auto)
qed

lemma dropped_files_keep:
  assumes inv: "sweep_inv (ue_lib E) s e" and ids: "ids_spelled (ue_lib E)" and other: "sid \<noteq> US_ID s"
    and posix: "posix (ue_driver E) view" and dest: "ParseSafePath T d = Inr dest"
    and names: "US_PartName s' = partName (ue_lib E) sid" "US_SpoolDir s' = [] \<or> US_SpoolDir s' = spoolDirName (ue_lib E) sid"
  shows "keeps_session T view s e (drop_session_files E root dest s' e) \<and> en_db (drop_session_files E root dest s' e) = en_db e"
proof -
  have p: "visible_name (sf_comps (SafePath_Parent dest))" using parent_visible [OF dest] by blast
  note foreign = foreign_session_name [where T = T and share = "SR_ID root", OF inv ids other p]
  define e1 where "e1 = (case partPath dest (US_PartName s') of Inl _ \<Rightarrow> e | Inr part \<Rightarrow> snd (unlink_at E root part e))"
  have k1: "keeps_session T view s e e1 \<and> en_db e1 = en_db e"
  proof (cases "partPath dest (US_PartName s')")
    case (Inr q)
    then have "sf_comps q = sf_comps (SafePath_Parent dest) @ [US_PartName s']"
      by (auto simp: partPath_def dest: JoinControl_child split: sum.split_asm)
    then have "\<not> protected_name T s (SR_ID root) (sf_comps q)" using foreign [of "US_PartName s'" "[]"] names by simp
    from unlink_keeps [OF posix this] show ?thesis by (simp add: e1_def Inr unlink_db)
  qed (simp add: e1_def)
  show ?thesis
  proof (cases "US_SpoolDir s' \<noteq> [] \<and> (\<exists>dir. JoinControl (SafePath_Parent dest) (US_SpoolDir s') = Inr dir)")
    case True
    then obtain dir where dir: "US_SpoolDir s' \<noteq> []" "JoinControl (SafePath_Parent dest) (US_SpoolDir s') = Inr dir" by blast
    have free: "\<not> protected_name T s (SR_ID root) q" if "prefix (sf_comps dir) q" for q
      using that foreign [of "US_SpoolDir s'"] JoinControl_child [OF dir(2)] names dir(1) by (auto simp: prefix_def)
    have "drop_session_files E root dest s' e = removeSpoolDir E root dir e1" by (simp add: drop_session_files_def e1_def dir Let_def)
    then show ?thesis using k1 keeps_session_trans [OF _ removeSpoolDir_keeps(1) [OF posix free]] removeSpoolDir_keeps(2) [OF posix free] by simp
  next
    case False
    then have "drop_session_files E root dest s' e = e1" by (auto simp: drop_session_files_def e1_def Let_def split: sum.split)
    then show ?thesis using k1 by simp
  qed
qed

lemma up_db_snd: "snd (up_db f e) = set_db (snd (f (en_db e))) e"
  by (simp add: up_db_def split: prod.splits sum.splits)

lemma delete_keeps_session:
  assumes "sid \<noteq> US_ID s" and "rows_named L (en_db e)"
  shows "keeps_session T view s e (snd (up_db (DeleteUploadSession sid) e)) \<and> rows_named L (en_db (snd (up_db (DeleteUploadSession sid) e)))"
proof -
  obtain x db where d: "DeleteUploadSession sid (en_db e) = (x, db)" by (metis surj_pair)
  show ?thesis using Delete_keeps [OF d, of "US_ID s"] Delete_named [OF assms(2) d] assms(1) by (simp add: keeps_session_def up_db_snd d)
qed

lemma save_keeps_session:
  assumes "US_ID (rw_sess r) \<noteq> US_ID s" and "rows_named L (en_db e)"
  shows "keeps_session T view s e (snd (save r e)) \<and> rows_named L (en_db (snd (save r e)))"
proof -
  obtain x db where d: "UpdateUploadSession (rw_sess r) (en_db e) = (x, db)" by (metis surj_pair)
  show ?thesis using Update_other(1,2) [OF d] same_intervals_read [OF Update_other(2) [OF d]] Update_named [OF assms(2) d] assms(1)
    by (simp add: keeps_session_def save_def up_db_snd d)
qed

section \<open>The loops\<close>

lemma collectExpired_cases:
  assumes "collectExpired T E zero later sess e = (taken, e')"
  shows "en_world e' = en_world e \<or> (\<exists>e1 fresh root dest. en_world e1 = en_world e \<and>
      load E (sessionIDOrZero (ue_lib E) zero (US_ID sess)) e1 = Inr fresh \<and> ParseSafePath T (US_Dest (rw_sess fresh)) = Inr dest \<and>
      en_world e' = en_world (snd (up_db (DeleteUploadSession (US_ID (rw_sess fresh))) (drop_session_files E root dest (rw_sess fresh) e1))))"
proof -
  define sid where "sid = sessionIDOrZero (ue_lib E) zero (US_ID sess)"
  obtain g e1 where gate: "closeWriterGate sid False e = (g, e1)" by (metis surj_pair)
  note w = closeWriterGate_world [OF gate]
  have undo: "en_world (finishWriters sid (if b then reopenWriters sid gen e2 else e2)) = en_world e2" for b gen e2 by simp
  show ?thesis
  proof (cases "en_world e' = en_world e")
    case False
    then obtain gen owner where g: "g = Some (gen, owner)"
      using assms w by (cases g) (auto simp: collectExpired_def sid_def [symmetric] Let_def gate)
    obtain fresh where load: "load E sid e1 = Inr fresh"
      using False assms w by (cases "load E sid e1") (auto simp: collectExpired_def sid_def [symmetric] Let_def gate g undo)
    obtain root dest where dest: "ParseSafePath T (US_Dest (rw_sess fresh)) = Inr dest"
      and rest: "(case up_db (DeleteUploadSession (US_ID (rw_sess fresh))) (drop_session_files E root dest (rw_sess fresh) e1) of
          (Inl _, e2) \<Rightarrow> (False, finishWriters sid (if \<not> False \<and> owner then reopenWriters sid gen e2 else e2))
        | (Inr _, e2) \<Rightarrow> (True, finishWriters sid (if \<not> True \<and> owner then reopenWriters sid gen (closeHandle sid e2) else closeHandle sid e2)))
        = (taken, e')"
      using False assms w unfolding collectExpired_def sid_def [symmetric] Let_def gate g prod.case option.case load sum.case
      by (auto simp: undo split: if_split_asm option.split_asm sum.split_asm)
    have "en_world e' = en_world (snd (up_db (DeleteUploadSession (US_ID (rw_sess fresh))) (drop_session_files E root dest (rw_sess fresh) e1)))"
      using rest by (auto split: prod.split_asm sum.split_asm if_split_asm)
    then show ?thesis using w load dest unfolding sid_def by blast
  qed simp
qed

lemma collectExpired_keeps:
  assumes inv: "sweep_inv (ue_lib E) s e" and ids: "ids_spelled (ue_lib E)" and posix: "posix (ue_driver E) view"
    and other: "sessionIDOrZero (ue_lib E) zero (US_ID sess) \<noteq> US_ID s" and run: "collectExpired T E zero later sess e = (taken, e')"
  shows "keeps_session T view s e e' \<and> rows_named (ue_lib E) (en_db e')"
  using collectExpired_cases [OF run]
proof
  assume "en_world e' = en_world e"
  then show ?thesis using inv keeps_session_world by (auto simp: sweep_inv_def)
next
  define sid where "sid = sessionIDOrZero (ue_lib E) zero (US_ID sess)"
  assume "\<exists>e1 fresh root dest. en_world e1 = en_world e \<and>
      load E (sessionIDOrZero (ue_lib E) zero (US_ID sess)) e1 = Inr fresh \<and> ParseSafePath T (US_Dest (rw_sess fresh)) = Inr dest \<and>
      en_world e' = en_world (snd (up_db (DeleteUploadSession (US_ID (rw_sess fresh))) (drop_session_files E root dest (rw_sess fresh) e1)))"
  then obtain e1 fresh root dest where w: "en_world e1 = en_world e" and load: "load E sid e1 = Inr fresh"
    and dest: "ParseSafePath T (US_Dest (rw_sess fresh)) = Inr dest"
    and out: "en_world e' = en_world (snd (up_db (DeleteUploadSession (US_ID (rw_sess fresh))) (drop_session_files E root dest (rw_sess fresh) e1)))"
    unfolding sid_def by blast
  have row: "ReadUploadSession sid (en_db e1) = Inr (rw_sess fresh)" "US_ID (rw_sess fresh) = sid"
    using load_Inr [OF load] by auto
  have inv1: "sweep_inv (ue_lib E) s e1" using inv sweep_inv_world [OF w] by blast
  then have named: "rows_named (ue_lib E) (en_db e1)" by (simp add: sweep_inv_def)
  let ?e2 = "drop_session_files E root dest (rw_sess fresh) e1"
  have k2: "keeps_session T view s e1 ?e2 \<and> en_db ?e2 = en_db e1"
    by (rule dropped_files_keep [OF inv1 ids other [folded sid_def] posix dest read_names [OF row(1) named]])
  have "keeps_session T view s ?e2 (snd (up_db (DeleteUploadSession sid) ?e2)) \<and>
      rows_named (ue_lib E) (en_db (snd (up_db (DeleteUploadSession sid) ?e2)))"
    by (rule delete_keeps_session) (use other named k2 in \<open>simp_all add: sid_def\<close>)
  then show ?thesis using k2 w out row(2) by (simp add: keeps_session_def)
qed

lemma recoverFinalizing_cases:
  fixes e :: "'fs engine" and E :: "('fs, 'set) upload_env"
  shows "en_world (recoverFinalizing T E later sid e) = en_world e \<or> (\<exists>e1 r (r' :: 'set up_row). en_world e1 = en_world e \<and> load E sid e1 = Inr r \<and>
      US_ID (rw_sess r') = US_ID (rw_sess r) \<and>
      (en_world (recoverFinalizing T E later sid e) = en_world (snd (save r' e1)) \<or>
       en_world (recoverFinalizing T E later sid e) = en_world (snd (up_db (DeleteUploadSession sid) (snd (save r' e1))))))"
proof -
  obtain g e1 where gate: "closeWriterGate sid False e = (g, e1)" by (metis surj_pair)
  note w = closeWriterGate_world [OF gate]
  have undo: "en_world (finishWriters sid (if b then reopenWriters sid gen e2 else e2)) = en_world e2" for b gen and e2 :: "'fs engine" by simp
  have closed: "en_world (snd (up_db (DeleteUploadSession sid) (closeHandle sid e2))) = en_world (snd (up_db (DeleteUploadSession sid) e2))"
    for e2 :: "'fs engine" by (simp add: up_db_snd closeHandle_def set_db_def)
  let ?out = "recoverFinalizing T E later sid e"
  show ?thesis
  proof (cases "en_world ?out = en_world e")
    case False
    then obtain gen owner where g: "g = Some (gen, owner)"
      using w by (cases g) (auto simp: recoverFinalizing_def Let_def gate)
    obtain r where load: "load E sid e1 = Inr r"
      using False w by (cases "load E sid e1") (auto simp: recoverFinalizing_def Let_def gate g undo)
    have "(\<exists>st ex. en_world ?out = en_world (snd (save (r\<lparr>rw_sess := (rw_sess r)\<lparr>US_State := st, US_ExpiresNs := ex\<rparr>\<rparr>) e1))) \<or>
        (\<exists>st. en_world ?out = en_world (snd (up_db (DeleteUploadSession sid) (snd (save (r\<lparr>rw_sess := (rw_sess r)\<lparr>US_State := st\<rparr>\<rparr>) e1)))))"
      using False w unfolding recoverFinalizing_def Let_def gate g prod.case option.case load sum.case
      by (auto simp: undo closed split: if_split_asm option.split_asm sum.split_asm)
    then show ?thesis
    proof (elim disjE exE)
      fix st ex assume "en_world ?out = en_world (snd (save (r\<lparr>rw_sess := (rw_sess r)\<lparr>US_State := st, US_ExpiresNs := ex\<rparr>\<rparr>) e1))"
      then show ?thesis using w load
        by (intro disjI2 exI [of _ e1] exI [of _ r] exI [of _ "r\<lparr>rw_sess := (rw_sess r)\<lparr>US_State := st, US_ExpiresNs := ex\<rparr>\<rparr>"]) simp
    next
      fix st assume "en_world ?out = en_world (snd (up_db (DeleteUploadSession sid) (snd (save (r\<lparr>rw_sess := (rw_sess r)\<lparr>US_State := st\<rparr>\<rparr>) e1))))"
      then show ?thesis using w load
        by (intro disjI2 exI [of _ e1] exI [of _ r] exI [of _ "r\<lparr>rw_sess := (rw_sess r)\<lparr>US_State := st\<rparr>\<rparr>"]) simp
    qed
  qed simp
qed

lemma recoverFinalizing_keeps:
  fixes E :: "('fs, 'set) upload_env"
  assumes inv: "sweep_inv L s e" and other: "sid \<noteq> US_ID s"
  shows "keeps_session T view s e (recoverFinalizing T E later sid e) \<and> rows_named L (en_db (recoverFinalizing T E later sid e))"
  using recoverFinalizing_cases [of T E later sid e]
proof
  assume "en_world (recoverFinalizing T E later sid e) = en_world e"
  then show ?thesis using inv keeps_session_world by (auto simp: sweep_inv_def)
next
  let ?out = "recoverFinalizing T E later sid e"
  assume "\<exists>e1 r (r' :: 'set up_row). en_world e1 = en_world e \<and> load E sid e1 = Inr r \<and> US_ID (rw_sess r') = US_ID (rw_sess r) \<and>
      (en_world ?out = en_world (snd (save r' e1)) \<or> en_world ?out = en_world (snd (up_db (DeleteUploadSession sid) (snd (save r' e1)))))"
  then obtain e1 r and r' :: "'set up_row" where w: "en_world e1 = en_world e" and load: "load E sid e1 = Inr r" and sid: "US_ID (rw_sess r') = US_ID (rw_sess r)"
    and out: "en_world ?out = en_world (snd (save r' e1)) \<or> en_world ?out = en_world (snd (up_db (DeleteUploadSession sid) (snd (save r' e1))))"
    by blast
  have "US_ID (rw_sess r') \<noteq> US_ID s" using load_Inr [OF load] sid other by auto
  note sv = save_keeps_session [where T = T and view = view, OF this, of L e1]
  have named: "rows_named L (en_db e1)" using inv w by (simp add: sweep_inv_def)
  note del = delete_keeps_session [where T = T and view = view, OF other, of L "snd (save r' e1)"]
  show ?thesis using out sv named del w by (auto simp: keeps_session_def)
qed

lemma sweep_expired_keeps:
  assumes ids: "ids_spelled (ue_lib E)" and posix: "posix (ue_driver E) view"
    and inv: "sweep_inv (ue_lib E) s e" and other: "\<And>s'. s' \<in> set ss \<Longrightarrow> sessionIDOrZero (ue_lib E) zero (US_ID s') \<noteq> US_ID s"
    and run: "sweep_expired T E zero later ss n e = (m, e')"
  shows "keeps_session T view s e e' \<and> rows_named (ue_lib E) (en_db e')"
  using inv other run
proof (induction ss arbitrary: n e)
  case Nil
  then show ?case by (auto simp: sweep_inv_def)
next
  case (Cons x ss)
  have step: ?case if "keeps_session T view s e e1 \<and> rows_named (ue_lib E) (en_db e1)" "sweep_expired T E zero later ss n1 e1 = (m, e')" for e1 n1
    using Cons.IH [OF sweep_inv_keeps [OF Cons.prems(1)] Cons.prems(2) that(2)] that(1) keeps_session_trans by (auto intro: keeps_session_trans)
  have other': "sessionIDOrZero (ue_lib E) zero (US_ID x) \<noteq> US_ID s" using Cons.prems(2) by simp
  have self: "keeps_session T view s e e \<and> rows_named (ue_lib E) (en_db e)" using Cons.prems(1) by (simp add: sweep_inv_def)
  show ?case
  proof (cases "US_State x = StateFinalizing")
    case True
    let ?sid = "sessionIDOrZero (ue_lib E) zero (US_ID x)"
    have "keeps_session T view s e (if terminalActive ?sid e then e else recoverFinalizing T E later ?sid e) \<and>
        rows_named (ue_lib E) (en_db (if terminalActive ?sid e then e else recoverFinalizing T E later ?sid e))"
      using recoverFinalizing_keeps [where T = T and view = view and E = E and later = later, OF Cons.prems(1) other'] self by simp
    then show ?thesis by (rule step) (use Cons.prems(3) True in \<open>simp add: Let_def\<close>)
  next
    case False
    obtain taken e1 where c: "collectExpired T E zero later x e = (taken, e1)" by (metis surj_pair)
    show ?thesis by (rule step [OF collectExpired_keeps [OF Cons.prems(1) ids posix other' c]])
      (use Cons.prems(3) False c in \<open>simp add: Let_def\<close>)
  qed
qed

lemma sweep_names_keeps:
  assumes posix: "posix (ue_driver E) view"
    and free: "\<And>name r. name \<in> set names \<Longrightarrow> \<not> protected_name T s (SR_ID root) (sf_comps dir @ name # r)"
    and run: "sweep_names E now root dir names cnt e = (cnt', e')"
  shows "keeps_session T view s e e' \<and> en_db e' = en_db e"
  using free run
proof (induction names arbitrary: cnt e)
  case (Cons name names)
  have step: ?case if "keeps_session T view s e e1 \<and> en_db e1 = en_db e" "sweep_names E now root dir names cnt1 e1 = (cnt', e')" for e1 cnt1
    using Cons.IH [OF Cons.prems(1) that(2)] that(1) by (auto intro: keeps_session_trans)
  have child: "\<not> protected_name T s (SR_ID root) q" if "JoinControl dir name = Inr c" "prefix (sf_comps c) q" for c q
    using that(2) Cons.prems(1) [of name] JoinControl_child [OF that(1)] by (auto simp: prefix_def)
  have un: "keeps_session T view s e (snd (unlink_at E root c e)) \<and> en_db (snd (unlink_at E root c e)) = en_db e" if "JoinControl dir name = Inr c" for c
    using unlink_keeps [OF posix child [OF that]] by (simp add: unlink_db)
  have rm: "keeps_session T view s e (removeSpoolDir E root c e) \<and> en_db (removeSpoolDir E root c e) = en_db e" if "JoinControl dir name = Inr c" for c
    using removeSpoolDir_keeps [OF posix child [OF that]] by simp
  show ?case
  proof (cases "JoinControl dir name")
    case (Inl x)
    then show ?thesis using step [of e] Cons.prems(2) by simp
  next
    case (Inr c)
    note same = step [of e, simplified]
    show ?thesis
    proof (cases "drv_Stat (ue_driver E) root c (en_fs e)")
      case (Inl x)
      then show ?thesis using same Cons.prems(2) by (simp add: Inr)
    next
      case I: (Inr st)
      obtain x e1 where u: "unlink_at E root c e = (x, e1)" by (metis surj_pair)
      note run = Cons.prems(2) [simplified Inr I sweep_names.simps sum.case u prod.case]
      show ?thesis
      proof (cases "wrap_i64 (now - st_MtimeNs st) < UploadSessionTTL \<or> st_Kind st = KindDir")
        case True
        then show ?thesis using run same step [OF rm [OF Inr]] by (cases "wrap_i64 (now - st_MtimeNs st) < UploadSessionTTL") simp_all
      next
        case False
        then show ?thesis using run step [OF un [OF Inr, unfolded u snd_conv]] by simp
      qed
    qed
  qed
qed simp

lemma sweepDir_keeps:
  assumes posix: "posix (ue_driver E) view" and inv: "sweep_inv (ue_lib E) s e" and live: "s \<in> set live" and dir: "visible_name (sf_comps dir)"
    and run: "sweepDir T E now live share dir e = (cnt, e')"
  shows "keeps_session T view s e e' \<and> en_db e' = en_db e"
proof (cases "\<exists>root names. ShareRoot (w_core (en_world e)) share = Some root \<and> po_ReadDirAll (ue_parts E) root dir (en_fs e) = Inr names")
  case False
  then have "e' = e" using run by (auto simp: sweepDir_def split: option.split_asm sum.split_asm)
  then show ?thesis by simp
next
  case True
  then obtain root names where root: "ShareRoot (w_core (en_world e)) share = Some root"
    and names: "po_ReadDirAll (ue_parts E) root dir (en_fs e) = Inr names" by blast
  have share: "SR_ID root = share" using inv root by (simp add: sweep_inv_def roots_named_def)
  have own: "IsReservedName (US_PartName s)" "US_SpoolDir s = [] \<or> IsReservedName (US_SpoolDir s)"
    using read_names [of "US_ID s" "en_db e" s "ue_lib E"] inv names_reserved by (auto simp: sweep_inv_def)
  let ?left = "filter (\<lambda>n. HasPrefix n ''.scpart-'' \<and> n \<notin> set (claimedNames T live share dir)) names"
  have "\<not> protected_name T s (SR_ID root) (sf_comps dir @ name # r)" if n: "name \<in> set ?left" for name r
  proof (rule foreign_control [OF dir _ own])
    show "IsReservedName name" using n by (simp add: IsReservedName_def reservedPrefixes_def)
    fix dest assume "shareIDOf (US_Share s) = Some (SR_ID root)" "ParseSafePath T (US_Dest s) = Inr dest" "sf_comps dir = sf_comps (SafePath_Parent dest)"
    then have "US_PartName s \<in> set (claimedNames T live share dir)" "US_SpoolDir s \<noteq> [] \<longrightarrow> US_SpoolDir s \<in> set (claimedNames T live share dir)"
      using live share safe_path.expand [of dir "SafePath_Parent dest"] by (auto simp: claimedNames_def intro!: bexI [of _ s])
    then show "name \<noteq> US_PartName s \<and> (name = US_SpoolDir s \<longrightarrow> US_SpoolDir s = [])" using n by auto
  qed
  moreover have "sweep_names E now root dir ?left (0, 0) e = (cnt, e')" using run by (simp add: sweepDir_def root names)
  ultimately show ?thesis by (rule sweep_names_keeps [OF posix])
qed

lemma sweep_dirs_keeps:
  assumes posix: "posix (ue_driver E) view" and inv: "sweep_inv (ue_lib E) s e" and live: "s \<in> set live"
    and dirs: "\<And>d. d \<in> set ds \<Longrightarrow> visible_name (sf_comps (snd d))" and run: "sweep_dirs T E now live ds cnt e = (cnt', e')"
  shows "keeps_session T view s e e'"
  using inv dirs run
proof (induction ds arbitrary: cnt e)
  case (Cons d ds)
  obtain parts spools e1 where d: "sweepDir T E now live (fst d) (snd d) e = ((parts, spools), e1)" by (metis surj_pair)
  have "keeps_session T view s e e1 \<and> en_db e1 = en_db e"
    using sweepDir_keeps [OF posix Cons.prems(1) live _ d] Cons.prems(2) by simp
  moreover from this have "sweep_inv (ue_lib E) s e1"
    using Cons.prems(1) by (intro sweep_inv_keeps [where T = T and view = view, OF Cons.prems(1)]) (simp_all add: sweep_inv_def)
  moreover from this have "keeps_session T view s e1 e'"
    by (intro Cons.IH [of e1 "(fst cnt + parts, snd cnt + spools)"]) (use Cons.prems(2,3) d in auto)
  ultimately show ?case by (blast intro: keeps_session_trans)
qed simp

section \<open>The sweep\<close>

lemma scan_sessions_mem:
  assumes "scan_sessions rs = Inr ss"
  shows "s \<in> set ss \<longleftrightarrow> (\<exists>r\<in>set rs. scanUploadSession r = Inr s)"
  using assms by (induction rs arbitrary: ss) (auto simp: bind_r_eq_Inr)

lemma scan_fields_same: "scanUploadSession r = Inr s \<Longrightarrow> US_ID s = US_ID r \<and> US_ExpiresNs s = US_ExpiresNs r"
  by (auto simp: scanUploadSession_def bind_r_eq_Inr)

lemma expired_other:
  assumes "ListExpiredUploadSessions now db = Inr expired" and "s' \<in> set expired"
    and "ReadUploadSession sid db = Inr s" and "now < US_ExpiresNs s" and "distinct (map US_ID (session_rows db))"
  shows "US_ID s' \<noteq> sid"
proof
  assume same: "US_ID s' = sid"
  obtain r' where r': "r' \<in> set (session_rows db)" "US_ExpiresNs r' \<le> now" "scanUploadSession r' = Inr s'"
    using assms(1,2) scan_sessions_mem by (fastforce simp: ListExpiredUploadSessions_def)
  obtain r ns where r: "r \<in> set (session_rows db)" "US_ID r = sid" "s = with_names ns r" by (rule Read_row [OF assms(3)])
  have "r = r'" using assms(5) r(1,2) r' same scan_fields_same [OF r'(3)] by (auto simp: distinct_map inj_on_def)
  then show False using r(3) r'(2) assms(4) by simp
qed

text \<open>
  C13. A sweep never touches a session that has not expired, nor a name a client can see: the row
  and the ranges of the session, its part file, its spool directory and every path without a
  reserved component are the same before and after, whatever sessions expire, whatever control
  files are orphans and in whatever order the directories are walked.
\<close>

theorem sweep_spares_live:
  assumes "posix (ue_driver E) view" and "ids_spelled (ue_lib E)" and "\<And>ds. set (order ds) \<subseteq> set ds"
    and "rows_named (ue_lib E) (en_db e)" and "roots_named (w_core (en_world e))"
    and "ReadUploadSession sid (en_db e) = Inr s" and "now < US_ExpiresNs s" and "sid \<noteq> zero"
    and "Sweep T E zero now later order e = (res, e')"
  shows "ReadUploadSession sid (en_db e') = Inr s \<and> ReadUploadIntervals sid (en_db e') = ReadUploadIntervals sid (en_db e) \<and>
    (\<forall>share q. visible_name q \<or> session_files T s share q \<longrightarrow> view (en_fs e') share q = view (en_fs e) share q)"
proof -
  have sid: "US_ID s = sid" by (rule Read_ID [OF assms(6)])
  have inv: "sweep_inv (ue_lib E) s e" using assms(4,5,6) by (simp add: sweep_inv_def sid)
  have "keeps_session T view s e e'"
  proof (cases "e' = e")
    case False
    then obtain live expired n e1 cnt where live: "ListUploadSessions (en_db e) = Inr live"
      and expired: "ListExpiredUploadSessions now (en_db e) = Inr expired"
      and r1: "sweep_expired T E zero later expired 0 e = (n, e1)"
      and r2: "sweep_dirs T E now live (order (touchedDirs T (en_db e1))) (0, 0) e1 = (cnt, e')"
      using assms(9) by (auto simp: Sweep_def split: sum.split_asm prod.split_asm)
    have other: "sessionIDOrZero (ue_lib E) zero (US_ID s') \<noteq> US_ID s" if "s' \<in> set expired" for s'
    proof -
      have "US_ID s' \<noteq> sid" by (rule expired_other [OF expired that assms(6,7)]) (use assms(4) in \<open>simp add: rows_named_def\<close>)
      moreover have "sessionIDOrZero (ue_lib E) zero (US_ID s') \<in> {zero, US_ID s'}"
        using assms(2) unfolding sessionIDOrZero_def ids_spelled_def by (auto split: option.split)
      ultimately show ?thesis using assms(8) sid by auto
    qed
    have k1: "keeps_session T view s e e1 \<and> rows_named (ue_lib E) (en_db e1)"
      by (rule sweep_expired_keeps [OF assms(2,1) inv other r1])
    have inv1: "sweep_inv (ue_lib E) s e1" using sweep_inv_keeps [OF inv] k1 by blast
    obtain row where "row \<in> set (session_rows (en_db e))" "scanUploadSession row = Inr s"
      using assms(6) find_SomeD by (fastforce simp: ReadUploadSession_def sqlReadUploadSession_def split: option.split_asm)
    then have s: "s \<in> set live" using scan_sessions_mem [of "session_rows (en_db e)" live] live by (auto simp: ListUploadSessions_def)
    have dirs: "visible_name (sf_comps (snd d))" if "d \<in> set (order (touchedDirs T (en_db e1)))" for d
    proof -
      have "d \<in> set (touchedDirs T (en_db e1))" using that assms(3) by blast
      then obtain spelled where "ParseSafePath T spelled = Inr (snd d)"
        by (auto simp: touchedDirs_def split: option.split_asm sum.split_asm)
      then show ?thesis using parent_visible by blast
    qed
    show ?thesis using k1 sweep_dirs_keeps [OF assms(1) inv1 s dirs r2] by (blast intro: keeps_session_trans)
  qed simp
  then show ?thesis using assms(6) by (simp add: keeps_session_def protected_name_def sid)
qed

text \<open>A live session, an expired one and an orphan in one directory.\<close>

definition sweep_env :: "(mem_fs, (int \<times> int) list) upload_env" where
  "sweep_env = demo_upload\<lparr>ue_lib := (ue_lib demo_upload)\<lparr>tl_String := (\<lambda>sid. sid @ ''-'')\<rparr>\<rparr>"

definition sweep_row :: "string \<Rightarrow> int \<Rightarrow> 8 word list upload_row" where
  "sweep_row sid expires = (demo_session_row 0)\<lparr>US_ID := sid, US_PartName := partName (ue_lib sweep_env) sid, US_ExpiresNs := expires\<rparr>"

definition sweep_engine :: "mem_fs engine" where
  "sweep_engine = set_fs ([((3, [''a'', ''.scpart-s-'']), Leaf ''hel''), ((3, [''a'', ''.scpart-x-'']), Leaf ''old''),
       ((3, [''a'', ''.scpart-o-'']), Leaf ''lost'')] @ demo_files)
     (set_db (demo_ledger\<lparr>session_rows := [sweep_row ''s'' 200000000000000, sweep_row ''x'' 5],
        interval_rows := [\<lparr>IV_Session = ''s'', IV_Lo = 0, IV_Hi = 3\<rparr>], touched_dirs := [(3, ''a'')]\<rparr>) demo_engine)"

definition sweep_live :: upload_session where
  "sweep_live = with_names [] (sweep_row ''s'' 200000000000000)"

lemma sweep_counts:
  "map_sum (\<lambda>_. ()) (\<lambda>rep. (rep_ExpiredSessions rep, rep_OrphanParts rep))
     (fst (Sweep latin1_library sweep_env [nul] 100000000000000 100000000000000 (\<lambda>ds. ds) sweep_engine)) = Inr (1, 1)"
  by code_simp

lemma sweep_live_read: "ReadUploadSession ''s'' (en_db sweep_engine) = Inr sweep_live"
  by code_simp

lemma sweep_env_ids: "ids_spelled (ue_lib sweep_env)"
  by (auto simp: ids_spelled_def sweep_env_def demo_upload_def inj_def)

theorem sweep_spares_live_witness:
  "\<exists>rep e'. Sweep latin1_library sweep_env [nul] 100000000000000 100000000000000 (\<lambda>ds. ds) sweep_engine = (Inr rep, e') \<and>
     rep_ExpiredSessions rep = 1 \<and> rep_OrphanParts rep = 1 \<and> ReadUploadSession ''s'' (en_db e') = Inr sweep_live \<and>
     mem_view (en_fs e') 3 [''a'', ''.scpart-s-''] = Some (Leaf ''hel'') \<and> mem_view (en_fs e') 3 [''a'', ''f''] = Some (Leaf ''abc'')"
proof -
  obtain res e' where run: "Sweep latin1_library sweep_env [nul] 100000000000000 100000000000000 (\<lambda>ds. ds) sweep_engine = (res, e')"
    by (metis surj_pair)
  obtain rep where rep: "res = Inr rep" "rep_ExpiredSessions rep = 1" "rep_OrphanParts rep = 1"
    using sweep_counts run by (cases res) auto
  have driver: "posix (ue_driver sweep_env) mem_view" using mem_posix by (simp add: sweep_env_def demo_upload_def demo_files_env_def)
  have named: "rows_named (ue_lib sweep_env) (en_db sweep_engine)"
    by (simp add: rows_named_def sweep_engine_def sweep_row_def demo_session_row_def)
  have roots: "roots_named (w_core (en_world sweep_engine))"
    by (simp add: roots_named_def ShareRoot_def sweep_engine_def demo_engine_def demo_world_def demo_core_def demo_entry_def demo_root_def
        split: if_splits)
  have files: "session_files latin1_library sweep_live 3 [''a'', ''.scpart-s-'']"
    unfolding session_files_def by (rule conjI, code_simp, rule exI [of _ "SafePath [''a'', ''f'']"], rule exI [of _ "''.scpart-s-''"],
        rule exI [of _ "[]"]) code_simp
  have vis: "visible_name [''a'', ''f'']" by (simp add: visible_name_def IsReservedName_def reservedPrefixes_def)
  have "mem_view (en_fs sweep_engine) 3 [''a'', ''.scpart-s-''] = Some (Leaf ''hel'')" "mem_view (en_fs sweep_engine) 3 [''a'', ''f''] = Some (Leaf ''abc'')"
    by (simp_all add: mem_view_def sweep_engine_def demo_files_def)
  moreover have "100000000000000 < US_ExpiresNs sweep_live" by (simp add: sweep_live_def sweep_row_def)
  moreover have "''s'' \<noteq> [nul]" by code_simp
  ultimately show ?thesis
    using sweep_spares_live [OF driver sweep_env_ids _ named roots sweep_live_read _ _ run] run rep files vis by auto
qed

end
