(* ===== verification/Sc_UploadNamed.thy ===== *)
theory Sc_UploadNamed
  imports Sc_UploadRun Sc_Trash
begin

unbundle bit_operations_syntax

text \<open>
  The name-ordered spool mode, \<open>internal/uploads/named.go\<close>, with \<open>Assemble\<close> of
  \<open>finalize.go\<close>, the transfer-id aliases of \<open>alias.go\<close> and the chunk bounds of
  \<open>settings.go\<close>. A chunk carries a name; the next name in order is appended to the part file,
  every other one waits in a file of its own in the spool directory.
\<close>

section \<open>Spooled chunks\<close>

definition chunkFileName :: "32 word \<Rightarrow> string" where
  "chunkFileName n = ''.scpart-'' @ hexLower (be_PutUint32 n)"

definition spoolDirOf :: "'enc text_library \<Rightarrow> 'set up_row \<Rightarrow> (upload_error, safe_path) result" where
  "spoolDirOf T r =
     (if US_SpoolDir (rw_sess r) = [] then Inl UBadRequest
      else bind_r (row_dest T r) (\<lambda>dest.
        case JoinControl (SafePath_Parent dest) (US_SpoolDir (rw_sess r)) of
          Inl x \<Rightarrow> Inl (UVfs (VPath x))
        | Inr dir \<Rightarrow> Inr dir))"

definition chunk_file :: "'enc text_library \<Rightarrow> 'set up_row \<Rightarrow> 32 word \<Rightarrow> (upload_error, safe_path) result" where
  "chunk_file T r name =
     bind_r (spoolDirOf T r) (\<lambda>dir.
       case JoinControl dir (chunkFileName name) of
         Inl x \<Rightarrow> Inl (UVfs (VPath x))
       | Inr file \<Rightarrow> Inr file)"

definition spooledChunkSize ::
  "'enc text_library \<Rightarrow> ('fs, 'set) upload_env \<Rightarrow> share_root \<Rightarrow> 'set up_row \<Rightarrow> 32 word \<Rightarrow> 'fs engine \<Rightarrow> (upload_error, int) result" where
  "spooledChunkSize T E root r name e =
     bind_r (chunk_file T r name) (\<lambda>file.
       Inr (case drv_Stat (ue_driver E) root file (en_fs e) of Inl _ \<Rightarrow> 0 | Inr st \<Rightarrow> st_Size st))"

primrec held_loop ::
  "'enc text_library \<Rightarrow> ('fs, 'set) upload_env \<Rightarrow> share_root \<Rightarrow> 'set up_row \<Rightarrow> 32 word \<Rightarrow> 'fs engine \<Rightarrow> 32 word list \<Rightarrow> int \<Rightarrow>
     (upload_error, int) result" where
  "held_loop T E root r replacing e [] held = Inr held"
| "held_loop T E root r replacing e (name # names) held =
     (if name = replacing then held_loop T E root r replacing e names held
      else bind_r (spooledChunkSize T E root r name e) (\<lambda>sz.
        if sz > 2 ^ 64 - 1 - held then Inl UTooLarge
        else held_loop T E root r replacing e names (held + sz)))"

definition namedHeldBytes ::
  "'enc text_library \<Rightarrow> ('fs, 'set) upload_env \<Rightarrow> share_root \<Rightarrow> 'set up_row \<Rightarrow> 32 word \<Rightarrow> 'fs engine \<Rightarrow> (upload_error, int) result" where
  "namedHeldBytes T E root r replacing e =
     (case Narrow (Unsigned 64) (Signed 64) (US_WriteHead (rw_sess r)) of
        None \<Rightarrow> Inl (UNarrow (US_WriteHead (rw_sess r)))
      | Some head \<Rightarrow> held_loop T E root r replacing e (US_SpooledNames (rw_sess r)) head)"

text \<open>Merging returns the write head behind the chunk.\<close>

definition mergeChunk ::
  "'enc text_library \<Rightarrow> ('fs, 'set) upload_env \<Rightarrow> share_root \<Rightarrow> 'set up_row \<Rightarrow> 32 word \<Rightarrow> 'fs engine \<Rightarrow>
     (upload_error, int) result \<times> 'fs engine" where
  "mergeChunk T E root r name e =
     (case tl_FromBytes (ue_lib E) (US_ID (rw_sess r)) of
        None \<Rightarrow> (Inl UTransfer, e)
      | Some sid \<Rightarrow>
      (case chunk_file T r name of
        Inl x \<Rightarrow> (Inl x, e)
      | Inr file \<Rightarrow>
      (case partPathOf T r of
        Inl x \<Rightarrow> (Inl x, e)
      | Inr part \<Rightarrow>
      (case drv_OpenRead (ue_driver E) root file (en_fs e) of
        Inl x \<Rightarrow> (Inl (up_mapVFSErr x), e)
      | Inr (st, _) \<Rightarrow>
      (case handleFor E root sid part e of
        (Some x, e1) \<Rightarrow> (Inl x, e1)
      | (None, e1) \<Rightarrow>
      (case Narrow (Unsigned 64) (Signed 64) (US_WriteHead (rw_sess r)) of
        None \<Rightarrow> (Inl (UNarrow (US_WriteHead (rw_sess r))), e1)
      | Some head \<Rightarrow>
          if (case row_totalLen r of None \<Rightarrow> False | Some len \<Rightarrow> head > len \<or> st_Size st > len - head)
          then (Inl UTooLarge, e1)
          else (case po_CopyRange (ue_parts E) root file 0 part head (st_Size st) (en_fs e1) of
            (Inl x, fs) \<Rightarrow> (Inl (up_mapVFSErr x), set_fs fs e1)
          | (Inr copied, fs) \<Rightarrow>
              if copied \<noteq> st_Size st then (Inl UShortCopy, set_fs fs e1)
              else (case po_SyncData (ue_parts E) root part fs of
                Some x \<Rightarrow> (Inl (up_mapVFSErr x), set_fs fs e1)
              | None \<Rightarrow>
                  (case Narrow (Signed 64) (Unsigned 64) copied of
                     None \<Rightarrow> (Inl (UNarrow copied), set_fs fs e1)
                   | Some written \<Rightarrow>
                       (Inr (wrap_i64 (US_WriteHead (rw_sess r) + written)), snd (unlink_at E root file (set_fs fs e1))))))))))))"

function drainSpool ::
  "'enc text_library \<Rightarrow> ('fs, 'set) upload_env \<Rightarrow> share_root \<Rightarrow> bool \<Rightarrow> 'set up_row \<Rightarrow> 'fs engine \<Rightarrow>
     (upload_error, 'set up_row) result \<times> 'fs engine" where
  "drainSpool T E root strict r e =
     (let s = rw_sess r in
      if US_SpooledNames s = [] then (Inr r, e)
      else (case Narrow (Unsigned 32) (Signed 64) (US_NextName s) of
        None \<Rightarrow> (Inl (UNarrow (US_NextName s)), e)
      | Some nxt \<Rightarrow>
          if word_of_int nxt \<notin> set (US_SpooledNames s)
          then (if strict then (Inl (UIncomplete []), e) else (Inr r, e))
          else (case mergeChunk T E root r (word_of_int nxt) e of
            (Inl x, e1) \<Rightarrow> (Inl x, e1)
          | (Inr head, e1) \<Rightarrow>
              (let r1 = r\<lparr>rw_sess := s\<lparr>US_WriteHead := head, US_NextName := wrap_i64 (US_NextName s + 1),
                     US_SpooledNames := filter (\<lambda>n. n \<noteq> word_of_int nxt) (US_SpooledNames s)\<rparr>\<rparr>
               in case save r1 e1 of
                    (Inl x, e2) \<Rightarrow> (Inl x, e2)
                  | (Inr _, e2) \<Rightarrow> drainSpool T E root strict r1 e2))))"
  by pat_completeness auto
termination
  by (relation "measure (\<lambda>(_, _, _, _, r, _). length (US_SpooledNames (rw_sess r)))") (auto intro!: length_filter_less)

declare drainSpool.simps [simp del]

section \<open>Putting a named chunk\<close>

definition named_begin ::
  "'enc text_library \<Rightarrow> ('fs, 'set) upload_env \<Rightarrow> int \<Rightarrow> share_root \<Rightarrow> string \<Rightarrow> int \<Rightarrow> 32 word \<Rightarrow> 'fs engine \<Rightarrow>
     (upload_error, 'set up_row \<times> safe_path \<times> int \<times> safe_path \<times> nat) result \<times> 'fs engine" where
  "named_begin T E now root sid user name e =
     (case load E sid e of
        Inl x \<Rightarrow> (Inl x, e)
      | Inr r \<Rightarrow>
      (case requireOwner r user of
        Some x \<Rightarrow> (Inl x, e)
      | None \<Rightarrow>
      (case requireReceiving now r of
        Some x \<Rightarrow> (Inl x, e)
      | None \<Rightarrow>
        if US_Mode (rw_sess r) \<noteq> SpoolNameOrdered then (Inl UBadRequest, e)
        else if name = 0 then (Inl UBadRequest, e)
        else (case Narrow (Unsigned 32) (Signed 64) (US_NextName (rw_sess r)) of
          None \<Rightarrow> (Inl (UNarrow (US_NextName (rw_sess r))), e)
        | Some nxt \<Rightarrow>
            (let isNext = (name = word_of_int nxt) in
             if \<not> isNext \<and> name \<notin> set (US_SpooledNames (rw_sess r)) \<and> length (US_SpooledNames (rw_sess r)) \<ge> UploadSpooledNames
             then (Inl (UExhausted ''out-of-order chunks held for this session''), e)
             else (case admitWriter sid e of
               (None, e1) \<Rightarrow> (Inl USessionState, e1)
             | (Some lease, e1) \<Rightarrow>
             (case partPathOf T r of
               Inl x \<Rightarrow> (Inl x, lease_release sid e1)
             | Inr part \<Rightarrow>
               if isNext
               then (case Narrow (Unsigned 64) (Signed 64) (US_WriteHead (rw_sess r)) of
                 None \<Rightarrow> (Inl (UNarrow (US_WriteHead (rw_sess r))), lease_release sid e1)
               | Some logical \<Rightarrow> (Inr (r, part, logical, SafePath_Parent part, lease), e1))
               else (case spoolDirOf T r of
                 Inl x \<Rightarrow> (Inl x, lease_release sid e1)
               | Inr dir \<Rightarrow>
                   (case drv_Mkdir (ue_driver E) root dir (en_fs e1) of (merr, fs) \<Rightarrow>
                      if merr \<noteq> None \<and> merr \<noteq> Some VExists
                      then (Inl (up_mapVFSErr (the merr)), lease_release sid (set_fs fs e1))
                      else (Inr (r, part, 0, dir, lease), set_fs fs e1))))))))))"

text \<open>The chunk that is next in order: append it, then whatever waited for it.\<close>

definition named_append ::
  "'enc text_library \<Rightarrow> ('fs, 'set) upload_env \<Rightarrow> share_root \<Rightarrow> string \<Rightarrow> safe_path \<Rightarrow> 'set up_row \<Rightarrow> safe_path \<Rightarrow> int \<Rightarrow> 'fs engine \<Rightarrow>
     (upload_error, unit) result \<times> 'fs engine" where
  "named_append T E root sid part fresh stage n e =
     (let s = rw_sess fresh in
      case Narrow (Unsigned 64) (Signed 64) (US_WriteHead s) of
        None \<Rightarrow> (Inl (UNarrow (US_WriteHead s)), e)
      | Some head \<Rightarrow>
          if (case row_totalLen fresh of None \<Rightarrow> False | Some len \<Rightarrow> head > len \<or> n > len - head) then (Inl UTooLarge, e)
          else (case commitStagedAt E root sid part stage head n e of
            (Some x, e1) \<Rightarrow> (Inl x, e1)
          | (None, e1) \<Rightarrow>
              (case Narrow (Signed 64) (Unsigned 64) n of
                 None \<Rightarrow> (Inl (UNarrow n), e1)
               | Some advanced \<Rightarrow>
                   (let r1 = fresh\<lparr>rw_sess := s\<lparr>US_WriteHead := wrap_i64 (US_WriteHead s + advanced),
                          US_NextName := wrap_i64 (US_NextName s + 1)\<rparr>\<rparr>
                    in case save r1 e1 of
                         (Inl x, e2) \<Rightarrow> (Inl x, e2)
                       | (Inr _, e2) \<Rightarrow>
                           (case drainSpool T E root False r1 e2 of
                              (Inl x, e3) \<Rightarrow> (Inl x, e3)
                            | (Inr _, e3) \<Rightarrow> (Inr (), e3))))))"

text \<open>A chunk ahead of its turn: keep it under its own name.\<close>

definition named_hold ::
  "'enc text_library \<Rightarrow> ('fs, 'set) upload_env \<Rightarrow> int \<Rightarrow> share_root \<Rightarrow> 'set up_row \<Rightarrow> 32 word \<Rightarrow> safe_path \<Rightarrow> int \<Rightarrow> 'fs engine \<Rightarrow>
     (upload_error, unit) result \<times> 'fs engine" where
  "named_hold T E now root fresh name stage n e =
     (let s = rw_sess fresh in
      case namedHeldBytes T E root fresh name e of
        Inl x \<Rightarrow> (Inl x, e)
      | Inr held \<Rightarrow>
          if n > 2 ^ 64 - 1 - held then (Inl UTooLarge, e)
          else (case (case row_totalLen fresh of
                   Some len \<Rightarrow> if held + n > len then Some UTooLarge else None
                 | None \<Rightarrow> if held + n > UploadReservedBytesPerUser then Some (UExhausted ''unassembled named upload bytes'') else None) of
            Some x \<Rightarrow> (Inl x, e)
          | None \<Rightarrow>
              (case chunk_file T fresh name of
                 Inl x \<Rightarrow> (Inl x, e)
               | Inr file \<Rightarrow>
                   (case drv_Rename (ue_driver E) root stage file False (en_fs e) of
                      (Some x, fs) \<Rightarrow> (Inl (up_mapVFSErr x), set_fs fs e)
                    | (None, fs) \<Rightarrow>
                        save (fresh\<lparr>rw_sess := s\<lparr>US_SpooledNames := (if name \<in> set (US_SpooledNames s) then US_SpooledNames s
                            else US_SpooledNames s @ [name]), US_ExpiresNs := expiry now\<rparr>\<rparr>) (set_fs fs e)))))"

definition named_commit ::
  "'enc text_library \<Rightarrow> ('fs, 'set) upload_env \<Rightarrow> int \<Rightarrow> share_root \<Rightarrow> string \<Rightarrow> safe_path \<Rightarrow> nat \<Rightarrow> 32 word \<Rightarrow> safe_path \<Rightarrow> int \<Rightarrow>
     'fs engine \<Rightarrow> (upload_error, unit) result \<times> 'fs engine" where
  "named_commit T E now root sid part lease name stage n e =
     (if \<not> lease_valid sid lease e then (Inl USessionState, e)
      else (case load E sid e of
        Inl x \<Rightarrow> (Inl x, e)
      | Inr fresh \<Rightarrow>
      (case requireReceiving now fresh of
        Some x \<Rightarrow> (Inl x, e)
      | None \<Rightarrow>
        if US_Mode (rw_sess fresh) \<noteq> SpoolNameOrdered then (Inl UBadRequest, e)
        else (case Narrow (Unsigned 32) (Signed 64) (US_NextName (rw_sess fresh)) of
          None \<Rightarrow> (Inl (UNarrow (US_NextName (rw_sess fresh))), e)
        | Some nxt \<Rightarrow>
            if uint name < nxt then (Inr (), e)
            else if uint name = nxt then named_append T E root sid part fresh stage n e
            else named_hold T E now root fresh name stage n e))))"

definition PutNamed ::
  "'enc text_library \<Rightarrow> ('fs, 'set) upload_env \<Rightarrow> int \<Rightarrow> string option \<Rightarrow> share_root \<Rightarrow> string \<Rightarrow> int \<Rightarrow> 32 word \<Rightarrow> string list \<Rightarrow>
     body_end \<Rightarrow> (algo \<times> string) option \<Rightarrow> 'fs engine \<Rightarrow> (upload_error, unit) result \<times> 'fs engine" where
  "PutNamed T E now rid root sid user name chunks ending chk e =
     (case named_begin T E now root sid user name e of
        (Inl x, e1) \<Rightarrow> (Inl x, e1)
      | (Inr (r, part, logical, dir, lease), e1) \<Rightarrow>
          (case stageBody E rid user root dir logical r chk \<lparr>rd_chunks = chunks, rd_end = ending, rd_quota = None\<rparr> e1 of
             (Inl x, e2) \<Rightarrow> (Inl x, lease_release sid e2)
           | (Inr (stage, n), e2) \<Rightarrow>
               (case named_commit T E now root sid part lease name stage n e2 of (res, e3) \<Rightarrow>
                  (res, lease_release sid (snd (unlink_at E root stage e3))))))"

section \<open>Listing\<close>

record chunk =
  ch_Name :: "32 word"
  ch_Size :: int

primrec list_spooled ::
  "'enc text_library \<Rightarrow> ('fs, 'set) upload_env \<Rightarrow> share_root \<Rightarrow> 'set up_row \<Rightarrow> 32 word \<Rightarrow> 'fs engine \<Rightarrow> 32 word list \<Rightarrow>
     (upload_error, chunk list) result" where
  "list_spooled T E root r nxt e [] = Inr []"
| "list_spooled T E root r nxt e (n # ns) =
     (if nxt > 1 \<and> n = nxt - 1 then list_spooled T E root r nxt e ns
      else bind_r (spooledChunkSize T E root r n e) (\<lambda>sz.
        bind_r (list_spooled T E root r nxt e ns) (\<lambda>cs. Inr (\<lparr>ch_Name = n, ch_Size = sz\<rparr> # cs))))"

definition ListChunks ::
  "'enc text_library \<Rightarrow> ('fs, 'set) upload_env \<Rightarrow> share_root \<Rightarrow> string \<Rightarrow> int \<Rightarrow> 'fs engine \<Rightarrow> (upload_error, chunk list) result" where
  "ListChunks T E root sid user e =
     bind_r (load E sid e) (\<lambda>r.
       case requireOwner r user of
         Some x \<Rightarrow> Inl x
       | None \<Rightarrow>
           if US_Mode (rw_sess r) \<noteq> SpoolNameOrdered then Inr []
           else (case Narrow (Unsigned 32) (Signed 64) (US_NextName (rw_sess r)) of
             None \<Rightarrow> Inl (UNarrow (US_NextName (rw_sess r)))
           | Some nxt \<Rightarrow>
               (case Narrow (Unsigned 64) (Signed 64) (US_WriteHead (rw_sess r)) of
                  None \<Rightarrow> Inl (UNarrow (US_WriteHead (rw_sess r)))
                | Some head \<Rightarrow>
                    bind_r (list_spooled T E root r (word_of_int nxt) e (US_SpooledNames (rw_sess r))) (\<lambda>cs.
                      Inr (sort_key (uint \<circ> ch_Name)
                        ((if nxt > 1 then [\<lparr>ch_Name = word_of_int (nxt - 1), ch_Size = head\<rparr>] else []) @ cs))))))"

section \<open>Assembling\<close>

text \<open>The part of \<open>Assemble\<close> between the checks and the publication: the declared length becomes the assembled one.\<close>

definition assemble_total ::
  "'enc text_library \<Rightarrow> ('fs, 'set) upload_env \<Rightarrow> share_root \<Rightarrow> 'set up_row \<Rightarrow> int \<Rightarrow> 'fs engine \<Rightarrow> (upload_error, int) result" where
  "assemble_total T E root rw wanted e =
     (let declared = row_totalLen rw;
          bound = (if wanted = 0 then (case declared of None \<Rightarrow> 0 | Some d \<Rightarrow> d) else wanted)
      in if wanted \<noteq> 0 \<and> declared \<noteq> None \<and> declared \<noteq> Some wanted then Inl UBadRequest
         else bind_r (if bound > 0
               then bind_r (namedHeldBytes T E root rw 0 e) (\<lambda>held. if held > bound then Inl UTooLarge else Inr ())
               else Inr ()) (\<lambda>_.
           case Narrow (Unsigned 64) (Signed 64) (US_WriteHead (rw_sess rw)) of
             None \<Rightarrow> Inl (UNarrow (US_WriteHead (rw_sess rw)))
           | Some head \<Rightarrow>
               if bound > 0 \<and> head \<noteq> bound then Inl (if head < bound then UIncomplete [] else UBadRequest)
               else if bound = 0 then (if head = 0 \<and> declared = None then Inl (UIncomplete []) else Inr head)
               else Inr bound))"

definition assemble ::
  "'enc text_library \<Rightarrow> ('fs, 'set) upload_env \<Rightarrow> int \<Rightarrow> resolved \<Rightarrow> string \<Rightarrow> int \<Rightarrow> int option \<Rightarrow> 'fs engine \<Rightarrow>
     (upload_error, entry) result \<times> 'fs engine" where
  "assemble T E now r sid wanted mtime e =
     (case load E sid e of
        Inl x \<Rightarrow> (Inl x, e)
      | Inr rw \<Rightarrow>
      (case requireOwner rw (r_user r) of
        Some x \<Rightarrow> (Inl x, e)
      | None \<Rightarrow>
      (case requireReceiving now rw of
        Some x \<Rightarrow> (Inl x, e)
      | None \<Rightarrow>
        if US_Mode (rw_sess rw) \<noteq> SpoolNameOrdered then (Inl UBadRequest, e)
        else (case Require r (Write OR Create) of
          Some x \<Rightarrow> (Inl (UFiles x), e)
        | None \<Rightarrow>
        (case assemble_total T E (r_root r) rw wanted e of
          Inl x \<Rightarrow> (Inl x, e)
        | Inr len \<Rightarrow>
        (case Narrow (Signed 64) (Unsigned 64) len of
          None \<Rightarrow> (Inl (UNarrow len), e)
        | Some n \<Rightarrow>
            (let s = rw_sess rw;
                 rw1 = \<lparr>rw_sess = s\<lparr>US_TotalLen := Some n, US_MtimeNs := (if mtime = None then US_MtimeNs s else mtime)\<rparr>,
                        rw_set = iv_Full (ue_sets E) len\<rparr>
             in case save rw1 e of
                  (Inl x, e1) \<Rightarrow> (Inl x, e1)
                | (Inr _, e1) \<Rightarrow>
                    (case commitRange E now rw1 e1 of
                       (Inl x, e2) \<Rightarrow> (Inl x, e2)
                     | (Inr rw2, e2) \<Rightarrow>
                         (case finalize T E now r sid e2 of
                            (Inl x, e3) \<Rightarrow> (Inl x, e3)
                          | (Inr entry, e3) \<Rightarrow>
                              (Inr entry, case spoolDirOf T rw2 of
                                 Inl _ \<Rightarrow> e3
                               | Inr dir \<Rightarrow> set_fs (snd (drv_Rmdir (ue_driver E) (r_root r) dir (en_fs e3))) e3))))))))))"

definition Assemble ::
  "'enc text_library \<Rightarrow> ('fs, 'set) upload_env \<Rightarrow> int \<Rightarrow> resolved \<Rightarrow> string \<Rightarrow> int \<Rightarrow> int option \<Rightarrow> 'fs engine \<Rightarrow>
     (upload_error, entry) result \<times> 'fs engine" where
  "Assemble T E now r sid wanted mtime e =
     (case closeWriterGate sid True e of
        (None, e1) \<Rightarrow> (Inl UCanceled, e1)
      | (Some (gen, owner), e1) \<Rightarrow>
          (case assemble T E now r sid wanted mtime e1 of (res, e2) \<Rightarrow>
             (res, finishWriters sid (if isl res \<and> owner then reopenWriters sid gen e2 else e2))))"

section \<open>Aliases\<close>

definition aliasMaxBytes :: nat where "aliasMaxBytes = 255"

definition checkTransferID :: "string \<Rightarrow> upload_error option" where
  "checkTransferID tid =
     (if tid = [] then Some UBadRequest
      else if length tid > aliasMaxBytes then Some (UExceeded ''transfer id bytes'' (int aliasMaxBytes) (int (length tid)))
      else if list_ex (\<lambda>c. of_char c \<le> (31 :: nat) \<or> of_char c = (127 :: nat) \<or> c = slash) tid then Some UBadRequest
      else None)"

definition BindAlias ::
  "('fs, 'set) upload_env \<Rightarrow> int \<Rightarrow> string \<Rightarrow> int \<Rightarrow> string \<Rightarrow> 'fs engine \<Rightarrow> (upload_error, unit) result \<times> 'fs engine" where
  "BindAlias E now tid user sid e =
     (case checkTransferID tid of
        Some x \<Rightarrow> (Inl x, e)
      | None \<Rightarrow>
      (case load E sid e of
        Inl x \<Rightarrow> (Inl x, e)
      | Inr r \<Rightarrow>
      (case requireOwner r user of
        Some x \<Rightarrow> (Inl x, e)
      | None \<Rightarrow>
          (case up_db (BindUploadAlias tid user sid (US_Share (rw_sess r)) (US_Dest (rw_sess r)) now) e of
             (Inl x, e1) \<Rightarrow> (Inl x, e1)
           | (Inr bound, e1) \<Rightarrow> (if bound then Inr () else Inl (UAliasTaken tid), e1)))))"

definition LookupAlias ::
  "('fs, 'set) upload_env \<Rightarrow> string \<Rightarrow> int \<Rightarrow> 'fs engine \<Rightarrow> (upload_error, string \<times> int \<times> string) result" where
  "LookupAlias E tid user e =
     (case checkTransferID tid of
        Some x \<Rightarrow> Inl x
      | None \<Rightarrow>
          (case LookupUploadAlias tid user (en_db e) of
             Inl x \<Rightarrow> Inl (if x = ErrNoSuchUploadSession then UNotFound else UState x)
           | Inr (b, v, dest) \<Rightarrow>
               (case (tl_FromBytes (ue_lib E) b, shareIDOf v) of
                  (Some sid, Some share) \<Rightarrow> Inr (sid, share, dest)
                | _ \<Rightarrow> Inl UNotFound)))"

definition UnbindAlias :: "string \<Rightarrow> int \<Rightarrow> 'fs engine \<Rightarrow> (upload_error, unit) result \<times> 'fs engine" where
  "UnbindAlias tid user e =
     (case checkTransferID tid of
        Some x \<Rightarrow> (Inl x, e)
      | None \<Rightarrow> up_db (UnbindUploadAlias tid user) e)"

section \<open>Chunk bounds\<close>

definition UploadChunkMinDefault :: int where "UploadChunkMinDefault = 5242880"
definition UploadChunkSizeDefault :: int where "UploadChunkSizeDefault = 10485760"

definition settings_store :: "int \<Rightarrow> int \<Rightarrow> settings \<Rightarrow> settings" where
  "settings_store lo def s =
     (let lo' = (if lo < UploadChunkFloor then UploadChunkFloor else lo);
          def' = (if def < lo' then lo' else def)
      in s\<lparr>minBytes := lo', defaultBytes := def'\<rparr>)"

definition loadSettings :: "int \<Rightarrow> int \<Rightarrow> state_db \<Rightarrow> settings" where
  "loadSettings cfgMin cfgDefault db =
     (let s = settings_store (if cfgMin = 0 then UploadChunkMinDefault else cfgMin)
            (if cfgDefault = 0 then UploadChunkSizeDefault else cfgDefault)
            \<lparr>minBytes = 0, defaultBytes = 0, overridden = False\<rparr>
      in case ReadChunkSettings db of
           None \<Rightarrow> s
         | Some (lo, def) \<Rightarrow>
             (case (Narrow (Unsigned 64) (Signed 64) lo, Narrow (Unsigned 64) (Signed 64) def) of
                (Some lo', Some def') \<Rightarrow> (settings_store lo' def' s)\<lparr>overridden := True\<rparr>
              | _ \<Rightarrow> s))"

definition ApplySettings :: "int option \<Rightarrow> int option \<Rightarrow> 'fs engine \<Rightarrow> (upload_error, unit) result \<times> 'fs engine" where
  "ApplySettings lo def e =
     (let lo' = (case lo of None \<Rightarrow> minBytes (en_settings e) | Some v \<Rightarrow> v);
          def' = (case def of None \<Rightarrow> defaultBytes (en_settings e) | Some v \<Rightarrow> v)
      in if lo' < UploadChunkFloor then (Inl UBadRequest, e)
         else if def' < lo' then (Inl UBadRequest, e)
         else (case (Narrow (Signed 64) (Unsigned 64) lo', Narrow (Signed 64) (Unsigned 64) def') of
           (Some storedMin, Some storedDefault) \<Rightarrow>
             (case up_db (WriteChunkSettings storedMin storedDefault) e of
                (Inl x, e1) \<Rightarrow> (Inl x, e1)
              | (Inr _, e1) \<Rightarrow> (Inr (), e1\<lparr>en_settings := (settings_store lo' def' (en_settings e1))\<lparr>overridden := True\<rparr>\<rparr>))
         | _ \<Rightarrow> (Inl UBadRequest, e)))"

section \<open>Names of spooled chunks\<close>

lemma hex_byte_inj: "hex_byte a = hex_byte b \<Longrightarrow> a = b"
proof -
  assume eq: "hex_byte a = hex_byte b"
  have "distinct hex_alphabet" by (simp add: hex_alphabet_def)
  then have hi: "unat (drop_bit 4 a) = unat (drop_bit 4 b)" and lo: "unat (a AND 15) = unat (b AND 15)"
    using eq nibbles_small [of a] nibbles_small [of b] by (auto simp: hex_byte_nth nth_eq_iff_index_eq length_hex_alphabet)
  have split: "push_bit 4 (drop_bit 4 w) + (w AND 15) = w" for w :: "8 word"
    using bits_ident [of 4 w] by (simp add: take_bit_eq_mask mask_eq_exp_minus_1)
  show "a = b" using split [of a] split [of b] hi lo by (metis word_unat_eq_iff)
qed

lemma hexLower_inj: "hexLower xs = hexLower ys \<Longrightarrow> xs = ys"
proof (induction xs arbitrary: ys)
  case Nil
  then have "length (hexLower ys) = length (hexLower [])" by simp
  then show ?case by (simp add: length_hexLower)
next
  case (Cons x xs)
  then obtain y ys' where ys: "ys = y # ys'" using length_hexLower [of "x # xs"] length_hexLower [of ys] by (cases ys) auto
  then have "hex_byte x @ hexLower xs = hex_byte y @ hexLower ys'" using Cons.prems by (simp add: hexLower_def)
  then show ?case using Cons.IH hex_byte_inj by (simp add: ys)
qed

lemma chunkFileName_inj: "chunkFileName a = chunkFileName b \<longleftrightarrow> a = b"
proof
  assume "chunkFileName a = chunkFileName b"
  then have "be_PutUint32 a = be_PutUint32 b" using hexLower_inj by (simp add: chunkFileName_def)
  then show "a = b" using be_words_step [of a "[]"] be_words_step [of b "[]"] by simp
qed simp

lemma relabel_Inr [simp]: "(case x of Inl a \<Rightarrow> Inl (g a) | Inr b \<Rightarrow> Inr b) = Inr c \<longleftrightarrow> x = Inr c"
  by (cases x) auto

lemma chunk_file_comps:
  assumes "chunk_file T r name = Inr cfile"
  obtains dest where "row_dest T r = Inr dest"
    "sf_comps cfile = sf_comps (SafePath_Parent dest) @ [US_SpoolDir (rw_sess r), chunkFileName name]"
proof -
  obtain dir where dir: "spoolDirOf T r = Inr dir" and f: "JoinControl dir (chunkFileName name) = Inr cfile"
    using assms by (auto simp: chunk_file_def bind_r_eq_Inr)
  obtain dest where "row_dest T r = Inr dest" "JoinControl (SafePath_Parent dest) (US_SpoolDir (rw_sess r)) = Inr dir"
    using dir by (auto simp: spoolDirOf_def bind_r_eq_Inr split: if_split_asm)
  then show ?thesis using that JoinControl_comps [OF f] JoinControl_comps by auto
qed

lemma part_comps:
  assumes "partPathOf T r = Inr part"
  obtains dest where "row_dest T r = Inr dest" "sf_comps part = sf_comps (SafePath_Parent dest) @ [US_PartName (rw_sess r)]"
  using assms by (auto simp: partPathOf_def bind_r_eq_Inr partPath_def dest: JoinControl_comps)

lemma chunk_files_apart:
  assumes "chunk_file T r name = Inr cfile"
  shows "partPathOf T r = Inr part \<Longrightarrow> sf_comps cfile \<noteq> sf_comps part"
    and "chunk_file T r name' = Inr cfile' \<Longrightarrow> name' \<noteq> name \<Longrightarrow> sf_comps cfile' \<noteq> sf_comps cfile"
proof -
  obtain dest where d: "row_dest T r = Inr dest" "sf_comps cfile = sf_comps (SafePath_Parent dest) @ [US_SpoolDir (rw_sess r), chunkFileName name]"
    by (rule chunk_file_comps [OF assms])
  show "sf_comps cfile \<noteq> sf_comps part" if p: "partPathOf T r = Inr part"
    by (rule part_comps [OF p]) (use d in auto)
  show "sf_comps cfile' \<noteq> sf_comps cfile" if f: "chunk_file T r name' = Inr cfile'" and "name' \<noteq> name"
    by (rule chunk_file_comps [OF f]) (use d that(2) chunkFileName_inj in auto)
qed

lemma chunk_file_row:
  "US_Dest (rw_sess r') = US_Dest (rw_sess r) \<Longrightarrow> US_SpoolDir (rw_sess r') = US_SpoolDir (rw_sess r) \<Longrightarrow> chunk_file T r' name = chunk_file T r name"
  "US_Dest (rw_sess r') = US_Dest (rw_sess r) \<Longrightarrow> US_PartName (rw_sess r') = US_PartName (rw_sess r) \<Longrightarrow> partPathOf T r' = partPathOf T r"
  by (simp_all add: chunk_file_def spoolDirOf_def partPathOf_def row_dest_def)

section \<open>Draining\<close>

lemma mergeChunk_effect:
  assumes run: "mergeChunk T E root r name e = (Inr head, e')"
    and laws: "part_laws (ue_parts E) view" "posix (ue_driver E) view"
    and cfile: "chunk_file T r name = Inr cfile" "view (en_fs e) (SR_ID root) (sf_comps cfile) = Some (Leaf d)"
    and part: "partPathOf T r = Inr part" "view (en_fs e) (SR_ID root) (sf_comps part) = Some (Leaf c)"
    and write_head: "US_WriteHead (rw_sess r) = int (length c)" and small: "length c + length d < 2 ^ 63"
  shows "head = int (length (c @ d))" "en_db e' = en_db e"
    "view (en_fs e') (SR_ID root) (sf_comps part) = Some (Leaf (c @ d))"
    "\<And>q. q \<noteq> sf_comps part \<Longrightarrow> q \<noteq> sf_comps cfile \<Longrightarrow> view (en_fs e') (SR_ID root) q = view (en_fs e) (SR_ID root) q"
proof -
  have apart: "sf_comps cfile \<noteq> sf_comps part" using chunk_files_apart(1) [OF cfile(1) part(1)] .
  have nar: "Narrow (Unsigned 64) (Signed 64) (int (length c)) = Some (int (length c))"
    using small by (simp add: Narrow_u64 max_i64_def)
  obtain sid st t e1 copied fs where st: "drv_OpenRead (ue_driver E) root cfile (en_fs e) = Inr (st, t)"
    and h: "handleFor E root sid part e = (None, e1)"
    and cp: "po_CopyRange (ue_parts E) root cfile 0 part (int (length c)) (st_Size st) (en_fs e1) = (Inr copied, fs)"
    and sz: "copied = st_Size st" and nw: "\<exists>w. Narrow (Signed 64) (Unsigned 64) copied = Some w \<and> head = wrap_i64 (int (length c) + w)"
    and e': "e' = snd (unlink_at E root cfile (set_fs fs e1))"
    using run by (auto simp: mergeChunk_def cfile(1) part(1) write_head nar
        split: option.split_asm sum.split_asm prod.split_asm if_split_asm)
  have e1: "en_fs e1 = en_fs e" "en_db e1 = en_db e" using handleFor_fields [OF h] by auto
  have "posix_open (ue_driver E) view" using laws(2) by (simp add: posix_def)
  then have size_d: "st_Size st = int (length d)" using st cfile(2) unfolding posix_open_def node_stat_def by fastforce
  have "0 \<le> st_Size st" "cfile \<noteq> part" using size_d apart by auto
  from CopyRange_law [OF laws(1) cp [unfolded e1] _ _ this cfile(2) part(2)]
  obtain k where k: "copied = int k"
    and v: "view fs = put (SR_ID root) (sf_comps part) (Some (Leaf (overlay (length c) (take k d) c))) (view (en_fs e))"
    by auto
  have "k = length d" using k sz size_d by simp
  then have v: "view fs = put (SR_ID root) (sf_comps part) (Some (Leaf (c @ d))) (view (en_fs e))" using v by (simp add: overlay_end)
  have "Narrow (Signed 64) (Unsigned 64) (int (length d)) = Some (int (length d))"
    using small by (simp add: Narrow_i64 in_u64_def max_i64_def)
  then show "head = int (length (c @ d))" using nw sz size_d small by (auto simp: wrap_i64_id in_i64_def max_i64_def min_i64_def)
  have "unlink_at E root cfile (set_fs fs e1) = (fst (unlink_at E root cfile (set_fs fs e1)), e')" by (simp add: e')
  note u = unlink_at_effect [OF this laws(2)]
  show "en_db e' = en_db e" using u(2) e1 by simp
  show "view (en_fs e') (SR_ID root) (sf_comps part) = Some (Leaf (c @ d))" using stages_at [OF u(1)] apart v by simp
  show "view (en_fs e') (SR_ID root) q = view (en_fs e) (SR_ID root) q" if "q \<noteq> sf_comps part" "q \<noteq> sf_comps cfile" for q
    using stages_at [OF u(1), of "SR_ID root" q] that v by simp
qed

text \<open>The names from a given one on, in order.\<close>

definition names_from :: "int \<Rightarrow> nat \<Rightarrow> 32 word list" where
  "names_from n k = map (\<lambda>i. word_of_int (n + int i)) [0..<k]"

lemma names_from_Suc: "names_from n (Suc k) = word_of_int n # names_from (n + 1) k"
  by (simp add: names_from_def upt_conv_Cons del: upt_Suc) (simp add: map_Suc_upt [symmetric] comp_def algebra_simps del: upt_Suc)

lemma names_from_0 [simp]: "names_from n 0 = []"
  by (simp add: names_from_def)

definition spool_holds ::
  "'enc text_library \<Rightarrow> ('fs \<Rightarrow> tree) \<Rightarrow> share_root \<Rightarrow> 'set up_row \<Rightarrow> (32 word \<Rightarrow> string) \<Rightarrow> 'fs engine \<Rightarrow> bool" where
  "spool_holds T view root r f e \<longleftrightarrow>
     (\<forall>n\<in>set (US_SpooledNames (rw_sess r)). \<exists>cfile. chunk_file T r n = Inr cfile \<and>
        view (en_fs e) (SR_ID root) (sf_comps cfile) = Some (Leaf (f n)))"

definition drained ::
  "('fs \<Rightarrow> tree) \<Rightarrow> share_root \<Rightarrow> safe_path \<Rightarrow> (32 word \<Rightarrow> string) \<Rightarrow> string \<Rightarrow> bool \<Rightarrow> upload_session \<Rightarrow> upload_session \<Rightarrow> 'fs engine \<Rightarrow> nat \<Rightarrow> bool" where
  "drained view root part f c strict s s' e' k \<longleftrightarrow>
     view (en_fs e') (SR_ID root) (sf_comps part) = Some (Leaf (c @ concat (map f (names_from (US_NextName s) k)))) \<and>
     US_WriteHead s' = int (length (c @ concat (map f (names_from (US_NextName s) k)))) \<and>
     US_NextName s' = US_NextName s + int k \<and>
     US_SpooledNames s' = filter (\<lambda>n. n \<notin> set (names_from (US_NextName s) k)) (US_SpooledNames s) \<and>
     set (names_from (US_NextName s) k) \<subseteq> set (US_SpooledNames s) \<and>
     (US_SpooledNames s' = [] \<or> \<not> strict \<and> word_of_int (US_NextName s') \<notin> set (US_SpooledNames s'))"

lemma drain_step:
  assumes run: "mergeChunk T E root r name e = (Inr head, e1)" and save: "save r1 e1 = (Inr u, e2)"
    and r1: "r1 = r\<lparr>rw_sess := (rw_sess r)\<lparr>US_WriteHead := head, US_NextName := nxt,
        US_SpooledNames := filter (\<lambda>n. n \<noteq> name) (US_SpooledNames (rw_sess r))\<rparr>\<rparr>"
    and laws: "part_laws (ue_parts E) view" "posix (ue_driver E) view"
    and row: "ReadUploadSession (US_ID (rw_sess r)) (en_db e) = Inr (rw_sess r)"
    and part: "partPathOf T r = Inr part" "view (en_fs e) (SR_ID root) (sf_comps part) = Some (Leaf c)"
    and write_head: "US_WriteHead (rw_sess r) = int (length c)" and held: "spool_holds T view root r f e"
    and name: "name \<in> set (US_SpooledNames (rw_sess r))" and small: "length c + length (f name) < 2 ^ 63"
  shows "ReadUploadSession (US_ID (rw_sess r)) (en_db e2) = Inr (rw_sess r1)" "partPathOf T r1 = Inr part"
    "view (en_fs e2) (SR_ID root) (sf_comps part) = Some (Leaf (c @ f name))" "head = int (length (c @ f name))"
    "spool_holds T view root r1 f e2"
proof -
  obtain cfile where cfile: "chunk_file T r name = Inr cfile" "view (en_fs e) (SR_ID root) (sf_comps cfile) = Some (Leaf (f name))"
    using held name by (auto simp: spool_holds_def)
  note m = mergeChunk_effect [OF run laws cfile part write_head small]
  have cols: "fixed_columns (rw_sess r1) (rw_sess r)" by (simp add: r1 fixed_columns_def with_names_def)
  have sid: "US_ID (rw_sess r1) = US_ID (rw_sess r)" by (simp add: r1)
  note sv = save_effect [OF save cols, unfolded sid, OF row [folded m(2)]]
  show "ReadUploadSession (US_ID (rw_sess r)) (en_db e2) = Inr (rw_sess r1)" using sv(3) by simp
  show p1: "partPathOf T r1 = Inr part" using part(1) chunk_file_row(2) [of r1 r T] by (simp add: r1)
  show "view (en_fs e2) (SR_ID root) (sf_comps part) = Some (Leaf (c @ f name))" "head = int (length (c @ f name))"
    using m sv(1) by auto
  show "spool_holds T view root r1 f e2"
    unfolding spool_holds_def
  proof
    fix n assume "n \<in> set (US_SpooledNames (rw_sess r1))"
    then have n: "n \<in> set (US_SpooledNames (rw_sess r))" "n \<noteq> name" by (auto simp: r1)
    then obtain cfile' where f': "chunk_file T r n = Inr cfile'" "view (en_fs e) (SR_ID root) (sf_comps cfile') = Some (Leaf (f n))"
      using held by (auto simp: spool_holds_def)
    have "sf_comps cfile' \<noteq> sf_comps part" "sf_comps cfile' \<noteq> sf_comps cfile"
      using chunk_files_apart(1) [OF f'(1) part(1)] chunk_files_apart(2) [OF cfile(1) f'(1) n(2)] by auto
    then have "view (en_fs e2) (SR_ID root) (sf_comps cfile') = Some (Leaf (f n))" using m(4) sv(1) f'(2) by simp
    moreover have "chunk_file T r1 n = Inr cfile'" using f'(1) chunk_file_row(1) [of r1 r T n] by (simp add: r1)
    ultimately show "\<exists>cfile. chunk_file T r1 n = Inr cfile \<and> view (en_fs e2) (SR_ID root) (sf_comps cfile) = Some (Leaf (f n))" by blast
  qed
qed

lemma Narrow_u32_range: "Narrow (Unsigned 32) (Signed 64) v = Some n \<Longrightarrow> n = v \<and> 0 \<le> v \<and> v < 2 ^ 32"
  by (auto simp: Narrow_def Let_def convert_def split: if_splits)

lemma drain_drained:
  assumes "drainSpool T E root strict r e = (Inr r', e')"
    and "part_laws (ue_parts E) view" "posix (ue_driver E) view"
    and "ReadUploadSession (US_ID (rw_sess r)) (en_db e) = Inr (rw_sess r)"
    and "partPathOf T r = Inr part" "view (en_fs e) (SR_ID root) (sf_comps part) = Some (Leaf c)"
    and "US_WriteHead (rw_sess r) = int (length c)" and "spool_holds T view root r f e"
    and "length c + (\<Sum>n\<in>set (US_SpooledNames (rw_sess r)). length (f n)) < 2 ^ 63"
  shows "(\<exists>k. drained view root part f c strict (rw_sess r) (rw_sess r') e' k) \<and>
    ReadUploadSession (US_ID (rw_sess r)) (en_db e') = Inr (rw_sess r') \<and> spool_holds T view root r' f e'"
  using assms
proof (induction T E root strict r e arbitrary: c rule: drainSpool.induct)
  case (1 T E root strict r e)
  note run = 1(2) and laws = 1(3,4) and row = 1(5) and part = 1(6,7) and write_head = 1(8) and held = 1(9) and small = 1(10)
  define s where "s = rw_sess r"
  show ?case
  proof (cases "US_SpooledNames s = [] \<or> (\<forall>n. Narrow (Unsigned 32) (Signed 64) (US_NextName s) = Some n \<longrightarrow> word_of_int n \<notin> set (US_SpooledNames s))")
    case True
    then have "r' = r \<and> e' = e \<and> (US_SpooledNames s = [] \<or> \<not> strict \<and> word_of_int (US_NextName s) \<notin> set (US_SpooledNames s))"
      using run by (auto simp: drainSpool.simps [of T E root strict r e] s_def Let_def dest: Narrow_u32_range split: if_split_asm option.split_asm)
    then show ?thesis using part write_head row held by (auto simp: drained_def s_def intro!: exI [of _ 0])
  next
    case False
    then obtain n where nar: "Narrow (Unsigned 32) (Signed 64) (US_NextName s) = Some n" and ne: "US_SpooledNames s \<noteq> []"
      and mem: "word_of_int n \<in> set (US_SpooledNames s)" by auto
    have n: "n = US_NextName s" "0 \<le> n" "n < 2 ^ 32" using Narrow_u32_range [OF nar] by auto
    have nxt: "wrap_i64 (US_NextName s + 1) = US_NextName s + 1" using n by (simp add: wrap_i64_id in_i64_def max_i64_def min_i64_def)
    obtain mres e1 where m: "mergeChunk T E root r (word_of_int n) e = (mres, e1)" by (metis surj_pair)
    obtain head where mres: "mres = Inr head"
      using run nar ne mem m by (cases mres) (auto simp: drainSpool.simps [of T E root strict r e] s_def Let_def)
    define r1 where "r1 = r\<lparr>rw_sess := s\<lparr>US_WriteHead := head, US_NextName := wrap_i64 (US_NextName s + 1),
        US_SpooledNames := filter (\<lambda>m. m \<noteq> word_of_int n) (US_SpooledNames s)\<rparr>\<rparr>"
    obtain sres e2 where sv: "save r1 e1 = (sres, e2)" by (metis surj_pair)
    obtain u where sres: "sres = Inr u" and rest: "drainSpool T E root strict r1 e2 = (Inr r', e')"
      using run nar ne mem m mres sv unfolding r1_def s_def by (cases sres) (auto simp: drainSpool.simps [of T E root strict r e] Let_def)
    have total: "(\<Sum>n\<in>set (US_SpooledNames s). length (f n)) =
        length (f (word_of_int n)) + (\<Sum>n\<in>set (US_SpooledNames (rw_sess r1)). length (f n))"
      using mem by (subst sum.remove [of _ "word_of_int n"]) (auto simp: r1_def intro!: sum.cong)
    have small1: "length c + length (f (word_of_int n)) < 2 ^ 63" using small total by (simp add: s_def)
    note st = drain_step [OF m [unfolded mres] sv [unfolded sres] r1_def [unfolded s_def] laws row part write_head held mem [unfolded s_def] small1]
    have ih: "(\<exists>k. drained view root part f (c @ f (word_of_int n)) strict (rw_sess r1) (rw_sess r') e' k) \<and>
        ReadUploadSession (US_ID (rw_sess r1)) (en_db e') = Inr (rw_sess r') \<and> spool_holds T view root r' f e'"
      by (rule 1(1) [OF s_def _ nar _ m [symmetric] mres r1_def sv [symmetric] sres])
        (use ne mem rest laws st small total in \<open>auto simp: r1_def s_def\<close>)
    then obtain k where k: "drained view root part f (c @ f (word_of_int n)) strict (rw_sess r1) (rw_sess r') e' k" by blast
    have "drained view root part f c strict s (rw_sess r') e' (Suc k)"
      using k mem by (auto simp: drained_def names_from_Suc r1_def nxt n(1))
    then show ?thesis using ih by (auto simp: r1_def s_def)
  qed
qed

text \<open>
  C14. Chunks are assembled in the order of their names. Draining the spool appends to the part file
  the held chunks from the next name on, one after the other and without a gap, up to the first
  name that is not held, and nothing else; the write head, the next name and the held names of the
  stored row say exactly that, every chunk behind the gap is still in its file, and a strict drain
  succeeds only when nothing is left.
\<close>

theorem drain_in_order:
  assumes "upload_modules E view ok den" and "drainSpool T E root strict r e = (Inr r', e')"
    and "ReadUploadSession (US_ID (rw_sess r)) (en_db e) = Inr (rw_sess r)"
    and "partPathOf T r = Inr part" and "view (en_fs e) (SR_ID root) (sf_comps part) = Some (Leaf c)"
    and "US_WriteHead (rw_sess r) = int (length c)" and "spool_holds T view root r f e"
    and "length c + (\<Sum>n\<in>set (US_SpooledNames (rw_sess r)). length (f n)) < 2 ^ 63"
  shows "\<exists>k. let taken = names_from (US_NextName (rw_sess r)) k; text = c @ concat (map f taken) in
    view (en_fs e') (SR_ID root) (sf_comps part) = Some (Leaf text) \<and>
    US_WriteHead (rw_sess r') = int (length text) \<and> US_NextName (rw_sess r') = US_NextName (rw_sess r) + int k \<and>
    set taken \<subseteq> set (US_SpooledNames (rw_sess r)) \<and>
    US_SpooledNames (rw_sess r') = filter (\<lambda>n. n \<notin> set taken) (US_SpooledNames (rw_sess r)) \<and>
    (US_SpooledNames (rw_sess r') = [] \<or> \<not> strict \<and> word_of_int (US_NextName (rw_sess r')) \<notin> set (US_SpooledNames (rw_sess r'))) \<and>
    ReadUploadSession (US_ID (rw_sess r)) (en_db e') = Inr (rw_sess r') \<and> spool_holds T view root r' f e'"
proof -
  have "part_laws (ue_parts E) view" "posix (ue_driver E) view" using assms(1) by (simp_all add: upload_modules_def)
  from drain_drained [OF assms(2) this assms(3-8)] show ?thesis by (auto simp: drained_def Let_def)
qed

section \<open>Assembling what is there\<close>

lemma agrees_self: "D \<subseteq> {0..<int (length c)} \<Longrightarrow> agrees c c D"
  by (fastforce simp: agrees_def nat_less_iff)

lemma assemble_steps:
  assumes "assemble T E now r sid wanted mtime e = (Inr entry, e')"
  obtains rw len n rw1 u e1 rw2 e2 e3 where "load E sid e = Inr rw" "assemble_total T E (r_root r) rw wanted e = Inr len"
    "Narrow (Signed 64) (Unsigned 64) len = Some n"
    "rw1 = \<lparr>rw_sess = (rw_sess rw)\<lparr>US_TotalLen := Some n, US_MtimeNs := (if mtime = None then US_MtimeNs (rw_sess rw) else mtime)\<rparr>,
       rw_set = iv_Full (ue_sets E) len\<rparr>"
    "save rw1 e = (Inr u, e1)" "commitRange E now rw1 e1 = (Inr rw2, e2)" "finalize T E now r sid e2 = (Inr entry, e3)"
    "e' = (case spoolDirOf T rw2 of Inl _ \<Rightarrow> e3 | Inr dir \<Rightarrow> set_fs (snd (drv_Rmdir (ue_driver E) (r_root r) dir (en_fs e3))) e3)"
proof -
  obtain rw where 1: "load E sid e = Inr rw" "requireOwner rw (r_user r) = None" "requireReceiving now rw = None"
    "US_Mode (rw_sess rw) = SpoolNameOrdered" "Require r (Write OR Create) = None"
    using assms by (auto simp: assemble_def split: sum.split_asm option.split_asm if_split_asm)
  obtain len n where 2: "assemble_total T E (r_root r) rw wanted e = Inr len" "Narrow (Signed 64) (Unsigned 64) len = Some n"
    using assms 1 by (auto simp: assemble_def split: sum.split_asm option.split_asm)
  define rw1 where "rw1 = \<lparr>rw_sess = (rw_sess rw)\<lparr>US_TotalLen := Some n, US_MtimeNs := (if mtime = None then US_MtimeNs (rw_sess rw) else mtime)\<rparr>,
       rw_set = iv_Full (ue_sets E) len\<rparr>"
  have run: "(case save rw1 e of (Inl x, e1) \<Rightarrow> (Inl x, e1)
    | (Inr _, e1) \<Rightarrow> (case commitRange E now rw1 e1 of (Inl x, e2) \<Rightarrow> (Inl x, e2)
    | (Inr rw2, e2) \<Rightarrow> (case finalize T E now r sid e2 of (Inl x, e3) \<Rightarrow> (Inl x, e3)
    | (Inr entry, e3) \<Rightarrow> (Inr entry, case spoolDirOf T rw2 of Inl _ \<Rightarrow> e3
        | Inr dir \<Rightarrow> set_fs (snd (drv_Rmdir (ue_driver E) (r_root r) dir (en_fs e3))) e3)))) = (Inr entry, e')"
    using assms by (simp only: assemble_def Let_def 1 2 rw1_def sum.case option.case if_True if_False simp_thms)
  obtain u e1 where 3: "save rw1 e = (Inr u, e1)" using run by (cases "save rw1 e"; cases "fst (save rw1 e)") auto
  obtain rw2 e2 where 4: "commitRange E now rw1 e1 = (Inr rw2, e2)"
    using run 3 by (cases "commitRange E now rw1 e1"; cases "fst (commitRange E now rw1 e1)") auto
  obtain entry' e3 where 5: "finalize T E now r sid e2 = (Inr entry', e3)"
    using run 3 4 by (cases "finalize T E now r sid e2"; cases "fst (finalize T E now r sid e2)") auto
  show thesis by (rule that [OF 1(1) 2 rw1_def 3 4]) (use run 3 4 5 in auto)
qed

lemma rmdir_leaf:
  assumes "posix (ue_driver E) view" and "view (en_fs e) share q = Some (Leaf c)"
  shows "view (snd (drv_Rmdir (ue_driver E) root dir (en_fs e))) share q = Some (Leaf c)"
proof -
  obtain x fs where r: "drv_Rmdir (ue_driver E) root dir (en_fs e) = (x, fs)" by (metis surj_pair)
  have "posix_remove (ue_driver E) view" using assms(1) by (simp add: posix_def)
  from drv_Rmdir_law [OF this r] show ?thesis using assms(2) r by (cases x) (auto simp: put_def)
qed

lemma assemble_receives:
  assumes sv: "save rw1 e = (Inr u, e1)" and cr: "commitRange E now rw1 e1 = (Inr rw2, e2)"
    and rw1: "rw1 = \<lparr>rw_sess = s\<lparr>US_TotalLen := Some (int (length c)), US_MtimeNs := mt\<rparr>, rw_set = iv_Full (ue_sets E) (int (length c))\<rparr>"
    and row: "ReadUploadSession sid (en_db e) = Inr s" "row_part T s = Inr part" "ReadUploadIntervals sid (en_db e) = Inr []"
    and part: "view (en_fs e) share (sf_comps part) = Some (Leaf c)" and small: "length c < 2 ^ 63"
    and iv: "intervals_ok (ue_sets E) ok den"
  shows "receives T view c sid share part e2" "en_fs e2 = en_fs e"
proof -
  have sid: "US_ID s = sid" by (rule Read_ID [OF row(1)])
  have cols: "fixed_columns (rw_sess rw1) s" and id1: "US_ID (rw_sess rw1) = sid" by (simp_all add: rw1 fixed_columns_def with_names_def sid)
  note v = save_effect [OF sv cols, unfolded id1, OF row(1)]
  have full: "ok (rw_set rw1)" "den (rw_set rw1) = {0..<int (length c)}"
    using intervals_laws(5) [OF iv, of "int (length c)"] small by (auto simp: rw1 in_u64_def)
  have row1: "ReadUploadSession (US_ID (rw_sess rw1)) (en_db e1) = Inr (rw_sess rw1)" "ReadUploadIntervals (US_ID (rw_sess rw1)) (en_db e1) = Inr []"
    using v(3) row(3) same_intervals_read [OF v(2)] by (simp_all add: id1)
  obtain ex rs where e2: "en_fs e2 = en_fs e1" "ReadUploadSession sid (en_db e2) = Inr ((rw_sess rw1)\<lparr>US_ExpiresNs := ex\<rparr>)"
    "ReadUploadIntervals sid (en_db e2) = Inr rs" "run_set rs = run_set [] \<or> run_set rs = den (rw_set rw1)"
    using commitRange_effect [OF cr iv full(1) row1] by (metis id1)
  show fs: "en_fs e2 = en_fs e" using e2(1) v(1) by simp
  have "agrees c c (run_set rs)" using e2(4) full(2) by (intro agrees_self) auto
  moreover have "row_part T ((rw_sess rw1)\<lparr>US_ExpiresNs := ex\<rparr>) = Inr part"
    using row(2) by (simp add: rw1 row_part_def partPathOf_def row_dest_def)
  ultimately show "receives T view c sid share part e2" using e2 fs part by (auto simp: receives_def rw1)
qed

text \<open>
  C15. Assembling a session that declared no length publishes exactly the bytes assembled so far.
  Chunks that still wait in the spool behind a gap are neither merged nor reported missing: the
  truncated file is published as if it were whole, whatever names \<open>US_SpooledNames\<close> still lists.
\<close>

theorem assemble_drops_held_chunks:
  assumes "upload_modules E view ok den" and "ReadUploadSession sid (en_db e) = Inr s" and "US_TotalLen s = None"
    and "row_part T s = Inr part" and "ReadUploadIntervals sid (en_db e) = Inr []"
    and "view (en_fs e) (SR_ID (r_root r)) (sf_comps part) = Some (Leaf c)"
    and "US_WriteHead s = int (length c)" and "length c < 2 ^ 63"
    and "Assemble T E now r sid 0 mtime e = (Inr entry, e')"
  shows "view (en_fs e') (SR_ID (r_root r)) (sf_comps (r_path r)) = Some (Leaf c)"
proof -
  have laws: "part_laws (ue_parts E) view" "posix (ue_driver E) view" "intervals_ok (ue_sets E) ok den" "transitions_ok (ue_lib E)"
    using assms(1) by (simp_all add: upload_modules_def)
  obtain e0 e4 where w: "en_world e0 = en_world e" "en_world e' = en_world e4" and run: "assemble T E now r sid 0 mtime e0 = (Inr entry, e4)"
    using assms(9) by (auto simp: Assemble_def split: option.split_asm prod.split_asm dest: closeWriterGate_world)
  obtain rw len n rw1 u e1 rw2 e2 e3 where load: "load E sid e0 = Inr rw" and len: "assemble_total T E (r_root r) rw 0 e0 = Inr len"
    and n: "Narrow (Signed 64) (Unsigned 64) len = Some n"
    and rw1: "rw1 = \<lparr>rw_sess = (rw_sess rw)\<lparr>US_TotalLen := Some n, US_MtimeNs := (if mtime = None then US_MtimeNs (rw_sess rw) else mtime)\<rparr>,
       rw_set = iv_Full (ue_sets E) len\<rparr>"
    and sv: "save rw1 e0 = (Inr u, e1)" and cr: "commitRange E now rw1 e1 = (Inr rw2, e2)" and fin: "finalize T E now r sid e2 = (Inr entry, e3)"
    and e4: "e4 = (case spoolDirOf T rw2 of Inl _ \<Rightarrow> e3 | Inr dir \<Rightarrow> set_fs (snd (drv_Rmdir (ue_driver E) (r_root r) dir (en_fs e3))) e3)"
    by (rule assemble_steps [OF run])
  have s: "rw_sess rw = s" using load_Inr [OF load] assms(2) w by auto
  have "len = int (length c)" using len assms(3,7,8)
    by (auto simp: assemble_total_def row_totalLen_def s Narrow_u64 max_i64_def split: if_split_asm)
  moreover from this have "n = int (length c)" using n assms(8) by (auto simp: Narrow_i64 in_u64_def max_i64_def split: if_split_asm)
  ultimately have rec: "receives T view c sid (SR_ID (r_root r)) part e2" "en_fs e2 = en_fs e0"
    using assemble_receives [OF sv cr, where s = s and c = c and mt = "if mtime = None then US_MtimeNs s else mtime" and sid = sid and T = T and part = part and view = view
      and share = "SR_ID (r_root r)" and ok = ok and den = den]
      rw1 s assms(2,4-6,8) laws(3) w by auto
  from finalize_delivers [OF fin rec(1) laws(2,1,3,4) assms(8)]
  have "view (en_fs e3) (SR_ID (r_root r)) (sf_comps (r_path r)) = Some (Leaf c)" by simp
  then show ?thesis using e4 w rmdir_leaf [OF laws(2)] by (auto split: sum.splits)
qed

section \<open>A spooled upload\<close>

text \<open>The session of \<open>demo_session_row\<close> in the name-ordered mode: two chunks wait for their turn, a third behind a gap.\<close>

definition named_row :: "int \<Rightarrow> int \<Rightarrow> 32 word list \<Rightarrow> upload_session" where
  "named_row nxt head names = with_names names ((demo_session_row 100)\<lparr>US_Mode := SpoolNameOrdered, US_TotalLen := None,
     US_SpoolDir := ''.scpart-s.d'', US_NextName := nxt, US_WriteHead := head\<rparr>)"

definition named_engine :: "upload_session \<Rightarrow> mem_fs \<Rightarrow> mem_fs engine" where
  "named_engine s fs = set_fs (fs @ demo_files)
     (set_db (demo_ledger\<lparr>session_rows := [with_names (concat (map be_PutUint32 (US_SpooledNames s))) s]\<rparr>) demo_engine)"

definition waiting :: "32 word \<Rightarrow> string" where
  "waiting n = (if n = 2 then ''lo'' else if n = 3 then ''!'' else ''?'')"

definition spooled_fs :: mem_fs where
  "spooled_fs = ((3, [''a'', ''.scpart-s'']), Leaf ''hel'') # ((3, [''a'', ''.scpart-s.d'']), Folder) #
     map (\<lambda>n. ((3, [''a'', ''.scpart-s.d'', chunkFileName n]), Leaf (waiting n))) [3, 2, 5]"

definition named_start :: "(int \<times> int) list up_row" where
  "named_start = \<lparr>rw_sess = named_row 2 3 [3, 2, 5], rw_set = []\<rparr>"

definition demo_drain :: "(upload_error, (int \<times> int) list up_row) result \<times> mem_fs engine" where
  "demo_drain = drainSpool latin1_library demo_upload demo_root False named_start (named_engine (named_row 2 3 [3, 2, 5]) spooled_fs)"

lemma demo_drain_ok: "map_sum (\<lambda>_. ()) (\<lambda>r. US_NextName (rw_sess r)) (fst demo_drain) = Inr 4"
  by code_simp

lemma demo_part_path: "partPathOf latin1_library named_start = Inr demo_part"
  by code_simp

lemma demo_chunk_file: "n \<in> {2, 3, 5} \<Longrightarrow> chunk_file latin1_library named_start n = Inr (SafePath [''a'', ''.scpart-s.d'', chunkFileName n])"
proof -
  have "list_all (\<lambda>n. chunk_file latin1_library named_start n = Inr (SafePath [''a'', ''.scpart-s.d'', chunkFileName n])) [2, 3, 5]" by code_simp
  then show "n \<in> {2, 3, 5} \<Longrightarrow> ?thesis" by auto
qed

lemma named_read: "ReadUploadSession ''s'' (en_db (named_engine (named_row 2 3 [3, 2, 5]) fs)) = Inr (named_row 2 3 [3, 2, 5])"
proof -
  have "decodeSpooledNames (concat (map be_PutUint32 [3, 2, 5])) = Inr [3, 2, 5]" by code_simp
  then show ?thesis
    by (simp add: ReadUploadSession_def sqlReadUploadSession_def scanUploadSession_def named_engine_def named_row_def with_names_def
        demo_session_row_def)
qed

lemma demo_spool: "spool_holds latin1_library mem_view demo_root named_start waiting (named_engine (named_row 2 3 [3, 2, 5]) spooled_fs)"
proof -
  let ?e = "named_engine (named_row 2 3 [3, 2, 5]) spooled_fs"
  have names: "US_SpooledNames (rw_sess named_start) = [3, 2, 5]"
    by (simp add: named_start_def named_row_def with_names_def demo_session_row_def)
  show ?thesis
    unfolding spool_holds_def names
  proof
    fix n :: "32 word" assume "n \<in> set [3, 2, 5]"
    moreover have "list_all (\<lambda>n. mem_view (en_fs ?e) (SR_ID demo_root) [''a'', ''.scpart-s.d'', chunkFileName n] = Some (Leaf (waiting n))) [3, 2, 5]"
      by code_simp
    ultimately have "mem_view (en_fs ?e) (SR_ID demo_root) (sf_comps (SafePath [''a'', ''.scpart-s.d'', chunkFileName n])) = Some (Leaf (waiting n))"
      by (simp add: list_all_iff del: list.set)
    moreover have "n \<in> {2, 3, 5}" using \<open>n \<in> set [3, 2, 5]\<close> by auto
    ultimately show "\<exists>cfile. chunk_file latin1_library named_start n = Inr cfile \<and>
        mem_view (en_fs ?e) (SR_ID demo_root) (sf_comps cfile) = Some (Leaf (waiting n))"
      using demo_chunk_file by blast
  qed
qed

theorem drain_in_order_witness:
  "\<exists>r' e'. drainSpool latin1_library demo_upload demo_root False named_start (named_engine (named_row 2 3 [3, 2, 5]) spooled_fs) = (Inr r', e') \<and>
     mem_view (en_fs e') 3 [''a'', ''.scpart-s''] = Some (Leaf ''hello!'') \<and> US_WriteHead (rw_sess r') = 6 \<and>
     US_SpooledNames (rw_sess r') = [5]"
proof -
  let ?e = "named_engine (named_row 2 3 [3, 2, 5]) spooled_fs"
  obtain res e' where run: "demo_drain = (res, e')" by (metis surj_pair)
  obtain r' where res: "res = Inr r'" and nxt: "US_NextName (rw_sess r') = 4" using demo_drain_ok [unfolded run] by (cases res) auto
  note drain = run [unfolded res demo_drain_def]
  have start: "rw_sess named_start = named_row 2 3 [3, 2, 5]" and sid: "US_ID (named_row 2 3 [3, 2, 5]) = ''s''"
    and cols: "US_WriteHead (named_row 2 3 [3, 2, 5]) = 3" "US_NextName (named_row 2 3 [3, 2, 5]) = 2"
      "US_SpooledNames (named_row 2 3 [3, 2, 5]) = [3, 2, 5]"
    by (simp_all add: named_start_def named_row_def with_names_def demo_session_row_def)
  have part: "mem_view (en_fs ?e) (SR_ID demo_root) (sf_comps demo_part) = Some (Leaf ''hel'')" by code_simp
  have lens: "length ''hel'' + (\<Sum>n\<in>set (US_SpooledNames (rw_sess named_start)). length (waiting n)) < 2 ^ 63"
    by (simp add: start cols waiting_def)
  obtain k where "US_NextName (rw_sess r') = 2 + int k"
    and k: "mem_view (en_fs e') (SR_ID demo_root) (sf_comps demo_part) = Some (Leaf (''hel'' @ concat (map waiting (names_from 2 k))))"
      "US_WriteHead (rw_sess r') = int (length (''hel'' @ concat (map waiting (names_from 2 k))))"
      "US_SpooledNames (rw_sess r') = filter (\<lambda>n. n \<notin> set (names_from 2 k)) [3, 2, 5]"
    using drain_in_order [OF mem_up.upload_modules_axioms drain _ demo_part_path part _ demo_spool lens] named_read
    by (auto simp: start sid cols Let_def)
  moreover from this have "k = 2" using nxt by simp
  moreover have "names_from 2 2 = [2, 3]" by (simp add: names_from_def upt_rec)
  ultimately show ?thesis using drain by (auto simp: waiting_def demo_part_def demo_root_def)
qed

definition demo_assembled :: "(upload_error, entry) result \<times> mem_fs engine" where
  "demo_assembled = Assemble latin1_library demo_upload 103 demo_target ''s'' 0 None (named_engine (named_row 2 3 [3, 2, 5]) spooled_fs)"

lemma demo_assembled_ok: "\<not> isl (fst demo_assembled)"
  by code_simp

theorem assemble_drops_held_chunks_witness:
  "\<exists>entry e'. Assemble latin1_library demo_upload 103 demo_target ''s'' 0 None (named_engine (named_row 2 3 [3, 2, 5]) spooled_fs) = (Inr entry, e') \<and>
     US_SpooledNames (named_row 2 3 [3, 2, 5]) = [3, 2, 5] \<and> mem_view (en_fs e') 3 [''a'', ''f''] = Some (Leaf ''hel'')"
proof -
  let ?s = "named_row 2 3 [3, 2, 5]" and ?e = "named_engine (named_row 2 3 [3, 2, 5]) spooled_fs"
  obtain res e' where run: "demo_assembled = (res, e')" by (metis surj_pair)
  obtain entry where res: "res = Inr entry" using demo_assembled_ok [unfolded run] by (cases res) auto
  note asm = run [unfolded res demo_assembled_def]
  have cols: "US_WriteHead ?s = 3" "US_TotalLen ?s = None" "US_SpooledNames ?s = [3, 2, 5]"
    by (simp_all add: named_row_def with_names_def demo_session_row_def)
  have row: "row_part latin1_library ?s = Inr demo_part" by code_simp
  have rest: "ReadUploadIntervals ''s'' (en_db ?e) = Inr []" by code_simp
  have part: "mem_view (en_fs ?e) (SR_ID (r_root demo_target)) (sf_comps demo_part) = Some (Leaf ''hel'')" by code_simp
  from assemble_drops_held_chunks [OF mem_up.upload_modules_axioms named_read cols(2) row rest part _ _ asm]
  show ?thesis using asm by (auto simp: cols demo_root_def)
qed

end
