(* ===== verification/Spec2Isabelle.thy ===== *)
theory Spec2Isabelle
  imports Sc_AclCache Sc_Recent Sc_DavHandler Sc_UploadSweep Sc_UploadNamed
begin

text \<open>
  Stowcloud: a verification library of the Go backend under \<open>src/backend/internal\<close>.

  \<^bold>\<open>The program.\<close>  Stowcloud serves shares (directory trees of some storage) to accounts.  A
  request names a resource by a client path.  The domain core (\<open>files\<close>) turns the path into a
  share, a path inside the share and the permissions of the account there, by asking the
  permission evaluator (\<open>shares/acl\<close>), whose grants are rows of the state database
  (\<open>db/state\<close>).  Every operation on a file goes through that resolution: reading and archives
  (\<open>files/read.go\<close>), writing and renaming (\<open>files/write.go\<close>), the trash (\<open>files/trash.go\<close>),
  the listing of recent writes (\<open>files/recent.go\<close> over \<open>db/journal\<close>).  Writes charge a byte
  ledger (\<open>files/quota.go\<close>, \<open>db/state/quota.go\<close>).  Two protocol surfaces are modelled on
  top: WebDAV (\<open>dav\<close>), with its locks, \<open>If\<close> conditions and dead properties, and the resumable
  uploads (\<open>uploads\<close>), whose sessions are rows of the state database too.

  \<^bold>\<open>Theories and sources.\<close>  One theory per component; definitions carry the name of the Go
  function they translate, with a prefix where two packages use one name.

  \<^item> \<open>Sc_Prelude\<close>: results (\<open>'e + 'a\<close>, \<open>Inl\<close> the error), the integer widths, Go's
    string helpers.
  \<^item> \<open>Sc_Acl\<close>, \<open>Sc_AclCache\<close>: \<open>shares/acl\<close>.  The state is the evaluator record (grants,
    memberships, generation) and the cache table; \<open>evaluateLocked\<close>, \<open>effectiveLocked\<close>,
    \<open>Roots\<close> and the cached entry points.  The calls of concurrent requests and reloads are the
    step relation \<open>ev_step\<close>.
  \<^item> \<open>Sc_Pathnames\<close>, \<open>Sc_VfsPath\<close>: \<open>fs/pathnames\<close>, \<open>fs/vfs/path.go\<close>.
  \<^item> \<open>Sc_Ident\<close>, \<open>Sc_Base64\<close>, \<open>Sc_Range\<close>: \<open>db/ident\<close> and \<open>platform/number\<close>, the base64
    alphabet of the trash names, \<open>server/httpx/rangehdr.go\<close> with the validators it compares.
  \<^item> \<open>Sc_StateDb\<close>: the tables of \<open>db/state/sql.go\<close> that the other theories use, and a
    transaction as a function from tables to a result and tables, rolled back on an error.
  \<^item> \<open>Sc_LockTable\<close>, \<open>Sc_DavLock\<close>: \<open>db/state/davlock.go\<close>, \<open>dav/lock\<close>, \<open>dav/locks.go\<close>.
  \<^item> \<open>Sc_PropTable\<close>, \<open>Sc_Quota\<close>, \<open>Sc_Grants\<close>, \<open>Sc_UploadDb\<close>: the other modelled tables, with
    \<open>files/quota.go\<close> and the statements of the \<open>_sql.go\<close> files.
  \<^item> \<open>Sc_Core\<close>: \<open>files/core.go\<close>, \<open>registry.go\<close>, \<open>resolve.go\<close>, \<open>home.go\<close>, \<open>grants.go\<close>.
  \<^item> \<open>Sc_Storage\<close>: the storage interface \<open>vfs.Root\<close> as a record of operations on a file-system
    state (a parameter), the laws the core relies on, and \<open>mem_fs\<close>, an in-memory tree that has
    them.
  \<^item> \<open>Sc_Write\<close>, \<open>Sc_Read\<close>, \<open>Sc_Trash\<close>, \<open>Sc_Journal\<close>, \<open>Sc_Recent\<close>: the file operations.
  \<^item> \<open>Sc_DavPath\<close>, \<open>Sc_DavIf\<close>, \<open>Sc_DavXml\<close>, \<open>Sc_DavHandler\<close>: \<open>dav\<close>.
  \<^item> \<open>Sc_Upload\<close>: \<open>uploads/engine.go\<close>, \<open>session.go\<close>, \<open>spool.go\<close>, \<open>finalize.go\<close>,
    \<open>store.go\<close>, \<open>verify.go\<close> and the parts of \<open>cachelayout.go\<close>, \<open>sweep.go\<close> and \<open>settings.go\<close>
    they call.
  \<^item> \<open>Sc_UploadParts\<close>, \<open>Sc_UploadRun\<close>: what the engine's operations do to one session, and the
    step relation \<open>upload_run\<close> of a session with any number of writers between their steps.
  \<^item> \<open>Sc_UploadSweep\<close>: \<open>uploads/sweep.go\<close>.
  \<^item> \<open>Sc_UploadNamed\<close>: \<open>uploads/named.go\<close>, \<open>Assemble\<close> of \<open>finalize.go\<close>, \<open>alias.go\<close>, \<open>settings.go\<close>.

  \<^bold>\<open>What the lemmas show.\<close>

  \<^item> Authorisation.  The level walk decides a declarative deepest-rule-wins rule; cached and
    uncached decisions agree under every interleaving; folding of duplicate grants keeps every
    decision; the loaded evaluator stays in step with the stored grants; resolution is the only
    gate and hides what it refuses; walks below a directory never widen authority.
  \<^item> Names.  No accepted client path, URL segment or \<open>Destination\<close> holds a traversal, and the
    printed forms parse back.
  \<^item> Locks.  Under every history no two live locks conflict, the per-account bound holds, an
    exclusive lock lets only its holder pass, and no WebDAV write passes a lock of another
    account.
  \<^item> Content.  A streamed write is all or nothing; a drained stream delivers its range; an
    archive holds exactly the readable files; delete and restore undo each other; a \<open>GET\<close> after
    a \<open>PUT\<close> returns its bytes; a permanent delete stays within the caller's authority.
  \<^item> Uploads.  In every reachable state of a session the part file agrees with the uploaded file on
    every recorded range; a publication that succeeds delivers exactly that file, one that fails
    leaves the session as it was.  A sweep touches no session that has not expired and no name a
    client can see.  Named chunks are appended in the order of their names up to the first gap.
  \<^item> Ledgers.  Quota bookings are exact on success and void on failure; the journal refines the
    list of last writes; property updates are atomic.

  The interfaces between components are locales, each interpreted on the model's own
  definitions: \<open>memo_table\<close> (the cache behind the evaluator), \<open>lock_table\<close> (the table behind the
  lock service), \<open>quota_ledger\<close> (the ledger behind durable writes) and \<open>upload_modules\<close> (storage,
  ledger, interval sets and lifecycle behind the upload engine).  Behaviours of the code
  that break a promise are stated as theorems too; their kind is \<open>error\<close>.

  \<^bold>\<open>Bounds and termination.\<close>  Integers that the code keeps at 64 bits and computes with are
  words, or integers with the bound in the definition (\<open>Narrow\<close>); path recursion is bounded by
  the number of components, which the parsers limit.  All definitions are total: recursion over
  directory trees, retries and searches have a measure or a bound taken from the source (such as
  the number of sibling names tried), so no fuel is chosen by the model.

  \<^bold>\<open>Parameters.\<close>  Code outside the repository is an argument of the definitions that use it:
  Unicode normalisation, \<open>net/url\<close> parsing, the XML tokenizer, the storage behind \<open>vfs.Root\<close>,
  random tokens, the clock, and the interval sets, session ids, state transitions and digests of
  the transfer library.  What is needed of them are named hypotheses with concrete instances in
  the witnesses.

  \<^bold>\<open>Not modelled.\<close>  Copies and moves as background jobs (\<open>files/transfer.go\<close>, \<open>jobs\<close>:
  goroutines and timers), public links, accounts and credentials (cryptographic primitives), the
  Nextcloud surface and the other HTTP routes and renderings, previews, search, SMB publication,
  configuration, storage backends (system calls), the separate upload cache volume,
  \<open>PROPFIND\<close>, \<open>COPY\<close> and \<open>MOVE\<close>.
\<close>

end
